(* ===== verification/Smol_Prelude.thy ===== *)
theory Smol_Prelude
  imports Main "HOL-Library.Word"
begin

text \<open>
  Shared vocabulary of the development: the C integer types as words, byte buffers as byte
  lists of a fixed length, the little-endian \<open>memcpy\<close> between integers and buffers that both
  (little-endian) microcontrollers perform, sequential writes into a zeroed buffer, and the
  generic facts about them that every component uses.
\<close>

unbundle bit_operations_syntax

section \<open>Integer types and buffers\<close>

type_synonym byte = "8 word"
type_synonym u16 = "16 word"
type_synonym u32 = "32 word"
type_synonym u64 = "64 word"

named_theorems buffer_simps
  \<open>rewrite rules for lengths and contents of byte buffers\<close>

text \<open>\<open>memset (buffer, 0, n)\<close> on a whole buffer.\<close>

abbreviation zeros :: "nat \<Rightarrow> byte list" where
  "zeros n \<equiv> replicate n 0"

text \<open>\<open>memcpy (&buffer[off], src, length src)\<close>, where the copy lies inside the buffer.\<close>

definition blit :: "nat \<Rightarrow> 'a list \<Rightarrow> 'a list \<Rightarrow> 'a list" where
  "blit off src buf = take off buf @ src @ drop (off + length src) buf"

text \<open>\<open>memcpy (dst, &buffer[off], n)\<close>.\<close>

definition bslice :: "nat \<Rightarrow> nat \<Rightarrow> 'a list \<Rightarrow> 'a list" where
  "bslice off n buf = take n (drop off buf)"

lemma length_blit [buffer_simps]:
  "off + length src \<le> length buf \<Longrightarrow> length (blit off src buf) = length buf"
  by (simp add: blit_def)

lemma length_bslice [buffer_simps]:
  "off + n \<le> length buf \<Longrightarrow> length (bslice off n buf) = n"
  by (simp add: bslice_def)

lemma bslice_append_right [buffer_simps]:
  "length xs = off \<Longrightarrow> length ys = n \<Longrightarrow> bslice off n (xs @ ys @ zs) = ys"
  by (simp add: bslice_def)

lemma take_bslice: "take (k + n) buf = take k buf @ bslice k n buf"
  by (simp add: bslice_def take_add)

lemma bslice_one: "k < length buf \<Longrightarrow> bslice k (Suc 0) buf = [buf ! k]"
  by (simp add: bslice_def take_Suc hd_drop_conv_nth)

lemma blit_nth:
  "off + length src \<le> length buf \<Longrightarrow> i < length buf \<Longrightarrow>
   blit off src buf ! i =
     (if off \<le> i \<and> i < off + length src then src ! (i - off) else buf ! i)"
  by (auto simp: blit_def nth_append)

text \<open>
  A buffer that is written from front to back is a written prefix followed by the zeros the
  initial \<open>memset\<close> left: each write moves the boundary. \<open>filled pre n\<close> is kept opaque, so
  that the simplifier replays the writes of an encoder one by one.
\<close>

definition filled :: "byte list \<Rightarrow> nat \<Rightarrow> byte list" where
  "filled pre n = pre @ zeros n"

lemma filled_start: "zeros n = filled [] n"
  by (simp add: filled_def)

lemma filled_done [buffer_simps]: "filled pre 0 = pre"
  by (simp add: filled_def)

lemma length_filled [buffer_simps]: "length (filled pre n) = length pre + n"
  by (simp add: filled_def)

lemma blit_filled [buffer_simps]:
  "length pre = off \<Longrightarrow> length src \<le> n \<Longrightarrow>
   blit off src (filled pre n) = filled (pre @ src) (n - length src)"
  by (simp add: blit_def filled_def)

lemma update_filled [buffer_simps]:
  "length pre = off \<Longrightarrow> 0 < n \<Longrightarrow>
   (filled pre n)[off := v] = filled (pre @ [v]) (n - 1)"
  by (cases n) (simp_all add: filled_def list_update_append)

lemma nth_filled [buffer_simps]:
  "i < length pre \<Longrightarrow> filled pre n ! i = pre ! i"
  by (simp add: filled_def nth_append)

lemma filled_skip:
  "k \<le> n \<Longrightarrow> filled pre n = filled (pre @ zeros k) (n - k)"
  by (simp add: filled_def flip: replicate_add)

text \<open>Rules that spell out a zeroed or little-endian buffer of a numeral length.\<close>

named_theorems byte_eval \<open>evaluation of concrete byte buffers\<close>

lemma zeros_numeral [byte_eval]: "zeros (numeral k) = 0 # zeros (pred_numeral k)"
  by (simp add: numeral_eq_Suc)

section \<open>Exclusive or\<close>

lemma xor_self_left [simp]: "(x :: 'a::len word) XOR (x XOR y) = y"
  by (simp flip: xor.assoc)

lemma xor_zero_iff: "(x :: 'a::len word) XOR y = 0 \<longleftrightarrow> x = y"
proof
  assume "x XOR y = 0"
  then have "x XOR (x XOR y) = x XOR 0" by (simp only:)
  then show "x = y" by simp
qed simp

lemma xor_left_cancel [simp]: "(x :: 'a::len word) XOR y = x XOR z \<longleftrightarrow> y = z"
proof
  assume "x XOR y = x XOR z"
  then have "x XOR (x XOR y) = x XOR (x XOR z)" by (simp only:)
  then show "y = z" by simp
qed simp

lemma xor_right_cancel [simp]: "(y :: 'a::len word) XOR x = z XOR x \<longleftrightarrow> y = z"
  by (simp add: xor.commute [of _ x])

lemma xor_minus_one_iff: "(x :: 'a::len word) XOR y = - 1 \<longleftrightarrow> y = NOT x"
proof
  assume "x XOR y = - 1"
  then have "x XOR (x XOR y) = x XOR - 1" by (simp only:)
  then show "y = NOT x" by simp
qed simp

section \<open>Counting up to a bound\<close>

lemma unat_plus_one: "unat (a :: 'a::len word) < unat (b :: 'a word) \<Longrightarrow> unat (a + 1) = Suc (unat a)"
proof -
  assume "unat a < unat b"
  moreover have "unat b < 2 ^ LENGTH('a)" by (rule unsigned_less)
  ultimately have "Suc (unat a) < 2 ^ LENGTH('a)" by linarith
  then show ?thesis by (simp add: unat_word_ariths)
qed

section \<open>Little-endian integers\<close>

primrec word_of_le :: "byte list \<Rightarrow> 'a::len word" where
  "word_of_le [] = 0"
| "word_of_le (b # bs) = ucast b OR push_bit 8 (word_of_le bs)"

primrec le_of_word :: "nat \<Rightarrow> 'a::len word \<Rightarrow> byte list" where
  "le_of_word 0 w = []"
| "le_of_word (Suc n) w = ucast w # le_of_word n (drop_bit 8 w)"

lemma length_le_of_word [simp]: "length (le_of_word n w) = n"
  by (induction n arbitrary: w) simp_all

lemma le_of_word_numeral [byte_eval]:
  "le_of_word (numeral k) w = ucast w # le_of_word (pred_numeral k) (drop_bit 8 w)"
  by (simp add: numeral_eq_Suc)

lemma bit_ucast_byte [simp]:
  "bit (ucast (b :: byte) :: 'a::len word) n \<longleftrightarrow> n < LENGTH('a) \<and> bit b n"
  by (simp add: bit_simps)

lemma word_of_le_of_word:
  "word_of_le (le_of_word n (w :: 'a::len word)) = take_bit (8 * n) w"
proof (induction n arbitrary: w)
  case 0
  then show ?case by simp
next
  case (Suc n)
  show ?case
  proof (rule bit_word_eqI)
    fix i
    assume i: "i < LENGTH('a)"
    show "bit (word_of_le (le_of_word (Suc n) w) :: 'a word) i = bit (take_bit (8 * Suc n) w) i"
      using i by (auto simp: Suc bit_simps not_less dest: bit_imp_le_length)
  qed
qed

lemma word_of_le_of_word_full [simp]:
  "LENGTH('a) \<le> 8 * n \<Longrightarrow> word_of_le (le_of_word n (w :: 'a::len word)) = w"
  by (simp add: word_of_le_of_word take_bit_word_eq_self)

lemma bit_word_of_le_bound:
  "bit (word_of_le bs :: 'a::len word) i \<Longrightarrow> i < 8 * length bs"
proof (induction bs arbitrary: i)
  case Nil
  then show ?case by simp
next
  case (Cons b bs)
  from Cons.prems consider "bit b i" | "8 \<le> i" "bit (word_of_le bs :: 'a word) (i - 8)"
    by (auto simp: bit_simps)
  then show ?case
  proof cases
    case 1
    then show ?thesis by (auto dest: bit_imp_le_length)
  next
    case 2
    then show ?thesis using Cons.IH [of "i - 8"] by simp
  qed
qed

lemma le_of_word_of_le:
  "8 * length bs \<le> LENGTH('a) \<Longrightarrow>
   le_of_word (length bs) (word_of_le bs :: 'a::len word) = bs"
proof (induction bs)
  case Nil
  then show ?case by simp
next
  case (Cons b bs)
  let ?w = "word_of_le bs :: 'a word"
  have "ucast (word_of_le (b # bs) :: 'a word) = b"
    using Cons.prems by (intro bit_word_eqI) (auto simp: bit_simps)
  moreover have "drop_bit 8 (word_of_le (b # bs) :: 'a word) = ?w"
  proof (rule bit_word_eqI)
    fix i
    assume "i < LENGTH('a)"
    have "bit ?w i \<Longrightarrow> 8 + i < LENGTH('a)"
      using bit_word_of_le_bound [of bs i, where 'a = 'a] Cons.prems by simp
    then show "bit (drop_bit 8 (word_of_le (b # bs) :: 'a word)) i = bit ?w i"
      by (auto simp: bit_simps dest: bit_imp_le_length)
  qed
  ultimately show ?case
    using Cons by simp
qed

lemma word_of_le_inj:
  assumes eq: "(word_of_le bs :: 'a::len word) = word_of_le cs"
    and len: "length bs = length cs" "8 * length bs \<le> LENGTH('a)"
  shows "bs = cs"
proof -
  have "bs = le_of_word (length bs) (word_of_le bs :: 'a word)"
    by (rule le_of_word_of_le [OF len(2), symmetric])
  also have "\<dots> = le_of_word (length cs) (word_of_le cs :: 'a word)"
    by (simp only: eq len(1))
  also have "\<dots> = cs"
    by (rule le_of_word_of_le) (use len in simp)
  finally show ?thesis .
qed

end
