(* ===== verification/Id48_Codec.thy ===== *)
theory Id48_Codec
  imports Smol_Prelude
begin

text \<open>
  The text form of 48-bit identifiers, \<open>protocol/id48_codec.c\<close>: six little-endian bytes are
  printed as twelve lower-case hexadecimal digits, most significant first, and parsed back
  from either case. A \<open>char\<close> of C text is an Isabelle character; a C string is the list of
  its characters before the terminating NUL.
\<close>

abbreviation (input) SV_ID48_BYTE_SIZE :: nat where "SV_ID48_BYTE_SIZE \<equiv> 6"
abbreviation (input) SV_ID48_TEXT_SIZE :: nat where "SV_ID48_TEXT_SIZE \<equiv> 13"

section \<open>Digits\<close>

text \<open>\<open>hex_value\<close>; the characters are compared by their code.\<close>

definition hex_value :: "char \<Rightarrow> int" where
  "hex_value value =
    (let v = (of_char value :: int) in
     if 48 \<le> v \<and> v \<le> 57 then v - 48
     else if 97 \<le> v \<and> v \<le> 102 then v - 97 + 10
     else if 65 \<le> v \<and> v \<le> 70 then v - 65 + 10
     else - 1)"

definition hex_digits :: string where
  "hex_digits = ''0123456789abcdef''"

section \<open>sv_id48_format\<close>

text \<open>The loop writes the two digits of byte \<open>5 - index\<close> at \<open>2 * index\<close>.\<close>

function id48_format_loop :: "nat \<Rightarrow> byte list \<Rightarrow> string \<Rightarrow> string" where
  "id48_format_loop index le output =
    (if index < SV_ID48_BYTE_SIZE then
       (let value = le ! (SV_ID48_BYTE_SIZE - 1 - index);
            output = output[index * 2 := hex_digits ! unat (drop_bit 4 value)];
            output = output[index * 2 + 1 := hex_digits ! unat (value AND 0x0f)]
        in id48_format_loop (index + 1) le output)
     else output)"
  by pat_completeness auto
termination
  by (relation "measure (\<lambda>(index, _, _). 6 - index)") auto

declare id48_format_loop.simps [simp del]

text \<open>The 13-byte array the caller passes, whatever it holds, ends up fully written.\<close>

definition sv_id48_format :: "string \<Rightarrow> byte list \<Rightarrow> string" where
  "sv_id48_format output le =
    (id48_format_loop 0 le output)[SV_ID48_TEXT_SIZE - 1 := CHR 0x00]"

section \<open>sv_id48_parse\<close>

text \<open>
  \<open>None\<close> for the text stands for the NULL pointer. The result is the return value and the
  six-byte array, which a failing parse may leave partly written, as the code does.
\<close>

function id48_parse_loop :: "nat \<Rightarrow> byte list \<Rightarrow> string \<Rightarrow> bool \<times> byte list" where
  "id48_parse_loop index le text =
    (if index < SV_ID48_BYTE_SIZE then
       (let high = hex_value (text ! (index * 2)); low = hex_value (text ! (index * 2 + 1)) in
        if high < 0 \<or> low < 0 then (False, le)
        else id48_parse_loop (index + 1)
          (le[SV_ID48_BYTE_SIZE - 1 - index := word_of_int (push_bit 4 high OR low)]) text)
     else (True, le))"
  by pat_completeness auto
termination
  by (relation "measure (\<lambda>(index, _, _). 6 - index)") auto

declare id48_parse_loop.simps [simp del]

definition sv_id48_parse :: "byte list option \<Rightarrow> string option \<Rightarrow> bool \<times> byte list" where
  "sv_id48_parse le text =
    (case (le, text) of
       (Some le, Some text) \<Rightarrow>
         if length text \<noteq> SV_ID48_TEXT_SIZE - 1 then (False, le) else id48_parse_loop 0 le text
     | (Some le, None) \<Rightarrow> (False, le)
     | (None, _) \<Rightarrow> (False, []))"

section \<open>What the digits mean\<close>

text \<open>The lower-case form of a hexadecimal digit.\<close>

definition hex_lower :: "char \<Rightarrow> char" where
  "hex_lower c = (let v = (of_char c :: int) in
     if 65 \<le> v \<and> v \<le> 70 then char_of (v + 32) else c)"

lemma hex_value_lt: "hex_value c < 16"
  by (simp add: hex_value_def Let_def)

lemma hex_lower_digit:
  assumes "0 \<le> hex_value c"
  shows "hex_digits ! nat (hex_value c) = hex_lower c"
proof -
  define v where "v = (of_char c :: int)"
  have c: "c = char_of v" by (simp add: v_def)
  from assms have "v \<in> {48..57} \<or> v \<in> {97..102} \<or> v \<in> {65..70}"
    by (auto simp: hex_value_def v_def Let_def split: if_splits)
  then have "v \<in> set [48..57] \<or> v \<in> set [97..102] \<or> v \<in> set [65..70]"
    by (simp only: set_upto)
  moreover have "\<forall>v \<in> set [48..57]. hex_digits ! nat (hex_value (char_of (v :: int))) = hex_lower (char_of v)"
    and "\<forall>v \<in> set [97..102]. hex_digits ! nat (hex_value (char_of (v :: int))) = hex_lower (char_of v)"
    and "\<forall>v \<in> set [65..70]. hex_digits ! nat (hex_value (char_of (v :: int))) = hex_lower (char_of v)"
    by code_simp+
  ultimately show ?thesis by (auto simp only: c)
qed

lemma hex_value_digit:
  assumes "n < 16"
  shows "hex_value (hex_digits ! n) = int n"
proof -
  have "\<forall>n \<in> set [0..<16]. hex_value (hex_digits ! n) = int n"
    by code_simp
  then show ?thesis using assms by simp
qed

lemma hex_lower_digits: "n < 16 \<Longrightarrow> hex_lower (hex_digits ! n) = hex_digits ! n"
  using hex_lower_digit [of "hex_digits ! n"] by (simp add: hex_value_digit)

text \<open>A byte and its two nibbles.\<close>

lemma byte_nibbles:
  fixes b :: byte
  shows "unat (drop_bit 4 b) < 16" and "unat (b AND 0x0f) < 16"
    and "word_of_int (push_bit 4 (int (unat (drop_bit 4 b))) OR int (unat (b AND 0x0f))) = b"
proof -
  have f: "(0x0f :: byte) = mask 4" by (simp add: mask_eq_exp_minus_1)
  show "unat (drop_bit 4 b) < 16"
    using unsigned_less [of b, where 'a = nat] by (simp add: drop_bit_eq_div unat_div)
  show "unat (b AND 0x0f) < 16"
    unfolding f take_bit_eq_mask [symmetric] by (simp add: take_bit_eq_mod unat_mod)
  show "word_of_int (push_bit 4 (int (unat (drop_bit 4 b))) OR int (unat (b AND 0x0f))) = b"
    unfolding f take_bit_eq_mask [symmetric]
    by (rule bit_word_eqI) (auto simp: bit_simps)
qed

lemma bit_nibble: "0 \<le> (n :: int) \<Longrightarrow> n < 16 \<Longrightarrow> bit n i \<Longrightarrow> i < 4"
proof -
  assume "0 \<le> n" "n < 16" "bit n i"
  then have "bit (take_bit 4 n) i" by (simp add: take_bit_int_eq_self)
  then show "i < 4" by (simp add: bit_simps)
qed

lemma nibbles_byte:
  fixes high low :: int
  assumes "0 \<le> high" "high < 16" "0 \<le> low" "low < 16"
  shows "unat (drop_bit 4 (word_of_int (push_bit 4 high OR low) :: byte)) = nat high"
    and "unat ((word_of_int (push_bit 4 high OR low) :: byte) AND 0x0f) = nat low"
proof -
  let ?b = "word_of_int (push_bit 4 high OR low) :: byte"
  have f: "(0x0f :: byte) = mask 4" by (simp add: mask_eq_exp_minus_1)
  have "drop_bit 4 ?b = word_of_int high"
    using bit_nibble [OF assms(1,2)] bit_nibble [OF assms(3,4)]
    by (intro bit_word_eqI) (auto simp: bit_simps)
  moreover have "?b AND 0x0f = word_of_int low"
    unfolding f take_bit_eq_mask [symmetric] using bit_nibble [OF assms(3,4)]
    by (intro bit_word_eqI) (auto simp: bit_simps)
  moreover have "unat (word_of_int n :: byte) = nat n" if "0 \<le> n" "n < 16" for n
    using that by (simp add: unsigned_of_int take_bit_int_eq_self)
  ultimately show "unat (drop_bit 4 ?b) = nat high" and "unat (?b AND 0x0f) = nat low"
    using assms by simp_all
qed

section \<open>Closed forms of the two loops\<close>

lemma six_bytes: "length le = 6 \<Longrightarrow> \<exists>a b c d e f. le = [a, b, c, d, e, f]"
  by (auto simp: length_Suc_conv numeral_eq_Suc)

definition hex_pair :: "byte \<Rightarrow> string" where
  "hex_pair b = [hex_digits ! unat (drop_bit 4 b), hex_digits ! unat (b AND 0x0f)]"

lemma sv_id48_format_eq:
  assumes "length le = 6" and "length output = 13"
  shows "sv_id48_format output le = concat (map hex_pair (rev le)) @ [CHR 0x00]"
proof -
  obtain a b c d e f where le: "le = [a, b, c, d, e, f]"
    using six_bytes [OF assms(1)] by blast
  have "\<exists>x0 x1 x2 x3 x4 x5 x6 x7 x8 x9 x10 x11 x12.
      output = [x0, x1, x2, x3, x4, x5, x6, x7, x8, x9, x10, x11, x12]"
    using assms(2) by (auto simp: length_Suc_conv numeral_eq_Suc)
  then show ?thesis
    by (auto simp: le sv_id48_format_def id48_format_loop.simps hex_pair_def Let_def)
qed

definition hex_byte :: "char \<Rightarrow> char \<Rightarrow> byte" where
  "hex_byte h l = word_of_int (push_bit 4 (hex_value h) OR hex_value l)"

lemma sv_id48_parse_eq:
  fixes a b c d e f g h i j k l :: char
  defines "text \<equiv> [a, b, c, d, e, f, g, h, i, j, k, l]"
  assumes "length le = 6"
  shows "\<forall>x \<in> set text. 0 \<le> hex_value x \<Longrightarrow> sv_id48_parse (Some le) (Some text) =
      (True, [hex_byte k l, hex_byte i j, hex_byte g h, hex_byte e f, hex_byte c d, hex_byte a b])"
    and "\<not> (\<forall>x \<in> set text. 0 \<le> hex_value x) \<Longrightarrow>
      \<not> fst (sv_id48_parse (Some le) (Some text))"
proof -
  obtain p q r s t u where le: "le = [p, q, r, s, t, u]"
    using six_bytes [OF assms(2)] by blast
  show "\<forall>x \<in> set text. 0 \<le> hex_value x \<Longrightarrow> sv_id48_parse (Some le) (Some text) =
      (True, [hex_byte k l, hex_byte i j, hex_byte g h, hex_byte e f, hex_byte c d, hex_byte a b])"
    and "\<not> (\<forall>x \<in> set text. 0 \<le> hex_value x) \<Longrightarrow>
      \<not> fst (sv_id48_parse (Some le) (Some text))"
    by (auto simp: text_def le sv_id48_parse_def id48_parse_loop.simps Let_def hex_byte_def not_less)
qed

section \<open>The codec, on text\<close>

lemma length_hex_pairs: "length (concat (map hex_pair bs)) = 2 * length bs"
  by (induction bs) (simp_all add: hex_pair_def)

lemma hex_byte_digits:
  "hex_byte (hex_digits ! unat (drop_bit 4 b)) (hex_digits ! unat (b AND 0x0f)) = b"
  using byte_nibbles [of b] by (simp add: hex_byte_def hex_value_digit)

lemma hex_pair_byte:
  "0 \<le> hex_value h \<Longrightarrow> 0 \<le> hex_value l \<Longrightarrow> hex_pair (hex_byte h l) = [hex_lower h, hex_lower l]"
  using nibbles_byte [of "hex_value h" "hex_value l"] hex_value_lt [of h] hex_value_lt [of l]
  by (simp add: hex_pair_def hex_byte_def hex_lower_digit)

lemma id48_parse_format:
  assumes "length le = 6" and "length output = 13" and "length old = 6"
  shows "sv_id48_parse (Some old) (Some (butlast (sv_id48_format output le))) = (True, le)"
proof -
  obtain a b c d e f where le: "le = [a, b, c, d, e, f]"
    using six_bytes [OF assms(1)] by blast
  have "0 \<le> hex_value (hex_digits ! unat (drop_bit 4 x))"
    "0 \<le> hex_value (hex_digits ! unat (x AND 0x0f))" for x :: byte
    using byte_nibbles [of x] by (simp_all add: hex_value_digit)
  then show ?thesis
    using assms(1,2)
    by (simp add: sv_id48_format_eq butlast_append le hex_pair_def sv_id48_parse_eq(1) [OF assms(3)]
        hex_byte_digits)
qed

lemma id48_parse_accepts:
  assumes "length old = 6"
  shows "fst (sv_id48_parse (Some old) (Some text)) \<longleftrightarrow>
      length text = 12 \<and> (\<forall>x \<in> set text. 0 \<le> hex_value x)"
    and "fst (sv_id48_parse (Some old) (Some text)) \<Longrightarrow> length output = 13 \<Longrightarrow>
      sv_id48_format output (snd (sv_id48_parse (Some old) (Some text))) =
        map hex_lower text @ [CHR 0x00]"
proof -
  have "length text = 12 \<Longrightarrow> \<exists>a b c d e f g h i j k l. text = [a, b, c, d, e, f, g, h, i, j, k, l]"
    by (auto simp: length_Suc_conv numeral_eq_Suc)
  then consider (bad) "length text \<noteq> 12"
    | (digits) a b c d e f g h i j k l where "text = [a, b, c, d, e, f, g, h, i, j, k, l]"
    by blast
  then have both: "(fst (sv_id48_parse (Some old) (Some text)) \<longleftrightarrow>
      length text = 12 \<and> (\<forall>x \<in> set text. 0 \<le> hex_value x)) \<and>
    (fst (sv_id48_parse (Some old) (Some text)) \<longrightarrow> length output = 13 \<longrightarrow>
      sv_id48_format output (snd (sv_id48_parse (Some old) (Some text))) =
        map hex_lower text @ [CHR 0x00])"
  proof cases
    case bad
    then show ?thesis by (simp add: sv_id48_parse_def)
  next
    case digits
    show ?thesis
      using sv_id48_parse_eq(1) [OF assms, of a b c d e f g h i j k l]
        sv_id48_parse_eq(2) [OF assms, of a b c d e f g h i j k l]
      by (cases "\<forall>x \<in> set text. 0 \<le> hex_value x")
        (simp_all add: digits sv_id48_format_eq hex_pair_byte)
  qed
  then show "fst (sv_id48_parse (Some old) (Some text)) \<longleftrightarrow>
      length text = 12 \<and> (\<forall>x \<in> set text. 0 \<le> hex_value x)"
    and "fst (sv_id48_parse (Some old) (Some text)) \<Longrightarrow> length output = 13 \<Longrightarrow>
      sv_id48_format output (snd (sv_id48_parse (Some old) (Some text))) =
        map hex_lower text @ [CHR 0x00]"
    by blast+
qed

section \<open>Properties\<close>

text \<open>
  Identifiers survive their text form: the twelve digits printed for six bytes parse back
  to the same bytes, whatever the two buffers held before.
\<close>

theorem id48_text_roundtrip:
  assumes "length le = 6" and "length output = 13" and "length old = 6"
  shows "length (sv_id48_format output le) = 13 \<and>
    sv_id48_parse (Some old) (Some (butlast (sv_id48_format output le))) = (True, le)"
  using assms id48_parse_format [OF assms] by (simp add: sv_id48_format_eq length_hex_pairs)

theorem id48_text_roundtrip_witness:
  "sv_id48_parse (Some (zeros 6)) (Some ''a5046fe8a5f5'') =
    (True, [0xf5, 0xa5, 0xe8, 0x6f, 0x04, 0xa5])"
proof -
  have "sv_id48_format (replicate 13 CHR ''?'') [0xf5, 0xa5, 0xe8, 0x6f, 0x04, 0xa5] =
      ''a5046fe8a5f5'' @ [CHR 0x00]"
    by (simp add: sv_id48_format_eq hex_pair_def hex_digits_def)
  then show ?thesis
    using id48_text_roundtrip [of "[0xf5, 0xa5, 0xe8, 0x6f, 0x04, 0xa5]"
        "replicate 13 CHR ''?''" "zeros 6"] by simp
qed

text \<open>
  The parser accepts exactly the texts of twelve hexadecimal digits in either case, and
  what it accepts prints as the same text in lower case; a NULL buffer or text is refused.
\<close>

theorem id48_parse_exact:
  assumes "length old = 6" and "length output = 13"
  shows "(fst (sv_id48_parse (Some old) (Some text)) \<longleftrightarrow>
      length text = 12 \<and> (\<forall>x \<in> set text. 0 \<le> hex_value x)) \<and>
    (fst (sv_id48_parse (Some old) (Some text)) \<longrightarrow>
      sv_id48_format output (snd (sv_id48_parse (Some old) (Some text))) =
        map hex_lower text @ [CHR 0x00]) \<and>
    \<not> fst (sv_id48_parse (Some old) None) \<and> \<not> fst (sv_id48_parse None t)"
  using id48_parse_accepts [OF assms(1)] assms(2) by (simp add: sv_id48_parse_def)

theorem id48_parse_exact_witness:
  "\<not> fst (sv_id48_parse (Some (zeros 6)) (Some ''a5046fe8a5fg'')) \<and>
   fst (sv_id48_parse (Some (zeros 6)) (Some ''A5046FE8A5F5''))"
  using id48_parse_exact [of "zeros 6" "replicate 13 CHR ''?''" "''a5046fe8a5fg''"]
    id48_parse_exact [of "zeros 6" "replicate 13 CHR ''?''" "''A5046FE8A5F5''"]
  by (simp add: hex_value_def)

end
