(* ===== verification/Receiver_Platform.thy ===== *)
theory Receiver_Platform
  imports Smol_Prelude
begin

text \<open>
  What the nRF54L15 firmware calls and does not contain: Zephyr's non-volatile storage, message
  queue and work queue, Nordic's ESB radio driver, the clock control and the CRC routines. They
  are parameters: a record of functions over a state \<open>'w\<close> of the world outside the firmware.
  Nothing is assumed about them here; \<open>nvs_ok\<close> and \<open>queue_ok\<close> name the documented
  behaviour that theorems about the flash and the persistence queue take as a hypothesis.
\<close>

section \<open>Error numbers and data passed to the drivers\<close>

text \<open>The error numbers of \<open>errno.h\<close> the code tells apart. A C \<open>int\<close> result is an \<open>int\<close>.\<close>

abbreviation (input) EPERM :: int where "EPERM \<equiv> 1"
abbreviation (input) ENOENT :: int where "ENOENT \<equiv> 2"
abbreviation (input) ENXIO :: int where "ENXIO \<equiv> 6"
abbreviation (input) EAGAIN :: int where "EAGAIN \<equiv> 11"
abbreviation (input) EBUSY :: int where "EBUSY \<equiv> 16"
abbreviation (input) ENODEV :: int where "ENODEV \<equiv> 19"
abbreviation (input) EINVAL :: int where "EINVAL \<equiv> 22"
abbreviation (input) EADDRINUSE :: int where "EADDRINUSE \<equiv> 112"

text \<open>The fields of \<open>struct esb_payload\<close> the firmware reads and writes.\<close>

record esb_payload =
  ep_length :: byte
  ep_pipe :: byte
  ep_rssi :: byte
  ep_noack :: bool
  ep_data :: "byte list"

text \<open>The fields of \<open>struct esb_config\<close> the firmware sets over the default.\<close>

record esb_config =
  ec_mode_prx :: bool
  ec_tx_output_power :: int
  ec_retransmit_count :: nat
  ec_selective_auto_ack :: bool

text \<open>\<open>struct pairing_persist_record\<close> of \<open>rf_receiver.c\<close>, the element of the message queue.\<close>

record pairing_persist_record =
  pp_id :: byte
  pp_tracker_count :: byte
  pp_address :: u64
  pp_generation :: u32

section \<open>The platform\<close>

record 'w platform =
  flash_device_is_ready :: "'w \<Rightarrow> bool"
  flash_page_size :: "'w \<Rightarrow> nat option"
  nvs_mount :: "nat \<Rightarrow> nat \<Rightarrow> 'w \<Rightarrow> int \<times> 'w"
  nvs_read :: "'w \<Rightarrow> u16 \<Rightarrow> byte list \<Rightarrow> int \<times> byte list"
  nvs_write :: "u16 \<Rightarrow> byte list \<Rightarrow> 'w \<Rightarrow> int \<times> 'w"
  nvs_delete :: "u16 \<Rightarrow> 'w \<Rightarrow> int \<times> 'w"
  ficr_deviceaddr :: "u32 \<times> u32"
  hf_clock_manager :: "'w \<Rightarrow> bool"
  onoff_request :: "'w \<Rightarrow> int \<times> 'w"
  sys_notify_fetch_result :: "'w \<Rightarrow> int \<times> int \<times> 'w"
  crc32_k_4_2_update :: "u32 \<Rightarrow> byte list \<Rightarrow> u32"
  crc8_ccitt :: "byte \<Rightarrow> byte list \<Rightarrow> byte"
  esb_init :: "esb_config \<Rightarrow> 'w \<Rightarrow> int \<times> 'w"
  esb_set_base_address_0 :: "byte list \<Rightarrow> 'w \<Rightarrow> int \<times> 'w"
  esb_set_base_address_1 :: "byte list \<Rightarrow> 'w \<Rightarrow> int \<times> 'w"
  esb_set_prefixes :: "byte list \<Rightarrow> 'w \<Rightarrow> int \<times> 'w"
  esb_enable_pipes :: "byte \<Rightarrow> 'w \<Rightarrow> int \<times> 'w"
  esb_start_rx :: "'w \<Rightarrow> int \<times> 'w"
  esb_stop_rx :: "'w \<Rightarrow> 'w"
  esb_disable :: "'w \<Rightarrow> 'w"
  esb_write_payload :: "esb_payload \<Rightarrow> 'w \<Rightarrow> 'w"
  esb_read_rx_payload :: "'w \<Rightarrow> (esb_payload \<times> 'w) option"
  msgq_put :: "pairing_persist_record \<Rightarrow> 'w \<Rightarrow> int \<times> 'w"
  msgq_get :: "'w \<Rightarrow> (pairing_persist_record \<times> 'w) option"
  msgq_purge :: "'w \<Rightarrow> 'w"
  submit_persist_work :: "'w \<Rightarrow> 'w"
  reschedule_reboot :: "nat \<Rightarrow> 'w \<Rightarrow> 'w"
  k_uptime_get :: "'w \<Rightarrow> int"

section \<open>Documented behaviour\<close>

text \<open>
  The non-volatile storage as a map from ids to data, seen through \<open>view\<close>. Mounting keeps it;
  an id without an entry reads as \<open>-ENOENT\<close>; a write that does not fail is a map update, one
  that fails touches no other id; a delete that does not fail removes the entry.
\<close>

definition nvs_ok :: "'w platform \<Rightarrow> ('w \<Rightarrow> u16 \<Rightarrow> byte list option) \<Rightarrow> bool" where
  "nvs_ok p view \<longleftrightarrow>
    (\<forall>sz count w. fst (nvs_mount p sz count w) = 0 \<longrightarrow> view (snd (nvs_mount p sz count w)) = view w) \<and>
    (\<forall>w k buf. view w k = None \<longrightarrow> fst (nvs_read p w k buf) = - ENOENT) \<and>
    (\<forall>w k buf d. view w k = Some d \<longrightarrow> length d = length buf \<longrightarrow>
       nvs_read p w k buf = (int (length d), d)) \<and>
    (\<forall>w k d. 0 \<le> fst (nvs_write p k d w) \<longrightarrow> view (snd (nvs_write p k d w)) = (view w)(k \<mapsto> d)) \<and>
    (\<forall>w k d j. j \<noteq> k \<longrightarrow> view (snd (nvs_write p k d w)) j = view w j) \<and>
    (\<forall>w k. fst (nvs_delete p k w) \<in> {0, - ENOENT} \<longrightarrow>
       view (snd (nvs_delete p k w)) = (view w)(k := None)) \<and>
    (\<forall>w k j. j \<noteq> k \<longrightarrow> view (snd (nvs_delete p k w)) j = view w j)"

lemma nvs_okD:
  assumes "nvs_ok p view"
  shows nvs_mount_view: "fst (nvs_mount p sz count w) = 0 \<Longrightarrow> view (snd (nvs_mount p sz count w)) = view w"
    and nvs_read_none: "view w k = None \<Longrightarrow> fst (nvs_read p w k buf) = - ENOENT"
    and nvs_read_some: "view w k = Some d \<Longrightarrow> length d = length buf \<Longrightarrow>
      nvs_read p w k buf = (int (length d), d)"
    and nvs_write_view: "0 \<le> fst (nvs_write p k d w) \<Longrightarrow> view (snd (nvs_write p k d w)) = (view w)(k \<mapsto> d)"
    and nvs_write_other: "j \<noteq> k \<Longrightarrow> view (snd (nvs_write p k d w)) j = view w j"
    and nvs_delete_view: "fst (nvs_delete p k w) \<in> {0, - ENOENT} \<Longrightarrow>
      view (snd (nvs_delete p k w)) = (view w)(k := None)"
    and nvs_delete_other: "j \<noteq> k \<Longrightarrow> view (snd (nvs_delete p k w)) j = view w j"
  using assms unfolding nvs_ok_def by auto

text \<open>
  A platform that behaves as documented, for concrete runs: the flash is a map, the message
  queue a list of at most eight records, the radio delivers a list of packets and collects the
  replies, and the two CRCs are arbitrary fixed functions.
\<close>

record ref_world =
  rw_nvs :: "u16 \<Rightarrow> byte list option"
  rw_queue :: "pairing_persist_record list"
  rw_received :: "esb_payload list"
  rw_sent :: "esb_payload list"
  rw_reboot :: "nat option"
  rw_time :: int

definition ref_world0 :: ref_world where
  "ref_world0 = \<lparr> rw_nvs = (\<lambda>_. None), rw_queue = [], rw_received = [], rw_sent = [],
     rw_reboot = None, rw_time = 0 \<rparr>"

definition packet_buffer :: "esb_payload \<Rightarrow> esb_payload" where
  "packet_buffer m = m\<lparr> ep_data := ep_data m @ zeros (32 - length (ep_data m)) \<rparr>"

definition ref_platform :: "ref_world platform" where
  "ref_platform = \<lparr>
     flash_device_is_ready = (\<lambda>w. True),
     flash_page_size = (\<lambda>w. Some 4096),
     nvs_mount = (\<lambda>sz count w. (0, w)),
     nvs_read = (\<lambda>w k buf. case rw_nvs w k of None \<Rightarrow> (- ENOENT, buf)
        | Some d \<Rightarrow> (int (length d), take (length buf) d @ drop (length d) buf)),
     nvs_write = (\<lambda>k d w. (int (length d), w\<lparr> rw_nvs := (rw_nvs w)(k \<mapsto> d) \<rparr>)),
     nvs_delete = (\<lambda>k w. (0, w\<lparr> rw_nvs := (rw_nvs w)(k := None) \<rparr>)),
     ficr_deviceaddr = (0x33221100, 0xffff5544),
     hf_clock_manager = (\<lambda>w. True),
     onoff_request = (\<lambda>w. (0, w)),
     sys_notify_fetch_result = (\<lambda>w. (0, 0, w)),
     crc32_k_4_2_update = (\<lambda>seed data. seed),
     crc8_ccitt = (\<lambda>seed data. seed),
     esb_init = (\<lambda>c w. (0, w)),
     esb_set_base_address_0 = (\<lambda>a w. (0, w)),
     esb_set_base_address_1 = (\<lambda>a w. (0, w)),
     esb_set_prefixes = (\<lambda>a w. (0, w)),
     esb_enable_pipes = (\<lambda>a w. (0, w)),
     esb_start_rx = (\<lambda>w. (0, w)),
     esb_stop_rx = (\<lambda>w. w),
     esb_disable = (\<lambda>w. w),
     esb_write_payload = (\<lambda>m w. w\<lparr> rw_sent := rw_sent w @ [m] \<rparr>),
     esb_read_rx_payload = (\<lambda>w. case rw_received w of [] \<Rightarrow> None
        | m # ms \<Rightarrow> Some (packet_buffer m, w\<lparr> rw_received := ms \<rparr>)),
     msgq_put = (\<lambda>r w. if length (rw_queue w) < 8 then (0, w\<lparr> rw_queue := rw_queue w @ [r] \<rparr>)
        else (- 80, w)),
     msgq_get = (\<lambda>w. case rw_queue w of [] \<Rightarrow> None | r # rs \<Rightarrow> Some (r, w\<lparr> rw_queue := rs \<rparr>)),
     msgq_purge = (\<lambda>w. w\<lparr> rw_queue := [] \<rparr>),
     submit_persist_work = (\<lambda>w. w),
     reschedule_reboot = (\<lambda>ms w. w\<lparr> rw_reboot := Some ms \<rparr>),
     k_uptime_get = rw_time \<rparr>"

lemma ref_nvs_ok: "nvs_ok ref_platform rw_nvs"
  unfolding nvs_ok_def by (simp add: ref_platform_def)

end
