(* ===== verification/Fifo_Source.thy ===== *)
theory Fifo_Source
  imports Main
begin

text \<open>
  The interface a consumer sees of a queue that another task fills: \<open>receive\<close> takes the oldest
  element, or gives \<open>None\<close> when there is none. \<open>contents\<close> is the abstract queue of a state that
  satisfies \<open>invar\<close>. The loops of the consumers (three records for a report, eight reports for a
  datagram, all reports when there is no server) are stated and proved once here.
\<close>

text \<open>A loop that receives at most \<open>n\<close> elements and stops at the first refusal.\<close>

primrec receive_up_to :: "('s \<Rightarrow> ('r \<times> 's) option) \<Rightarrow> nat \<Rightarrow> 's \<Rightarrow> 'r list \<times> 's" where
  "receive_up_to receive 0 s = ([], s)"
| "receive_up_to receive (Suc n) s =
    (case receive s of
       None \<Rightarrow> ([], s)
     | Some (r, s) \<Rightarrow> (let (rs, s) = receive_up_to receive n s in (r # rs, s)))"

text \<open>A loop that receives until nothing is left, and does \<open>f\<close> each time; it may run forever.\<close>

partial_function (option) receive_all ::
    "('s \<Rightarrow> ('r \<times> 's) option) \<Rightarrow> ('r \<Rightarrow> 's \<Rightarrow> 's) \<Rightarrow> 's \<Rightarrow> 's option" where
  "receive_all receive f s =
    (case receive s of None \<Rightarrow> Some s | Some (r, s) \<Rightarrow> receive_all receive f (f r s))"

locale fifo_source =
  fixes receive :: "'s \<Rightarrow> ('r \<times> 's) option"
    and contents :: "'s \<Rightarrow> 'r list"
    and invar :: "'s \<Rightarrow> bool"
  assumes receive_empty: "invar s \<Longrightarrow> contents s = [] \<Longrightarrow> receive s = None"
    and receive_front: "invar s \<Longrightarrow> contents s = r # rs \<Longrightarrow>
      \<exists>s'. receive s = Some (r, s') \<and> contents s' = rs \<and> invar s'"
begin

text \<open>The bounded loop takes a prefix, in order.\<close>

lemma up_to_contents:
  assumes "invar s"
  shows "fst (receive_up_to receive n s) = take n (contents s) \<and>
    contents (snd (receive_up_to receive n s)) = drop n (contents s) \<and>
    invar (snd (receive_up_to receive n s))"
  using assms
proof (induction n arbitrary: s)
  case (Suc n)
  show ?case
  proof (cases "contents s")
    case Nil
    then show ?thesis using Suc.prems by (simp add: receive_empty)
  next
    case (Cons r rs)
    then obtain s' where "receive s = Some (r, s')" "contents s' = rs" "invar s'"
      using receive_front Suc.prems by blast
    then show ?thesis using Suc.IH [of s'] Cons by (simp add: split_beta)
  qed
qed simp

text \<open>
  The unbounded loop ends when the work between two receptions adds nothing, and what every round
  keeps, the loop keeps; a quantity that every round raises by one grows by the queue's length.
\<close>

lemma all_ends:
  assumes "\<And>s r s'. receive s = Some (r, s') \<Longrightarrow> invar s \<Longrightarrow> contents (f r s') = contents s'"
    and "\<And>s r s'. receive s = Some (r, s') \<Longrightarrow> invar s \<Longrightarrow> invar (f r s')"
    and "invar s"
  shows "\<exists>s'. receive_all receive f s = Some s' \<and> contents s' = [] \<and> invar s'"
  using assms(3)
proof (induction "contents s" arbitrary: s)
  case Nil
  then show ?case using receive_empty [of s] by (simp add: receive_all.simps)
next
  case (Cons r rs)
  then obtain t where t: "receive s = Some (r, t)" "contents t = rs"
    using receive_front by metis
  then obtain u where "receive_all receive f (f r t) = Some u" "contents u = []" "invar u"
    using Cons.hyps(1) [of "f r t"] assms(1,2) [OF t(1) Cons.prems] by metis
  then show ?case using t by (subst receive_all.simps) simp
qed

lemma all_induct:
  assumes "\<And>s r s'. receive s = Some (r, s') \<Longrightarrow> invar s \<Longrightarrow> contents (f r s') = contents s'"
    and "\<And>s r s'. receive s = Some (r, s') \<Longrightarrow> invar s \<Longrightarrow> invar (f r s')"
    and "invar s" and "receive_all receive f s = Some s'"
    and "\<And>s. P 0 s s" and "\<And>s r t u n. receive s = Some (r, t) \<Longrightarrow> invar s \<Longrightarrow> P n (f r t) u \<Longrightarrow> P (Suc n) s u"
  shows "P (length (contents s)) s s'"
  using assms(3,4)
proof (induction "contents s" arbitrary: s)
  case Nil
  then show ?case using receive_empty [of s] assms(5) [of s] by (simp add: receive_all.simps)
next
  case (Cons r rs)
  then obtain t where t: "receive s = Some (r, t)" "contents t = rs"
    using receive_front by metis
  have all: "receive_all receive f (f r t) = Some s'"
    using Cons.prems(2) t(1) by (subst (asm) receive_all.simps) simp
  have "contents (f r t) = rs" "invar (f r t)" using assms(1,2) [OF t(1) Cons.prems(1)] t(2) by simp_all
  then have "P (length rs) (f r t) s'" using Cons.hyps(1) [of "f r t"] all by metis
  from assms(6) [OF t(1) Cons.prems(1) this] show ?case by (simp flip: Cons.hyps(2))
qed

end

end
