(* ===== verification/Bounded_Fifo.thy ===== *)
theory Bounded_Fifo
  imports Smol_Prelude Fifo_Source
begin

text \<open>
  First-in first-out queues with a bound: the contract the consumers of the report queues
  rely on, and the arithmetic of a circular buffer, which the report builder uses to provide it.
\<close>

section \<open>The contract\<close>

text \<open>
  \<open>push\<close> adds at the back unless the queue is full, when it refuses (and may count the
  refusal, which \<open>content\<close> does not show); \<open>pop\<close> takes from the front.
\<close>

locale bounded_fifo =
  fixes push :: "'a \<Rightarrow> 's \<Rightarrow> 's"
    and pop :: "'s \<Rightarrow> ('a \<times> 's) option"
    and content :: "'s \<Rightarrow> 'a list"
    and invar :: "'s \<Rightarrow> bool"
    and elem_ok :: "'a \<Rightarrow> bool"
    and cap :: nat
  assumes content_bound: "invar s \<Longrightarrow> length (content s) \<le> cap"
    and content_ok: "invar s \<Longrightarrow> x \<in> set (content s) \<Longrightarrow> elem_ok x"
    and invar_push: "invar s \<Longrightarrow> elem_ok x \<Longrightarrow> invar (push x s)"
    and push_content: "invar s \<Longrightarrow> elem_ok x \<Longrightarrow>
      content (push x s) = (if length (content s) < cap then content s @ [x] else content s)"
    and pop_empty: "invar s \<Longrightarrow> content s = [] \<Longrightarrow> pop s = None"
    and pop_cons: "invar s \<Longrightarrow> content s = x # xs \<Longrightarrow>
      \<exists>s'. pop s = Some (x, s') \<and> content s' = xs \<and> invar s'"
begin

lemma pop_none_iff: "invar s \<Longrightarrow> pop s = None \<longleftrightarrow> content s = []"
  using pop_empty pop_cons by (cases "content s") fastforce+

lemma pop_someD:
  "invar s \<Longrightarrow> pop s = Some (x, s') \<Longrightarrow> content s = x # content s' \<and> invar s'"
  using pop_empty pop_cons by (cases "content s") fastforce+

text \<open>A run of pushes keeps what fits, in order, and drops the rest.\<close>

lemma push_run:
  assumes "invar s" and "\<forall>x \<in> set xs. elem_ok x"
  shows "invar (foldl (\<lambda>s x. push x s) s xs) \<and>
    content (foldl (\<lambda>s x. push x s) s xs) = content s @ take (cap - length (content s)) xs"
  using assms
proof (induction xs arbitrary: s)
  case Nil
  then show ?case by simp
next
  case (Cons x xs)
  have IH: "invar (foldl (\<lambda>s x. push x s) (push x s) xs) \<and>
      content (foldl (\<lambda>s x. push x s) (push x s) xs) =
        content (push x s) @ take (cap - length (content (push x s))) xs"
    using Cons by (intro Cons.IH) (auto simp: invar_push)
  show ?case
  proof (cases "length (content s) < cap")
    case True
    then obtain k where k: "cap - length (content s) = Suc k"
      by (metis Suc_diff_Suc)
    then have "cap - Suc (length (content s)) = k" by simp
    with IH True Cons.prems show ?thesis by (simp add: push_content k)
  next
    case False
    with IH Cons.prems show ?thesis by (simp add: push_content)
  qed
qed

end

text \<open>Its consumer sees a source.\<close>

sublocale bounded_fifo \<subseteq> source: fifo_source pop content invar
  by unfold_locales (use pop_empty pop_cons in blast)+

section \<open>Circular buffers\<close>

text \<open>The \<open>n\<close> elements of the buffer \<open>q\<close> from index \<open>r\<close> on, round its end.\<close>

definition ring_list :: "'a list \<Rightarrow> nat \<Rightarrow> nat \<Rightarrow> 'a list" where
  "ring_list q r n = map (\<lambda>i. q ! ((r + i) mod length q)) [0..<n]"

text \<open>How far \<open>w\<close> is ahead of \<open>r\<close>, both below the buffer size \<open>N\<close>.\<close>

definition ring_span :: "nat \<Rightarrow> nat \<Rightarrow> nat \<Rightarrow> nat" where
  "ring_span N r w = (if r \<le> w then w - r else w + N - r)"

lemma length_ring_list [simp]: "length (ring_list q r n) = n"
  by (simp add: ring_list_def)

lemma ring_list_0 [simp]: "ring_list q r 0 = []"
  by (simp add: ring_list_def)

lemma ring_list_Cons:
  assumes "r < length q"
  shows "ring_list q r (Suc n) = q ! r # ring_list q (Suc r mod length q) n"
proof -
  have "(Suc r mod length q + i) mod length q = (r + Suc i) mod length q" for i
    by (simp add: mod_add_left_eq)
  then show ?thesis
    using assms by (simp add: ring_list_def upt_conv_Cons map_Suc_upt [symmetric] comp_def del: upt_Suc)
qed

lemma ring_list_snoc: "ring_list q r (Suc n) = ring_list q r n @ [q ! ((r + n) mod length q)]"
  by (simp add: ring_list_def)

lemma ring_index_inj:
  assumes "i < N" "j < N" "(r + i) mod N = (r + j) mod N"
  shows "i = (j :: nat)"
proof -
  have ord: "b = a" if "a \<le> b" "b < N" "(r + b) mod N = (r + a) mod N" for a b :: nat
  proof -
    have "N dvd (r + b) - (r + a)"
      using that mod_eq_dvd_iff_nat [of "r + a" "r + b" N] by simp
    then show ?thesis using that by (auto dest: dvd_imp_le)
  qed
  show ?thesis
  proof (cases "i \<le> j")
    case True
    from ord [OF this assms(2) assms(3) [symmetric]] show ?thesis ..
  next
    case False
    then have "j \<le> i" by simp
    from ord [OF this assms(1) assms(3)] show ?thesis .
  qed
qed

lemma ring_span_lt: "r < N \<Longrightarrow> w < N \<Longrightarrow> ring_span N r w < N"
  by (auto simp: ring_span_def)

lemma ring_span_0: "r < N \<Longrightarrow> w < N \<Longrightarrow> ring_span N r w = 0 \<longleftrightarrow> r = w"
  by (auto simp: ring_span_def)

lemma ring_span_end: "r < N \<Longrightarrow> w < N \<Longrightarrow> (r + ring_span N r w) mod N = w"
  by (auto simp: ring_span_def mod_if)

lemma Suc_mod: "r < N \<Longrightarrow> Suc r mod N = (if Suc r = N then 0 else Suc r)"
  by auto

lemma ring_span_read:
  "r < N \<Longrightarrow> w < N \<Longrightarrow> r \<noteq> w \<Longrightarrow> ring_span N r w = Suc (ring_span N (Suc r mod N) w)"
  by (auto simp: ring_span_def Suc_mod)

lemma ring_span_write:
  "r < N \<Longrightarrow> w < N \<Longrightarrow> Suc w mod N \<noteq> r \<Longrightarrow>
   ring_span N r (Suc w mod N) = Suc (ring_span N r w)"
  by (auto simp: ring_span_def Suc_mod split: if_splits)

lemma ring_span_full:
  "r < N \<Longrightarrow> w < N \<Longrightarrow> Suc w mod N = r \<longleftrightarrow> ring_span N r w = N - 1"
  by (auto simp: ring_span_def Suc_mod split: if_splits)

lemma ring_span_step:
  assumes "r < N" "w < N" "k < ring_span N r w"
  shows "ring_span N (Suc ((r + k) mod N) mod N) w < ring_span N r w"
proof -
  have kN: "k < N" using assms ring_span_lt [of r N w] by simp
  have "ring_span N ((r + k) mod N) w = ring_span N r w - k"
  proof (cases "r + k < N")
    case True
    then show ?thesis using assms by (auto simp: ring_span_def)
  next
    case False
    then have "(r + k) mod N = r + k - N"
      using kN assms(1) by (simp add: mod_if)
    then show ?thesis using assms False by (auto simp: ring_span_def split: if_splits)
  qed
  moreover have "(r + k) mod N < N" using assms(1) by (intro mod_less_divisor) simp
  moreover from calculation have "(r + k) mod N \<noteq> w"
    using assms ring_span_0 [of "(r + k) mod N" N w] by auto
  ultimately show ?thesis
    using ring_span_read [of "(r + k) mod N" N w] assms by simp
qed

lemma ring_list_update:
  assumes "r < length q" "k < length q" "n \<le> length q"
  shows "ring_list (q[(r + k) mod length q := x]) r n =
    (if k < n then (ring_list q r n)[k := x] else ring_list q r n)"
proof (rule nth_equalityI)
  fix i
  assume "i < length (ring_list (q[(r + k) mod length q := x]) r n)"
  then have i: "i < n" by simp
  have pos: "(r + j) mod length q < length q" for j
    using assms(1) by (intro mod_less_divisor) auto
  have "(r + k) mod length q = (r + i) mod length q \<longleftrightarrow> k = i"
    using ring_index_inj [of k "length q" i r] assms i by auto
  then show "ring_list (q[(r + k) mod length q := x]) r n ! i =
      (if k < n then (ring_list q r n)[k := x] else ring_list q r n) ! i"
    using i pos by (auto simp: ring_list_def nth_list_update)
qed simp

section \<open>First match in a list\<close>

primrec first_index :: "('a \<Rightarrow> bool) \<Rightarrow> 'a list \<Rightarrow> nat option" where
  "first_index P [] = None"
| "first_index P (x # xs) = (if P x then Some 0 else map_option Suc (first_index P xs))"

lemma first_index_None: "first_index P xs = None \<longleftrightarrow> (\<forall>x \<in> set xs. \<not> P x)"
  by (induction xs) auto

lemma first_index_Some:
  "first_index P xs = Some k \<Longrightarrow> k < length xs \<and> P (xs ! k) \<and> (\<forall>j < k. \<not> P (xs ! j))"
proof (induction xs arbitrary: k)
  case (Cons x xs)
  show ?case
  proof (cases "P x")
    case False
    with Cons.prems obtain j where j: "first_index P xs = Some j" "k = Suc j" by auto
    with Cons.IH [OF j(1)] False show ?thesis by (auto simp: nth_Cons split: nat.splits)
  qed (use Cons.prems in simp)
qed simp

end
