(* ===== verification/Report_Builder.thy ===== *)
theory Report_Builder
  imports Bounded_Fifo
begin

text \<open>
  The receiver's report queue, \<open>firmware/nrf54l15/src/report_builder.c\<close> with
  \<open>protocol/smol_report.h\<close>: a circular buffer of tracker records, the table of tracker
  addresses, and the packing of up to three records and registrations into a 64-byte report.
  The file's static variables are the record \<open>report_builder\<close>; every function runs under
  the file's spin lock, so it is one atomic step. The clock of \<open>k_uptime_get ()\<close> is an
  argument. The signed 64-bit millisecond clock is an \<open>int\<close>: it cannot wrap in any uptime.
\<close>

section \<open>Records and state\<close>

abbreviation (input) SV_SMOL_RECORD_SIZE :: nat where "SV_SMOL_RECORD_SIZE \<equiv> 16"
abbreviation (input) SV_SMOL_DATA_RECORDS :: nat where "SV_SMOL_DATA_RECORDS \<equiv> 3"
abbreviation (input) SV_SMOL_REPORT_SIZE :: nat where "SV_SMOL_REPORT_SIZE \<equiv> 64"
abbreviation (input) SMOL_MAX_TRACKERS :: "'a::numeral" where "SMOL_MAX_TRACKERS \<equiv> 32"
abbreviation (input) REPORT_QUEUE_SIZE :: "'a::numeral" where "REPORT_QUEUE_SIZE \<equiv> 128"
abbreviation (input) REGISTRATION_PERIOD_MS :: int where "REGISTRATION_PERIOD_MS \<equiv> 100"

abbreviation (input) SV_SMOL_META_SEQUENCE_VALID :: byte where "SV_SMOL_META_SEQUENCE_VALID \<equiv> 1"
abbreviation (input) SV_SMOL_META_RF_V2 :: byte where "SV_SMOL_META_RF_V2 \<equiv> 2"
abbreviation (input) SV_SMOL_META_CRC_VALID :: byte where "SV_SMOL_META_CRC_VALID \<equiv> 4"

abbreviation (input) ADDRESS_MASK :: u64 where "ADDRESS_MASK \<equiv> 0xffffffffffff"

record sv_smol_record_metadata =
  sm_sequence :: byte
  sm_rssi :: byte
  sm_flags :: byte

record sv_smol_record =
  sr_data :: "byte list"
  sr_metadata :: sv_smol_record_metadata

record report_builder =
  rb_queue :: "sv_smol_record list"
  rb_read_index :: u16
  rb_write_index :: u16
  rb_tracker_addresses :: "u64 list"
  rb_registration_cursor :: byte
  rb_last_registration_ms :: int
  rb_drops :: u32

text \<open>The zero-initialised static variables at boot.\<close>

definition rb_boot :: report_builder where
  "rb_boot = \<lparr>
     rb_queue = replicate REPORT_QUEUE_SIZE
       \<lparr> sr_data = zeros SV_SMOL_RECORD_SIZE,
         sr_metadata = \<lparr> sm_sequence = 0, sm_rssi = 0, sm_flags = 0 \<rparr> \<rparr>,
     rb_read_index = 0, rb_write_index = 0,
     rb_tracker_addresses = replicate SMOL_MAX_TRACKERS 0,
     rb_registration_cursor = 0, rb_last_registration_ms = 0, rb_drops = 0 \<rparr>"

section \<open>Operations (report_builder.c)\<close>

definition advance :: "u16 \<Rightarrow> u16" where
  "advance index = (index + 1) mod REPORT_QUEUE_SIZE"

definition report_builder_init :: "report_builder \<Rightarrow> report_builder" where
  "report_builder_init s = s\<lparr> rb_read_index := 0, rb_write_index := 0,
     rb_registration_cursor := 0, rb_last_registration_ms := - REGISTRATION_PERIOD_MS,
     rb_drops := 0 \<rparr>"

definition report_builder_set_tracker ::
    "byte \<Rightarrow> u64 \<Rightarrow> report_builder \<Rightarrow> report_builder" where
  "report_builder_set_tracker tid address s =
    (if SMOL_MAX_TRACKERS \<le> tid then s
     else s\<lparr> rb_tracker_addresses :=
            (rb_tracker_addresses s)[unat tid := address AND ADDRESS_MASK] \<rparr>)"

definition report_builder_clear_trackers :: "report_builder \<Rightarrow> report_builder" where
  "report_builder_clear_trackers s =
    s\<lparr> rb_tracker_addresses := replicate SMOL_MAX_TRACKERS 0,
       rb_read_index := 0, rb_write_index := 0, rb_registration_cursor := 0 \<rparr>"

text \<open>
  The search of \<open>report_builder_enqueue\<close> for a queued record to replace. The loop runs until
  the cursor meets the write index: \<open>None\<close> is not returning, \<open>Some None\<close> is not found.
\<close>

partial_function (option) replace_scan ::
    "sv_smol_record list \<Rightarrow> byte \<Rightarrow> u16 \<Rightarrow> u16 \<Rightarrow> u16 option option" where
  "replace_scan queue tid write cursor =
    (if cursor = write then Some None
     else if sr_data (queue ! unat cursor) ! 0 \<le> 223 \<and>
             sr_data (queue ! unat cursor) ! 1 = tid then Some (Some cursor)
     else replace_scan queue tid write (advance cursor))"

text \<open>The record that is queued: the RSSI goes into byte 15 unless the type is 1 or 4.\<close>

definition make_record :: "byte list \<Rightarrow> byte \<Rightarrow> byte \<Rightarrow> byte \<Rightarrow> sv_smol_record" where
  "make_record data rssi sequence flags =
    \<lparr> sr_data = (if data ! 0 \<noteq> 1 \<and> data ! 0 \<noteq> 4
                 then (take SV_SMOL_RECORD_SIZE data)[15 := rssi]
                 else take SV_SMOL_RECORD_SIZE data),
      sr_metadata = \<lparr> sm_sequence = sequence, sm_rssi = rssi, sm_flags = flags \<rparr> \<rparr>"

text \<open>The tail of \<open>report_builder_enqueue\<close>: append, or count a drop when full.\<close>

definition rb_push :: "sv_smol_record \<Rightarrow> report_builder \<Rightarrow> report_builder" where
  "rb_push record s =
    (let next = advance (rb_write_index s) in
     if next = rb_read_index s then s\<lparr> rb_drops := rb_drops s + 1 \<rparr>
     else s\<lparr> rb_queue := (rb_queue s)[unat (rb_write_index s) := record],
             rb_write_index := next \<rparr>)"

definition report_builder_enqueue ::
    "byte list \<Rightarrow> byte \<Rightarrow> byte \<Rightarrow> byte \<Rightarrow> bool \<Rightarrow> report_builder \<Rightarrow> report_builder option" where
  "report_builder_enqueue data rssi sequence flags replace_sensor_data s =
    (let record = make_record data rssi sequence flags in
     if replace_sensor_data then
       (case replace_scan (rb_queue s) (data ! 1) (rb_write_index s) (rb_read_index s) of
          None \<Rightarrow> None
        | Some (Some cursor) \<Rightarrow> Some (s\<lparr> rb_queue := (rb_queue s)[unat cursor := record] \<rparr>)
        | Some None \<Rightarrow> Some (rb_push record s))
     else Some (rb_push record s))"

text \<open>
  \<open>next_registration\<close>: the first registered tracker from the cursor on, round the table.
  \<open>None\<close> is \<open>return false\<close>.
\<close>

definition next_registration :: "report_builder \<Rightarrow> (byte list \<times> report_builder) option" where
  "next_registration s =
    (case List.find (\<lambda>tid. rb_tracker_addresses s ! tid \<noteq> 0)
            (map (\<lambda>offset. (unat (rb_registration_cursor s) + offset) mod SMOL_MAX_TRACKERS)
               [0..<SMOL_MAX_TRACKERS]) of
       None \<Rightarrow> None
     | Some tid \<Rightarrow>
         (let output = zeros SV_SMOL_RECORD_SIZE;
              output = output[0 := 255];
              output = output[1 := of_nat tid];
              output = blit 2 (le_of_word 6 (rb_tracker_addresses s ! tid)) output
          in Some (output,
               s\<lparr> rb_registration_cursor := of_nat ((tid + 1) mod SMOL_MAX_TRACKERS) \<rparr>)))"

definition has_registration :: "report_builder \<Rightarrow> bool" where
  "has_registration s \<longleftrightarrow>
     list_ex (\<lambda>tid. rb_tracker_addresses s ! tid \<noteq> 0) [0..<SMOL_MAX_TRACKERS]"

text \<open>The body of the draining loop of \<open>report_builder_next\<close>, and the loop.\<close>

definition rb_pop :: "report_builder \<Rightarrow> (sv_smol_record \<times> report_builder) option" where
  "rb_pop s =
    (if rb_read_index s \<noteq> rb_write_index s
     then Some (rb_queue s ! unat (rb_read_index s),
                s\<lparr> rb_read_index := advance (rb_read_index s) \<rparr>)
     else None)"

primrec take_records :: "nat \<Rightarrow> report_builder \<Rightarrow> sv_smol_record list \<times> report_builder" where
  "take_records 0 s = ([], s)"
| "take_records (Suc n) s =
    (case rb_pop s of
       None \<Rightarrow> ([], s)
     | Some (record, s') \<Rightarrow> (let (records, s'') = take_records n s' in (record # records, s'')))"

text \<open>The data loop, from slot \<open>slot\<close> on, counting sensor records into \<open>valid\<close>.\<close>

primrec write_records ::
    "sv_smol_record list \<Rightarrow> nat \<Rightarrow> byte list \<Rightarrow> byte \<Rightarrow> byte list \<times> byte" where
  "write_records [] slot output valid = (output, valid)"
| "write_records (r # rs) slot output valid =
    write_records rs (slot + 1) (blit (slot * SV_SMOL_RECORD_SIZE) (sr_data r) output)
      (if sr_data r ! 0 \<le> 223 then valid + 1 else valid)"

text \<open>The registration loop over the free slots, with the flag it may set.\<close>

function fill_registrations ::
    "nat \<Rightarrow> byte list \<Rightarrow> report_builder \<Rightarrow> bool \<Rightarrow> byte list \<times> report_builder \<times> bool" where
  "fill_registrations slot output s due =
    (if slot < SV_SMOL_DATA_RECORDS then
       (case next_registration s of
          None \<Rightarrow> (output, s, due)
        | Some (reg, s') \<Rightarrow>
            fill_registrations (slot + 1) (blit (slot * SV_SMOL_RECORD_SIZE) reg output) s' True)
     else (output, s, due))"
  by pat_completeness auto
termination
  by (relation "measure (\<lambda>(slot, _). 3 - slot)") auto

declare fill_registrations.simps [simp del]

text \<open>The metadata loop.\<close>

primrec write_metadata :: "sv_smol_record list \<Rightarrow> nat \<Rightarrow> byte list \<Rightarrow> byte list" where
  "write_metadata [] slot output = output"
| "write_metadata (r # rs) slot output =
    write_metadata rs (slot + 1)
      (output[48 + (5 + slot * 3) := sm_sequence (sr_metadata r),
              48 + (6 + slot * 3) := sm_rssi (sr_metadata r),
              48 + (7 + slot * 3) := sm_flags (sr_metadata r)])"

definition report_builder_next ::
    "int \<Rightarrow> report_builder \<Rightarrow> byte list option \<times> report_builder" where
  "report_builder_next now s =
    (let (records, s) = take_records SV_SMOL_DATA_RECORDS s;
         queued = length records;
         registration_due = (has_registration s \<and>
           REGISTRATION_PERIOD_MS \<le> now - rb_last_registration_ms s)
     in
     if queued = 0 \<and> \<not> registration_due then (None, s)
     else
      (let output = zeros SV_SMOL_REPORT_SIZE;
           (output, valid_data) = write_records records 0 output 0;
           (output, s, registration_due) = fill_registrations queued output s registration_due;
           s = (if registration_due then s\<lparr> rb_last_registration_ms := now \<rparr> else s);
           output = output[48 := 250, 49 := 255, 50 := 0xd6, 51 := 1, 52 := valid_data];
           output = write_metadata records 0 output;
           output = output[63 := 0x6d]
       in (Some output, s)))"

definition report_builder_pending :: "int \<Rightarrow> report_builder \<Rightarrow> bool" where
  "report_builder_pending now s \<longleftrightarrow>
     rb_read_index s \<noteq> rb_write_index s \<or>
     (has_registration s \<and> REGISTRATION_PERIOD_MS \<le> now - rb_last_registration_ms s)"

definition report_builder_drops :: "report_builder \<Rightarrow> u32" where
  "report_builder_drops s = rb_drops s"

section \<open>Invariant and queue contents\<close>

definition record_ok :: "sv_smol_record \<Rightarrow> bool" where
  "record_ok r \<longleftrightarrow> length (sr_data r) = SV_SMOL_RECORD_SIZE"

definition is_sensor :: "sv_smol_record \<Rightarrow> bool" where
  "is_sensor r \<longleftrightarrow> sr_data r ! 0 \<le> 223"

definition sensor_id :: "sv_smol_record \<Rightarrow> byte" where
  "sensor_id r = sr_data r ! 1"

definition rb_invar :: "report_builder \<Rightarrow> bool" where
  "rb_invar s \<longleftrightarrow> length (rb_queue s) = 128 \<and> (\<forall>r \<in> set (rb_queue s). record_ok r) \<and>
     unat (rb_read_index s) < 128 \<and> unat (rb_write_index s) < 128 \<and>
     length (rb_tracker_addresses s) = 32 \<and>
     (\<forall>a \<in> set (rb_tracker_addresses s). a \<le> ADDRESS_MASK) \<and>
     unat (rb_registration_cursor s) < 32"

definition rb_length :: "report_builder \<Rightarrow> nat" where
  "rb_length s = ring_span 128 (unat (rb_read_index s)) (unat (rb_write_index s))"

text \<open>The queued records, oldest first.\<close>

definition rb_content :: "report_builder \<Rightarrow> sv_smol_record list" where
  "rb_content s = ring_list (rb_queue s) (unat (rb_read_index s)) (rb_length s)"

lemma unat_advance: "unat i < 128 \<Longrightarrow> unat (advance i) = Suc (unat i) mod 128"
proof -
  assume "unat i < 128"
  then have "unat (i + 1) = Suc (unat i)" by (simp add: unat_word_ariths)
  then show ?thesis by (simp add: advance_def unat_mod)
qed

lemma u16_eq_iff: "(a :: u16) = b \<longleftrightarrow> unat a = unat b"
  by (simp add: word_unat_eq_iff)

lemma length_rb_content [simp]: "length (rb_content s) = rb_length s"
  by (simp add: rb_content_def)

lemma rb_length_lt: "rb_invar s \<Longrightarrow> rb_length s < 128"
  by (simp add: rb_invar_def rb_length_def ring_span_lt)

lemma rb_content_ok: "rb_invar s \<Longrightarrow> r \<in> set (rb_content s) \<Longrightarrow> record_ok r"
  by (auto simp: rb_invar_def rb_content_def ring_list_def)

lemma rb_content_empty: "rb_invar s \<Longrightarrow> rb_content s = [] \<longleftrightarrow> rb_read_index s = rb_write_index s"
proof -
  assume "rb_invar s"
  then have "rb_length s = 0 \<longleftrightarrow> rb_read_index s = rb_write_index s"
    by (simp add: rb_invar_def rb_length_def ring_span_0 u16_eq_iff)
  then show ?thesis by (simp flip: length_0_conv)
qed

lemma rb_push_full: "rb_invar s \<Longrightarrow> advance (rb_write_index s) = rb_read_index s \<longleftrightarrow> rb_length s = 127"
  by (auto simp: rb_invar_def rb_length_def ring_span_full u16_eq_iff unat_advance)

lemma rb_push_content:
  assumes "rb_invar s" and "record_ok x"
  shows "rb_content (rb_push x s) =
      (if rb_length s < 127 then rb_content s @ [x] else rb_content s)"
    and "rb_invar (rb_push x s)"
    and "rb_drops (rb_push x s) = (if rb_length s < 127 then rb_drops s else rb_drops s + 1)"
proof -
  let ?r = "unat (rb_read_index s)" and ?w = "unat (rb_write_index s)"
  have b: "?r < 128" "?w < 128" "length (rb_queue s) = 128"
    using assms(1) by (simp_all add: rb_invar_def)
  have "rb_content (rb_push x s) = (if rb_length s < 127 then rb_content s @ [x] else rb_content s)
    \<and> rb_invar (rb_push x s) \<and>
    rb_drops (rb_push x s) = (if rb_length s < 127 then rb_drops s else rb_drops s + 1)"
  proof (cases "rb_length s = 127")
    case True
    then show ?thesis
      using assms rb_push_full [OF assms(1)]
      by (simp add: rb_push_def Let_def rb_content_def rb_length_def rb_invar_def)
  next
    case False
    then have lt: "rb_length s < 127" using rb_length_lt [OF assms(1)] by simp
    have ne: "advance (rb_write_index s) \<noteq> rb_read_index s"
      using False rb_push_full [OF assms(1)] by simp
    then have "Suc ?w mod 128 \<noteq> ?r"
      using b by (simp add: u16_eq_iff unat_advance)
    then have sp: "ring_span 128 ?r (Suc ?w mod 128) = Suc (rb_length s)"
      using b by (simp add: rb_length_def ring_span_write)
    have w: "?w = (?r + rb_length s) mod 128"
      using b by (simp add: rb_length_def ring_span_end)
    have "ring_list ((rb_queue s)[?w := x]) ?r (rb_length s) = rb_content s"
      using ring_list_update [of ?r "rb_queue s" "rb_length s" "rb_length s" x] b lt
      by (simp add: rb_content_def flip: w)
    then have "rb_content (rb_push x s) = rb_content s @ [x]"
      using ne b sp
      by (simp add: rb_push_def Let_def rb_content_def [of "_\<lparr> rb_queue := _ \<rparr>"]
          rb_content_def [of "_\<lparr> rb_write_index := _ \<rparr>"] rb_length_def [of "_\<lparr> rb_write_index := _ \<rparr>"]
          unat_advance ring_list_snoc flip: w)
    moreover have "rb_invar (rb_push x s)"
      using assms ne b
      by (auto simp: rb_push_def Let_def rb_invar_def unat_advance dest!: set_update_subset_insert [THEN subsetD])
    ultimately show ?thesis using lt ne by (simp add: rb_push_def Let_def)
  qed
  then show "rb_content (rb_push x s) =
      (if rb_length s < 127 then rb_content s @ [x] else rb_content s)"
    and "rb_invar (rb_push x s)"
    and "rb_drops (rb_push x s) = (if rb_length s < 127 then rb_drops s else rb_drops s + 1)"
    by blast+
qed

lemma rb_pop_content:
  assumes "rb_invar s" and "rb_content s = x # xs"
  shows "\<exists>s'. rb_pop s = Some (x, s') \<and> rb_content s' = xs \<and> rb_invar s'"
proof -
  let ?r = "unat (rb_read_index s)" and ?w = "unat (rb_write_index s)"
  have b: "?r < 128" "?w < 128" "length (rb_queue s) = 128"
    using assms(1) by (simp_all add: rb_invar_def)
  have ne: "rb_read_index s \<noteq> rb_write_index s"
    using rb_content_empty [OF assms(1)] assms(2) by simp
  then have sp: "rb_length s = Suc (ring_span 128 (Suc ?r mod 128) ?w)"
    using b by (simp add: rb_length_def ring_span_read u16_eq_iff)
  let ?s = "s\<lparr> rb_read_index := advance (rb_read_index s) \<rparr>"
  have "rb_content s = rb_queue s ! ?r # rb_content ?s"
    using b by (simp add: rb_content_def [of s] sp ring_list_Cons)
      (simp add: rb_content_def rb_length_def unat_advance)
  moreover have "rb_invar ?s"
    using assms(1) b by (simp add: rb_invar_def unat_advance)
  ultimately show ?thesis
    using ne assms(2) by (simp add: rb_pop_def)
qed

interpretation report_queue: bounded_fifo rb_push rb_pop rb_content rb_invar record_ok 127
proof unfold_locales
  fix s x
  assume s: "rb_invar s"
  show "length (rb_content s) \<le> 127" using rb_length_lt [OF s] by simp
  show "rb_content s = [] \<Longrightarrow> rb_pop s = None"
    using rb_content_empty [OF s] by (simp add: rb_pop_def)
qed (simp_all add: rb_content_ok rb_push_content rb_pop_content)

section \<open>Enqueueing\<close>

text \<open>The queued record a new one of tracker \<open>tid\<close> supersedes.\<close>

definition supersedes :: "byte \<Rightarrow> sv_smol_record \<Rightarrow> bool" where
  "supersedes tid r \<longleftrightarrow> is_sensor r \<and> sensor_id r = tid"

text \<open>What enqueueing means for the list of queued records.\<close>

definition queue_insert :: "bool \<Rightarrow> sv_smol_record \<Rightarrow> sv_smol_record list \<Rightarrow> sv_smol_record list" where
  "queue_insert replace r xs =
    (case (if replace then first_index (supersedes (sensor_id r)) xs else None) of
       Some k \<Rightarrow> xs[k := r]
     | None \<Rightarrow> if length xs < 127 then xs @ [r] else xs)"

text \<open>The search returns: it finds the first superseded record of the queue, or none.\<close>

lemma replace_scan_returns:
  assumes "length q = 128" and "unat c < 128" and "unat w < 128"
  shows "replace_scan q tid w c = Some (map_option (\<lambda>k. of_nat ((unat c + k) mod 128))
    (first_index (supersedes tid) (ring_list q (unat c) (ring_span 128 (unat c) (unat w)))))"
  using assms
proof (induction "ring_span 128 (unat c) (unat w)" arbitrary: c)
  case 0
  then have "c = w" using ring_span_0 [of "unat c" 128 "unat w"] by (simp add: u16_eq_iff)
  then show ?case by (simp add: replace_scan.simps ring_span_def)
next
  case (Suc n)
  have ne: "c \<noteq> w" using Suc.hyps(2) by (auto simp: ring_span_def)
  have adv: "unat (advance c) = Suc (unat c) mod 128"
    using Suc.prems(2) by (rule unat_advance)
  have sp: "ring_span 128 (unat c) (unat w) = Suc (ring_span 128 (unat (advance c)) (unat w))"
    using Suc.prems ne by (simp add: ring_span_read u16_eq_iff adv)
  have list: "ring_list q (unat c) (ring_span 128 (unat c) (unat w)) =
      q ! unat c # ring_list q (unat (advance c)) (ring_span 128 (unat (advance c)) (unat w))"
    using Suc.prems by (simp add: sp ring_list_Cons adv)
  show ?case
  proof (cases "supersedes tid (q ! unat c)")
    case True
    then show ?thesis
      using ne Suc.prems(2)
      by (simp add: replace_scan.simps [of q tid w c] list supersedes_def is_sensor_def
          sensor_id_def)
  next
    case False
    then have "replace_scan q tid w c = replace_scan q tid w (advance c)"
      using ne by (auto simp: replace_scan.simps [of q tid w c] supersedes_def is_sensor_def
          sensor_id_def)
    moreover have "(unat (advance c) + k) mod 128 = (unat c + Suc k) mod 128" for k
      by (simp add: adv mod_add_left_eq)
    moreover have "n = ring_span 128 (unat (advance c)) (unat w)"
      using Suc.hyps(2) sp by simp
    ultimately show ?thesis
      using Suc.hyps(1) [of "advance c"] Suc.prems False
      by (simp add: list option.map_comp comp_def adv)
  qed
qed

lemma make_record_simps [simp]:
  "16 \<le> length data \<Longrightarrow> record_ok (make_record data rssi sq fl)"
  "16 \<le> length data \<Longrightarrow> sensor_id (make_record data rssi sq fl) = data ! 1"
  "16 \<le> length data \<Longrightarrow> is_sensor (make_record data rssi sq fl) \<longleftrightarrow> data ! 0 \<le> 223"
  by (simp_all add: make_record_def record_ok_def sensor_id_def is_sensor_def)

lemma enqueue_spec:
  assumes "rb_invar s" and "16 \<le> length data"
  shows "\<exists>s'. report_builder_enqueue data rssi sq fl replace s = Some s' \<and> rb_invar s' \<and>
    rb_content s' = queue_insert replace (make_record data rssi sq fl) (rb_content s) \<and>
    rb_tracker_addresses s' = rb_tracker_addresses s \<and>
    rb_drops s' = (if length (rb_content s) = 127 \<and>
        \<not> (replace \<and> (\<exists>r \<in> set (rb_content s). supersedes (data ! 1) r))
      then rb_drops s + 1 else rb_drops s)"
proof -
  let ?r = "make_record data rssi sq fl"
  let ?P = "supersedes (data ! 1)"
  have b: "length (rb_queue s) = 128" "unat (rb_read_index s) < 128" "unat (rb_write_index s) < 128"
    using assms(1) by (simp_all add: rb_invar_def)
  have scan: "replace_scan (rb_queue s) (data ! 1) (rb_write_index s) (rb_read_index s) =
    Some (map_option (\<lambda>k. of_nat ((unat (rb_read_index s) + k) mod 128)) (first_index ?P (rb_content s)))"
    using replace_scan_returns [OF b] by (simp add: rb_content_def rb_length_def)
  have push: "rb_invar (rb_push ?r s)" "rb_tracker_addresses (rb_push ?r s) = rb_tracker_addresses s"
    "rb_content (rb_push ?r s) = (if rb_length s < 127 then rb_content s @ [?r] else rb_content s)"
    "rb_drops (rb_push ?r s) = (if length (rb_content s) = 127 then rb_drops s + 1 else rb_drops s)"
    using rb_push_content [OF assms(1), of ?r] assms(2) rb_length_lt [OF assms(1)]
    by (auto simp: rb_push_def Let_def rb_content_def)
  show ?thesis
  proof (cases "if replace then first_index ?P (rb_content s) else None")
    case None
    then have "\<not> (replace \<and> (\<exists>r \<in> set (rb_content s). ?P r))"
      by (auto simp: first_index_None split: if_splits)
    moreover have "report_builder_enqueue data rssi sq fl replace s = Some (rb_push ?r s)"
      using None scan by (auto simp: report_builder_enqueue_def Let_def split: if_splits)
    ultimately show ?thesis
      using push None assms(2) by (auto simp: queue_insert_def rb_content_def split: if_splits)
  next
    case (Some k)
    then have rep: "replace" and fi: "first_index ?P (rb_content s) = Some k"
      by (auto split: if_splits)
    have k: "k < rb_length s" using first_index_Some [OF fi] by simp
    let ?p = "(unat (rb_read_index s) + k) mod 128"
    let ?s = "s\<lparr> rb_queue := (rb_queue s)[?p := ?r] \<rparr>"
    have "unat (of_nat ?p :: u16) = ?p"
      by (simp add: unat_of_nat)
    then have eq: "report_builder_enqueue data rssi sq fl replace s = Some ?s"
      using rep scan fi by (simp add: report_builder_enqueue_def Let_def)
    have "rb_content ?s = (rb_content s)[k := ?r]"
      using ring_list_update [of "unat (rb_read_index s)" "rb_queue s" k "rb_length s" ?r]
        b k rb_length_lt [OF assms(1)]
      by (simp add: rb_content_def rb_length_def)
    moreover have "rb_invar ?s"
      using assms by (auto simp: rb_invar_def dest!: set_update_subset_insert [THEN subsetD])
    moreover have "\<exists>r \<in> set (rb_content s). ?P r"
      using fi first_index_None [of ?P "rb_content s"] by auto
    ultimately show ?thesis
      using eq rep fi assms(2) by (simp add: queue_insert_def)
  qed
qed

text \<open>
  At most one queued sensor record per tracker: new data replaces old data that has not been
  sent yet.
\<close>

definition sensor_ids :: "sv_smol_record list \<Rightarrow> byte list" where
  "sensor_ids xs = map sensor_id (filter is_sensor xs)"

lemma sensor_ids_update:
  assumes "k < length xs" "is_sensor (xs ! k)" "sensor_id (xs ! k) = sensor_id r"
  shows "sensor_ids (xs[k := r]) = sensor_ids xs \<or>
    sensor_ids (xs[k := r]) = sensor_ids (take k xs) @ sensor_ids (drop (Suc k) xs)"
proof -
  have "sensor_ids (xs[k := r]) =
      sensor_ids (take k xs) @ sensor_ids [r] @ sensor_ids (drop (Suc k) xs)"
    using assms(1) by (simp add: sensor_ids_def upd_conv_take_nth_drop)
  moreover have "sensor_ids xs =
      sensor_ids (take k xs) @ sensor_ids [xs ! k] @ sensor_ids (drop (Suc k) xs)"
    using assms(1) by (subst id_take_nth_drop [OF assms(1)]) (simp add: sensor_ids_def)
  ultimately show ?thesis
    using assms(2,3) by (cases "is_sensor r") (simp_all add: sensor_ids_def)
qed

lemma queue_insert_distinct:
  assumes "distinct (sensor_ids xs)" and "replace \<or> \<not> is_sensor r"
  shows "distinct (sensor_ids (queue_insert replace r xs))"
proof (cases "if replace then first_index (supersedes (sensor_id r)) xs else None")
  case None
  then have "is_sensor r \<Longrightarrow> sensor_id r \<notin> set (sensor_ids xs)"
    using assms(2) by (auto simp: first_index_None supersedes_def sensor_ids_def split: if_splits)
  with None assms(1) show ?thesis
    by (auto simp: queue_insert_def sensor_ids_def)
next
  case (Some k)
  then have k: "k < length xs" "supersedes (sensor_id r) (xs ! k)"
    using first_index_Some by (fastforce split: if_splits)+
  have split: "sensor_ids xs =
      sensor_ids (take k xs) @ sensor_ids [xs ! k] @ sensor_ids (drop (Suc k) xs)"
    by (subst id_take_nth_drop [OF k(1)]) (simp add: sensor_ids_def)
  have "distinct (sensor_ids (take k xs) @ sensor_ids (drop (Suc k) xs))"
    using assms(1) unfolding split by auto
  moreover have "is_sensor (xs ! k)" "sensor_id (xs ! k) = sensor_id r"
    using k(2) by (simp_all add: supersedes_def)
  ultimately have "distinct (sensor_ids (xs[k := r]))"
    using sensor_ids_update [OF k(1)] assms(1) by metis
  with Some show ?thesis by (simp add: queue_insert_def)
qed

section \<open>Properties of the queue\<close>

text \<open>
  C21: Enqueueing a record always returns, whatever the indices of the circular buffer are, and
  refines the abstract queue: with replacement on, a queued sensor record of the same tracker is
  overwritten in place (it keeps its turn); otherwise the record goes to the back, unless 127
  records are queued, when the queue is unchanged. The drop counter goes up by one exactly when
  the record is lost, that is when 127 records are queued and none is overwritten, and stays as
  it is otherwise. The invariant of the buffer is kept and the tracker table is not touched.
\<close>

theorem enqueue_refines_queue:
  assumes "rb_invar s" and "16 \<le> length data"
  shows "\<exists>s'. report_builder_enqueue data rssi sq fl replace s = Some s' \<and> rb_invar s' \<and>
    rb_content s' = queue_insert replace (make_record data rssi sq fl) (rb_content s) \<and>
    rb_tracker_addresses s' = rb_tracker_addresses s \<and>
    rb_drops s' = (if length (rb_content s) = 127 \<and>
        \<not> (replace \<and> (\<exists>r \<in> set (rb_content s). supersedes (data ! 1) r))
      then rb_drops s + 1 else rb_drops s)"
  by (rule enqueue_spec [OF assms])

text \<open>The state after boot and initialisation.\<close>

lemma rb_invar_init: "rb_invar (report_builder_init rb_boot)"
  by (simp add: rb_invar_def report_builder_init_def rb_boot_def record_ok_def)

lemma rb_content_init: "rb_content (report_builder_init s) = []"
  by (simp add: rb_content_def rb_length_def ring_span_def report_builder_init_def)

theorem enqueue_refines_queue_witness:
  "\<exists>s'. report_builder_enqueue (zeros 16) 5 1 4 True (report_builder_init rb_boot) = Some s' \<and>
    rb_content s' = [make_record (zeros 16) 5 1 4]"
  using enqueue_refines_queue [OF rb_invar_init, of "zeros 16" 5 1 4 True]
  by (auto simp: rb_content_init queue_insert_def)

text \<open>
  What the receiver enqueues: sensor data with replacement, anything else (tracker information,
  type above 223) without.
\<close>

definition replaces_sensors :: "byte list \<times> byte \<times> byte \<times> byte \<times> bool \<Rightarrow> bool" where
  "replaces_sensors p \<longleftrightarrow> (case p of (data, _, _, _, replace) \<Rightarrow>
     16 \<le> length data \<and> (data ! 0 \<le> 223 \<longrightarrow> replace))"

primrec enqueue_all ::
    "(byte list \<times> byte \<times> byte \<times> byte \<times> bool) list \<Rightarrow> report_builder \<Rightarrow> report_builder option" where
  "enqueue_all [] s = Some s"
| "enqueue_all (p # ps) s =
    (case p of (data, rssi, sq, fl, replace) \<Rightarrow>
       Option.bind (report_builder_enqueue data rssi sq fl replace s) (enqueue_all ps))"

lemma enqueue_all_fresh:
  "rb_invar s \<Longrightarrow> distinct (sensor_ids (rb_content s)) \<Longrightarrow> \<forall>p \<in> set ps. replaces_sensors p \<Longrightarrow>
   \<exists>s'. enqueue_all ps s = Some s' \<and> rb_invar s' \<and> distinct (sensor_ids (rb_content s'))"
proof (induction ps arbitrary: s)
  case (Cons p ps)
  obtain data rssi sq fl replace where p: "p = (data, rssi, sq, fl, replace)"
    by (cases p) auto
  with Cons.prems(3) have ok: "16 \<le> length data" "data ! 0 \<le> 223 \<longrightarrow> replace"
    by (simp_all add: replaces_sensors_def)
  obtain s' where s': "report_builder_enqueue data rssi sq fl replace s = Some s'" "rb_invar s'"
    "rb_content s' = queue_insert replace (make_record data rssi sq fl) (rb_content s)"
    using enqueue_spec [OF Cons.prems(1) ok(1)] by blast
  moreover have "distinct (sensor_ids (rb_content s'))"
    unfolding s'(3) using Cons.prems(2) ok by (intro queue_insert_distinct) auto
  ultimately show ?case
    using Cons.IH [of s'] Cons.prems(3) by (simp add: p)
qed auto

text \<open>
  Starting from the initialised queue, any sequence of packets, sensor data with replacement
  and other types in any way, leaves at most one queued sensor record per tracker: the host never
  receives a stale sensor sample behind which a newer one is already waiting, and the queue cannot
  be flooded by one tracker's sensor data.
\<close>

theorem one_sensor_record_per_tracker:
  assumes "\<forall>p \<in> set ps. replaces_sensors p"
  shows "\<exists>s'. enqueue_all ps (report_builder_init rb_boot) = Some s' \<and> rb_invar s' \<and>
    distinct (sensor_ids (rb_content s'))"
  using enqueue_all_fresh [OF rb_invar_init _ assms]
  by (simp add: rb_content_init sensor_ids_def)

theorem one_sensor_record_per_tracker_witness:
  "\<exists>s'. enqueue_all [(zeros 16, 5, 1, 4, True), (zeros 16, 9, 2, 4, True),
      ((zeros 16)[0 := 255], 9, 2, 4, False)] (report_builder_init rb_boot) = Some s' \<and>
    distinct (sensor_ids (rb_content s'))"
  using one_sensor_record_per_tracker
    [of "[(zeros 16, 5, 1, 4, True), (zeros 16, 9, 2, 4, True),
      ((zeros 16)[0 := 255], 9, 2, 4, False)]"]
  by (fastforce simp: replaces_sensors_def)

end
