(* ===== verification/Receiver_Storage.thy ===== *)
theory Receiver_Storage
  imports Receiver_Platform Report_Builder
begin

text \<open>
  The receiver's persistent configuration, \<open>firmware/nrf54l15/src/receiver_storage.c\<close>: the
  group id and the paired trackers, held in static variables and written through to the
  non-volatile storage. The record \<open>storage_state\<close> has the static variables and the world the
  platform functions act on; the components that call this one extend it.
\<close>

section \<open>State and operations (receiver_storage.c)\<close>

abbreviation (input) STORAGE_ID_GROUP :: u16 where "STORAGE_ID_GROUP \<equiv> 1"
abbreviation (input) STORAGE_ID_TRACKER_COUNT :: u16 where "STORAGE_ID_TRACKER_COUNT \<equiv> 2"
abbreviation (input) STORAGE_ID_TRACKER_BASE :: u16 where "STORAGE_ID_TRACKER_BASE \<equiv> 16"

record 'w storage_state =
  world :: 'w
  st_group_id :: u64
  st_trackers :: "u64 list"
  st_tracker_count :: byte

text \<open>A \<open>memcpy\<close> between an integer variable and the storage goes through its 8 or 1 bytes.\<close>

definition read_or_zero :: "'w platform \<Rightarrow> 'w \<Rightarrow> u16 \<Rightarrow> byte list \<Rightarrow> int \<times> byte list" where
  "read_or_zero p w k data =
    (let (result, buffer) = nvs_read p w k data in
     if result = - ENOENT then (0, zeros (length data))
     else (if result < 0 then result else 0, buffer))"

text \<open>The loop of \<open>receiver_storage_init\<close> over the stored trackers.\<close>

definition load_trackers :: "'w platform \<Rightarrow> 'w \<Rightarrow> nat \<Rightarrow> u64 list \<Rightarrow> u64 list" where
  "load_trackers p w count trackers =
    foldl (\<lambda>ts tid. ts[tid := word_of_le (snd (read_or_zero p w
        (STORAGE_ID_TRACKER_BASE + of_nat tid) (le_of_word 8 (ts ! tid)))) AND ADDRESS_MASK])
      trackers [0..<count]"

definition receiver_storage_init ::
    "'w platform \<Rightarrow> ('w, 'x) storage_state_scheme \<Rightarrow> int \<times> ('w, 'x) storage_state_scheme" where
  "receiver_storage_init p s =
    (case (flash_device_is_ready p (world s), flash_page_size p (world s)) of
       (True, Some page) \<Rightarrow>
         (let (result, w) = nvs_mount p page 4 (world s); s = s\<lparr> world := w \<rparr> in
          if result \<noteq> 0 then (result, s)
          else
           (let gid = word_of_le (snd (read_or_zero p w STORAGE_ID_GROUP
                  (le_of_word 8 (st_group_id s))));
                count = word_of_le (snd (read_or_zero p w STORAGE_ID_TRACKER_COUNT
                  (le_of_word 1 (st_tracker_count s))));
                gid = gid AND ADDRESS_MASK;
                count = (if SMOL_MAX_TRACKERS < count then 0 else count)
            in (0, s\<lparr> st_group_id := gid, st_tracker_count := count,
                     st_trackers := load_trackers p w (unat count) (st_trackers s) \<rparr>)))
     | _ \<Rightarrow> (- ENODEV, s))"

definition receiver_storage_group :: "('w, 'x) storage_state_scheme \<Rightarrow> u64" where
  "receiver_storage_group s = st_group_id s"

definition receiver_storage_set_group ::
    "'w platform \<Rightarrow> u64 \<Rightarrow> ('w, 'x) storage_state_scheme \<Rightarrow> int \<times> ('w, 'x) storage_state_scheme" where
  "receiver_storage_set_group p gid s =
    (let s = s\<lparr> st_group_id := gid AND ADDRESS_MASK \<rparr>;
         (result, w) = nvs_write p STORAGE_ID_GROUP (le_of_word 8 (st_group_id s)) (world s)
     in (if result < 0 then result else 0, s\<lparr> world := w \<rparr>))"

definition receiver_storage_tracker_count :: "('w, 'x) storage_state_scheme \<Rightarrow> byte" where
  "receiver_storage_tracker_count s = st_tracker_count s"

definition receiver_storage_tracker :: "byte \<Rightarrow> ('w, 'x) storage_state_scheme \<Rightarrow> u64" where
  "receiver_storage_tracker tid s =
    (if tid < st_tracker_count s then st_trackers s ! unat tid else 0)"

definition receiver_storage_set_tracker ::
    "'w platform \<Rightarrow> byte \<Rightarrow> u64 \<Rightarrow> ('w, 'x) storage_state_scheme \<Rightarrow>
     int \<times> ('w, 'x) storage_state_scheme" where
  "receiver_storage_set_tracker p tid address s =
    (if SMOL_MAX_TRACKERS \<le> tid then (- EINVAL, s)
     else
      (let s = s\<lparr> st_trackers := (st_trackers s)[unat tid := address AND ADDRESS_MASK] \<rparr>;
           (result, w) = nvs_write p (STORAGE_ID_TRACKER_BASE + ucast tid)
             (le_of_word 8 (st_trackers s ! unat tid)) (world s)
       in (if result < 0 then result else 0, s\<lparr> world := w \<rparr>)))"

definition receiver_storage_set_tracker_count ::
    "'w platform \<Rightarrow> byte \<Rightarrow> ('w, 'x) storage_state_scheme \<Rightarrow> int \<times> ('w, 'x) storage_state_scheme" where
  "receiver_storage_set_tracker_count p count s =
    (if SMOL_MAX_TRACKERS < count then (- EINVAL, s)
     else
      (let s = s\<lparr> st_tracker_count := count \<rparr>;
           (result, w) = nvs_write p STORAGE_ID_TRACKER_COUNT
             (le_of_word 1 (st_tracker_count s)) (world s)
       in (if result < 0 then result else 0, s\<lparr> world := w \<rparr>)))"

text \<open>The deleting loop of \<open>receiver_storage_clear_trackers\<close>; the result is 0 at its end.\<close>

primrec delete_trackers :: "'w platform \<Rightarrow> nat list \<Rightarrow> 'w \<Rightarrow> int \<times> 'w" where
  "delete_trackers p [] w = (0, w)"
| "delete_trackers p (tid # tids) w =
    (let (result, w) = nvs_delete p (STORAGE_ID_TRACKER_BASE + of_nat tid) w in
     if result \<noteq> 0 \<and> result \<noteq> - ENOENT then (result, w) else delete_trackers p tids w)"

definition receiver_storage_clear_trackers ::
    "'w platform \<Rightarrow> ('w, 'x) storage_state_scheme \<Rightarrow> int \<times> ('w, 'x) storage_state_scheme" where
  "receiver_storage_clear_trackers p s =
    (let (result, w) = delete_trackers p [0..<unat (st_tracker_count s)] (world s);
         s = s\<lparr> world := w \<rparr> in
     if result \<noteq> 0 then (result, s)
     else receiver_storage_set_tracker_count p 0
            (s\<lparr> st_trackers := replicate SMOL_MAX_TRACKERS 0 \<rparr>))"

section \<open>The flash\<close>

text \<open>
  What is stored under an id, an absent entry being zero; and the abstract content of the flash:
  the group, the count, and an address for each of the 32 ids, whether below the count or not.
\<close>

definition stored :: "(u16 \<Rightarrow> byte list option) \<Rightarrow> u16 \<Rightarrow> nat \<Rightarrow> byte list" where
  "stored nvs k n = (case nvs k of None \<Rightarrow> zeros n | Some d \<Rightarrow> d)"

record storage_flash =
  sf_group :: u64
  sf_count :: byte
  sf_entries :: "nat \<Rightarrow> u64"

definition empty_flash :: storage_flash where
  "empty_flash = \<lparr> sf_group = 0, sf_count = 0, sf_entries = (\<lambda>_. 0) \<rparr>"

definition storage_flash_holds :: "(u16 \<Rightarrow> byte list option) \<Rightarrow> storage_flash \<Rightarrow> bool" where
  "storage_flash_holds nvs fl \<longleftrightarrow>
    stored nvs STORAGE_ID_GROUP 8 = le_of_word 8 (sf_group fl) \<and>
    stored nvs STORAGE_ID_TRACKER_COUNT 1 = le_of_word 1 (sf_count fl) \<and>
    (\<forall>tid < 32. stored nvs (STORAGE_ID_TRACKER_BASE + of_nat tid) 8 = le_of_word 8 (sf_entries fl tid))"

definition storage_flash_ok :: "storage_flash \<Rightarrow> bool" where
  "storage_flash_ok fl \<longleftrightarrow> sf_group fl \<le> ADDRESS_MASK \<and> sf_count fl \<le> 32 \<and>
     (\<forall>tid. sf_entries fl tid \<le> ADDRESS_MASK)"

definition storage_boot :: "'w \<Rightarrow> 'w storage_state" where
  "storage_boot w = \<lparr> world = w, st_group_id = 0, st_trackers = replicate 32 0, st_tracker_count = 0 \<rparr>"

lemma read_or_zero_stored:
  assumes "nvs_ok p view" and "length (stored (view w) k (length buf)) = length buf"
  shows "snd (read_or_zero p w k buf) = stored (view w) k (length buf)"
proof (cases "view w k")
  case None
  then show ?thesis
    using nvs_read_none [OF assms(1), of w k buf]
    by (simp add: read_or_zero_def stored_def split_beta)
next
  case (Some d)
  then show ?thesis
    using nvs_read_some [OF assms(1) Some, of buf] assms(2)
    by (simp add: read_or_zero_def stored_def)
qed

lemma masked_eq: "a \<le> ADDRESS_MASK \<Longrightarrow> a AND ADDRESS_MASK = (a :: u64)"
proof -
  assume "a \<le> ADDRESS_MASK"
  then have "a < 2 ^ 48" by (simp add: order_le_less_trans)
  from less_mask_eq [OF this] show ?thesis by (simp add: mask_eq_exp_minus_1)
qed

lemma masked_le: "a AND ADDRESS_MASK \<le> (ADDRESS_MASK :: u64)"
  by (rule word_and_le1)

text \<open>The ids of the entries do not collide.\<close>

lemma storage_id_neq:
  "i < 32 \<Longrightarrow> STORAGE_ID_TRACKER_BASE + of_nat i \<noteq> STORAGE_ID_GROUP"
  "i < 32 \<Longrightarrow> STORAGE_ID_TRACKER_BASE + of_nat i \<noteq> STORAGE_ID_TRACKER_COUNT"
  "i < 32 \<Longrightarrow> j < 32 \<Longrightarrow> STORAGE_ID_TRACKER_BASE + of_nat i = (STORAGE_ID_TRACKER_BASE + of_nat j :: u16) \<longleftrightarrow> i = j"
  by (simp_all add: word_unat_eq_iff unat_word_ariths unat_of_nat take_bit_eq_mod)

lemma tracker_entries:
  assumes "i < 32" and "n \<le> 32"
  shows "STORAGE_ID_TRACKER_BASE + of_nat i \<in> (\<lambda>tid. STORAGE_ID_TRACKER_BASE + of_nat tid :: u16) ` {0..<n}
    \<longleftrightarrow> i < n"
proof
  assume "16 + of_nat i \<in> (\<lambda>tid. 16 + of_nat tid :: u16) ` {0..<n}"
  then obtain j where "j < n" "16 + of_nat i = (16 + of_nat j :: u16)" by (elim imageE) simp
  with storage_id_neq(3) [OF assms(1), of j] assms(2) show "i < n" by simp
qed simp

lemma group_not_tracker:
  assumes "n \<le> 32"
  shows "STORAGE_ID_GROUP \<notin> (\<lambda>tid. STORAGE_ID_TRACKER_BASE + of_nat tid :: u16) ` {0..<n}"
proof
  assume "(1 :: u16) \<in> (\<lambda>tid. 16 + of_nat tid) ` {0..<n}"
  then obtain j where "j < n" "1 = (16 + of_nat j :: u16)" by (elim imageE) simp
  with storage_id_neq(1) [of j] assms show False by simp
qed

lemma load_trackers_spec:
  assumes "nvs_ok p view" and "length ts = 32" and "n \<le> 32"
    and "\<forall>tid < n. stored (view w) (STORAGE_ID_TRACKER_BASE + of_nat tid) 8 = le_of_word 8 (f tid)"
    and "\<forall>tid < n. f tid \<le> ADDRESS_MASK"
  shows "load_trackers p w n ts = map f [0..<n] @ drop n ts"
  using assms(3-5)
proof (induction n)
  case 0
  then show ?case by (simp add: load_trackers_def)
next
  case (Suc n)
  let ?ts = "map f [0..<n] @ drop n ts"
  have "snd (read_or_zero p w (STORAGE_ID_TRACKER_BASE + of_nat n) (le_of_word 8 (?ts ! n))) =
      le_of_word 8 (f n)"
    using Suc.prems read_or_zero_stored [OF assms(1), of w "STORAGE_ID_TRACKER_BASE + of_nat n"
        "le_of_word 8 (?ts ! n)"] by simp
  then have "load_trackers p w (Suc n) ts = ?ts[n := f n]"
    using Suc by (simp add: load_trackers_def masked_eq)
  also have "\<dots> = map f [0..<Suc n] @ drop (Suc n) ts"
    using Suc.prems assms(2) by (simp add: list_update_append flip: Cons_nth_drop_Suc)
  finally show ?case .
qed

text \<open>A restart reads back what the flash holds below the count.\<close>

lemma init_loads:
  assumes "nvs_ok p view" and "storage_flash_holds (view w) fl" and "storage_flash_ok fl"
    and "flash_device_is_ready p w" and "flash_page_size p w = Some page"
    and "fst (nvs_mount p page 4 w) = 0"
  shows "\<exists>w'. receiver_storage_init p (storage_boot w) =
    (0, \<lparr> world = w', st_group_id = sf_group fl,
       st_trackers = map (sf_entries fl) [0..<unat (sf_count fl)] @
         replicate (32 - unat (sf_count fl)) 0,
       st_tracker_count = sf_count fl \<rparr>) \<and> view w' = view w"
proof -
  obtain w' where m: "nvs_mount p page 4 w = (0, w')"
    using assms(6) by (cases "nvs_mount p page 4 w") auto
  have v: "view w' = view w"
    using nvs_mount_view [OF assms(1), of page 4 w] m by simp
  let ?n = "unat (sf_count fl)"
  have inv: "?n \<le> 32" "sf_group fl \<le> ADDRESS_MASK" "\<forall>tid < ?n. sf_entries fl tid \<le> ADDRESS_MASK"
    "\<not> 32 < sf_count fl"
    using assms(3) by (auto simp: storage_flash_ok_def word_le_nat_alt word_less_nat_alt)
  have g: "snd (read_or_zero p w' STORAGE_ID_GROUP (le_of_word 8 (0 :: u64))) = le_of_word 8 (sf_group fl)"
    and c: "snd (read_or_zero p w' STORAGE_ID_TRACKER_COUNT (le_of_word 1 (0 :: byte))) =
      le_of_word 1 (sf_count fl)"
    using assms(2) v read_or_zero_stored [OF assms(1), of w' STORAGE_ID_GROUP "le_of_word 8 (0 :: u64)"]
      read_or_zero_stored [OF assms(1), of w' STORAGE_ID_TRACKER_COUNT "le_of_word 1 (0 :: byte)"]
    by (simp_all add: storage_flash_holds_def)
  have t: "load_trackers p w' ?n (replicate 32 0) =
      map (sf_entries fl) [0..<?n] @ replicate (32 - ?n) 0"
    using load_trackers_spec [OF assms(1), of "replicate 32 0" ?n w' "sf_entries fl"] assms(2) inv v
    by (simp add: storage_flash_holds_def)
  show ?thesis
    using assms(4,5) m inv v
    by (simp add: receiver_storage_init_def storage_boot_def Let_def g c [simplified] t masked_eq)
qed

lemma init_succeeds:
  assumes "receiver_storage_init p s = (0, s')"
  shows "\<exists>page. flash_device_is_ready p (world s) \<and> flash_page_size p (world s) = Some page \<and>
    fst (nvs_mount p page 4 (world s)) = 0"
  using assms
  by (auto simp: receiver_storage_init_def Let_def split_beta split: bool.splits option.splits if_splits)

section \<open>What each operation writes\<close>

lemma stored_write:
  "nvs_ok p view \<Longrightarrow> fst (nvs_write p k d w) = r \<Longrightarrow> \<not> r < 0 \<Longrightarrow>
   stored (view (snd (nvs_write p k d w))) j n = (if j = k then d else stored (view w) j n)"
  using nvs_write_view [of p view k d w] by (simp add: stored_def)

lemma set_group_world:
  assumes "nvs_ok p view" and "receiver_storage_set_group p gid s = (0, s')"
  shows "st_group_id s' = gid AND ADDRESS_MASK \<and>
    st_trackers s' = st_trackers s \<and> st_tracker_count s' = st_tracker_count s \<and>
    stored (view (world s')) j n =
      (if j = 1 then le_of_word 8 (gid AND ADDRESS_MASK) else stored (view (world s)) j n)"
proof -
  let ?d = "le_of_word 8 (gid AND ADDRESS_MASK)"
  have s': "s' = s\<lparr> st_group_id := gid AND ADDRESS_MASK, world := snd (nvs_write p 1 ?d (world s)) \<rparr>"
    and r: "\<not> fst (nvs_write p 1 ?d (world s)) < 0"
    using assms(2) by (auto simp: receiver_storage_set_group_def Let_def split_beta split: if_splits)
  show ?thesis using stored_write [OF assms(1) refl r, of j n] by (simp add: s')
qed

lemma set_tracker_count_world:
  assumes "nvs_ok p view" and "receiver_storage_set_tracker_count p count s = (0, s')"
  shows "count \<le> 32 \<and> st_trackers s' = st_trackers s \<and> st_group_id s' = st_group_id s \<and>
    st_tracker_count s' = count \<and>
    stored (view (world s')) j n = (if j = 2 then le_of_word 1 count else stored (view (world s)) j n)"
proof -
  let ?w = "snd (nvs_write p 2 (le_of_word 1 count) (world s))"
  have s': "s' = s\<lparr> st_tracker_count := count, world := ?w \<rparr>" and c: "count \<le> 32"
    and r: "\<not> fst (nvs_write p 2 (le_of_word 1 count) (world s)) < 0"
    using assms(2)
    by (auto simp: receiver_storage_set_tracker_count_def Let_def split_beta split: if_splits)
  show ?thesis using stored_write [OF assms(1) refl r, of j n] c by (simp add: s')
qed

lemma set_tracker_world:
  assumes "nvs_ok p view" and "receiver_storage_set_tracker p tid address s = (0, s')"
  shows "tid < 32 \<and> st_trackers s' = (st_trackers s)[unat tid := address AND ADDRESS_MASK] \<and>
    st_group_id s' = st_group_id s \<and> st_tracker_count s' = st_tracker_count s \<and>
    (length (st_trackers s) = 32 \<longrightarrow> stored (view (world s')) j n =
      (if j = 16 + of_nat (unat tid) then le_of_word 8 (address AND ADDRESS_MASK)
       else stored (view (world s)) j n))"
proof -
  let ?ts = "(st_trackers s)[unat tid := address AND ADDRESS_MASK]"
  let ?d = "le_of_word 8 (?ts ! unat tid)"
  have s': "s' = s\<lparr> st_trackers := ?ts, world := snd (nvs_write p (16 + ucast tid) ?d (world s)) \<rparr>"
    and c: "tid < 32" and r: "\<not> fst (nvs_write p (16 + ucast tid) ?d (world s)) < 0"
    using assms(2)
    by (auto simp: receiver_storage_set_tracker_def Let_def split_beta split: if_splits)
  have "(ucast tid :: u16) = of_nat (unat tid)" by simp
  then show ?thesis
    using stored_write [OF assms(1) refl r, of j n] c
    by (cases "length (st_trackers s) = 32") (auto simp: s' word_less_nat_alt)
qed

lemma delete_trackers_view:
  assumes "nvs_ok p view" and "fst (delete_trackers p tids w) = 0"
  shows "view (snd (delete_trackers p tids w)) k =
    (if k \<in> (\<lambda>tid. 16 + of_nat tid) ` set tids then None else view w k)"
  using assms(2)
proof (induction tids arbitrary: w)
  case (Cons tid tids)
  have r: "fst (nvs_delete p (16 + of_nat tid) w) \<in> {0, - 2}"
    using Cons.prems by (auto simp: split_beta split: if_splits)
  then show ?case
    using Cons nvs_delete_view [OF assms(1) r] by (auto simp: split_beta split: if_splits)
qed simp

lemma clear_trackers_world:
  assumes ok: "nvs_ok p view" and c: "receiver_storage_clear_trackers p s = (0, s')"
  shows "st_tracker_count s' = 0 \<and> st_trackers s' = replicate 32 0 \<and> st_group_id s' = st_group_id s \<and>
    stored (view (world s')) j n = (if j = 2 then le_of_word 1 (0 :: byte) else
      if j \<in> (\<lambda>tid. 16 + of_nat tid) ` {0..<unat (st_tracker_count s)} then zeros n
      else stored (view (world s)) j n)"
proof -
  let ?d = "delete_trackers p [0..<unat (st_tracker_count s)] (world s)"
  let ?s = "s\<lparr> world := snd ?d, st_trackers := replicate 32 0 \<rparr>"
  have "receiver_storage_set_tracker_count p 0 ?s = (0, s')" and d: "fst ?d = 0"
    using c by (auto simp: receiver_storage_clear_trackers_def Let_def split_beta split: if_splits)
  from set_tracker_count_world [OF ok this(1), of j n] show ?thesis
    using delete_trackers_view [OF ok d, of j] by (simp add: stored_def)
qed

section \<open>Histories of the storage\<close>

text \<open>
  A history is a list of calls, with any ids, counts and order, and restarts. It goes on while
  every call returns 0 or is refused for its argument (an id of 32 or more, a count above 32); it is
  \<open>None\<close> from the first call that fails otherwise, a failed access to the flash.
\<close>

datatype storage_op =
  Set_Group u64 | Set_Tracker byte u64 | Set_Tracker_Count byte | Clear_Trackers | Restart

definition storage_call ::
    "'w platform \<Rightarrow> storage_op \<Rightarrow> 'w storage_state \<Rightarrow> int \<times> 'w storage_state" where
  "storage_call p op s = (case op of
     Set_Group gid \<Rightarrow> receiver_storage_set_group p gid s
   | Set_Tracker tid address \<Rightarrow> receiver_storage_set_tracker p tid address s
   | Set_Tracker_Count n \<Rightarrow> receiver_storage_set_tracker_count p n s
   | Clear_Trackers \<Rightarrow> receiver_storage_clear_trackers p s
   | Restart \<Rightarrow> receiver_storage_init p (storage_boot (world s)))"

fun storage_refuses :: "storage_op \<Rightarrow> bool" where
  "storage_refuses (Set_Tracker tid _) \<longleftrightarrow> 32 \<le> tid"
| "storage_refuses (Set_Tracker_Count n) \<longleftrightarrow> 32 < n"
| "storage_refuses _ \<longleftrightarrow> False"

primrec storage_run ::
    "'w platform \<Rightarrow> storage_op list \<Rightarrow> 'w storage_state \<Rightarrow> 'w storage_state option" where
  "storage_run p [] s = Some s"
| "storage_run p (op # ops) s =
    (let (result, s) = storage_call p op s in
     if result = 0 \<or> storage_refuses op then storage_run p ops s else None)"

text \<open>
  What the flash holds after a call: a tracker is stored whether the count covers it or not, and
  clearing removes the trackers below the count only.
\<close>

definition flash_after :: "storage_op \<Rightarrow> storage_flash \<Rightarrow> storage_flash" where
  "flash_after op fl =
    (if storage_refuses op then fl else case op of
       Set_Group gid \<Rightarrow> fl\<lparr> sf_group := gid AND ADDRESS_MASK \<rparr>
     | Set_Tracker tid address \<Rightarrow>
         fl\<lparr> sf_entries := (sf_entries fl)(unat tid := address AND ADDRESS_MASK) \<rparr>
     | Set_Tracker_Count n \<Rightarrow> fl\<lparr> sf_count := n \<rparr>
     | Clear_Trackers \<Rightarrow> fl\<lparr> sf_count := 0,
         sf_entries := (\<lambda>tid. if tid < unat (sf_count fl) then 0 else sf_entries fl tid) \<rparr>
     | Restart \<Rightarrow> fl)"

text \<open>
  No tracker is stored at or above the count when the trackers are cleared or the receiver
  restarts. The receiver keeps to this: it stores a count that covers a tracker right after the
  tracker (\<open>firmware_history\<close>).
\<close>

definition covered :: "storage_flash \<Rightarrow> bool" where
  "covered fl \<longleftrightarrow> (\<forall>tid. unat (sf_count fl) \<le> tid \<longrightarrow> sf_entries fl tid = 0)"

primrec covered_history :: "storage_op list \<Rightarrow> storage_flash \<Rightarrow> bool" where
  "covered_history [] fl \<longleftrightarrow> True"
| "covered_history (op # ops) fl \<longleftrightarrow>
    (op \<in> {Clear_Trackers, Restart} \<longrightarrow> covered fl) \<and> covered_history ops (flash_after op fl)"

fun firmware_history :: "storage_op list \<Rightarrow> byte \<Rightarrow> bool" where
  "firmware_history [] n \<longleftrightarrow> True"
| "firmware_history (Set_Group _ # ops) n \<longleftrightarrow> firmware_history ops n"
| "firmware_history (Set_Tracker tid _ # Set_Tracker_Count m # ops) n \<longleftrightarrow>
    tid < m \<and> n \<le> m \<and> m \<le> 32 \<and> firmware_history ops m"
| "firmware_history (Clear_Trackers # ops) n \<longleftrightarrow> firmware_history ops 0"
| "firmware_history (Restart # ops) n \<longleftrightarrow> firmware_history ops n"
| "firmware_history _ n \<longleftrightarrow> False"

lemma firmware_history_covered:
  "firmware_history ops (sf_count fl) \<Longrightarrow> covered fl \<Longrightarrow> covered_history ops fl"
proof (induction ops "sf_count fl" arbitrary: fl rule: firmware_history.induct)
  case (3 tid a m ops)
  have "covered (flash_after (Set_Tracker_Count m) (flash_after (Set_Tracker tid a) fl))"
    using 3 by (auto simp: covered_def flash_after_def word_le_nat_alt word_less_nat_alt)
  with 3 show ?case
    by (auto simp: flash_after_def word_le_nat_alt word_less_nat_alt)
qed (auto simp: covered_def flash_after_def)

text \<open>The state after a history: the flash, and the variables beside it.\<close>

definition storage_holds ::
    "('w \<Rightarrow> u16 \<Rightarrow> byte list option) \<Rightarrow> storage_flash \<Rightarrow> 'w storage_state \<Rightarrow> bool" where
  "storage_holds view fl s \<longleftrightarrow> storage_flash_holds (view (world s)) fl \<and> storage_flash_ok fl \<and>
     length (st_trackers s) = 32 \<and> st_group_id s = sf_group fl \<and> st_tracker_count s = sf_count fl"

definition trackers_agree :: "storage_flash \<Rightarrow> 'w storage_state \<Rightarrow> bool" where
  "trackers_agree fl s \<longleftrightarrow> (\<forall>tid < 32. st_trackers s ! tid = sf_entries fl tid)"

lemma storage_call_holds:
  assumes ok: "nvs_ok p view" and call: "storage_call p op s = (r, s')"
    and r: "r = 0 \<or> storage_refuses op" and inv: "storage_holds view fl s"
  shows "storage_holds view (flash_after op fl) s' \<and>
    (trackers_agree fl s \<and> (op \<in> {Clear_Trackers, Restart} \<longrightarrow> covered fl) \<longrightarrow>
      trackers_agree (flash_after op fl) s')"
proof (cases "storage_refuses op")
  case True
  then have "s' = s"
    using call by (cases op) (auto simp: storage_call_def receiver_storage_set_tracker_def
        receiver_storage_set_tracker_count_def Let_def split_beta not_le [symmetric])
  with True inv show ?thesis
    by (cases op) (simp_all add: flash_after_def)
next
  case False
  with r have r: "r = 0" by simp
  have flash: "storage_flash_holds (view (world s)) fl" "storage_flash_ok fl" "length (st_trackers s) = 32"
    "st_group_id s = sf_group fl" "st_tracker_count s = sf_count fl"
    using inv by (simp_all add: storage_holds_def)
  then have n: "unat (sf_count fl) \<le> 32" by (simp add: storage_flash_ok_def word_le_nat_alt)
  show ?thesis
  proof (cases op)
    case (Set_Group gid)
    with call r have "receiver_storage_set_group p gid s = (0, s')" by (simp add: storage_call_def)
    note w = set_group_world [OF ok this]
    show ?thesis
      using flash w masked_le storage_id_neq(1)
      by (auto simp: Set_Group flash_after_def storage_holds_def storage_flash_holds_def storage_flash_ok_def
          trackers_agree_def)
  next
    case (Set_Tracker tid a)
    with call r have "receiver_storage_set_tracker p tid a s = (0, s')" by (simp add: storage_call_def)
    note w = set_tracker_world [OF ok this]
    have "tid < 32" using w by blast
    then have tid: "unat tid < 32" "\<not> 32 \<le> tid" by (simp_all add: word_less_nat_alt word_le_nat_alt)
    show ?thesis
      using flash w masked_le storage_id_neq(1,2) [OF tid(1)] storage_id_neq(3) [OF _ tid(1)] tid
      by (auto simp: Set_Tracker flash_after_def storage_holds_def storage_flash_holds_def storage_flash_ok_def
          trackers_agree_def nth_list_update)
  next
    case (Set_Tracker_Count m)
    with call r have "receiver_storage_set_tracker_count p m s = (0, s')" by (simp add: storage_call_def)
    note w = set_tracker_count_world [OF ok this]
    have "m \<le> 32" using w by blast
    then have "\<not> 32 < m" by simp
    then show ?thesis
      using flash w storage_id_neq(2)
      by (auto simp: Set_Tracker_Count flash_after_def storage_holds_def storage_flash_holds_def storage_flash_ok_def
          trackers_agree_def)
  next
    case Clear_Trackers
    with call r have "receiver_storage_clear_trackers p s = (0, s')" by (simp add: storage_call_def)
    note w = clear_trackers_world [OF ok this]
    have e: "16 + of_nat i \<in> (\<lambda>tid. 16 + of_nat tid :: u16) ` {0..<unat (sf_count fl)} \<longleftrightarrow>
        i < unat (sf_count fl)" if "i < 32" for i
      using that n by (rule tracker_entries)
    have g: "(1 :: u16) \<notin> (\<lambda>tid. 16 + of_nat tid) ` {0..<unat (sf_count fl)}"
      using n by (rule group_not_tracker)
    show ?thesis
      using flash w e g storage_id_neq(2)
      by (auto simp: Clear_Trackers flash_after_def storage_holds_def storage_flash_holds_def storage_flash_ok_def
          trackers_agree_def covered_def byte_eval)
  next
    case Restart
    with call r have i: "receiver_storage_init p (storage_boot (world s)) = (0, s')"
      by (simp add: storage_call_def)
    from init_succeeds [OF this] obtain page where "flash_device_is_ready p (world s)"
      "flash_page_size p (world s) = Some page" "fst (nvs_mount p page 4 (world s)) = 0"
      by (auto simp: storage_boot_def)
    from init_loads [OF ok flash(1,2) this] i obtain w' where
      s': "s' = \<lparr> world = w', st_group_id = sf_group fl, st_trackers =
          map (sf_entries fl) [0..<unat (sf_count fl)] @ replicate (32 - unat (sf_count fl)) 0,
        st_tracker_count = sf_count fl \<rparr>" and v: "view w' = view (world s)" by auto
    show ?thesis
      using flash n
      by (auto simp: Restart s' v flash_after_def storage_holds_def trackers_agree_def covered_def
          nth_append)
  qed
qed

lemma storage_run_holds:
  "nvs_ok p view \<Longrightarrow> storage_run p ops s = Some s' \<Longrightarrow> storage_holds view fl s \<Longrightarrow>
   storage_holds view (fold flash_after ops fl) s' \<and>
   (trackers_agree fl s \<and> covered_history ops fl \<longrightarrow> trackers_agree (fold flash_after ops fl) s')"
proof (induction ops arbitrary: s fl)
  case (Cons op ops)
  obtain r s1 where c: "storage_call p op s = (r, s1)" by (cases "storage_call p op s")
  with Cons.prems(2) have r: "r = 0 \<or> storage_refuses op" and run: "storage_run p ops s1 = Some s'"
    by (auto split: if_splits)
  note step = storage_call_holds [OF Cons.prems(1) c r Cons.prems(3)]
  show ?case
    using Cons.IH [OF Cons.prems(1) run, of "flash_after op fl"] step by auto
qed simp

lemma boot_holds:
  "view w = (\<lambda>_. None) \<Longrightarrow> storage_holds view empty_flash (storage_boot w)"
  "trackers_agree empty_flash (storage_boot w)"
  by (simp_all add: storage_holds_def storage_flash_holds_def storage_flash_ok_def storage_boot_def stored_def
      empty_flash_def trackers_agree_def byte_eval)

text \<open>A restart after a history reads the abstract flash of the history.\<close>

lemma restart_after_history:
  assumes "nvs_ok p view" and "view w = (\<lambda>_. None)"
    and "storage_run p ops (storage_boot w) = Some s"
    and "flash_device_is_ready p (world s)" and "flash_page_size p (world s) = Some page"
    and "fst (nvs_mount p page 4 (world s)) = 0"
    and fl: "fl = fold flash_after ops empty_flash"
  shows "\<exists>s'. receiver_storage_init p (storage_boot (world s)) = (0, s') \<and>
    receiver_storage_group s' = sf_group fl \<and> receiver_storage_tracker_count s' = sf_count fl \<and>
    (\<forall>tid. receiver_storage_tracker tid s' = (if tid < sf_count fl then sf_entries fl (unat tid) else 0))"
    and "st_group_id s = sf_group fl" and "st_tracker_count s = sf_count fl" and "sf_count fl \<le> 32"
    and "covered_history ops empty_flash \<or> firmware_history ops 0 \<Longrightarrow> trackers_agree fl s"
proof -
  have h: "storage_holds view fl s" and
    a: "covered_history ops empty_flash \<Longrightarrow> trackers_agree fl s"
    using storage_run_holds [OF assms(1,3) boot_holds(1) [of view, OF assms(2)]]
      boot_holds(2) [of w] unfolding fl by blast+
  have f: "firmware_history ops 0 \<Longrightarrow> covered_history ops empty_flash"
    using firmware_history_covered [of ops empty_flash] by (simp add: empty_flash_def covered_def)
  from h have flash: "storage_flash_holds (view (world s)) fl" "storage_flash_ok fl" by (simp_all add: storage_holds_def)
  then have n: "unat (sf_count fl) \<le> 32" by (simp add: storage_flash_ok_def word_le_nat_alt)
  from init_loads [OF assms(1) flash assms(4-6)]
  show "\<exists>s'. receiver_storage_init p (storage_boot (world s)) = (0, s') \<and>
    receiver_storage_group s' = sf_group fl \<and> receiver_storage_tracker_count s' = sf_count fl \<and>
    (\<forall>tid. receiver_storage_tracker tid s' = (if tid < sf_count fl then sf_entries fl (unat tid) else 0))"
    using n by (auto simp: receiver_storage_group_def receiver_storage_tracker_count_def
        receiver_storage_tracker_def nth_append word_less_nat_alt)
  show "st_group_id s = sf_group fl" "st_tracker_count s = sf_count fl" "sf_count fl \<le> 32"
    using h by (simp_all add: storage_holds_def storage_flash_ok_def)
  show "covered_history ops empty_flash \<or> firmware_history ops 0 \<Longrightarrow> trackers_agree fl s"
    using a f by blast
qed

text \<open>
  C23: The configuration survives a restart. Starting from an empty flash, take any history of
  calls of the storage with any ids, counts and order, restarts included, in which no access to
  the flash fails. A restart after it (zeroed variables, then \<open>receiver_storage_init\<close> over the
  flash as it is) succeeds and yields the group set last and the count set last (a clearing sets it
  to 0), which are those of the variables before it, and for every id below the count what the flash holds for it: the address
  stored last, or zero when it was never stored or was below the count when the trackers were
  cleared after that. When no tracker was stored at or above the count at the moment of a clearing
  or a restart, as in the histories of the receiver (\<open>firmware_history\<close>), every tracker has the
  same address as before the restart.
\<close>

theorem storage_survives_restart:
  assumes "nvs_ok p view" and "view w = (\<lambda>_. None)"
    and "storage_run p ops (storage_boot w) = Some s"
    and "flash_device_is_ready p (world s)" and "flash_page_size p (world s) = Some page"
    and "fst (nvs_mount p page 4 (world s)) = 0"
  shows "\<exists>s'. receiver_storage_init p (storage_boot (world s)) = (0, s') \<and>
    receiver_storage_group s' = sf_group (fold flash_after ops empty_flash) \<and>
    receiver_storage_tracker_count s' = sf_count (fold flash_after ops empty_flash) \<and>
    (\<forall>tid. receiver_storage_tracker tid s' =
       (if tid < sf_count (fold flash_after ops empty_flash)
        then sf_entries (fold flash_after ops empty_flash) (unat tid) else 0)) \<and>
    receiver_storage_group s' = receiver_storage_group s \<and>
    receiver_storage_tracker_count s' = receiver_storage_tracker_count s \<and>
    (covered_history ops empty_flash \<or> firmware_history ops 0 \<longrightarrow>
       (\<forall>tid. receiver_storage_tracker tid s' = receiver_storage_tracker tid s))"
  using restart_after_history [OF assms refl]
  by (fastforce simp: receiver_storage_group_def receiver_storage_tracker_count_def
      receiver_storage_tracker_def trackers_agree_def word_less_nat_alt word_le_nat_alt)

text \<open>
  On the reference platform every history goes on. The run of the witness sets a group, then
  tracker 3 with a count that leaves a gap, restarts, and sets tracker 0.
\<close>

lemma ref_delete_trackers: "fst (delete_trackers ref_platform tids w) = 0"
  by (induction tids arbitrary: w) (simp_all add: ref_platform_def split_beta)

lemma ref_storage_call:
  assumes "storage_holds rw_nvs fl s"
  shows "fst (storage_call ref_platform op s) = 0 \<or> storage_refuses op"
proof (cases op)
  case Clear_Trackers
  then show ?thesis
    using ref_delete_trackers by (simp add: storage_call_def receiver_storage_clear_trackers_def
        receiver_storage_set_tracker_count_def Let_def split_beta) (simp add: ref_platform_def)
next
  case Restart
  have "\<exists>w'. receiver_storage_init ref_platform (storage_boot (world s)) = (0, w')"
    using init_loads [OF ref_nvs_ok, of "world s" fl 4096] assms
    by (auto simp: storage_holds_def ref_platform_def)
  then show ?thesis by (auto simp: Restart storage_call_def)
qed (auto simp: storage_call_def receiver_storage_set_tracker_count_def
    receiver_storage_set_tracker_def receiver_storage_set_group_def ref_platform_def Let_def)

lemma ref_storage_run:
  "storage_holds rw_nvs fl s \<Longrightarrow> \<exists>s'. storage_run ref_platform ops s = Some s'"
proof (induction ops arbitrary: fl s)
  case (Cons op ops)
  obtain r s1 where c: "storage_call ref_platform op s = (r, s1)"
    by (cases "storage_call ref_platform op s")
  with ref_storage_call [OF Cons.prems, of op] have r: "r = 0 \<or> storage_refuses op" by simp
  from storage_call_holds [OF ref_nvs_ok c this Cons.prems] Cons.IH
  obtain s' where "storage_run ref_platform ops s1 = Some s'" by blast
  with c r show ?case by auto
qed simp

lemma ref_history:
  "\<exists>s. storage_run ref_platform ops (storage_boot ref_world0) = Some s"
  by (rule ref_storage_run [OF boot_holds(1)]) (simp add: ref_world0_def)

definition storage_demo :: "storage_op list" where
  "storage_demo = [Set_Group 0x0a0b0c0d0e0f, Set_Tracker 3 0x112233445566, Set_Tracker_Count 4,
     Restart, Set_Tracker 0 0x0102030405, Set_Tracker_Count 4]"

theorem storage_survives_restart_witness:
  "\<exists>s s'. storage_run ref_platform storage_demo (storage_boot ref_world0) = Some s \<and>
    receiver_storage_init ref_platform (storage_boot (world s)) = (0, s') \<and>
    receiver_storage_group s' = 0x0a0b0c0d0e0f \<and> receiver_storage_tracker 0 s' = 0x0102030405 \<and>
    receiver_storage_tracker 1 s' = 0 \<and> receiver_storage_tracker 3 s' = 0x112233445566 \<and>
    receiver_storage_tracker 3 s = 0x112233445566"
proof -
  obtain s where s: "storage_run ref_platform storage_demo (storage_boot ref_world0) = Some s"
    using ref_history by blast
  have "flash_device_is_ready ref_platform (world s)"
    "flash_page_size ref_platform (world s) = Some 4096"
    "fst (nvs_mount ref_platform 4096 4 (world s)) = 0" by (simp_all add: ref_platform_def)
  note survives = storage_survives_restart [OF ref_nvs_ok _ s this]
  have "firmware_history storage_demo 0" by (simp add: storage_demo_def)
  with survives s show ?thesis
    by (auto simp: ref_world0_def storage_demo_def flash_after_def empty_flash_def)
qed

text \<open>
  A clearing leaves what is stored above the count: tracker 5 without a count that covers it,
  a clearing, and then a count of 6. The variables have no tracker 5, and after a restart the
  cleared tracker is back.
\<close>

lemma cleared_tracker_returns:
  "\<exists>s s'. storage_run ref_platform [Set_Tracker 5 0x112233445566, Clear_Trackers, Set_Tracker_Count 6]
      (storage_boot ref_world0) = Some s \<and> receiver_storage_tracker 5 s = 0 \<and>
    receiver_storage_init ref_platform (storage_boot (world s)) = (0, s') \<and>
    receiver_storage_tracker 5 s' = 0x112233445566"
proof -
  let ?ops = "[Set_Tracker 5 0x112233445566, Clear_Trackers, Set_Tracker_Count 6]"
  obtain s where s: "storage_run ref_platform ?ops (storage_boot ref_world0) = Some s"
    using ref_history by blast
  then have "receiver_storage_tracker 5 s = 0"
    by (auto simp: storage_call_def storage_boot_def receiver_storage_set_tracker_count_def
        receiver_storage_set_tracker_def receiver_storage_clear_trackers_def ref_platform_def
        receiver_storage_tracker_def Let_def)
  moreover have "flash_device_is_ready ref_platform (world s)"
    "flash_page_size ref_platform (world s) = Some 4096"
    "fst (nvs_mount ref_platform 4096 4 (world s)) = 0" by (simp_all add: ref_platform_def)
  ultimately show ?thesis
    using restart_after_history(1) [OF ref_nvs_ok _ s _ _ _ refl, of 4096] s
    by (auto simp: ref_world0_def flash_after_def empty_flash_def)
qed

end
