(* ===== verification/Report_Packing.thy ===== *)
theory Report_Packing
  imports Report_Builder
begin

text \<open>
  What \<open>report_builder_next\<close> sends: the layout of the 64-byte report, the order in which
  records leave the queue, the round robin of the registrations and the condition under which
  there is something to send. Everything about the queue rests on the facts of
  \<open>report_queue\<close>, the interpretation of the FIFO contract.
\<close>

section \<open>Draining\<close>

lemma take_records_eq: "take_records n s = receive_up_to rb_pop n s"
  by (induction n arbitrary: s) (auto split: option.split)

lemma take_records_spec:
  assumes "rb_invar s"
  shows "fst (take_records n s) = take n (rb_content s) \<and>
    rb_content (snd (take_records n s)) = drop n (rb_content s) \<and>
    rb_invar (snd (take_records n s))"
  unfolding take_records_eq by (rule report_queue.source.up_to_contents [OF assms])

lemma take_records_frame:
  "rb_tracker_addresses (snd (take_records n s)) = rb_tracker_addresses s \<and>
   rb_registration_cursor (snd (take_records n s)) = rb_registration_cursor s \<and>
   rb_last_registration_ms (snd (take_records n s)) = rb_last_registration_ms s \<and>
   rb_drops (snd (take_records n s)) = rb_drops s"
  by (induction n arbitrary: s) (auto simp: rb_pop_def split_beta split: option.splits)

lemma has_registration_frame [simp]:
  "has_registration (snd (take_records n s)) = has_registration s"
  by (simp add: has_registration_def take_records_frame)

section \<open>Registrations\<close>

text \<open>The registration record of tracker \<open>tid\<close>.\<close>

definition registration_record :: "nat \<Rightarrow> u64 \<Rightarrow> byte list" where
  "registration_record tid address = [255, of_nat tid] @ le_of_word 6 address @ zeros 8"

text \<open>The ids of the next \<open>n\<close> registrations, and the state after them.\<close>

primrec registrations :: "nat \<Rightarrow> report_builder \<Rightarrow> byte list list \<times> report_builder" where
  "registrations 0 s = ([], s)"
| "registrations (Suc n) s =
    (case next_registration s of
       None \<Rightarrow> ([], s)
     | Some (reg, s') \<Rightarrow> (let (regs, s'') = registrations n s' in (reg # regs, s'')))"

text \<open>How far the table's cursor is from tracker \<open>tid\<close>.\<close>

definition cursor_distance :: "report_builder \<Rightarrow> nat \<Rightarrow> nat" where
  "cursor_distance s tid = ring_span 32 (unat (rb_registration_cursor s)) tid"

lemma next_registration_none: "next_registration s = None \<longleftrightarrow>
  (\<forall>offset < 32. rb_tracker_addresses s ! ((unat (rb_registration_cursor s) + offset) mod 32) = 0)"
proof -
  have "List.find P (map f [0..<32]) = None \<longleftrightarrow> (\<forall>k < 32. \<not> P (f k))" for P and f :: "nat \<Rightarrow> nat"
    by (auto simp: find_None_iff)
  from this [of "\<lambda>tid. rb_tracker_addresses s ! tid \<noteq> 0"
      "\<lambda>offset. (unat (rb_registration_cursor s) + offset) mod 32"] show ?thesis
    by (auto simp: next_registration_def Let_def split: option.splits)
qed

lemma next_registration_some:
  assumes "next_registration s = Some (reg, s')"
  obtains offset where "offset < 32"
    and "reg = registration_record ((unat (rb_registration_cursor s) + offset) mod 32)
      (rb_tracker_addresses s ! ((unat (rb_registration_cursor s) + offset) mod 32))"
    and "rb_tracker_addresses s ! ((unat (rb_registration_cursor s) + offset) mod 32) \<noteq> 0"
    and "\<forall>j < offset. rb_tracker_addresses s ! ((unat (rb_registration_cursor s) + j) mod 32) = 0"
    and "s' = s\<lparr> rb_registration_cursor :=
      of_nat (Suc ((unat (rb_registration_cursor s) + offset) mod 32) mod 32) \<rparr>"
proof -
  let ?at = "\<lambda>j. (unat (rb_registration_cursor s) + j) mod 32"
  from assms obtain tid where f:
    "List.find (\<lambda>tid. rb_tracker_addresses s ! tid \<noteq> 0) (map ?at [0..<32]) = Some tid"
    and reg: "reg = blit 2 (le_of_word 6 (rb_tracker_addresses s ! tid))
        ((zeros 16)[0 := 255, 1 := of_nat tid])"
    and s': "s' = s\<lparr> rb_registration_cursor := of_nat (Suc tid mod 32) \<rparr>"
    by (auto simp: next_registration_def Let_def split: option.splits)
  from f obtain j where j: "j < 32" "tid = ?at j" "rb_tracker_addresses s ! tid \<noteq> 0"
    "\<forall>i < j. rb_tracker_addresses s ! ?at i = 0"
    by (auto simp: find_Some_iff)
  have "reg = registration_record tid (rb_tracker_addresses s ! tid)"
    by (simp add: reg registration_record_def blit_def byte_eval)
  with j s' show ?thesis by (intro that [of j]) simp_all
qed

lemma length_registration_record [simp]: "length (registration_record tid a) = 16"
  by (simp add: registration_record_def)

lemma next_registration_invar:
  assumes "rb_invar s" "next_registration s = Some (reg, s')"
  shows "rb_invar s' \<and> length reg = 16 \<and> rb_content s' = rb_content s \<and>
    rb_tracker_addresses s' = rb_tracker_addresses s \<and>
    rb_last_registration_ms s' = rb_last_registration_ms s \<and> rb_drops s' = rb_drops s"
proof -
  have "unat (of_nat (Suc n mod 32) :: byte) < 32" for n
    using mod_less_divisor [of 32 "Suc n"] by (simp add: unat_of_nat take_bit_eq_mod)
  moreover obtain tid where "reg = registration_record tid (rb_tracker_addresses s ! tid)"
    "s' = s\<lparr> rb_registration_cursor := of_nat (Suc tid mod 32) \<rparr>"
    by (rule next_registration_some [OF assms(2)]) blast
  ultimately show ?thesis
    using assms(1) by (simp add: rb_invar_def rb_content_def rb_length_def)
qed

lemma next_registration_iff:
  assumes "rb_invar s"
  shows "next_registration s = None \<longleftrightarrow> \<not> has_registration s"
proof -
  have c: "unat (rb_registration_cursor s) < 32"
    using assms by (simp add: rb_invar_def)
  have "\<exists>offset < 32. (unat (rb_registration_cursor s) + offset) mod 32 = tid" if "tid < 32" for tid
    using that c ring_span_end [OF c that] ring_span_lt [OF c that] by blast
  then show ?thesis
    by (auto simp: next_registration_none has_registration_def list_ex_iff) metis
qed

lemma registrations_spec:
  assumes "rb_invar s"
  shows "rb_invar (snd (registrations n s)) \<and>
    rb_content (snd (registrations n s)) = rb_content s \<and>
    rb_tracker_addresses (snd (registrations n s)) = rb_tracker_addresses s \<and>
    rb_last_registration_ms (snd (registrations n s)) = rb_last_registration_ms s \<and>
    rb_drops (snd (registrations n s)) = rb_drops s \<and>
    length (fst (registrations n s)) = (if has_registration s then n else 0) \<and>
    (\<forall>r \<in> set (fst (registrations n s)). length r = 16)"
  using assms
proof (induction n arbitrary: s)
  case (Suc n)
  show ?case
  proof (cases "next_registration s")
    case None
    then show ?thesis using Suc.prems next_registration_iff [OF Suc.prems] by simp
  next
    case (Some p)
    then obtain reg s' where p: "next_registration s = Some (reg, s')" by (cases p) auto
    have "has_registration s' = has_registration s"
      using next_registration_invar [OF Suc.prems p] by (simp add: has_registration_def)
    moreover have "has_registration s"
      using next_registration_iff [OF Suc.prems] p by simp
    ultimately show ?thesis
      using Suc.IH [of s'] next_registration_invar [OF Suc.prems p] by (simp add: p split_beta)
  qed
qed simp


text \<open>
  The round robin: a registration is the wanted one, or brings the cursor nearer to it.
\<close>

lemma next_registration_distance:
  assumes "rb_invar s" and "tid < 32" and "rb_tracker_addresses s ! tid \<noteq> 0"
    and "next_registration s = Some (reg, s')"
  shows "reg = registration_record tid (rb_tracker_addresses s ! tid) \<or>
    cursor_distance s' tid < cursor_distance s tid"
proof -
  let ?c = "unat (rb_registration_cursor s)"
  have c: "?c < 32" using assms(1) by (simp add: rb_invar_def)
  obtain off where off: "off < 32"
    "reg = registration_record ((?c + off) mod 32) (rb_tracker_addresses s ! ((?c + off) mod 32))"
    "rb_tracker_addresses s ! ((?c + off) mod 32) \<noteq> 0"
    "\<forall>j < off. rb_tracker_addresses s ! ((?c + j) mod 32) = 0"
    "s' = s\<lparr> rb_registration_cursor := of_nat (Suc ((?c + off) mod 32) mod 32) \<rparr>"
    by (rule next_registration_some [OF assms(4)])
  let ?d = "ring_span 32 ?c tid"
  have d: "?d < 32" "(?c + ?d) mod 32 = tid"
    using ring_span_lt [OF c assms(2)] ring_span_end [OF c assms(2)] by simp_all
  have le: "off \<le> ?d"
    using off(4) d assms(3) by (metis not_le)
  show ?thesis
  proof (cases "off = ?d")
    case True
    then show ?thesis using off(2) d by simp
  next
    case False
    with le have lt: "off < ?d" by simp
    have cur: "unat (rb_registration_cursor s') = Suc ((?c + off) mod 32) mod 32"
      using mod_less_divisor [of 32 "Suc ((?c + off) mod 32)"]
      by (simp add: off(5) unat_of_nat take_bit_eq_mod)
    have "ring_span 32 (Suc ((?c + off) mod 32) mod 32) tid < ?d"
      by (rule ring_span_step [OF c assms(2) lt])
    then show ?thesis using cur by (simp add: cursor_distance_def)
  qed
qed

lemma registrations_reach:
  assumes "rb_invar s" and "tid < 32" and "rb_tracker_addresses s ! tid \<noteq> 0"
    and "cursor_distance s tid < n"
  shows "registration_record tid (rb_tracker_addresses s ! tid) \<in> set (fst (registrations n s))"
  using assms
proof (induction n arbitrary: s)
  case (Suc n)
  have "has_registration s"
    using Suc.prems by (auto simp: has_registration_def list_ex_iff)
  then obtain reg s' where p: "next_registration s = Some (reg, s')"
    using next_registration_iff [OF Suc.prems(1)] by (cases "next_registration s") auto
  have inv: "rb_invar s'" "rb_tracker_addresses s' = rb_tracker_addresses s"
    using next_registration_invar [OF Suc.prems(1) p] by simp_all
  from next_registration_distance [OF Suc.prems(1-3) p] show ?case
  proof
    assume "cursor_distance s' tid < cursor_distance s tid"
    then show ?thesis
      using Suc.IH [of s'] Suc.prems inv by (simp add: p split_beta)
  qed (simp add: p split_beta)
qed simp

text \<open>
  C29: Registrations are fair: whatever the position of the cursor, every registered tracker is
  among the next 32 registrations that are sent, with its address.
\<close>

theorem registrations_fair:
  assumes "rb_invar s" and "tid < 32" and "rb_tracker_addresses s ! tid \<noteq> 0"
  shows "registration_record tid (rb_tracker_addresses s ! tid) \<in> set (fst (registrations 32 s))"
proof (rule registrations_reach [OF assms])
  show "cursor_distance s tid < 32"
    using assms by (simp add: cursor_distance_def ring_span_lt rb_invar_def)
qed

text \<open>A receiver with trackers 3 and 30.\<close>

definition two_trackers :: report_builder where
  "two_trackers = report_builder_set_tracker 30 0x0000c0ffee00
     (report_builder_set_tracker 3 0x010203040506 (report_builder_init rb_boot))"

lemma set_tracker_invar:
  "rb_invar s \<Longrightarrow> rb_invar (report_builder_set_tracker tid address s)"
proof -
  assume s: "rb_invar s"
  have "address AND ADDRESS_MASK \<le> ADDRESS_MASK"
    by (rule word_and_le1)
  with s show ?thesis
    by (auto simp: report_builder_set_tracker_def rb_invar_def
        dest!: set_update_subset_insert [THEN subsetD])
qed

lemma two_trackers_invar: "rb_invar two_trackers"
  by (simp add: two_trackers_def set_tracker_invar rb_invar_init)

theorem registrations_fair_witness:
  "registration_record 3 0x010203040506 \<in> set (fst (registrations 32 two_trackers))"
proof -
  have "rb_tracker_addresses two_trackers ! 3 = 0x010203040506"
    by (simp add: two_trackers_def report_builder_set_tracker_def rb_boot_def
        report_builder_init_def)
  then show ?thesis using registrations_fair [OF two_trackers_invar, of 3] by simp
qed

section \<open>The report\<close>

text \<open>
  The bytes of a report with data records \<open>recs\<close> and registrations \<open>regs\<close>, written
  down as the host reads them: three 16-byte slots, the metadata header with the number of sensor
  records, one (sequence, RSSI, flags) triple per data record, and the end mark.
\<close>

definition pad :: "nat \<Rightarrow> byte list \<Rightarrow> byte list" where
  "pad n xs = xs @ zeros (n - length xs)"

definition record_triple :: "sv_smol_record \<Rightarrow> byte list" where
  "record_triple r = [sm_sequence (sr_metadata r), sm_rssi (sr_metadata r), sm_flags (sr_metadata r)]"

definition report_bytes :: "sv_smol_record list \<Rightarrow> byte list list \<Rightarrow> byte list" where
  "report_bytes recs regs = pad 48 (concat (map sr_data recs) @ concat regs) @
     [250, 255, 0xd6, 1, of_nat (length (filter is_sensor recs))] @
     pad 10 (concat (map record_triple recs)) @ [0x6d]"

lemma length_concat_const: "\<forall>x \<in> set xs. length x = n \<Longrightarrow> length (concat xs) = length xs * n"
  by (induction xs) auto

lemma concat_chunk:
  "\<forall>r \<in> set xs. length r = n \<Longrightarrow> i < length xs \<Longrightarrow> bslice (n * i) n (concat xs) = xs ! i"
proof (induction xs arbitrary: i)
  case (Cons x xs)
  then show ?case
    by (cases i) (auto simp: bslice_def add.commute [of n])
qed simp

lemma length_record_triple [simp]: "length (record_triple r) = 3"
  by (simp add: record_triple_def)

lemma length_records: "\<forall>r \<in> set rs. record_ok r \<Longrightarrow> length (concat (map sr_data rs)) = length rs * 16"
  using length_concat_const [of "map sr_data rs" 16] by (simp add: record_ok_def)

lemma length_triples: "length (concat (map record_triple rs)) = length rs * 3"
  using length_concat_const [of "map record_triple rs" 3] by simp

lemma length_report_bytes:
  assumes "\<forall>r \<in> set recs. record_ok r" "\<forall>r \<in> set regs. length r = 16"
    and "length recs + length regs \<le> 3"
  shows "length (report_bytes recs regs) = 64"
  using assms length_concat_const [OF assms(2)] length_records [OF assms(1)] length_triples [of recs]
  by (simp add: report_bytes_def pad_def)

lemma write_records_filled:
  assumes "\<forall>r \<in> set rs. record_ok r" "length pre = slot * 16" "length rs * 16 \<le> n"
  shows "write_records rs slot (filled pre n) v =
    (filled (pre @ concat (map sr_data rs)) (n - length rs * 16),
     v + of_nat (length (filter is_sensor rs)))"
  using assms
proof (induction rs arbitrary: pre slot n v)
  case (Cons r rs)
  then have "blit (slot * 16) (sr_data r) (filled pre n) = filled (pre @ sr_data r) (n - 16)"
    by (simp add: buffer_simps record_ok_def)
  moreover have "length (pre @ sr_data r) = Suc slot * 16" "length rs * 16 \<le> n - 16"
    using Cons.prems by (simp_all add: record_ok_def)
  ultimately show ?case
    using Cons.IH [of "pre @ sr_data r" "Suc slot" "n - 16"] Cons.prems(1)
    by (simp add: is_sensor_def)
qed simp

lemma fill_registrations_filled:
  assumes "rb_invar s" "length pre = slot * 16" "(3 - slot) * 16 \<le> n"
  shows "fill_registrations slot (filled pre n) s due =
    (let (regs, s') = registrations (3 - slot) s
     in (filled (pre @ concat regs) (n - length regs * 16), s', due \<or> regs \<noteq> []))"
  using assms
proof (induction "3 - slot" arbitrary: slot pre n s due)
  case 0
  then show ?case by (simp add: fill_registrations.simps)
next
  case (Suc k)
  then have lt: "slot < 3" "3 - Suc slot = k" "3 - slot = Suc k" by simp_all
  show ?case
  proof (cases "next_registration s")
    case None
    then show ?thesis using lt by (simp add: fill_registrations.simps)
  next
    case (Some p)
    then obtain reg s' where p: "next_registration s = Some (reg, s')" by (cases p) auto
    have inv: "rb_invar s'" "length reg = 16"
      using next_registration_invar [OF Suc.prems(1) p] by simp_all
    have w: "blit (slot * 16) reg (filled pre n) = filled (pre @ reg) (n - 16)"
      using Suc.prems inv lt by (simp add: buffer_simps)
    show ?thesis
      using Suc.hyps(1) [of "Suc slot" s' "pre @ reg" "n - 16" True] Suc.prems inv lt
      by (simp add: fill_registrations.simps [of slot] p w split_beta)
  qed
qed

lemma write_metadata_filled:
  assumes "length pre = 53 + slot * 3" "length rs * 3 \<le> n"
  shows "write_metadata rs slot (filled pre n) =
    filled (pre @ concat (map record_triple rs)) (n - length rs * 3)"
  using assms
proof (induction rs arbitrary: pre slot n)
  case (Cons r rs)
  then have "(filled pre n)[48 + (5 + slot * 3) := sm_sequence (sr_metadata r),
      48 + (6 + slot * 3) := sm_rssi (sr_metadata r),
      48 + (7 + slot * 3) := sm_flags (sr_metadata r)] = filled (pre @ record_triple r) (n - 3)"
    by (simp add: buffer_simps record_triple_def flip: numeral_3_eq_3)
  moreover have "length (pre @ record_triple r) = 53 + Suc slot * 3" "length rs * 3 \<le> n - 3"
    using Cons.prems by simp_all
  ultimately show ?case
    using Cons.IH [of "pre @ record_triple r" "Suc slot" "n - 3"] by simp
qed simp

text \<open>The metadata writes of \<open>report_builder_next\<close>, after the slots.\<close>

lemma write_report_tail:
  assumes "length pre \<le> 48" "length rs \<le> 3"
  shows "(write_metadata rs 0 ((filled pre (64 - length pre))
      [48 := 250, 49 := 255, 50 := 0xd6, 51 := 1, 52 := v]))[63 := 0x6d] =
    pad 48 pre @ [250, 255, 0xd6, 1, v] @ pad 10 (concat (map record_triple rs)) @ [0x6d]"
proof -
  let ?pre = "pre @ zeros (48 - length pre)"
  let ?hd = "?pre @ [250, 255, 0xd6, 1, v]" and ?m = "concat (map record_triple rs)"
  have "filled pre (64 - length pre) = filled ?pre 16"
    using assms(1) filled_skip [of "48 - length pre" "64 - length pre" pre] by simp
  then have "(filled pre (64 - length pre))[48 := 250, 49 := 255, 50 := 0xd6, 51 := 1, 52 := v] =
      filled ?hd 11"
    using assms(1) by (simp add: buffer_simps)
  moreover have "write_metadata rs 0 (filled ?hd 11) = filled (?hd @ ?m) (11 - length rs * 3)"
    using assms by (intro write_metadata_filled) simp_all
  moreover have "filled (?hd @ ?m) (11 - length rs * 3) = filled (?hd @ pad 10 ?m) 1"
    using assms filled_skip [of "10 - length rs * 3" "11 - length rs * 3" "?hd @ ?m"]
    by (simp add: pad_def length_triples Suc_diff_le)
  ultimately show ?thesis
    using assms by (simp add: buffer_simps pad_def length_triples)
qed

lemma last_registration_frame [simp]:
  "rb_content (s\<lparr> rb_last_registration_ms := t \<rparr>) = rb_content s"
  "rb_invar (s\<lparr> rb_last_registration_ms := t \<rparr>) = rb_invar s"
  by (simp_all add: rb_content_def rb_length_def rb_invar_def)

lemma report_builder_next_spec:
  fixes now :: int
  assumes inv: "rb_invar s"
  defines "recs \<equiv> take 3 (rb_content s)"
    and "due \<equiv> has_registration s \<and> 100 \<le> now - rb_last_registration_ms s"
    and "regs \<equiv> fst (registrations (3 - length (take 3 (rb_content s)))
      (snd (take_records 3 s)))"
    and "s' \<equiv> snd (report_builder_next now s)"
  shows "fst (report_builder_next now s) =
      (if recs = [] \<and> \<not> due then None else Some (report_bytes recs regs))"
    and "rb_invar s' \<and> rb_content s' = drop 3 (rb_content s) \<and>
      rb_tracker_addresses s' = rb_tracker_addresses s \<and> rb_drops s' = rb_drops s"
    and "rb_last_registration_ms s' =
      (if due \<or> (recs \<noteq> [] \<and> regs \<noteq> []) then now else rb_last_registration_ms s)"
proof -
  obtain rs s1 where t: "take_records 3 s = (rs, s1)" by (cases "take_records 3 s")
  have tk: "rs = recs" "rb_content s1 = drop 3 (rb_content s)" "rb_invar s1"
    using take_records_spec [OF inv, of 3] by (simp_all add: t recs_def)
  have fr: "rb_tracker_addresses s1 = rb_tracker_addresses s" "rb_drops s1 = rb_drops s"
    "rb_last_registration_ms s1 = rb_last_registration_ms s" "has_registration s1 = has_registration s"
    using take_records_frame [of 3 s] has_registration_frame [of 3 s] by (simp_all add: t)
  obtain s2 where r: "registrations (3 - length recs) s1 = (regs, s2)"
    by (cases "registrations (3 - length recs) s1") (simp add: regs_def recs_def t)
  have rg: "rb_invar s2" "rb_content s2 = rb_content s1" "rb_drops s2 = rb_drops s1"
    "rb_tracker_addresses s2 = rb_tracker_addresses s1" "length regs \<le> 3 - length recs"
    "rb_last_registration_ms s2 = rb_last_registration_ms s1" "\<forall>r \<in> set regs. length r = 16"
    using registrations_spec [OF tk(3), of "3 - length recs"] by (simp_all add: r split: if_splits)
  have ok: "\<forall>r \<in> set recs. record_ok r" "length recs \<le> 3"
    using rb_content_ok [OF inv] by (auto simp: recs_def dest: in_set_takeD)
  let ?pre = "concat (map sr_data recs) @ concat regs"
  have pre: "length ?pre = (length recs + length regs) * 16"
    using length_records [OF ok(1)] length_concat_const [OF rg(7)] by simp
  then have le: "length ?pre \<le> 48" using rg(5) ok(2) by simp
  have wr: "write_records recs 0 (zeros 64) 0 = (filled (concat (map sr_data recs))
      (64 - length recs * 16), of_nat (length (filter is_sensor recs)))"
    using write_records_filled [OF ok(1), of "[]" 0 64 0] ok(2) by (simp add: filled_start)
  have fl: "fill_registrations (length recs) (filled (concat (map sr_data recs))
      (64 - length recs * 16)) s1 due = (filled ?pre (64 - length ?pre), s2, due \<or> regs \<noteq> [])"
    using fill_registrations_filled [OF tk(3), of "concat (map sr_data recs)" "length recs"
        "64 - length recs * 16" due] length_records [OF ok(1)] ok(2) pre
    by (simp add: r diff_diff_left add_mult_distrib)
  have tail: "(write_metadata recs 0 ((filled ?pre (64 - length ?pre))[48 := 250, 49 := 255,
      50 := 0xd6, 51 := 1, 52 := of_nat (length (filter is_sensor recs))]))[63 := 0x6d] =
    report_bytes recs regs"
    unfolding write_report_tail [OF le ok(2)] by (simp add: report_bytes_def)
  have due: "(has_registration s1 \<and> 100 \<le> now - rb_last_registration_ms s1) = due"
    by (simp add: fr due_def)
  have eq: "report_builder_next now s =
    (if recs = [] \<and> \<not> due then (None, s1)
     else (Some (report_bytes recs regs),
       if due \<or> regs \<noteq> [] then s2\<lparr> rb_last_registration_ms := now \<rparr> else s2))"
    unfolding report_builder_next_def
    by (simp only: t tk(1) Let_def case_prod_conv wr due fl tail length_0_conv)
  show "fst (report_builder_next now s) =
      (if recs = [] \<and> \<not> due then None else Some (report_bytes recs regs))"
    by (simp add: eq)
  show "rb_last_registration_ms s' =
      (if due \<or> (recs \<noteq> [] \<and> regs \<noteq> []) then now else rb_last_registration_ms s)"
    by (simp add: s'_def eq fr rg)
  show "rb_invar s' \<and> rb_content s' = drop 3 (rb_content s) \<and>
      rb_tracker_addresses s' = rb_tracker_addresses s \<and> rb_drops s' = rb_drops s"
    using tk rg fr by (simp add: s'_def eq)
qed

lemma report_parts:
  assumes "rb_invar s"
  defines "recs \<equiv> take 3 (rb_content s)"
    and "regs \<equiv> fst (registrations (3 - length (take 3 (rb_content s))) (snd (take_records 3 s)))"
  shows "length regs = (if has_registration s then 3 - length recs else 0) \<and>
    length (report_bytes recs regs) = 64"
proof -
  have inv1: "rb_invar (snd (take_records 3 s))"
    using take_records_spec [OF assms(1)] by simp
  have regs: "length regs = (if has_registration s then 3 - length recs else 0)"
    "\<forall>r \<in> set regs. length r = 16"
    using registrations_spec [OF inv1, of "3 - length recs"] by (simp_all add: regs_def recs_def)
  have "\<forall>r \<in> set recs. record_ok r"
    using rb_content_ok [OF assms(1)] by (auto simp: recs_def dest: in_set_takeD)
  then have "length (report_bytes recs regs) = 64"
    using regs by (intro length_report_bytes) (simp_all add: recs_def)
  with regs show ?thesis by simp
qed

lemma report_contents:
  assumes "rb_invar s" and "fst (report_builder_next now s) = Some report"
  shows "\<exists>regs. report = report_bytes (take 3 (rb_content s)) regs \<and> (\<forall>d \<in> set regs. length d = 16) \<and>
    length (take 3 (rb_content s)) + length regs \<le> 3"
proof -
  let ?n = "3 - length (take 3 (rb_content s))" and ?t = "snd (take_records 3 s)"
  have t: "rb_invar ?t" using take_records_spec [OF assms(1)] by blast
  have "length (fst (registrations ?n ?t)) \<le> ?n" "\<forall>d \<in> set (fst (registrations ?n ?t)). length d = 16"
    using registrations_spec [OF t, of ?n] by (simp_all split: if_splits)
  then show ?thesis
    using report_builder_next_spec(1) [OF assms(1), of now] assms(2)
    by (intro exI [of _ "fst (registrations ?n ?t)"]) (auto split: if_splits)
qed

lemma report_output_length:
  assumes "rb_invar s" and "fst (report_builder_next now s) = Some payload"
  shows "length payload = 64"
  using report_builder_next_spec(1) [OF assms(1), of now] assms(2) report_parts [OF assms(1)]
  by (auto split: if_splits)

section \<open>Properties of the reports\<close>

text \<open>
  C20: \<open>report_builder_next\<close> implements its contract. It takes at most three of the oldest
  queued records out of the queue; if there is none and no registration is due it sends nothing.
  Otherwise the 64 bytes it writes are exactly \<open>report_bytes\<close> of these records, the free
  slots filled with registrations from the cursor on (if any tracker is registered), the buffer's
  invariant is kept and neither the tracker table nor the drop counter changes.
\<close>

theorem report_next_refines:
  assumes "rb_invar s"
  shows "\<exists>regs s'. report_builder_next now s =
      (if rb_content s = [] \<and> \<not> (has_registration s \<and> 100 \<le> now - rb_last_registration_ms s)
       then None else Some (report_bytes (take 3 (rb_content s)) regs), s') \<and>
    regs = fst (registrations (3 - length (take 3 (rb_content s))) (snd (take_records 3 s))) \<and>
    length regs = (if has_registration s then 3 - length (take 3 (rb_content s)) else 0) \<and>
    length (report_bytes (take 3 (rb_content s)) regs) = 64 \<and>
    rb_invar s' \<and> rb_content s' = drop 3 (rb_content s) \<and>
    rb_tracker_addresses s' = rb_tracker_addresses s \<and> rb_drops s' = rb_drops s"
proof -
  let ?recs = "take 3 (rb_content s)"
  let ?regs = "fst (registrations (3 - length ?recs) (snd (take_records 3 s)))"
  have "length (report_bytes ?recs ?regs) = 64"
    and regs: "length ?regs = (if has_registration s then 3 - length ?recs else 0)"
    using report_parts [OF assms] by simp_all
  then show ?thesis
    using report_builder_next_spec [OF assms, of now] regs
    by (intro exI [of _ ?regs] exI [of _ "snd (report_builder_next now s)"])
      (simp add: prod_eq_iff)
qed

lemma content_one_record:
  "\<exists>s. report_builder_enqueue ((zeros 16)[1 := 3]) 5 1 4 True two_trackers = Some s \<and> rb_invar s \<and>
     rb_content s = [make_record ((zeros 16)[1 := 3]) 5 1 4] \<and> has_registration s"
proof -
  have c: "rb_content two_trackers = []"
    by (simp add: two_trackers_def report_builder_set_tracker_def rb_content_def rb_length_def
        ring_span_def report_builder_init_def rb_boot_def)
  have h: "has_registration two_trackers"
    unfolding has_registration_def list_ex_iff
    by (rule bexI [of _ 3]) (simp_all add: two_trackers_def report_builder_set_tracker_def
        report_builder_init_def rb_boot_def)
  show ?thesis
    using enqueue_spec [OF two_trackers_invar, of "(zeros 16)[1 := 3]" 5 1 4 True] c h
    by (auto simp: queue_insert_def has_registration_def)
qed

theorem report_next_refines_witness:
  "\<exists>s regs s'. rb_invar s \<and> length regs = 2 \<and>
     report_builder_next 0 s = (Some (report_bytes [make_record ((zeros 16)[1 := 3]) 5 1 4] regs), s') \<and>
     rb_content s' = []"
proof -
  obtain s where s: "rb_invar s" "rb_content s = [make_record ((zeros 16)[1 := 3]) 5 1 4]"
    "has_registration s"
    using content_one_record by blast
  show ?thesis
    using report_next_refines [OF s(1), of 0] s by (intro exI [of _ s]) auto
qed

text \<open>
  \<open>report_builder_pending\<close>, which sets the MORE_PENDING flag of a frame, tells exactly
  whether \<open>report_builder_next\<close> would send a report at the same time: the controller is never
  asked back for nothing and never sent away while something is to be sent.
\<close>

theorem pending_iff_report:
  assumes "rb_invar s"
  shows "report_builder_pending now s \<longleftrightarrow> fst (report_builder_next now s) \<noteq> None"
  using report_builder_next_spec(1) [OF assms, of now] rb_content_empty [OF assms]
  by (simp add: report_builder_pending_def)

theorem pending_iff_report_witness:
  "report_builder_pending 7 two_trackers \<longleftrightarrow> fst (report_builder_next 7 two_trackers) \<noteq> None"
  by (rule pending_iff_report [OF two_trackers_invar])

text \<open>The state after \<open>k\<close> reports, the \<open>i\<close>-th at time \<open>clock i\<close>.\<close>

primrec after_reports :: "(nat \<Rightarrow> int) \<Rightarrow> nat \<Rightarrow> report_builder \<Rightarrow> report_builder" where
  "after_reports clock 0 s = s"
| "after_reports clock (Suc k) s = snd (report_builder_next (clock k) (after_reports clock k s))"

lemma after_reports_spec:
  "rb_invar s \<Longrightarrow> rb_invar (after_reports clock k s) \<and>
   rb_content (after_reports clock k s) = drop (3 * k) (rb_content s)"
  by (induction k) (simp_all add: report_builder_next_spec(2) add.commute)

text \<open>
  Nothing is lost, repeated or reordered on the way out: while the queue is only drained, the
  report number \<open>k\<close> carries, in order, exactly the queued records \<open>3k\<close>, \<open>3k + 1\<close> and
  \<open>3k + 2\<close>, at whatever times the reports are sent, and after 43 reports the queue is empty.
\<close>

theorem reports_in_order:
  assumes "rb_invar s"
  shows "(\<forall>k. 3 * k < length (rb_content s) \<longrightarrow> (\<exists>regs.
      fst (report_builder_next (clock k) (after_reports clock k s)) =
        Some (report_bytes (take 3 (drop (3 * k) (rb_content s))) regs))) \<and>
    rb_content (after_reports clock 43 s) = []"
proof -
  have "length (rb_content s) \<le> 127" by (rule report_queue.content_bound [OF assms])
  then have "rb_content (after_reports clock 43 s) = []"
    using after_reports_spec [OF assms, of clock 43] by simp
  moreover have "\<exists>regs. fst (report_builder_next (clock k) (after_reports clock k s)) =
      Some (report_bytes (take 3 (drop (3 * k) (rb_content s))) regs)"
    if "3 * k < length (rb_content s)" for k
    using that after_reports_spec [OF assms, of clock k]
      report_builder_next_spec(1) [of "after_reports clock k s" "clock k"] by auto
  ultimately show ?thesis by blast
qed

theorem reports_in_order_witness:
  "\<exists>s regs. rb_invar s \<and> fst (report_builder_next 5 s) =
     Some (report_bytes [make_record ((zeros 16)[1 := 3]) 5 1 4] regs)"
proof -
  obtain s where s: "rb_invar s" "rb_content s = [make_record ((zeros 16)[1 := 3]) 5 1 4]"
    using content_one_record by blast
  then obtain regs where "fst (report_builder_next 5 s) =
      Some (report_bytes [make_record ((zeros 16)[1 := 3]) 5 1 4] regs)"
    using conjunct1 [OF reports_in_order [OF s(1), of "\<lambda>_. 5"], rule_format, of 0] by auto
  with s(1) show ?thesis by blast
qed

text \<open>
  Under full load a due registration is skipped and its timer restarted: with three records in
  the queue the report holds no registration, but the time of the last one becomes now.
\<close>

lemma full_report_skips_registration:
  assumes "rb_invar s" "3 \<le> length (rb_content s)" "has_registration s"
    and "100 \<le> now - rb_last_registration_ms s"
  shows "fst (report_builder_next now s) = Some (report_bytes (take 3 (rb_content s)) [])"
    and "rb_last_registration_ms (snd (report_builder_next now s)) = now"
  using report_builder_next_spec(1,3) [OF assms(1), of now] assms by auto

end
