(* ===== verification/Rf_Receiver.thy ===== *)
theory Rf_Receiver
  imports Receiver_Storage Report_Packing
begin

text \<open>
  The radio side of the receiver, \<open>firmware/nrf54l15/src/rf_receiver.c\<close>: reception of RF v2
  packets, pairing and its deferred persistence, and the management operations. The static
  variables extend those of the storage; the report builder's state is a component. Mutex,
  interrupt lock and spin lock make each function one atomic step. A state-changing function
  returns the new state with its result; \<open>None\<close> marks a loop that does not end.
\<close>

section \<open>State (rf_receiver.c)\<close>

abbreviation (input) DEVICE_ADDRESS_MASK :: u64 where "DEVICE_ADDRESS_MASK \<equiv> 0xffffffffffff"
abbreviation (input) RF_V2_PACKET_SIZE :: byte where "RF_V2_PACKET_SIZE \<equiv> 28"
abbreviation (input) RF_V2_VERSION :: byte where "RF_V2_VERSION \<equiv> 2"
abbreviation (input) RF_V2_CRC_SEED :: u32 where "RF_V2_CRC_SEED \<equiv> 0x93a409eb"

definition discovery_base_addr_0 :: "byte list" where
  "discovery_base_addr_0 = [0x62, 0x39, 0x8a, 0xf2]"

definition discovery_prefixes :: "byte list" where
  "discovery_prefixes = [0xfe, 0xff, 0x29, 0x27, 0x09, 0x02, 0xb2, 0xd6]"

record 'w rf_state = "'w storage_state" +
  rf_builder :: report_builder
  rf_receiver_id :: u64
  rf_group_id :: u64
  rf_tracker_addresses :: "u64 list"
  rf_tracker_count :: byte
  rf_primary :: bool
  rf_pairing :: bool
  rf_radio_enabled :: bool
  rf_esb_initialized :: bool
  rf_received_packets :: u32
  rf_crc_errors :: u32
  rf_config_generation :: u32

record rf_receiver_status =
  rs_receiver_id :: u64
  rs_group_id :: u64
  rs_primary :: bool
  rs_pairing :: bool
  rs_radio_enabled :: bool
  rs_tracker_count :: byte
  rs_received :: u32
  rs_crc_errors :: u32

section \<open>Reception\<close>

definition read_device_address :: "'w platform \<Rightarrow> u64" where
  "read_device_address p =
    (push_bit 32 (ucast (snd (ficr_deviceaddr p))) OR ucast (fst (ficr_deviceaddr p)))
      AND DEVICE_ADDRESS_MASK"

definition derive_addresses :: "u64 \<Rightarrow> byte list" where
  "derive_addresses gid =
    (let bytes = le_of_word 6 gid in
     map (\<lambda>i. let b = bytes ! i + bytes ! 4 in
            if b = 0x00 \<or> b = 0x55 \<or> b = 0xaa then b + 8 else b) [0..<4])"

definition add_tracker ::
    "byte \<Rightarrow> u64 \<Rightarrow> ('w, 'x) rf_state_scheme \<Rightarrow> int \<times> ('w, 'x) rf_state_scheme" where
  "add_tracker tid address s =
    (let address = address AND DEVICE_ADDRESS_MASK in
     if SMOL_MAX_TRACKERS \<le> tid \<or> address = 0 then (- EINVAL, s)
     else if rf_tracker_addresses s ! unat tid \<noteq> 0 \<and>
             rf_tracker_addresses s ! unat tid \<noteq> address then (- EADDRINUSE, s)
     else
      (let s = s\<lparr> rf_tracker_addresses := (rf_tracker_addresses s)[unat tid := address] \<rparr>;
           s = (if rf_tracker_count s \<le> tid then s\<lparr> rf_tracker_count := tid + 1 \<rparr> else s)
       in (0, s\<lparr> rf_builder := report_builder_set_tracker tid address (rf_builder s) \<rparr>)))"

text \<open>The calls of the report builder on its part of the state.\<close>

definition rf_enqueue ::
    "byte list \<Rightarrow> byte \<Rightarrow> byte \<Rightarrow> byte \<Rightarrow> bool \<Rightarrow> ('w, 'x) rf_state_scheme \<Rightarrow>
     ('w, 'x) rf_state_scheme option" where
  "rf_enqueue data rssi sequence flags replace s =
    map_option (\<lambda>b. s\<lparr> rf_builder := b \<rparr>)
      (report_builder_enqueue data rssi sequence flags replace (rf_builder s))"

definition handle_rf_v2 ::
    "'w platform \<Rightarrow> esb_payload \<Rightarrow> ('w, 'x) rf_state_scheme \<Rightarrow> ('w, 'x) rf_state_scheme option" where
  "handle_rf_v2 p payload s =
    (let data = ep_data payload in
     if data ! 23 \<noteq> RF_V2_VERSION then Some s
     else if word_of_le (bslice 24 4 data) \<noteq> crc32_k_4_2_update p RF_V2_CRC_SEED (take 24 data)
     then rf_enqueue (251 # 255 # zeros 14) (ep_rssi payload) (data ! 22) SV_SMOL_META_RF_V2 False
            (s\<lparr> rf_crc_errors := rf_crc_errors s + 1 \<rparr>)
     else
      (let tid = data ! 1;
           address = word_of_le (bslice 16 6 data) AND DEVICE_ADDRESS_MASK in
       if SMOL_MAX_TRACKERS \<le> tid \<or> 223 < data ! 0 \<or> address = 0 then Some s
       else
        (let (result, s) =
            (if rf_primary s
             then (if rf_tracker_count s \<le> tid \<or> rf_tracker_addresses s ! unat tid \<noteq> address
                   then (- EINVAL, s) else (0, s))
             else add_tracker tid address s) in
         if result \<noteq> 0 then Some s
         else rf_enqueue data (ep_rssi payload) (data ! 22)
                (SV_SMOL_META_SEQUENCE_VALID OR SV_SMOL_META_RF_V2 OR SV_SMOL_META_CRC_VALID) True
                (s\<lparr> rf_received_packets := rf_received_packets s + 1 \<rparr>))))"

text \<open>The id a pairing request gets: that of its address, or the next one.\<close>

definition pairing_id :: "u64 \<Rightarrow> ('w, 'x) rf_state_scheme \<Rightarrow> byte" where
  "pairing_id address s =
    (case first_index (\<lambda>a. a = address) (take (unat (rf_tracker_count s)) (rf_tracker_addresses s)) of
       Some cursor \<Rightarrow> of_nat cursor
     | None \<Rightarrow> rf_tracker_count s)"

definition pairing_checksum :: "'w platform \<Rightarrow> byte list \<Rightarrow> byte" where
  "pairing_checksum p data =
    (let checksum = crc8_ccitt p 0x07 (bslice 2 6 data) in if checksum = 0 then 8 else checksum)"

definition handle_pair_request ::
    "'w platform \<Rightarrow> esb_payload \<Rightarrow> ('w, 'x) rf_state_scheme \<Rightarrow> ('w, 'x) rf_state_scheme" where
  "handle_pair_request p payload s =
    (let data = ep_data payload in
     if \<not> rf_primary s \<or> \<not> rf_pairing s \<or> ep_length payload \<noteq> 8 \<or> data ! 1 \<noteq> 0 then s
     else
      (let checksum = pairing_checksum p data in
       if checksum \<noteq> data ! 0 then s
       else
        (let address = word_of_le (bslice 2 6 data) AND DEVICE_ADDRESS_MASK in
         if address = 0 then s
         else
          (let tid = pairing_id address s in
           if SMOL_MAX_TRACKERS \<le> tid then s
           else
            (let (result, s) = add_tracker tid address s in
             if result \<noteq> 0 then s
             else
              (let persist = \<lparr> pp_id = tid, pp_tracker_count = rf_tracker_count s,
                     pp_address = address, pp_generation = rf_config_generation s \<rparr>;
                   (result, w) = msgq_put p persist (world s);
                   s = s\<lparr> world := w \<rparr> in
               if result \<noteq> 0 then s
               else
                (let s = s\<lparr> world := submit_persist_work p (world s) \<rparr>;
                     pair_reply = \<lparr> ep_length = 8, ep_pipe = 0, ep_rssi = 0, ep_noack = False,
                       ep_data = [checksum, tid] @ le_of_word 6 (rf_receiver_id s) \<rparr>
                 in s\<lparr> world := esb_write_payload p pair_reply (world s) \<rparr>)))))))"

text \<open>The loop of \<open>receiver_esb_event_handler\<close>, which reads packets until there are no more.\<close>

definition handle_payload ::
    "'w platform \<Rightarrow> esb_payload \<Rightarrow> ('w, 'x) rf_state_scheme \<Rightarrow> ('w, 'x) rf_state_scheme option" where
  "handle_payload p payload s =
    (if ep_pipe payload = 0 then Some (handle_pair_request p payload s)
     else if ep_length payload = RF_V2_PACKET_SIZE then handle_rf_v2 p payload s
     else Some s)"

partial_function (option) receive_packets ::
    "'w platform \<Rightarrow> ('w, 'x) rf_state_scheme \<Rightarrow> ('w, 'x) rf_state_scheme option" where
  "receive_packets p s =
    (case esb_read_rx_payload p (world s) of
       None \<Rightarrow> Some s
     | Some (payload, w) \<Rightarrow>
         Option.bind (handle_payload p payload (s\<lparr> world := w \<rparr>)) (receive_packets p))"

definition receiver_esb_event_handler ::
    "'w platform \<Rightarrow> bool \<Rightarrow> ('w, 'x) rf_state_scheme \<Rightarrow> ('w, 'x) rf_state_scheme option" where
  "receiver_esb_event_handler p rx_received s =
    (if \<not> rx_received then Some s else receive_packets p s)"

section \<open>Deferred persistence\<close>

definition persist_pairing ::
    "'w platform \<Rightarrow> pairing_persist_record \<Rightarrow> ('w, 'x) rf_state_scheme \<Rightarrow>
     int \<times> ('w, 'x) rf_state_scheme" where
  "persist_pairing p record s =
    (if pp_generation record = rf_config_generation s then
       (let (result, s) = receiver_storage_set_tracker p (pp_id record) (pp_address record) s in
        if result = 0 then receiver_storage_set_tracker_count p (pp_tracker_count record) s
        else (result, s))
     else (0, s))"

partial_function (option) persist_pairing_work_handler ::
    "'w platform \<Rightarrow> ('w, 'x) rf_state_scheme \<Rightarrow> ('w, 'x) rf_state_scheme option" where
  "persist_pairing_work_handler p s =
    (case msgq_get p (world s) of
       None \<Rightarrow> Some s
     | Some (record, w) \<Rightarrow>
         persist_pairing_work_handler p (snd (persist_pairing p record (s\<lparr> world := w \<rparr>))))"

section \<open>The radio\<close>

definition stop_radio :: "'w platform \<Rightarrow> ('w, 'x) rf_state_scheme \<Rightarrow> ('w, 'x) rf_state_scheme" where
  "stop_radio p s =
    (if rf_esb_initialized s
     then s\<lparr> world := esb_disable p (esb_stop_rx p (world s)), rf_esb_initialized := False \<rparr>
     else s)"

text \<open>\<open>if (result == 0) result = ...\<close>\<close>

definition and_then :: "int \<times> 'w \<Rightarrow> ('w \<Rightarrow> int \<times> 'w) \<Rightarrow> int \<times> 'w" where
  "and_then r f = (if fst r = 0 then f (snd r) else r)"

definition radio_config :: esb_config where
  "radio_config = \<lparr> ec_mode_prx = True, ec_tx_output_power = 8, ec_retransmit_count = 0,
     ec_selective_auto_ack = True \<rparr>"

definition start_radio ::
    "'w platform \<Rightarrow> ('w, 'x) rf_state_scheme \<Rightarrow> int \<times> ('w, 'x) rf_state_scheme" where
  "start_radio p s =
    (if \<not> rf_radio_enabled s \<or> rf_esb_initialized s then (0, s)
     else
      (let r = esb_init p radio_config (world s);
           r = and_then r (esb_set_base_address_0 p discovery_base_addr_0);
           r = and_then r (esb_set_base_address_1 p (derive_addresses (rf_group_id s)));
           r = and_then r (esb_set_prefixes p discovery_prefixes);
           r = and_then r (esb_enable_pipes p (if rf_pairing s then 3 else 2));
           (result, w) = and_then r (esb_start_rx p) in
       if result \<noteq> 0 then (result, s\<lparr> world := esb_disable p w \<rparr>)
       else (0, s\<lparr> world := w, rf_esb_initialized := True \<rparr>)))"

partial_function (option) wait_clock :: "'w platform \<Rightarrow> 'w \<Rightarrow> (int \<times> int \<times> 'w) option" where
  "wait_clock p w =
    (case sys_notify_fetch_result p w of
       (result, clock_result, w) \<Rightarrow>
         if result = - EAGAIN then wait_clock p w else Some (result, clock_result, w))"

definition start_hf_clock ::
    "'w platform \<Rightarrow> ('w, 'x) rf_state_scheme \<Rightarrow> (int \<times> ('w, 'x) rf_state_scheme) option" where
  "start_hf_clock p s =
    (if \<not> hf_clock_manager p (world s) then Some (- ENXIO, s)
     else
      (let (result, w) = onoff_request p (world s) in
       if result < 0 then Some (result, s\<lparr> world := w \<rparr>)
       else map_option (\<lambda>(result, clock_result, w).
              (if result = 0 then clock_result else result, s\<lparr> world := w \<rparr>)) (wait_clock p w)))"

section \<open>Management operations\<close>

text \<open>The loop of \<open>rf_receiver_init\<close> that copies the stored trackers.\<close>

definition restore_trackers :: "nat \<Rightarrow> ('w, 'x) rf_state_scheme \<Rightarrow> ('w, 'x) rf_state_scheme" where
  "restore_trackers count s =
    foldl (\<lambda>s tid.
      let address = receiver_storage_tracker (of_nat tid) s;
          s = s\<lparr> rf_tracker_addresses := (rf_tracker_addresses s)[tid := address] \<rparr>
      in s\<lparr> rf_builder := report_builder_set_tracker (of_nat tid) address (rf_builder s) \<rparr>)
      s [0..<count]"

definition rf_receiver_init ::
    "'w platform \<Rightarrow> ('w, 'x) rf_state_scheme \<Rightarrow> (int \<times> ('w, 'x) rf_state_scheme) option" where
  "rf_receiver_init p s =
    (let s = s\<lparr> rf_receiver_id := read_device_address p \<rparr>;
         (result, s) = receiver_storage_init p s in
     if result \<noteq> 0 then Some (result, s)
     else
      (let gid = receiver_storage_group s;
           gid = (if gid = 0 then rf_receiver_id s else gid);
           s = s\<lparr> rf_group_id := gid, rf_primary := (gid = rf_receiver_id s),
                  rf_tracker_count := receiver_storage_tracker_count s \<rparr>;
           s = restore_trackers (unat (rf_tracker_count s)) s;
           s = s\<lparr> rf_pairing := (rf_primary s \<and> rf_tracker_count s = 0) \<rparr>
       in Option.bind (start_hf_clock p s)
            (\<lambda>(result, s). Some (if result = 0 then start_radio p s else (result, s)))))"

definition rf_receiver_get_status :: "('w, 'x) rf_state_scheme \<Rightarrow> rf_receiver_status" where
  "rf_receiver_get_status s =
    \<lparr> rs_receiver_id = rf_receiver_id s, rs_group_id = rf_group_id s, rs_primary = rf_primary s,
      rs_pairing = rf_pairing s, rs_radio_enabled = rf_radio_enabled s,
      rs_tracker_count = rf_tracker_count s, rs_received = rf_received_packets s,
      rs_crc_errors = rf_crc_errors s \<rparr>"

definition rf_receiver_tracker :: "byte \<Rightarrow> ('w, 'x) rf_state_scheme \<Rightarrow> u64" where
  "rf_receiver_tracker tid s =
    (if tid < rf_tracker_count s then rf_tracker_addresses s ! unat tid else 0)"

definition rf_receiver_set_group ::
    "'w platform \<Rightarrow> bool \<Rightarrow> u64 \<Rightarrow> ('w, 'x) rf_state_scheme \<Rightarrow> int \<times> ('w, 'x) rf_state_scheme" where
  "rf_receiver_set_group p secondary requested s =
    (let requested = requested AND DEVICE_ADDRESS_MASK in
     if secondary \<and> requested = 0 then (- EINVAL, s)
     else
      (let s = stop_radio p s;
           s = s\<lparr> rf_config_generation := rf_config_generation s + 1 \<rparr>;
           previous_group = rf_group_id s;
           previous_primary = rf_primary s;
           previous_pairing = rf_pairing s;
           s = s\<lparr> rf_group_id := (if secondary then requested else rf_receiver_id s),
                  rf_primary := \<not> secondary, rf_pairing := False \<rparr>;
           (result, s) = receiver_storage_set_group p (if secondary then rf_group_id s else 0) s;
           (clear_result, s) = receiver_storage_clear_trackers p s;
           result = (if result = 0 then clear_result else result) in
       if result \<noteq> 0 then
         (let s = s\<lparr> rf_group_id := previous_group, rf_primary := previous_primary,
                     rf_pairing := previous_pairing \<rparr>;
              (_, s) = receiver_storage_set_group p (if previous_primary then 0 else previous_group) s;
              (_, s) = start_radio p s
          in (result, s))
       else
         (let s = s\<lparr> world := msgq_purge p (world s),
                     rf_tracker_addresses := replicate SMOL_MAX_TRACKERS 0, rf_tracker_count := 0 \<rparr>
          in (0, s\<lparr> rf_builder := report_builder_clear_trackers (rf_builder s) \<rparr>))))"

definition rf_receiver_start_pairing ::
    "'w platform \<Rightarrow> ('w, 'x) rf_state_scheme \<Rightarrow> int \<times> ('w, 'x) rf_state_scheme" where
  "rf_receiver_start_pairing p s =
    (if \<not> rf_primary s then (- EPERM, s)
     else (let s = stop_radio p s; s = s\<lparr> rf_pairing := True \<rparr> in start_radio p s))"

definition rf_receiver_stop_pairing ::
    "'w platform \<Rightarrow> ('w, 'x) rf_state_scheme \<Rightarrow> int \<times> ('w, 'x) rf_state_scheme" where
  "rf_receiver_stop_pairing p s =
    (let s = stop_radio p s; s = s\<lparr> rf_pairing := False \<rparr> in start_radio p s)"

definition rf_receiver_clear_trackers ::
    "'w platform \<Rightarrow> ('w, 'x) rf_state_scheme \<Rightarrow> int \<times> ('w, 'x) rf_state_scheme" where
  "rf_receiver_clear_trackers p s =
    (let s = stop_radio p s;
         s = s\<lparr> rf_config_generation := rf_config_generation s + 1 \<rparr>;
         (result, s) = receiver_storage_clear_trackers p s;
         s = s\<lparr> world := msgq_purge p (world s),
                rf_tracker_addresses := replicate SMOL_MAX_TRACKERS 0, rf_tracker_count := 0,
                rf_pairing := rf_primary s \<rparr>;
         s = s\<lparr> rf_builder := report_builder_clear_trackers (rf_builder s) \<rparr>;
         (radio_result, s) = start_radio p s
     in (if result = 0 then radio_result else result, s))"

definition rf_receiver_set_enabled ::
    "'w platform \<Rightarrow> bool \<Rightarrow> ('w, 'x) rf_state_scheme \<Rightarrow> int \<times> ('w, 'x) rf_state_scheme" where
  "rf_receiver_set_enabled p enabled s =
    (let s = stop_radio p s; s = s\<lparr> rf_radio_enabled := enabled \<rparr> in start_radio p s)"

section \<open>Invariant\<close>

text \<open>
  The tracker table has no entry from the count on and is mirrored in the report builder; only a
  primary pairs; the radio driver runs only while the radio is enabled; a primary never gives two
  ids to one address.
\<close>

definition rf_table :: "u64 list \<Rightarrow> byte \<Rightarrow> bool" where
  "rf_table addresses count \<longleftrightarrow> length addresses = 32 \<and> unat count \<le> 32 \<and>
     (\<forall>i < 32. unat count \<le> i \<longrightarrow> addresses ! i = 0) \<and> (\<forall>a \<in> set addresses. a \<le> DEVICE_ADDRESS_MASK)"

definition unique_ids :: "u64 list \<Rightarrow> bool" where
  "unique_ids addresses \<longleftrightarrow> (\<forall>i < length addresses. \<forall>j < length addresses.
     addresses ! i \<noteq> 0 \<and> addresses ! i = addresses ! j \<longrightarrow> i = j)"

definition rf_invar :: "('w, 'x) rf_state_scheme \<Rightarrow> bool" where
  "rf_invar s \<longleftrightarrow> rf_table (rf_tracker_addresses s) (rf_tracker_count s) \<and>
     rb_invar (rf_builder s) \<and> rb_tracker_addresses (rf_builder s) = rf_tracker_addresses s \<and>
     (rf_pairing s \<longrightarrow> rf_primary s) \<and> (rf_esb_initialized s \<longrightarrow> rf_radio_enabled s) \<and>
     (rf_primary s \<longrightarrow> unique_ids (rf_tracker_addresses s))"

lemma rf_table_empty: "rf_table (replicate 32 0) 0"
  by (simp add: rf_table_def)

lemma unique_ids_empty: "unique_ids (replicate n 0)"
  by (simp add: unique_ids_def)

lemma rf_table_update:
  assumes "rf_table as c" and "tid < 32" and "a \<le> DEVICE_ADDRESS_MASK"
  shows "rf_table (as[unat tid := a]) (if c \<le> tid then tid + 1 else c)"
proof -
  have tid: "unat tid < 32" using assms(2) by (simp add: word_less_nat_alt)
  then have n: "unat (tid + 1) = Suc (unat tid)" by (simp add: unat_word_ariths)
  show ?thesis
    using assms(1,3) tid n
    by (auto simp: rf_table_def word_le_nat_alt nth_list_update
        dest!: set_update_subset_insert [THEN subsetD])
qed

lemma unique_ids_update:
  assumes "unique_ids as" and "\<forall>i < length as. as ! i = a \<longrightarrow> i = k"
  shows "unique_ids (as[k := a])"
  unfolding unique_ids_def
proof (intro allI impI)
  fix i j
  assume ij: "i < length (as[k := a])" "j < length (as[k := a])"
    and eq: "as[k := a] ! i \<noteq> 0 \<and> as[k := a] ! i = as[k := a] ! j"
  show "i = j"
  proof (cases "i = k \<or> j = k")
    case True
    have one: "m = k" if "m < length as" "as ! m = a" for m
      using assms(2) that by blast
    show ?thesis
      using True
    proof
      assume i: "i = k"
      show ?thesis
      proof (rule ccontr)
        assume "i \<noteq> j"
        then have "as ! j = a" using i ij eq by simp
        then show False using one [of j] ij i \<open>i \<noteq> j\<close> by simp
      qed
    next
      assume j: "j = k"
      show ?thesis
      proof (rule ccontr)
        assume "i \<noteq> j"
        then have "as ! i = a" using j ij eq by simp
        then show False using one [of i] ij j \<open>i \<noteq> j\<close> by simp
      qed
    qed
  next
    case False
    then show ?thesis using assms(1) ij eq unfolding unique_ids_def by (simp, blast)
  qed
qed

text \<open>What the calls into storage and radio leave alone.\<close>

definition outer_frame :: "('w, 'x) rf_state_scheme \<Rightarrow> ('w, 'x) rf_state_scheme \<Rightarrow> bool" where
  "outer_frame s s' \<longleftrightarrow> (\<exists>w g ts c e. s' = s\<lparr> world := w, st_group_id := g, st_trackers := ts,
     st_tracker_count := c, rf_esb_initialized := e \<rparr>)"

lemma outer_frameD:
  "outer_frame s s' \<Longrightarrow> rf_builder s' = rf_builder s \<and> rf_receiver_id s' = rf_receiver_id s \<and>
   rf_group_id s' = rf_group_id s \<and> rf_tracker_addresses s' = rf_tracker_addresses s \<and>
   rf_tracker_count s' = rf_tracker_count s \<and> rf_primary s' = rf_primary s \<and>
   rf_pairing s' = rf_pairing s \<and> rf_radio_enabled s' = rf_radio_enabled s \<and>
   rf_received_packets s' = rf_received_packets s \<and> rf_crc_errors s' = rf_crc_errors s \<and>
   rf_config_generation s' = rf_config_generation s"
  by (auto simp: outer_frame_def)

lemma stop_radio_spec:
  "outer_frame s (stop_radio p s) \<and> \<not> rf_esb_initialized (stop_radio p s) \<and>
   st_group_id (stop_radio p s) = st_group_id s \<and> st_trackers (stop_radio p s) = st_trackers s \<and>
   st_tracker_count (stop_radio p s) = st_tracker_count s"
proof -
  have "Ex Not" by (rule exI [of _ False]) simp
  then show ?thesis by (cases s) (simp add: stop_radio_def outer_frame_def)
qed

lemma start_radio_spec:
  assumes "start_radio p s = (r, s')"
  shows "outer_frame s s' \<and> (rf_esb_initialized s' \<longrightarrow> rf_esb_initialized s \<or> rf_radio_enabled s) \<and>
    st_group_id s' = st_group_id s \<and> st_trackers s' = st_trackers s \<and>
    st_tracker_count s' = st_tracker_count s"
  using assms by (cases s) (auto simp: start_radio_def outer_frame_def Let_def split_beta split: if_splits)

lemma set_group_frame:
  "receiver_storage_set_group p gid s = (r, s') \<Longrightarrow>
   outer_frame s s' \<and> rf_esb_initialized s' = rf_esb_initialized s"
  by (cases s) (auto simp: receiver_storage_set_group_def outer_frame_def Let_def split_beta)

lemma set_tracker_frame:
  "receiver_storage_set_tracker p tid a s = (r, s') \<Longrightarrow>
   outer_frame s s' \<and> rf_esb_initialized s' = rf_esb_initialized s"
  by (cases s) (auto simp: receiver_storage_set_tracker_def outer_frame_def Let_def split_beta
      split: if_splits)

lemma set_tracker_count_frame:
  "receiver_storage_set_tracker_count p c s = (r, s') \<Longrightarrow>
   outer_frame s s' \<and> rf_esb_initialized s' = rf_esb_initialized s"
  by (cases s) (auto simp: receiver_storage_set_tracker_count_def outer_frame_def Let_def split_beta
      split: if_splits)

lemma clear_trackers_frame:
  "receiver_storage_clear_trackers p s = (r, s') \<Longrightarrow>
   outer_frame s s' \<and> rf_esb_initialized s' = rf_esb_initialized s"
  by (cases s) (auto simp: receiver_storage_clear_trackers_def receiver_storage_set_tracker_count_def
      outer_frame_def Let_def split_beta split: if_splits)

lemmas frames = stop_radio_spec start_radio_spec set_group_frame set_tracker_frame
  set_tracker_count_frame clear_trackers_frame

lemma rf_invar_frame:
  "outer_frame s s' \<Longrightarrow> (rf_esb_initialized s' \<longrightarrow> rf_esb_initialized s \<or> rf_radio_enabled s) \<Longrightarrow>
   rf_invar s \<Longrightarrow> rf_invar s'"
  by (auto simp: rf_invar_def dest: outer_frameD)

lemma rf_invar_start: "rf_invar s \<Longrightarrow> start_radio p s = (r, s') \<Longrightarrow> rf_invar s'"
  using start_radio_spec [of p s r s'] rf_invar_frame by blast

lemma rf_invar_stop: "rf_invar s \<Longrightarrow> rf_invar (stop_radio p s)"
  using stop_radio_spec [of s p] rf_invar_frame [of s "stop_radio p s"] by blast

section \<open>Reception keeps the invariant\<close>

lemma add_tracker_cases:
  assumes "rf_invar s" and "add_tracker tid a s = (r, s')"
  shows "(r \<noteq> 0 \<longrightarrow> s' = s) \<and>
    (r = 0 \<longrightarrow> tid < 32 \<and> a AND DEVICE_ADDRESS_MASK \<noteq> 0 \<and>
       rf_tracker_addresses s ! unat tid \<in> {0, a AND DEVICE_ADDRESS_MASK} \<and>
       s' = s\<lparr> rf_tracker_addresses := (rf_tracker_addresses s)[unat tid := a AND DEVICE_ADDRESS_MASK],
         rf_tracker_count := (if rf_tracker_count s \<le> tid then tid + 1 else rf_tracker_count s),
         rf_builder := report_builder_set_tracker tid (a AND DEVICE_ADDRESS_MASK) (rf_builder s) \<rparr>)"
  using assms(2) by (cases s) (auto simp: add_tracker_def Let_def split: if_splits)

lemma add_tracker_invar:
  assumes "rf_invar s" and "add_tracker tid a s = (0, s')"
    and "rf_primary s \<Longrightarrow> \<forall>i < 32. rf_tracker_addresses s ! i = a AND DEVICE_ADDRESS_MASK \<longrightarrow> i = unat tid"
  shows "rf_invar s'"
proof -
  let ?a = "a AND DEVICE_ADDRESS_MASK"
  have s': "tid < 32" "s' = s\<lparr> rf_tracker_addresses := (rf_tracker_addresses s)[unat tid := ?a],
         rf_tracker_count := (if rf_tracker_count s \<le> tid then tid + 1 else rf_tracker_count s),
         rf_builder := report_builder_set_tracker tid ?a (rf_builder s) \<rparr>"
    using add_tracker_cases [OF assms(1,2)] by simp_all
  have "rf_primary s \<Longrightarrow> unique_ids ((rf_tracker_addresses s)[unat tid := ?a])"
    using assms(1,3) by (intro unique_ids_update) (simp_all add: rf_invar_def rf_table_def)
  moreover have "rb_tracker_addresses (report_builder_set_tracker tid ?a (rf_builder s)) =
      (rb_tracker_addresses (rf_builder s))[unat tid := ?a]"
    using s'(1) by (simp add: report_builder_set_tracker_def not_le [symmetric] masked_eq masked_le)
  ultimately show ?thesis
    using assms(1) rf_table_update [OF _ s'(1) masked_le, of _ _ a]
    by (simp add: rf_invar_def s'(2) set_tracker_invar)
qed

lemma rf_enqueue_spec:
  assumes "rf_invar s" and "16 \<le> length data"
  shows "\<exists>b. rf_enqueue data rssi sq fl replace s = Some (s\<lparr> rf_builder := b \<rparr>) \<and>
    rb_content b = queue_insert replace (make_record data rssi sq fl) (rb_content (rf_builder s)) \<and>
    rf_invar (s\<lparr> rf_builder := b \<rparr>)"
  using enqueue_spec [OF _ assms(2), of "rf_builder s" rssi sq fl replace] assms(1)
  by (auto simp: rf_enqueue_def rf_invar_def)

lemma rf_invar_counters [simp]:
  "rf_invar (s\<lparr> rf_crc_errors := n \<rparr>) = rf_invar s"
  "rf_invar (s\<lparr> rf_received_packets := n \<rparr>) = rf_invar s"
  "rf_invar (s\<lparr> world := w \<rparr>) = rf_invar s"
  "rf_invar (s\<lparr> rf_config_generation := g \<rparr>) = rf_invar s"
  "rf_invar (s\<lparr> rf_group_id := gid \<rparr>) = rf_invar s"
  by (simp_all add: rf_invar_def)

section \<open>Packets\<close>

text \<open>The receiver listens to a packet of tracker \<open>tid\<close>: a primary to its paired trackers, a
  secondary also to a new one on a free id.\<close>

definition rf_listens :: "byte \<Rightarrow> u64 \<Rightarrow> ('w, 'x) rf_state_scheme \<Rightarrow> bool" where
  "rf_listens tid address s \<longleftrightarrow> tid < 32 \<and> address \<noteq> 0 \<and>
     (rf_tracker_addresses s ! unat tid = address \<or>
      \<not> rf_primary s \<and> rf_tracker_addresses s ! unat tid = 0)"

abbreviation packet_address :: "esb_payload \<Rightarrow> u64" where
  "packet_address m \<equiv> word_of_le (bslice 16 6 (ep_data m)) AND DEVICE_ADDRESS_MASK"

definition crc_valid :: "'w platform \<Rightarrow> esb_payload \<Rightarrow> bool" where
  "crc_valid p m \<longleftrightarrow>
     word_of_le (bslice 24 4 (ep_data m)) = crc32_k_4_2_update p RF_V2_CRC_SEED (take 24 (ep_data m))"

definition rf_accepts :: "'w platform \<Rightarrow> esb_payload \<Rightarrow> ('w, 'x) rf_state_scheme \<Rightarrow> bool" where
  "rf_accepts p m s \<longleftrightarrow> ep_data m ! 23 = 2 \<and> crc_valid p m \<and> ep_data m ! 0 \<le> 223 \<and>
     rf_listens (ep_data m ! 1) (packet_address m) s"

lemma mask_twice [simp]: "a AND DEVICE_ADDRESS_MASK AND DEVICE_ADDRESS_MASK = (a AND DEVICE_ADDRESS_MASK :: u64)"
  by (simp add: ac_simps)

lemma add_tracker_accepts:
  "rf_listens tid a s \<Longrightarrow> a \<le> DEVICE_ADDRESS_MASK \<Longrightarrow> fst (add_tracker tid a s) = 0"
  by (auto simp: add_tracker_def rf_listens_def masked_eq Let_def)

lemma add_tracker_refuses:
  "\<not> rf_primary s \<Longrightarrow> \<not> rf_listens tid a s \<Longrightarrow> a \<le> DEVICE_ADDRESS_MASK \<Longrightarrow>
   fst (add_tracker tid a s) \<noteq> 0 \<and> snd (add_tracker tid a s) = s"
  by (auto simp: add_tracker_def rf_listens_def masked_eq Let_def not_less)

lemma primary_guard:
  assumes "rf_invar s" and "rf_primary s" and "tid < 32" and "a \<noteq> 0"
  shows "(rf_tracker_count s \<le> tid \<or> rf_tracker_addresses s ! unat tid \<noteq> a) \<longleftrightarrow> \<not> rf_listens tid a s"
  using assms by (auto simp: rf_listens_def rf_invar_def rf_table_def word_less_nat_alt word_le_nat_alt)

lemma rf_packet_ignored:
  assumes "rf_invar s" and "\<not> rf_accepts p m s"
    and "ep_data m ! 23 = 2 \<longrightarrow> crc_valid p m"
  shows "handle_rf_v2 p m s = Some s"
proof (cases "ep_data m ! 23 = 2 \<and> ep_data m ! 1 < 32 \<and> ep_data m ! 0 \<le> 223 \<and> packet_address m \<noteq> 0")
  case True
  then have nl: "\<not> rf_listens (ep_data m ! 1) (packet_address m) s"
    using assms by (simp add: rf_accepts_def)
  show ?thesis
  proof (cases "rf_primary s")
    case True
    with \<open>_ \<and> _ \<and> _\<close> nl assms show ?thesis
      using primary_guard [OF assms(1) True, of "ep_data m ! 1" "packet_address m"]
      by (simp add: handle_rf_v2_def Let_def crc_valid_def not_le not_less)
  next
    case False
    with \<open>_ \<and> _ \<and> _\<close> assms show ?thesis
      using add_tracker_refuses [OF False nl masked_le]
      by (simp add: handle_rf_v2_def Let_def crc_valid_def not_le not_less split_beta)
  qed
next
  case False
  with assms(3) show ?thesis
    by (auto simp: handle_rf_v2_def Let_def crc_valid_def not_le not_less)
qed

lemma rf_packet_crc_error:
  assumes "rf_invar s" and "ep_data m ! 23 = 2" and "\<not> crc_valid p m"
  shows "\<exists>b. handle_rf_v2 p m s = Some (s\<lparr> rf_crc_errors := rf_crc_errors s + 1, rf_builder := b \<rparr>) \<and>
    rf_invar (s\<lparr> rf_crc_errors := rf_crc_errors s + 1, rf_builder := b \<rparr>) \<and>
    rb_content b = queue_insert False
      (make_record (251 # 255 # zeros 14) (ep_rssi m) (ep_data m ! 22) 2) (rb_content (rf_builder s))"
  using rf_enqueue_spec [of "s\<lparr> rf_crc_errors := rf_crc_errors s + 1 \<rparr>" "251 # 255 # zeros 14"
      "ep_rssi m" "ep_data m ! 22" 2 False] assms
  by (auto simp: handle_rf_v2_def crc_valid_def)

text \<open>The state a packet of a tracker is accepted in: the tracker is in the table.\<close>

lemma rf_packet_accepted:
  assumes inv: "rf_invar s" and acc: "rf_accepts p m s" and len: "16 \<le> length (ep_data m)"
  shows "\<exists>s'. handle_rf_v2 p m s = Some s' \<and> rf_invar s' \<and>
    rf_received_packets s' = rf_received_packets s + 1 \<and>
    rf_crc_errors s' = rf_crc_errors s \<and>
    rf_tracker_addresses s' = (rf_tracker_addresses s)[unat (ep_data m ! 1) := packet_address m] \<and>
    rb_content (rf_builder s') = queue_insert True
      (make_record (ep_data m) (ep_rssi m) (ep_data m ! 22) 7) (rb_content (rf_builder s))"
proof -
  let ?tid = "ep_data m ! 1" and ?a = "packet_address m"
  have l: "rf_listens ?tid ?a s" and v: "ep_data m ! 23 = 2" "crc_valid p m" "ep_data m ! 0 \<le> 223"
    using acc by (simp_all add: rf_accepts_def)
  have t: "?tid < 32" "?a \<noteq> 0" using l by (simp_all add: rf_listens_def)
  obtain s1 where s1: "(if rf_primary s
      then (if rf_tracker_count s \<le> ?tid \<or> rf_tracker_addresses s ! unat ?tid \<noteq> ?a
            then (- EINVAL, s) else (0, s))
      else add_tracker ?tid ?a s) = (0, s1)" and inv1: "rf_invar s1"
    and tab: "rf_tracker_addresses s1 = (rf_tracker_addresses s)[unat ?tid := ?a]"
    and fr: "rf_received_packets s1 = rf_received_packets s" "rf_crc_errors s1 = rf_crc_errors s"
      "rb_content (rf_builder s1) = rb_content (rf_builder s)"
  proof (cases "rf_primary s")
    case True
    then have "rf_tracker_addresses s ! unat ?tid = ?a" using l by (simp add: rf_listens_def)
    then have "(rf_tracker_addresses s)[unat ?tid := ?a] = rf_tracker_addresses s"
      by (metis list_update_id)
    then show ?thesis
      using primary_guard [OF inv True t] l inv True by (intro that [of s]) simp_all
  next
    case False
    obtain s1 where s1: "add_tracker ?tid ?a s = (0, s1)"
      using add_tracker_accepts [OF l masked_le] by (cases "add_tracker ?tid ?a s") auto
    have "rb_content (report_builder_set_tracker ?tid ?a (rf_builder s)) = rb_content (rf_builder s)"
      by (simp add: report_builder_set_tracker_def rb_content_def rb_length_def)
    then show ?thesis
      using add_tracker_cases [OF inv s1] add_tracker_invar [OF inv s1] s1 False
      by (intro that [of s1]) auto
  qed
  have flags: "SV_SMOL_META_SEQUENCE_VALID OR SV_SMOL_META_RF_V2 OR SV_SMOL_META_CRC_VALID = (7 :: byte)"
    by simp
  obtain b where "rf_enqueue (ep_data m) (ep_rssi m) (ep_data m ! 22) 7 True
      (s1\<lparr> rf_received_packets := rf_received_packets s1 + 1 \<rparr>) =
      Some (s1\<lparr> rf_received_packets := rf_received_packets s1 + 1, rf_builder := b \<rparr>)"
    "rb_content b = queue_insert True (make_record (ep_data m) (ep_rssi m) (ep_data m ! 22) 7)
      (rb_content (rf_builder s1))"
    "rf_invar (s1\<lparr> rf_received_packets := rf_received_packets s1 + 1, rf_builder := b \<rparr>)"
    using rf_enqueue_spec [of "s1\<lparr> rf_received_packets := rf_received_packets s1 + 1 \<rparr>" "ep_data m"
        "ep_rssi m" "ep_data m ! 22" 7 True] inv1 len by auto
  moreover have "handle_rf_v2 p m s = rf_enqueue (ep_data m) (ep_rssi m) (ep_data m ! 22) 7 True
      (s1\<lparr> rf_received_packets := rf_received_packets s1 + 1 \<rparr>)"
  proof -
    have "(ep_data m ! 23 \<noteq> RF_V2_VERSION) = False"
      "(word_of_le (bslice 24 4 (ep_data m)) \<noteq>
        crc32_k_4_2_update p RF_V2_CRC_SEED (take 24 (ep_data m))) = False"
      "(SMOL_MAX_TRACKERS \<le> ?tid \<or> 223 < ep_data m ! 0 \<or> ?a = 0) = False"
      using v t by (auto simp: crc_valid_def not_le not_less)
    then show ?thesis
      by (simp only: handle_rf_v2_def Let_def s1 if_False prod.case flags) simp
  qed
  ultimately show ?thesis
    using fr tab
    by (intro exI [of _ "s1\<lparr> rf_received_packets := rf_received_packets s1 + 1, rf_builder := b \<rparr>"])
      simp
qed

end
