(* ===== verification/Rf_Management.thy ===== *)
theory Rf_Management
  imports Rf_Receiver
begin

text \<open>
  Pairing, persistence and management of the receiver (\<open>rf_receiver.c\<close>): the remaining
  operations keep the invariant, so it holds in every reachable state; ids are stable and unique;
  a group change is all or nothing in the running state; radio addresses avoid the values that
  confuse a preamble.
\<close>

section \<open>Pairing\<close>

lemma pairing_id_only:
  assumes "rf_invar s" and "rf_primary s" and "a \<noteq> 0"
  shows "\<forall>i < 32. rf_tracker_addresses s ! i = a \<longrightarrow> i = unat (pairing_id a s)"
    and "pairing_id a s \<le> rf_tracker_count s"
    and "pairing_id a s < 32 \<Longrightarrow> rf_tracker_addresses s ! unat (pairing_id a s) \<in> {0, a}"
proof -
  let ?as = "rf_tracker_addresses s" and ?n = "unat (rf_tracker_count s)"
  have tab: "length ?as = 32" "?n \<le> 32" "\<forall>i < 32. ?n \<le> i \<longrightarrow> ?as ! i = 0" "unique_ids ?as"
    using assms by (simp_all add: rf_invar_def rf_table_def)
  have "(\<forall>i < 32. ?as ! i = a \<longrightarrow> i = unat (pairing_id a s)) \<and> pairing_id a s \<le> rf_tracker_count s \<and>
    (pairing_id a s < 32 \<longrightarrow> ?as ! unat (pairing_id a s) \<in> {0, a})"
  proof (cases "first_index (\<lambda>x. x = a) (take ?n ?as)")
    case None
    then have none: "\<forall>x \<in> set (take ?n ?as). x \<noteq> a" by (simp add: first_index_None)
    have "?as ! i \<noteq> a" if "i < 32" for i
    proof (cases "i < ?n")
      case True
      then have "?as ! i \<in> set (take ?n ?as)" using tab(1) that by (force simp: in_set_conv_nth)
      with none show ?thesis by blast
    next
      case False
      with tab(3) that have "?as ! i = 0" by simp
      with assms(3) show ?thesis by simp
    qed
    moreover have "pairing_id a s = rf_tracker_count s" using None by (simp add: pairing_id_def)
    ultimately show ?thesis using tab by (simp add: word_less_nat_alt)
  next
    case (Some k)
    from first_index_Some [OF Some] have k: "k < ?n" "?as ! k = a" using tab(1,2) by auto
    have id: "pairing_id a s = of_nat k" using Some by (simp add: pairing_id_def)
    then have uk: "unat (pairing_id a s) = k"
      using k tab(2) by (simp add: unat_of_nat take_bit_eq_mod)
    have "i = k" if "i < 32" "?as ! i = a" for i
    proof -
      have "i < length ?as" "k < length ?as" "?as ! i \<noteq> 0 \<and> ?as ! i = ?as ! k"
        using that k tab(1,2) assms(3) by simp_all
      with tab(4) show ?thesis unfolding unique_ids_def by blast
    qed
    with uk k show ?thesis by (simp add: word_le_nat_alt)
  qed
  then show "\<forall>i < 32. ?as ! i = a \<longrightarrow> i = unat (pairing_id a s)"
    and "pairing_id a s \<le> rf_tracker_count s"
    and "pairing_id a s < 32 \<Longrightarrow> ?as ! unat (pairing_id a s) \<in> {0, a}" by blast+
qed

text \<open>A request is answered under these conditions.\<close>

definition pair_accepts :: "'w platform \<Rightarrow> esb_payload \<Rightarrow> ('w, 'x) rf_state_scheme \<Rightarrow> bool" where
  "pair_accepts p m s \<longleftrightarrow> rf_primary s \<and> rf_pairing s \<and> ep_length m = 8 \<and> ep_data m ! 1 = 0 \<and>
     pairing_checksum p (ep_data m) = ep_data m ! 0 \<and>
     word_of_le (bslice 2 6 (ep_data m)) AND DEVICE_ADDRESS_MASK \<noteq> (0 :: u64) \<and>
     pairing_id (word_of_le (bslice 2 6 (ep_data m)) AND DEVICE_ADDRESS_MASK) s < 32"

lemma pair_refused: "\<not> pair_accepts p m s \<Longrightarrow> handle_pair_request p m s = s"
  unfolding handle_pair_request_def pair_accepts_def Let_def by (auto simp: not_less)

lemma pair_accepted:
  fixes m :: esb_payload
  defines "a \<equiv> word_of_le (bslice 2 6 (ep_data m)) AND DEVICE_ADDRESS_MASK"
  assumes inv: "rf_invar s" and acc: "pair_accepts p m s"
  shows "\<exists>w. handle_pair_request p m s = s\<lparr> rf_tracker_addresses := (rf_tracker_addresses s)[unat (pairing_id a s) := a],
      rf_tracker_count := max (rf_tracker_count s) (pairing_id a s + 1),
      rf_builder := report_builder_set_tracker (pairing_id a s) a (rf_builder s), world := w \<rparr> \<and>
    rf_invar (handle_pair_request p m s)"
proof -
  let ?t = "pairing_id a s"
  have c: "rf_primary s" "a \<noteq> 0" "?t < 32" using acc by (simp_all add: pair_accepts_def a_def)
  note only = pairing_id_only [OF inv c(1,2)]
  have am: "a AND DEVICE_ADDRESS_MASK = a" by (simp add: a_def)
  have "fst (add_tracker ?t a s) = 0"
    using only(3) c am by (auto simp: add_tracker_def Let_def not_le)
  then obtain s1 where s1: "add_tracker ?t a s = (0, s1)"
    by (cases "add_tracker ?t a s") auto
  have inv1: "rf_invar s1"
    using only(1) am by (intro add_tracker_invar [OF inv s1]) simp
  have m: "(if rf_tracker_count s \<le> ?t then ?t + 1 else rf_tracker_count s) =
      max (rf_tracker_count s) (?t + 1)"
  proof -
    have "unat (?t + 1) = Suc (unat ?t)" using c(3) by (simp add: word_less_nat_alt unat_word_ariths)
    then show ?thesis by (auto simp: max_def word_le_nat_alt word_unat_eq_iff)
  qed
  have s1': "s1 = s\<lparr> rf_tracker_addresses := (rf_tracker_addresses s)[unat ?t := a],
      rf_tracker_count := max (rf_tracker_count s) (?t + 1),
      rf_builder := report_builder_set_tracker ?t a (rf_builder s) \<rparr>"
    using add_tracker_cases [OF inv s1] am m by simp
  have "\<exists>w. handle_pair_request p m s = s1\<lparr> world := w \<rparr>"
    using acc s1 unfolding handle_pair_request_def pair_accepts_def
    by (cases s1) (auto simp: Let_def split_beta simp flip: a_def)
  then obtain w where w: "handle_pair_request p m s = s1\<lparr> world := w \<rparr>" ..
  then have "rf_invar (handle_pair_request p m s)" using inv1 by simp
  with w show ?thesis by (auto simp: s1')
qed

lemma pair_invar: "rf_invar s \<Longrightarrow> rf_invar (handle_pair_request p m s)"
  using pair_refused pair_accepted by metis

section \<open>Operations\<close>

text \<open>Entries of the table are never overwritten, only free ones are filled.\<close>

definition table_extends :: "('w, 'x) rf_state_scheme \<Rightarrow> ('w, 'x) rf_state_scheme \<Rightarrow> bool" where
  "table_extends s s' \<longleftrightarrow> (\<forall>i < 32. rf_tracker_addresses s ! i \<noteq> 0 \<longrightarrow>
     rf_tracker_addresses s' ! i = rf_tracker_addresses s ! i)"

lemma table_extends_refl [simp]: "table_extends s s"
  by (simp add: table_extends_def)

lemma table_extends_trans: "table_extends s t \<Longrightarrow> table_extends t u \<Longrightarrow> table_extends s u"
  by (simp add: table_extends_def)

lemma table_extends_eq:
  "rf_tracker_addresses s' = rf_tracker_addresses s \<Longrightarrow> table_extends s s'"
  by (simp add: table_extends_def)

lemma table_extends_update:
  assumes "rf_tracker_addresses s' = (rf_tracker_addresses s)[k := a]"
    and "rf_tracker_addresses s ! k \<in> {0, a}" and "length (rf_tracker_addresses s) = 32"
  shows "table_extends s s'"
  unfolding table_extends_def
proof (intro allI impI)
  fix i
  assume "i < (32 :: nat)" "rf_tracker_addresses s ! i \<noteq> 0"
  with assms show "rf_tracker_addresses s' ! i = rf_tracker_addresses s ! i"
    by (cases "i = k") auto
qed

lemma rf_v2_invar:
  assumes "rf_invar s" and "16 \<le> length (ep_data m)"
  shows "\<exists>s'. handle_rf_v2 p m s = Some s' \<and> rf_invar s' \<and> table_extends s s'"
proof (cases "rf_accepts p m s")
  case True
  have "rf_tracker_addresses s ! unat (ep_data m ! 1) \<in> {0, packet_address m}"
    "length (rf_tracker_addresses s) = 32"
    using True assms(1) by (auto simp: rf_accepts_def rf_listens_def rf_invar_def rf_table_def)
  then show ?thesis
    using rf_packet_accepted [OF assms(1) True assms(2)] table_extends_update by blast
next
  case False
  show ?thesis
  proof (cases "ep_data m ! 23 = 2 \<and> \<not> crc_valid p m")
    case True
    then show ?thesis
      using rf_packet_crc_error [OF assms(1), of m p] table_extends_eq [of "s\<lparr> rf_crc_errors := _, rf_builder := _ \<rparr>" s]
      by auto
  next
    case False
    then show ?thesis
      using rf_packet_ignored [OF assms(1) \<open>\<not> rf_accepts p m s\<close>] assms(1) by auto
  qed
qed

lemma pair_extends: "rf_invar s \<Longrightarrow> table_extends s (handle_pair_request p m s)"
proof (cases "pair_accepts p m s")
  case True
  assume inv: "rf_invar s"
  let ?a = "word_of_le (bslice 2 6 (ep_data m)) AND DEVICE_ADDRESS_MASK :: u64"
  have "rf_primary s" "?a \<noteq> 0" "pairing_id ?a s < 32"
    using True by (simp_all add: pair_accepts_def)
  then have "rf_tracker_addresses s ! unat (pairing_id ?a s) \<in> {0, ?a}"
    using pairing_id_only(3) [OF inv] by blast
  moreover have "length (rf_tracker_addresses s) = 32"
    using inv by (simp add: rf_invar_def rf_table_def)
  ultimately show ?thesis
    using pair_accepted [OF inv True] by (intro table_extends_update [of _ _ "unat (pairing_id ?a s)" ?a]) auto
next
  case False
  then show ?thesis by (simp add: pair_refused)
qed

lemma payload_invar:
  assumes "rf_invar s" and "16 \<le> length (ep_data m)"
  shows "\<exists>s'. handle_payload p m s = Some s' \<and> rf_invar s' \<and> table_extends s s'"
  using rf_v2_invar [OF assms] pair_invar [OF assms(1)] pair_extends [OF assms(1)] assms(1)
  by (simp add: handle_payload_def)

text \<open>
  Documented behaviour of the driver's receive queue \<open>rx\<close>: reading takes the first packet, and
  nothing the handler does in between adds or removes one. Packet buffers have at least 32 bytes.
\<close>

definition radio_ok :: "'w platform \<Rightarrow> ('w \<Rightarrow> esb_payload list) \<Rightarrow> bool" where
  "radio_ok p rx \<longleftrightarrow>
    (\<forall>w. rx w = [] \<longrightarrow> esb_read_rx_payload p w = None) \<and>
    (\<forall>w m ms. rx w = m # ms \<longrightarrow> (\<exists>w'. esb_read_rx_payload p w = Some (m, w') \<and> rx w' = ms)) \<and>
    (\<forall>w m. m \<in> set (rx w) \<longrightarrow> 32 \<le> length (ep_data m)) \<and>
    (\<forall>r w. rx (snd (msgq_put p r w)) = rx w) \<and> (\<forall>w. rx (submit_persist_work p w) = rx w) \<and>
    (\<forall>m w. rx (esb_write_payload p m w) = rx w)"

lemma pair_rx:
  assumes "radio_ok p rx"
  shows "rx (world (handle_pair_request p m s)) = rx (world s)"
  using assms by (auto simp: radio_ok_def handle_pair_request_def add_tracker_def Let_def split_beta)

lemma rf_v2_rx: "handle_rf_v2 p m s = Some s' \<Longrightarrow> world s' = world s"
  by (auto simp: handle_rf_v2_def rf_enqueue_def add_tracker_def Let_def split_beta split: if_splits)

lemma payload_rx:
  "radio_ok p rx \<Longrightarrow> handle_payload p m s = Some s' \<Longrightarrow> rx (world s') = rx (world s)"
  by (auto simp: handle_payload_def pair_rx rf_v2_rx split: if_splits)

lemma receive_packets_spec:
  assumes "radio_ok p rx" and "rf_invar s"
  shows "\<exists>s'. receive_packets p s = Some s' \<and> rf_invar s' \<and> table_extends s s' \<and> rx (world s') = []"
  using assms(2)
proof (induction "rx (world s)" arbitrary: s)
  case Nil
  then have "esb_read_rx_payload p (world s) = None"
    using assms(1) by (simp add: radio_ok_def)
  with Nil show ?case by (simp add: receive_packets.simps)
next
  case (Cons m ms)
  then obtain w where w: "esb_read_rx_payload p (world s) = Some (m, w)" "rx w = ms"
    using assms(1) unfolding radio_ok_def by metis
  have "32 \<le> length (ep_data m)"
    using assms(1) Cons.hyps(2) unfolding radio_ok_def by (metis list.set_intros(1))
  then obtain s1 where s1: "handle_payload p m (s\<lparr> world := w \<rparr>) = Some s1" "rf_invar s1"
    "table_extends (s\<lparr> world := w \<rparr>) s1"
    using payload_invar [of "s\<lparr> world := w \<rparr>" m p] Cons.prems by auto
  have ext: "table_extends s s1" using s1(3) by (simp add: table_extends_def)
  have "rx (world s1) = ms" using payload_rx [OF assms(1) s1(1)] w by simp
  from Cons.hyps(1) [OF this [symmetric] s1(2)] show ?case
    using table_extends_trans [OF ext] by (auto simp: receive_packets.simps [of p s] w s1)
qed

lemma outer_frame_refl: "outer_frame s s"
  unfolding outer_frame_def by (cases s) simp

lemma outer_frame_trans: "outer_frame s t \<Longrightarrow> outer_frame t u \<Longrightarrow> outer_frame s u"
  unfolding outer_frame_def by (cases s) auto

lemma persist_frame:
  "outer_frame s (snd (persist_pairing p r s)) \<and>
   rf_esb_initialized (snd (persist_pairing p r s)) = rf_esb_initialized s"
proof (cases "pp_generation r = rf_config_generation s")
  case True
  obtain e s1 where t: "receiver_storage_set_tracker p (pp_id r) (pp_address r) s = (e, s1)" by fastforce
  obtain e' s2 where c: "receiver_storage_set_tracker_count p (pp_tracker_count r) s1 = (e', s2)"
    by fastforce
  have "persist_pairing p r s = (if e = 0 then (e', s2) else (e, s1))"
    using True by (simp add: persist_pairing_def t c)
  then show ?thesis
    using set_tracker_frame [OF t] set_tracker_count_frame [OF c] outer_frame_trans by auto
next
  case False
  then show ?thesis by (simp add: persist_pairing_def outer_frame_refl)
qed

text \<open>A group change that fails leaves the running configuration as it was.\<close>

lemma set_group_fails:
  assumes "rf_receiver_set_group p secondary g s = (r, s')" and "r \<noteq> 0"
  shows "\<exists>t. outer_frame (s\<lparr> rf_config_generation := t \<rparr>) s' \<and>
    (rf_esb_initialized s' \<longrightarrow> rf_esb_initialized s \<or> rf_radio_enabled s)"
proof (cases "secondary \<and> g AND DEVICE_ADDRESS_MASK = 0")
  case True
  then have "s' = s" using assms(1) by (simp add: rf_receiver_set_group_def)
  moreover have "outer_frame (s\<lparr> rf_config_generation := rf_config_generation s \<rparr>) s"
    using outer_frame_refl [of s] by simp
  ultimately show ?thesis by blast
next
  case False
  let ?g = "rf_config_generation s + 1"
  let ?G = "if secondary then g AND DEVICE_ADDRESS_MASK else rf_receiver_id s"
  let ?s0 = "stop_radio p s"
  let ?s1 = "?s0\<lparr> rf_config_generation := rf_config_generation ?s0 + 1, rf_group_id := ?G,
      rf_primary := \<not> secondary, rf_pairing := False \<rparr>"
  have f0: "outer_frame s ?s0" "\<not> rf_esb_initialized ?s0" using stop_radio_spec [of s p] by auto
  note fs = outer_frameD [OF f0(1)]
  obtain r1 s2 where s2: "receiver_storage_set_group p (if secondary then ?G else 0) ?s1 = (r1, s2)"
    by fastforce
  obtain r2 s3 where s3: "receiver_storage_clear_trackers p s2 = (r2, s3)" by fastforce
  let ?s4 = "s3\<lparr> rf_group_id := rf_group_id s, rf_primary := rf_primary s, rf_pairing := rf_pairing s \<rparr>"
  obtain r3 s5 where s5: "receiver_storage_set_group p (if rf_primary s then 0 else rf_group_id s) ?s4 = (r3, s5)"
    by fastforce
  obtain r4 s6 where s6: "start_radio p s5 = (r4, s6)" by fastforce
  have s': "s' = s6"
    using assms False s2 s3 s5 s6 fs
    by (simp add: rf_receiver_set_group_def Let_def cong: if_cong split: if_splits)
  have f1: "outer_frame ?s1 s3" "rf_esb_initialized s3 = rf_esb_initialized ?s1"
    using set_group_frame [OF s2] clear_trackers_frame [OF s3] outer_frame_trans by auto
  have f4: "outer_frame ?s4 s6" "rf_esb_initialized s6 \<longrightarrow> rf_esb_initialized ?s4 \<or> rf_radio_enabled ?s4"
    using set_group_frame [OF s5] start_radio_spec [OF s6] outer_frame_trans
      outer_frameD [of ?s4 s5] by auto
  have "outer_frame (s\<lparr> rf_config_generation := ?g \<rparr>) ?s4"
    using f1(1) f0(1) by (cases s) (auto simp: outer_frame_def)
  then have "outer_frame (s\<lparr> rf_config_generation := ?g \<rparr>) s6"
    using f4(1) by (rule outer_frame_trans)
  moreover have "rf_esb_initialized s6 \<longrightarrow> rf_radio_enabled s"
    using f4(2) f1 f0 fs outer_frameD [OF f1(1)] by auto
  ultimately show ?thesis unfolding s' by blast
qed

lemma set_group_commits:
  assumes "rf_receiver_set_group p secondary g s = (0, s')"
  shows "rf_group_id s' = (if secondary then g AND DEVICE_ADDRESS_MASK else rf_receiver_id s) \<and>
    rf_receiver_id s' = rf_receiver_id s \<and> rf_primary s' = (\<not> secondary) \<and> \<not> rf_pairing s' \<and>
    rf_tracker_addresses s' = replicate 32 0 \<and> rf_tracker_count s' = 0 \<and>
    rf_builder s' = report_builder_clear_trackers (rf_builder s) \<and>
    \<not> rf_esb_initialized s' \<and> rf_radio_enabled s' = rf_radio_enabled s \<and>
    rf_config_generation s' = rf_config_generation s + 1 \<and>
    st_group_id s' = (if secondary then g AND DEVICE_ADDRESS_MASK else 0) \<and>
    st_tracker_count s' = 0 \<and> st_trackers s' = replicate 32 0"
proof -
  have ok: "\<not> (secondary \<and> g AND DEVICE_ADDRESS_MASK = 0)"
    using assms by (auto simp: rf_receiver_set_group_def)
  let ?G = "if secondary then g AND DEVICE_ADDRESS_MASK else rf_receiver_id s"
  let ?s0 = "stop_radio p s"
  let ?s1 = "?s0\<lparr> rf_config_generation := rf_config_generation ?s0 + 1, rf_group_id := ?G,
      rf_primary := \<not> secondary, rf_pairing := False \<rparr>"
  have f0: "outer_frame s ?s0" "\<not> rf_esb_initialized ?s0" using stop_radio_spec [of s p] by auto
  note fs = outer_frameD [OF f0(1)]
  obtain r1 s2 where s2: "receiver_storage_set_group p (if secondary then ?G else 0) ?s1 = (r1, s2)"
    by fastforce
  obtain r2 s3 where s3: "receiver_storage_clear_trackers p s2 = (r2, s3)" by fastforce
  have r: "r1 = 0" "r2 = 0" and s': "s' = s3\<lparr> world := msgq_purge p (world s3),
      rf_tracker_addresses := replicate 32 0, rf_tracker_count := 0,
      rf_builder := report_builder_clear_trackers (rf_builder s3) \<rparr>"
    using assms ok s2 s3 fs
    by (auto simp: rf_receiver_set_group_def Let_def split_beta cong: if_cong split: if_splits)
  have g: "st_group_id s2 = (if secondary then g AND DEVICE_ADDRESS_MASK else 0)"
    using s2 by (auto simp: receiver_storage_set_group_def Let_def split_beta)
  have c: "st_group_id s3 = st_group_id s2" "st_tracker_count s3 = 0" "st_trackers s3 = replicate 32 0"
    using s3 r by (auto simp: receiver_storage_clear_trackers_def receiver_storage_set_tracker_count_def
        Let_def split_beta split: if_splits)
  have f1: "outer_frame ?s1 s3" "rf_esb_initialized s3 = rf_esb_initialized ?s1"
    using set_group_frame [OF s2] clear_trackers_frame [OF s3] outer_frame_trans by auto
  show ?thesis
    using outer_frameD [OF f1(1)] fs f0 f1(2) g c by (simp add: s')
qed

lemma clear_trackers_spec:
  assumes "rf_receiver_clear_trackers p s = (r, s')"
  shows "rf_group_id s' = rf_group_id s \<and> rf_receiver_id s' = rf_receiver_id s \<and>
    rf_primary s' = rf_primary s \<and> rf_pairing s' = rf_primary s \<and>
    rf_tracker_addresses s' = replicate 32 0 \<and> rf_tracker_count s' = 0 \<and>
    rf_builder s' = report_builder_clear_trackers (rf_builder s) \<and>
    (rf_esb_initialized s' \<longrightarrow> rf_radio_enabled s) \<and> rf_radio_enabled s' = rf_radio_enabled s \<and>
    rf_config_generation s' = rf_config_generation s + 1"
proof -
  let ?s0 = "stop_radio p s"
  let ?s1 = "?s0\<lparr> rf_config_generation := rf_config_generation ?s0 + 1 \<rparr>"
  have f0: "outer_frame s ?s0" "\<not> rf_esb_initialized ?s0" using stop_radio_spec [of s p] by auto
  note fs = outer_frameD [OF f0(1)]
  obtain r1 s2 where s2: "receiver_storage_clear_trackers p ?s1 = (r1, s2)" by fastforce
  let ?s3 = "s2\<lparr> world := msgq_purge p (world s2), rf_tracker_addresses := replicate 32 0,
      rf_tracker_count := 0, rf_pairing := rf_primary s2,
      rf_builder := report_builder_clear_trackers (rf_builder s2) \<rparr>"
  obtain r3 s4 where s4: "start_radio p ?s3 = (r3, s4)" by fastforce
  have s': "s' = s4"
    using assms s2 s4 by (simp add: rf_receiver_clear_trackers_def Let_def)
  have f1: "outer_frame ?s1 s2" "rf_esb_initialized s2 = rf_esb_initialized ?s1"
    using clear_trackers_frame [OF s2] by auto
  show ?thesis
    using outer_frameD [OF f1(1)] fs f0 f1(2) start_radio_spec [OF s4] outer_frameD [of ?s3 s4]
    by (auto simp: s')
qed

section \<open>Reachable states\<close>

text \<open>
  The atomic steps of the receiver. Quiet steps keep the tracker table (or add to it): radio
  events, the persistence work, pairing on and off, the radio switch and taking a report for the
  ESP32. Resets clear it: a new group, or the removal of the trackers.
\<close>

inductive rf_quiet ::
    "'w platform \<Rightarrow> ('w, 'x) rf_state_scheme \<Rightarrow> ('w, 'x) rf_state_scheme \<Rightarrow> bool" for p :: "'w platform" where
  quiet_event: "receiver_esb_event_handler p rx_received s = Some s' \<Longrightarrow> rf_quiet p s s'"
| quiet_persist: "persist_pairing_work_handler p s = Some s' \<Longrightarrow> rf_quiet p s s'"
| quiet_start_pairing: "rf_receiver_start_pairing p s = (r, s') \<Longrightarrow> rf_quiet p s s'"
| quiet_stop_pairing: "rf_receiver_stop_pairing p s = (r, s') \<Longrightarrow> rf_quiet p s s'"
| quiet_enable: "rf_receiver_set_enabled p enabled s = (r, s') \<Longrightarrow> rf_quiet p s s'"
| quiet_report: "s' = s\<lparr> rf_builder := snd (report_builder_next now (rf_builder s)) \<rparr> \<Longrightarrow> rf_quiet p s s'"

inductive rf_reset ::
    "'w platform \<Rightarrow> ('w, 'x) rf_state_scheme \<Rightarrow> ('w, 'x) rf_state_scheme \<Rightarrow> bool" for p :: "'w platform" where
  reset_group: "rf_receiver_set_group p secondary g s = (r, s') \<Longrightarrow> rf_reset p s s'"
| reset_trackers: "rf_receiver_clear_trackers p s = (r, s') \<Longrightarrow> rf_reset p s s'"

inductive_cases rf_quietE: "rf_quiet p s s'"
inductive_cases rf_resetE: "rf_reset p s s'"

definition rf_step ::
    "'w platform \<Rightarrow> ('w, 'x) rf_state_scheme \<Rightarrow> ('w, 'x) rf_state_scheme \<Rightarrow> bool" where
  "rf_step p s s' \<longleftrightarrow> rf_quiet p s s' \<or> rf_reset p s s'"

lemma world_frame: "outer_frame s (s\<lparr> world := w \<rparr>)"
  unfolding outer_frame_def by (cases s) simp

lemma persist_handler_frame:
  assumes "persist_pairing_work_handler p s = Some s'"
  shows "outer_frame s s' \<and> rf_esb_initialized s' = rf_esb_initialized s"
proof (rule persist_pairing_work_handler.raw_induct [of "\<lambda>p s s'. outer_frame s s' \<and>
    rf_esb_initialized s' = rf_esb_initialized s", OF _ assms])
  fix h and p :: "'a platform" and s s' :: "('a, 'b) rf_state_scheme"
  assume IH: "\<And>p s s'. h p s = Some s' \<Longrightarrow>
      outer_frame s s' \<and> rf_esb_initialized s' = rf_esb_initialized s"
    and body: "(case msgq_get p (world s) of None \<Rightarrow> Some s
      | Some (record, w) \<Rightarrow> h p (snd (persist_pairing p record (s\<lparr> world := w \<rparr>)))) = Some s'"
  show "outer_frame s s' \<and> rf_esb_initialized s' = rf_esb_initialized s"
  proof (cases "msgq_get p (world s)")
    case None
    then show ?thesis using body outer_frame_refl by simp
  next
    case (Some rw)
    then obtain r w where rw: "msgq_get p (world s) = Some (r, w)" by (cases rw) auto
    let ?s1 = "snd (persist_pairing p r (s\<lparr> world := w \<rparr>))"
    have "outer_frame ?s1 s' \<and> rf_esb_initialized s' = rf_esb_initialized ?s1"
      using body rw by (intro IH) simp
    moreover have "outer_frame s ?s1 \<and> rf_esb_initialized ?s1 = rf_esb_initialized s"
      using persist_frame [of "s\<lparr> world := w \<rparr>" p r]
        outer_frame_trans [OF world_frame [of s w], of ?s1] by simp
    ultimately show ?thesis using outer_frame_trans [of s ?s1 s'] by simp
  qed
qed

lemma clear_builder_invar:
  "rb_invar b \<Longrightarrow> rb_invar (report_builder_clear_trackers b) \<and>
   rb_tracker_addresses (report_builder_clear_trackers b) = replicate 32 0"
  by (simp add: rb_invar_def report_builder_clear_trackers_def)

lemma reset_invar: "rf_reset p s s' \<Longrightarrow> rf_invar s \<Longrightarrow> rf_invar s'"
proof (elim rf_resetE)
  fix secondary g r
  assume inv: "rf_invar s" and s': "rf_receiver_set_group p secondary g s = (r, s')"
  show ?thesis
  proof (cases "r = 0")
    case True
    with s' have "rf_receiver_set_group p secondary g s = (0, s')" by simp
    from set_group_commits [OF this] inv show ?thesis
      using clear_builder_invar [of "rf_builder s"]
      by (simp add: rf_invar_def rf_table_empty unique_ids_empty)
  next
    case False
    from set_group_fails [OF s' this] obtain t where
      "outer_frame (s\<lparr> rf_config_generation := t \<rparr>) s'"
      "rf_esb_initialized s' \<longrightarrow> rf_esb_initialized s \<or> rf_radio_enabled s" by blast
    then show ?thesis
      using inv rf_invar_frame [of "s\<lparr> rf_config_generation := t \<rparr>" s'] by simp
  qed
next
  fix r
  assume inv: "rf_invar s" and s': "rf_receiver_clear_trackers p s = (r, s')"
  from clear_trackers_spec [OF s'] inv show ?thesis
    using clear_builder_invar [of "rf_builder s"]
    by (simp add: rf_invar_def rf_table_empty unique_ids_empty)
qed

lemma quiet_invar:
  assumes "radio_ok p rx" and "rf_quiet p s s'" and "rf_invar s"
  shows "rf_invar s'"
  using assms(2)
proof (cases rule: rf_quiet.cases)
  case (quiet_event rx_received)
  then show ?thesis
    using receive_packets_spec [OF assms(1,3)] assms(3)
    by (auto simp: receiver_esb_event_handler_def split: if_splits)
next
  case quiet_persist
  from persist_handler_frame [OF this] show ?thesis using assms(3) rf_invar_frame by blast
next
  case (quiet_start_pairing r)
  show ?thesis
  proof (cases "rf_primary s")
    case True
    then have "start_radio p ((stop_radio p s)\<lparr> rf_pairing := True \<rparr>) = (r, s')"
      using quiet_start_pairing by (simp add: rf_receiver_start_pairing_def Let_def)
    then show ?thesis
      using rf_invar_stop [OF assms(3), of p] stop_radio_spec [of s p] True
      by (elim rf_invar_start [rotated]) (auto simp: rf_invar_def dest: outer_frameD)
  next
    case False
    then show ?thesis using quiet_start_pairing assms(3) by (simp add: rf_receiver_start_pairing_def)
  qed
next
  case (quiet_stop_pairing r)
  then have "start_radio p ((stop_radio p s)\<lparr> rf_pairing := False \<rparr>) = (r, s')"
    by (simp add: rf_receiver_stop_pairing_def Let_def)
  then show ?thesis
    using rf_invar_stop [OF assms(3), of p] by (elim rf_invar_start [rotated]) (simp add: rf_invar_def)
next
  case (quiet_enable enabled r)
  then have "start_radio p ((stop_radio p s)\<lparr> rf_radio_enabled := enabled \<rparr>) = (r, s')"
    by (simp add: rf_receiver_set_enabled_def Let_def)
  then show ?thesis
    using rf_invar_stop [OF assms(3), of p] stop_radio_spec [of s p]
    by (elim rf_invar_start [rotated]) (simp add: rf_invar_def)
next
  case (quiet_report now)
  then show ?thesis
    using assms(3) report_builder_next_spec(2) [of "rf_builder s" now] by (simp add: rf_invar_def)
qed

lemma run_invar:
  assumes "radio_ok p rx" and "(rf_step p)\<^sup>*\<^sup>* s s'" and "rf_invar s"
  shows "rf_invar s'"
  using assms(2,3)
  by (induction rule: rtranclp_induct) (auto simp: rf_step_def dest: quiet_invar [OF assms(1)] reset_invar)

lemma restart_table:
  assumes "start_radio p s1 = (r, s')" and "rf_tracker_addresses s1 = rf_tracker_addresses (stop_radio q s)"
  shows "table_extends s s'"
  using outer_frameD [OF conjunct1 [OF start_radio_spec [OF assms(1)]]] assms(2)
    outer_frameD [OF conjunct1 [OF stop_radio_spec, of s q]]
  by (intro table_extends_eq) simp

lemma quiet_extends:
  assumes "radio_ok p rx" and "rf_quiet p s s'" and "rf_invar s"
  shows "table_extends s s'"
  using assms(2)
proof (cases rule: rf_quiet.cases)
  case (quiet_event rx_received)
  then show ?thesis
    using receive_packets_spec [OF assms(1,3)]
    by (auto simp: receiver_esb_event_handler_def split: if_splits)
next
  case quiet_persist
  from outer_frameD [OF conjunct1 [OF persist_handler_frame [OF this]]] show ?thesis
    by (intro table_extends_eq) simp
next
  case (quiet_start_pairing r)
  then show ?thesis
    by (cases "rf_primary s")
      (auto simp: rf_receiver_start_pairing_def Let_def intro: restart_table [where q = p])
next
  case (quiet_stop_pairing r)
  then show ?thesis
    by (auto simp: rf_receiver_stop_pairing_def Let_def intro: restart_table [where q = p])
next
  case (quiet_enable enabled r)
  then show ?thesis
    by (auto simp: rf_receiver_set_enabled_def Let_def intro: restart_table [where q = p])
next
  case (quiet_report now)
  then show ?thesis by (intro table_extends_eq) simp
qed

text \<open>Fields an extension of the state adds are left alone.\<close>

lemma outer_frame_more: "outer_frame s s' \<Longrightarrow> rf_state.more s' = rf_state.more s"
  unfolding outer_frame_def by (cases s) auto

lemma handle_payload_more:
  fixes s s' :: "('w, 'x) rf_state_scheme"
  shows "handle_payload p m s = Some s' \<Longrightarrow> rf_state.more s' = rf_state.more s"
proof -
  have add: "rf_state.more (snd (add_tracker tid a s)) = rf_state.more s" for tid a
    by (simp add: add_tracker_def Let_def)
  have enq: "rf_enqueue d x y z b t = Some t' \<Longrightarrow> rf_state.more t' = rf_state.more t"
    for d x y z b and t t' :: "('w, 'x) rf_state_scheme"
    by (auto simp: rf_enqueue_def)
  have pair: "rf_state.more (handle_pair_request p m s) = rf_state.more s"
    using add by (simp add: handle_pair_request_def Let_def split_beta)
  have v2: "handle_rf_v2 p m s = Some s' \<Longrightarrow> rf_state.more s' = rf_state.more s"
    using add by (simp add: handle_rf_v2_def Let_def split_beta split: if_splits) (auto dest!: enq)
  assume "handle_payload p m s = Some s'"
  then show ?thesis using pair v2 by (auto simp: handle_payload_def split: if_splits)
qed

lemma receive_packets_more:
  assumes "receive_packets p s = Some s'"
  shows "rf_state.more s' = rf_state.more s"
proof (rule receive_packets.raw_induct [of "\<lambda>p s s'. rf_state.more s' = rf_state.more s", OF _ assms])
  fix h and p :: "'a platform" and s s' :: "('a, 'b) rf_state_scheme"
  assume IH: "\<And>p s s'. h p s = Some s' \<Longrightarrow> rf_state.more s' = rf_state.more s"
    and body: "(case esb_read_rx_payload p (world s) of None \<Rightarrow> Some s
      | Some (payload, w) \<Rightarrow> Option.bind (handle_payload p payload (s\<lparr> world := w \<rparr>)) (h p)) = Some s'"
  have w: "rf_state.more (s\<lparr> world := w \<rparr>) = rf_state.more s" for w by (cases s) simp
  show "rf_state.more s' = rf_state.more s"
    using body by (auto simp: bind_eq_Some_conv w split: option.splits
        dest!: IH handle_payload_more)
qed

lemma more_frame [simp]:
  "rf_state.more (stop_radio p s) = rf_state.more s"
  "rf_state.more (snd (start_radio p s)) = rf_state.more s"
  "rf_state.more (snd (receiver_storage_set_group p gid s)) = rf_state.more s"
  "rf_state.more (snd (receiver_storage_set_tracker_count p c s)) = rf_state.more s"
  "rf_state.more (snd (receiver_storage_clear_trackers p s)) = rf_state.more s"
proof -
  show "rf_state.more (stop_radio p s) = rf_state.more s" by (simp add: stop_radio_def)
  show "rf_state.more (snd (start_radio p s)) = rf_state.more s"
    by (simp add: start_radio_def Let_def split_beta)
  show "rf_state.more (snd (receiver_storage_set_group p gid s)) = rf_state.more s"
    by (cases s) (simp add: receiver_storage_set_group_def Let_def split_beta)
  show count: "rf_state.more (snd (receiver_storage_set_tracker_count p c s)) = rf_state.more s" for c s
    by (cases s) (simp add: receiver_storage_set_tracker_count_def Let_def split_beta)
  show "rf_state.more (snd (receiver_storage_clear_trackers p s)) = rf_state.more s"
    by (cases s) (simp add: receiver_storage_clear_trackers_def Let_def split_beta count)
qed

lemma management_more [simp]:
  "rf_state.more (snd (rf_receiver_set_group p secondary g s)) = rf_state.more s"
  "rf_state.more (snd (rf_receiver_start_pairing p s)) = rf_state.more s"
  "rf_state.more (snd (rf_receiver_stop_pairing p s)) = rf_state.more s"
  "rf_state.more (snd (rf_receiver_clear_trackers p s)) = rf_state.more s"
  "rf_state.more (snd (rf_receiver_set_enabled p enabled s)) = rf_state.more s"
  by (simp_all add: rf_receiver_set_group_def rf_receiver_start_pairing_def
      rf_receiver_stop_pairing_def rf_receiver_clear_trackers_def rf_receiver_set_enabled_def
      Let_def split_beta)

section \<open>Start\<close>

text \<open>The state at boot: zeroed variables, \<open>radio_enabled\<close> true, the report builder initialised.\<close>

definition rf_boot :: "'w \<Rightarrow> 'w rf_state" where
  "rf_boot w = \<lparr> world = w, st_group_id = 0, st_trackers = replicate 32 0, st_tracker_count = 0,
     rf_builder = report_builder_init rb_boot, rf_receiver_id = 0, rf_group_id = 0,
     rf_tracker_addresses = replicate 32 0, rf_tracker_count = 0, rf_primary = False,
     rf_pairing = False, rf_radio_enabled = True, rf_esb_initialized = False,
     rf_received_packets = 0, rf_crc_errors = 0, rf_config_generation = 0 \<rparr>"

lemma load_trackers_masked:
  "length ts = 32 \<Longrightarrow> n \<le> 32 \<Longrightarrow> length (load_trackers p w n ts) = 32 \<and>
   (\<forall>i < n. load_trackers p w n ts ! i \<le> ADDRESS_MASK)"
proof (induction n)
  case (Suc n)
  then have "load_trackers p w (Suc n) ts = (load_trackers p w n ts)[n := word_of_le (snd (read_or_zero p w
      (16 + of_nat n) (le_of_word 8 (load_trackers p w n ts ! n)))) AND ADDRESS_MASK]"
    by (simp add: load_trackers_def)
  then show ?case using Suc masked_le by (auto simp: less_Suc_eq)
qed (simp add: load_trackers_def)

lemma storage_init_rf:
  assumes "receiver_storage_init p s = (0, s')" and "length (st_trackers s) = 32"
  shows "\<exists>w g ts c. s' = s\<lparr> world := w, st_group_id := g, st_trackers := ts, st_tracker_count := c \<rparr> \<and>
    length ts = 32 \<and> unat c \<le> 32 \<and> (\<forall>i < unat c. ts ! i \<le> ADDRESS_MASK)"
proof -
  obtain w g c where "s' = s\<lparr> world := w, st_group_id := g,
      st_trackers := load_trackers p w (unat c) (st_trackers s), st_tracker_count := c \<rparr>"
    and "unat c \<le> 32"
  proof (cases "flash_page_size p (world s)")
    case None
    then show ?thesis using assms(1) by (simp add: receiver_storage_init_def split: bool.splits)
  next
    case (Some page)
    obtain r w where m: "nvs_mount p page 4 (world s) = (r, w)" by fastforce
    define k :: byte where "k = word_of_le (snd (read_or_zero p w 2 (le_of_word 1 (st_tracker_count s))))"
    define c where "c = (if 32 < k then 0 else k)"
    define g where "g = word_of_le (snd (read_or_zero p w 1 (le_of_word 8 (st_group_id s)))) AND ADDRESS_MASK"
    have ready: "flash_device_is_ready p (world s)"
      by (rule ccontr) (use assms(1) in \<open>simp add: receiver_storage_init_def\<close>)
    have "receiver_storage_init p s = (if r \<noteq> 0 then (r, s\<lparr> world := w \<rparr>) else
      (0, s\<lparr> world := w, st_group_id := g, st_tracker_count := c,
        st_trackers := load_trackers p w (unat c) (st_trackers s) \<rparr>))"
      unfolding c_def k_def g_def
      by (simp add: receiver_storage_init_def Some m ready Let_def cong: if_cong)
    moreover have "r = 0" by (rule ccontr) (use assms(1) calculation in simp)
    moreover have "unat c \<le> 32" by (simp add: c_def word_less_nat_alt)
    ultimately show ?thesis
      using assms(1) by (intro that [where w = w and c = c and g = g]) simp_all
  qed
  then show ?thesis
    using load_trackers_masked [OF assms(2), of "unat c" p w]
    by (intro exI [of _ w] exI [of _ g] exI [of _ "load_trackers p w (unat c) (st_trackers s)"]
        exI [of _ c]) simp
qed

lemma restore_trackers_spec:
  assumes "n \<le> 32" and "n \<le> unat (st_tracker_count s)" and "rb_invar (rf_builder s)"
    and "length (rf_tracker_addresses s) = 32" and "length (st_trackers s) = 32"
    and "rb_tracker_addresses (rf_builder s) = rf_tracker_addresses s"
    and "\<forall>i < n. st_trackers s ! i \<le> ADDRESS_MASK"
  shows "\<exists>b. restore_trackers n s = s\<lparr> rf_tracker_addresses := take n (st_trackers s) @
      drop n (rf_tracker_addresses s), rf_builder := b \<rparr> \<and> rb_invar b \<and>
    rb_tracker_addresses b = take n (st_trackers s) @ drop n (rf_tracker_addresses s)"
  using assms(1,2,7)
proof (induction n)
  case 0
  then show ?case using assms by (intro exI [of _ "rf_builder s"]) (simp add: restore_trackers_def)
next
  case (Suc n)
  then obtain b where b: "restore_trackers n s = s\<lparr> rf_tracker_addresses := take n (st_trackers s) @
      drop n (rf_tracker_addresses s), rf_builder := b \<rparr>" "rb_invar b"
    "rb_tracker_addresses b = take n (st_trackers s) @ drop n (rf_tracker_addresses s)" by auto
  have n: "unat (of_nat n :: byte) = n" using Suc.prems by (simp add: unat_of_nat take_bit_eq_mod)
  let ?a = "st_trackers s ! n"
  have t: "receiver_storage_tracker (of_nat n) (restore_trackers n s) = ?a"
    using Suc.prems n by (simp add: b receiver_storage_tracker_def word_less_nat_alt)
  have upd: "(take n (st_trackers s) @ drop n (rf_tracker_addresses s))[n := ?a] =
      take (Suc n) (st_trackers s) @ drop (Suc n) (rf_tracker_addresses s)"
    using Suc.prems assms(4,5)
    by (simp add: list_update_append take_Suc_conv_app_nth flip: Cons_nth_drop_Suc)
  have "\<not> 32 \<le> (of_nat n :: byte)" using Suc.prems n by (simp add: word_le_nat_alt)
  then have "rb_tracker_addresses (report_builder_set_tracker (of_nat n) ?a b) =
      (rb_tracker_addresses b)[n := ?a]"
    using Suc.prems n by (simp add: report_builder_set_tracker_def masked_eq)
  then show ?case
    using t b n upd set_tracker_invar [OF b(2)]
    by (intro exI [of _ "report_builder_set_tracker (of_nat n) ?a b"])
      (simp add: restore_trackers_def Let_def)
qed

text \<open>What a successful start yields, whatever the flash holds.\<close>

definition fresh_state :: "('w, 'x) rf_state_scheme \<Rightarrow> bool" where
  "fresh_state s \<longleftrightarrow> rf_tracker_addresses s = replicate 32 0 \<and> length (st_trackers s) = 32 \<and>
     rb_invar (rf_builder s) \<and> rb_tracker_addresses (rf_builder s) = replicate 32 0 \<and>
     rf_radio_enabled s"

lemma fresh_boot: "fresh_state (rf_boot w)"
  using rb_invar_init by (simp add: fresh_state_def rf_boot_def report_builder_init_def rb_boot_def)

lemma rf_init_spec:
  assumes "rf_receiver_init p s = Some (0, s')" and fresh: "fresh_state s"
  shows "rf_table (rf_tracker_addresses s') (rf_tracker_count s') \<and>
    rb_invar (rf_builder s') \<and> rb_tracker_addresses (rf_builder s') = rf_tracker_addresses s' \<and>
    rf_receiver_id s' = read_device_address p \<and>
    rf_group_id s' = (if st_group_id s' = 0 then rf_receiver_id s' else st_group_id s') \<and>
    rf_primary s' = (rf_group_id s' = rf_receiver_id s') \<and>
    rf_tracker_count s' = st_tracker_count s' \<and> length (st_trackers s') = 32 \<and>
    unat (st_tracker_count s') \<le> 32 \<and>
    rf_pairing s' = (rf_primary s' \<and> rf_tracker_count s' = 0) \<and> rf_radio_enabled s' \<and> rf_state.more s' = rf_state.more s \<and>
    (\<forall>i < 32. rf_tracker_addresses s' ! i = (if i < unat (st_tracker_count s') then st_trackers s' ! i else 0))"
proof -
  let ?s0 = "s\<lparr> rf_receiver_id := read_device_address p \<rparr>"
  obtain r s1 where s1: "receiver_storage_init p ?s0 = (r, s1)" by fastforce
  have "r = 0" using assms(1) s1 by (auto simp: rf_receiver_init_def Let_def split: if_splits)
  with s1 have i: "receiver_storage_init p ?s0 = (0, s1)" by simp
  from storage_init_rf [OF i] obtain w1 g ts c where s1': "s1 = ?s0\<lparr> world := w1, st_group_id := g,
      st_trackers := ts, st_tracker_count := c \<rparr>"
    and c: "length ts = 32" "unat c \<le> 32" "\<forall>i < unat c. ts ! i \<le> ADDRESS_MASK"
    using fresh by (auto simp: fresh_state_def)
  define G where "G = (if g = 0 then read_device_address p else g)"
  let ?s2 = "s\<lparr> rf_receiver_id := read_device_address p, world := w1, st_group_id := g,
      st_trackers := ts, st_tracker_count := c, rf_group_id := G,
      rf_primary := (G = read_device_address p), rf_tracker_count := c \<rparr>"
  obtain b where b: "restore_trackers (unat c) ?s2 = ?s2\<lparr> rf_tracker_addresses := take (unat c) ts @
      replicate (32 - unat c) 0, rf_builder := b \<rparr>" "rb_invar b"
    "rb_tracker_addresses b = take (unat c) ts @ replicate (32 - unat c) 0"
    using restore_trackers_spec [of "unat c" ?s2] c fresh
    by (auto simp: fresh_state_def)
  let ?s3 = "?s2\<lparr> rf_tracker_addresses := take (unat c) ts @ replicate (32 - unat c) 0,
      rf_builder := b, rf_pairing := (G = read_device_address p \<and> c = 0) \<rparr>"
  have "rf_receiver_init p s = Option.bind (start_hf_clock p ?s3)
      (\<lambda>(result, s). Some (if result = 0 then start_radio p s else (result, s)))"
    unfolding rf_receiver_init_def
    by (simp add: i Let_def receiver_storage_group_def receiver_storage_tracker_count_def s1' b
        cong: if_cong flip: G_def)
  with assms(1) obtain r4 s4 where s4: "start_hf_clock p ?s3 = Some (r4, s4)"
    "(if r4 = 0 then start_radio p s4 else (r4, s4)) = (0, s')"
    by (auto simp: bind_eq_Some_conv)
  then have s5: "start_radio p s4 = (0, s')" by (simp split: if_splits)
  have "outer_frame ?s3 s4 \<and> st_group_id s4 = g \<and> st_trackers s4 = ts \<and> st_tracker_count s4 = c"
    using s4(1) outer_frame_refl [of ?s3] world_frame [of ?s3]
    by (auto simp: start_hf_clock_def split_beta split: if_splits)
  then have fr: "outer_frame ?s3 s'" "st_group_id s' = g" "st_trackers s' = ts" "st_tracker_count s' = c"
    using start_radio_spec [OF s5] outer_frame_trans by auto
  have "rf_table (take (unat c) ts @ replicate (32 - unat c) 0) c"
    using c by (auto simp: rf_table_def nth_append in_set_conv_nth)
  then show ?thesis
    using outer_frameD [OF fr(1)] fr(2-4) b c fresh outer_frame_more [OF fr(1)]
    by (simp add: fresh_state_def nth_append G_def)
qed

lemma ref_radio_ok: "radio_ok ref_platform (\<lambda>w. map packet_buffer (rw_received w))"
  unfolding radio_ok_def by (auto simp: ref_platform_def packet_buffer_def)

text \<open>The reference receiver after its first start.\<close>

definition ref_receiver :: "ref_world rf_state" where
  "ref_receiver = snd (the (rf_receiver_init ref_platform (rf_boot ref_world0)))"

lemma ref_storage_init:
  assumes "rw_nvs (world s) = (\<lambda>_. None)" and "st_group_id s = 0" "st_tracker_count s = 0"
  shows "receiver_storage_init ref_platform s = (0, s)"
proof -
  have "read_or_zero ref_platform w k buf = (0, zeros (length buf))" if "rw_nvs w = (\<lambda>_. None)" for w k buf
    using that by (simp add: read_or_zero_def ref_platform_def)
  moreover have "word_of_le (zeros 8) = (0 :: u64)" by (simp add: byte_eval)
  ultimately show ?thesis
    using assms by (cases s)
      (simp add: receiver_storage_init_def ref_platform_def Let_def load_trackers_def)
qed

lemma ref_start_radio:
  "rf_radio_enabled s \<Longrightarrow> \<not> rf_esb_initialized s \<Longrightarrow>
   start_radio ref_platform s = (0, s\<lparr> rf_esb_initialized := True \<rparr>)"
  by (cases s) (simp add: start_radio_def ref_platform_def and_then_def)

lemma ref_hf_clock: "start_hf_clock ref_platform s = Some (0, s)"
  by (cases s) (simp add: start_hf_clock_def ref_platform_def wait_clock.simps)

lemma ref_device_address: "read_device_address ref_platform = 0x554433221100"
  by (simp add: read_device_address_def ref_platform_def)

lemma ref_receiver_eq:
  "rf_receiver_init ref_platform (rf_boot ref_world0) = Some (0, ref_receiver) \<and>
   ref_receiver = (rf_boot ref_world0)\<lparr> rf_receiver_id := 0x554433221100, rf_group_id := 0x554433221100,
     rf_primary := True, rf_pairing := True, rf_esb_initialized := True \<rparr>"
  unfolding ref_receiver_def rf_receiver_init_def
  by (simp add: ref_storage_init ref_start_radio ref_hf_clock ref_device_address rf_boot_def
      ref_world0_def receiver_storage_group_def receiver_storage_tracker_count_def
      restore_trackers_def)

section \<open>Properties\<close>

text \<open>
  C19: Every state the receiver reaches from a successful start with a stored table without
  duplicates, by radio events, persistence work, management commands and reports in any order, is
  consistent: the report builder announces exactly the trackers of the table, the count covers all
  registered ids, only a primary is ever in pairing mode, the radio driver runs only while the
  radio is enabled, and a primary never has one address under two ids.
\<close>

theorem receiver_stays_consistent:
  assumes "radio_ok p rx" and "rf_receiver_init p (rf_boot w) = Some (0, s0)"
    and "unique_ids (st_trackers s0)" and "(rf_step p)\<^sup>*\<^sup>* s0 s"
  shows "rf_invar s \<and> rb_tracker_addresses (rf_builder s) = rf_tracker_addresses s \<and>
    (\<forall>i < 32. rf_tracker_addresses s ! i \<noteq> 0 \<longrightarrow> i < unat (rf_tracker_count s)) \<and>
    (rf_pairing s \<longrightarrow> rf_primary s) \<and> (rf_esb_initialized s \<longrightarrow> rf_radio_enabled s) \<and>
    (rf_primary s \<longrightarrow> unique_ids (rf_tracker_addresses s))"
proof -
  note init = rf_init_spec [OF assms(2) fresh_boot]
  let ?n = "unat (st_tracker_count s0)"
  have "unique_ids (rf_tracker_addresses s0)"
    unfolding unique_ids_def
  proof (intro allI impI)
    fix i j
    assume ij: "i < length (rf_tracker_addresses s0)" "j < length (rf_tracker_addresses s0)"
      "rf_tracker_addresses s0 ! i \<noteq> 0 \<and> rf_tracker_addresses s0 ! i = rf_tracker_addresses s0 ! j"
    then have "i < ?n" "j < ?n" "st_trackers s0 ! i \<noteq> 0 \<and> st_trackers s0 ! i = st_trackers s0 ! j"
      using init by (auto simp: rf_table_def split: if_splits)
    moreover have "?n \<le> length (st_trackers s0)"
      using init by simp
    ultimately show "i = j" using assms(3) unfolding unique_ids_def by (meson less_le_trans)
  qed
  then have "rf_invar s0" using init by (auto simp: rf_invar_def)
  then have "rf_invar s" by (rule run_invar [OF assms(1,4)])
  then show ?thesis by (auto simp: rf_invar_def rf_table_def not_less [symmetric])
qed

lemma ref_receiver_invar: "rf_invar ref_receiver"
  using rb_invar_init unfolding conjunct2 [OF ref_receiver_eq]
  by (simp add: rf_invar_def rf_boot_def rf_table_empty unique_ids_empty report_builder_init_def rb_boot_def)

theorem receiver_stays_consistent_witness:
  "rf_invar (snd (rf_receiver_set_enabled ref_platform False ref_receiver))"
proof -
  have "rf_step ref_platform ref_receiver (snd (rf_receiver_set_enabled ref_platform False ref_receiver))"
    by (auto simp: rf_step_def intro: quiet_enable prod.collapse [symmetric])
  then have "(rf_step ref_platform)\<^sup>*\<^sup>* ref_receiver
      (snd (rf_receiver_set_enabled ref_platform False ref_receiver))" by (rule r_into_rtranclp)
  moreover have "unique_ids (st_trackers ref_receiver)"
    unfolding conjunct2 [OF ref_receiver_eq] by (simp add: rf_boot_def unique_ids_empty)
  ultimately show ?thesis
    using receiver_stays_consistent [OF ref_radio_ok conjunct1 [OF ref_receiver_eq]] by blast
qed

text \<open>
  C24: What a receiver does with a 28-byte radio packet, on every path. A packet of another
  version is ignored. A wrong CRC is counted and queues a diagnostic record (type 251), nothing
  else. A valid packet is forwarded exactly if it is sensor data (type up to 223) of a tracker id
  below 32 whose address is the registered one or, on a secondary, whose id is still free; then
  the packet is counted, the address registered, and the record queued in place of an older one
  of that tracker. Any other packet leaves the state unchanged.
\<close>

theorem rf_packet_outcomes:
  assumes "rf_invar s" and "16 \<le> length (ep_data m)"
  shows "(ep_data m ! 23 \<noteq> 2 \<longrightarrow> handle_rf_v2 p m s = Some s) \<and>
    (ep_data m ! 23 = 2 \<and> \<not> crc_valid p m \<longrightarrow>
      (\<exists>b. handle_rf_v2 p m s = Some (s\<lparr> rf_crc_errors := rf_crc_errors s + 1, rf_builder := b \<rparr>) \<and>
        rb_content b = queue_insert False
          (make_record (251 # 255 # zeros 14) (ep_rssi m) (ep_data m ! 22) 2) (rb_content (rf_builder s)))) \<and>
    (ep_data m ! 23 = 2 \<and> crc_valid p m \<and> \<not> rf_accepts p m s \<longrightarrow> handle_rf_v2 p m s = Some s) \<and>
    (rf_accepts p m s \<longrightarrow> (\<exists>s'. handle_rf_v2 p m s = Some s' \<and>
      rf_received_packets s' = rf_received_packets s + 1 \<and> rf_crc_errors s' = rf_crc_errors s \<and>
      rf_tracker_addresses s' = (rf_tracker_addresses s)[unat (ep_data m ! 1) := packet_address m] \<and>
      rb_content (rf_builder s') = queue_insert True
        (make_record (ep_data m) (ep_rssi m) (ep_data m ! 22) 7) (rb_content (rf_builder s))))"
proof -
  have "handle_rf_v2 p m s = Some s" if "ep_data m ! 23 \<noteq> 2"
    using that by (simp add: handle_rf_v2_def)
  then show ?thesis
    using rf_packet_ignored [OF assms(1), of p m] rf_packet_crc_error [OF assms(1), of m p]
      rf_packet_accepted [OF assms(1) _ assms(2), of p] by (intro conjI impI) blast+
qed

text \<open>A secondary that has seen no tracker, and a packet of tracker 3.\<close>

definition ref_secondary :: "ref_world rf_state" where
  "ref_secondary = (rf_boot ref_world0)\<lparr> rf_receiver_id := 1, rf_group_id := 2 \<rparr>"

definition demo_packet :: esb_payload where
  "demo_packet = \<lparr> ep_length = 28, ep_pipe = 1, ep_rssi = 40, ep_noack = False,
     ep_data = [1, 3] @ zeros 14 @ [6, 5, 4, 3, 2, 1] @ [9, 2] @ le_of_word 4 (0x93a409eb :: u32) \<rparr>"

lemma ref_secondary_invar: "rf_invar ref_secondary"
  using rb_invar_init
  by (simp add: ref_secondary_def rf_invar_def rf_boot_def rf_table_empty report_builder_init_def rb_boot_def)

lemma demo_packet_data [simp]:
  "ep_data demo_packet = [1, 3, 0, 0, 0, 0, 0, 0, 0, 0, 0, 0, 0, 0, 0, 0, 6, 5, 4, 3, 2, 1, 9, 2,
     0xeb, 0x09, 0xa4, 0x93]"
  by (simp add: demo_packet_def byte_eval)

lemma demo_packet_accepted: "rf_accepts ref_platform demo_packet ref_secondary"
  by (simp add: rf_accepts_def crc_valid_def rf_listens_def ref_secondary_def rf_boot_def
      ref_platform_def bslice_def)

theorem rf_packet_outcomes_witness:
  "\<exists>s'. handle_rf_v2 ref_platform demo_packet ref_secondary = Some s' \<and>
     rf_tracker_addresses s' ! 3 = 0x010203040506"
  using rf_packet_outcomes [OF ref_secondary_invar, of demo_packet ref_platform] demo_packet_accepted
  by (auto simp: ref_secondary_def rf_boot_def bslice_def)

text \<open>
  C27: Tracker ids are stable. Between two resets, through any sequence of radio events, pairing
  requests, persistence work, pairing mode changes and reports, a registered tracker keeps its id
  and its address: no packet on the air can displace it.
\<close>

theorem tracker_ids_are_stable:
  assumes "radio_ok p rx" and "rf_invar s" and "(rf_quiet p)\<^sup>*\<^sup>* s s'"
    and "tid < 32" and "rf_tracker_addresses s ! tid \<noteq> 0"
  shows "rf_tracker_addresses s' ! tid = rf_tracker_addresses s ! tid"
proof -
  have "rf_invar s' \<and> table_extends s s'"
    using assms(3,2)
    by (induction rule: rtranclp_induct)
      (auto dest: quiet_invar [OF assms(1)] quiet_extends [OF assms(1)] table_extends_trans)
  then show ?thesis using assms(4,5) by (simp add: table_extends_def)
qed

theorem tracker_ids_are_stable_witness:
  "\<exists>s'. handle_rf_v2 ref_platform demo_packet ref_secondary = Some s' \<and>
     rf_tracker_addresses (snd (rf_receiver_set_enabled ref_platform False s')) ! 3 =
       rf_tracker_addresses s' ! 3"
proof -
  obtain s' where s': "handle_rf_v2 ref_platform demo_packet ref_secondary = Some s'" "rf_invar s'"
    "rf_tracker_addresses s' ! 3 = 0x010203040506"
    using rf_packet_accepted [OF ref_secondary_invar demo_packet_accepted]
    by (auto simp: ref_secondary_def rf_boot_def bslice_def)
  have "rf_quiet ref_platform s' (snd (rf_receiver_set_enabled ref_platform False s'))"
    by (auto intro: quiet_enable prod.collapse [symmetric])
  then show ?thesis
    using tracker_ids_are_stable [OF ref_radio_ok s'(2) r_into_rtranclp, of _ 3] s' by auto
qed

text \<open>
  Pairing is idempotent and gives out ids without gaps. A request the primary accepts
  registers the address: under its old id if it was known, otherwise under the next id (the number
  of trackers); the other entries do not change. The same request again gets the same id and
  changes neither the table nor the count; a request that is not accepted changes nothing at all.
\<close>

theorem pairing_is_idempotent:
  fixes m :: esb_payload and p :: "'w platform" and s :: "('w, 'x) rf_state_scheme"
  defines "a \<equiv> word_of_le (bslice 2 6 (ep_data m)) AND DEVICE_ADDRESS_MASK"
  assumes "rf_invar s"
  defines "s' \<equiv> handle_pair_request p m s"
  shows "(\<not> pair_accepts p m s \<longrightarrow> s' = s) \<and>
    (pair_accepts p m s \<longrightarrow>
      rf_tracker_addresses s' = (rf_tracker_addresses s)[unat (pairing_id a s) := a] \<and>
      (a \<in> set (rf_tracker_addresses s) \<longrightarrow> rf_tracker_addresses s ! unat (pairing_id a s) = a) \<and>
      (a \<notin> set (rf_tracker_addresses s) \<longrightarrow> pairing_id a s = rf_tracker_count s) \<and>
      pairing_id a s' = pairing_id a s \<and>
      rf_tracker_addresses (handle_pair_request p m s') = rf_tracker_addresses s' \<and>
      rf_tracker_count (handle_pair_request p m s') = rf_tracker_count s')"
proof (cases "pair_accepts p m s")
  case True
  let ?t = "pairing_id a s"
  have c: "rf_primary s" "a \<noteq> 0" "?t < 32" using True by (simp_all add: pair_accepts_def a_def)
  note only = pairing_id_only [OF assms(2) c(1,2)]
  obtain w where w: "s' = s\<lparr> rf_tracker_addresses := (rf_tracker_addresses s)[unat ?t := a],
      rf_tracker_count := max (rf_tracker_count s) (?t + 1),
      rf_builder := report_builder_set_tracker ?t a (rf_builder s), world := w \<rparr>"
    and inv: "rf_invar s'"
    using pair_accepted [OF assms(2) True] by (auto simp: a_def s'_def)
  have tab: "length (rf_tracker_addresses s) = 32" "unat ?t < 32"
    using assms(2) c(3) by (simp_all add: rf_invar_def rf_table_def word_less_nat_alt)
  have known: "rf_tracker_addresses s ! unat ?t = a" if "a \<in> set (rf_tracker_addresses s)"
    using that only(1) tab by (auto simp: in_set_conv_nth)
  have new: "?t = rf_tracker_count s" if "a \<notin> set (rf_tracker_addresses s)"
  proof -
    have "a \<notin> set (take n (rf_tracker_addresses s))" for n
      using that by (auto dest: in_set_takeD)
    then have "first_index (\<lambda>x. x = a) (take n (rf_tracker_addresses s)) = None" for n
      by (auto simp: first_index_None)
    then show ?thesis by (simp add: pairing_id_def)
  qed
  have pr: "rf_primary s'" using c w by simp
  have at: "rf_tracker_addresses s' ! unat ?t = a" using w tab by simp
  then have "unat (pairing_id a s') = unat ?t"
    using pairing_id_only(1) [OF inv pr c(2)] tab by simp
  then have same: "pairing_id a s' = ?t" by (simp add: word_unat_eq_iff)
  have acc: "pair_accepts p m s'"
    using True w same c(3) by (simp add: pair_accepts_def a_def)
  obtain w2 where w2: "handle_pair_request p m s' = s'\<lparr> rf_tracker_addresses :=
        (rf_tracker_addresses s')[unat ?t := a], rf_tracker_count := max (rf_tracker_count s') (?t + 1),
      rf_builder := report_builder_set_tracker ?t a (rf_builder s'), world := w2 \<rparr>"
    using pair_accepted [OF inv acc] same by (auto simp: a_def)
  have "(rf_tracker_addresses s')[unat ?t := a] = rf_tracker_addresses s'"
    using at by (metis list_update_id)
  moreover have "max (rf_tracker_count s') (?t + 1) = rf_tracker_count s'" using w by simp
  ultimately show ?thesis using True w known new same w2 by simp
next
  case False
  then show ?thesis by (simp add: s'_def pair_refused)
qed

text \<open>The request of a tracker for the reference platform, whose CRC-8 is its seed 7.\<close>

definition demo_request :: esb_payload where
  "demo_request = \<lparr> ep_length = 8, ep_pipe = 0, ep_rssi = 40, ep_noack = False,
     ep_data = [7, 0, 6, 5, 4, 3, 2, 1] \<rparr>"

theorem pairing_is_idempotent_witness:
  "pair_accepts ref_platform demo_request ref_receiver \<and>
   rf_tracker_addresses (handle_pair_request ref_platform demo_request ref_receiver) ! 0 = 0x010203040506"
proof -
  have "pair_accepts ref_platform demo_request ref_receiver"
    unfolding conjunct2 [OF ref_receiver_eq]
    by (simp add: pair_accepts_def demo_request_def rf_boot_def pairing_checksum_def ref_platform_def
        bslice_def pairing_id_def)
  moreover have "pairing_id a ref_receiver = 0" for a
    unfolding conjunct2 [OF ref_receiver_eq] by (simp add: pairing_id_def rf_boot_def)
  moreover have "length (rf_tracker_addresses ref_receiver) = 32"
    unfolding conjunct2 [OF ref_receiver_eq] by (simp add: rf_boot_def)
  ultimately show ?thesis
    using pairing_is_idempotent [OF ref_receiver_invar, of ref_platform demo_request]
    by (simp add: demo_request_def bslice_def)
qed

text \<open>
  C25: A group change is all or nothing in the running receiver. If it reports an error, role,
  group, pairing mode, tracker table, count and queued reports are what they were. If it succeeds,
  the receiver has the new group and role, is not pairing, has no trackers and no queued report,
  the storage variables hold the new configuration, and the radio is stopped until the restart.
\<close>

theorem set_group_all_or_nothing:
  assumes "rf_receiver_set_group p secondary g s = (r, s')"
  shows "(r \<noteq> 0 \<longrightarrow> rf_group_id s' = rf_group_id s \<and> rf_primary s' = rf_primary s \<and>
      rf_pairing s' = rf_pairing s \<and> rf_tracker_addresses s' = rf_tracker_addresses s \<and>
      rf_tracker_count s' = rf_tracker_count s \<and> rf_builder s' = rf_builder s) \<and>
    (r = 0 \<longrightarrow> rf_group_id s' = (if secondary then g AND DEVICE_ADDRESS_MASK else rf_receiver_id s) \<and>
      rf_primary s' = (\<not> secondary) \<and> \<not> rf_pairing s' \<and>
      rf_tracker_addresses s' = replicate 32 0 \<and> rf_tracker_count s' = 0 \<and>
      rb_content (rf_builder s') = [] \<and> \<not> rf_esb_initialized s' \<and>
      st_group_id s' = (if secondary then g AND DEVICE_ADDRESS_MASK else 0) \<and>
      st_tracker_count s' = 0)"
proof (cases "r = 0")
  case True
  then have "rf_receiver_set_group p secondary g s = (0, s')" using assms by simp
  from set_group_commits [OF this] True show ?thesis
    by (simp add: rb_content_def rb_length_def ring_span_def report_builder_clear_trackers_def)
next
  case False
  from set_group_fails [OF assms this] obtain t where
    "outer_frame (s\<lparr> rf_config_generation := t \<rparr>) s'" by blast
  from outer_frameD [OF this] False show ?thesis by simp
qed

text \<open>A refused change, and a change to a secondary of group 5.\<close>

theorem set_group_all_or_nothing_witness:
  "fst (rf_receiver_set_group ref_platform True 0 ref_receiver) = - EINVAL \<and>
   rf_group_id (snd (rf_receiver_set_group ref_platform True 0 ref_receiver)) = rf_group_id ref_receiver \<and>
   fst (rf_receiver_set_group ref_platform True 5 ref_receiver) = 0 \<and>
   rf_group_id (snd (rf_receiver_set_group ref_platform True 5 ref_receiver)) = 5 \<and>
   \<not> rf_primary (snd (rf_receiver_set_group ref_platform True 5 ref_receiver))"
proof -
  have "fst (rf_receiver_set_group ref_platform True 5 ref_receiver) = 0"
    unfolding conjunct2 [OF ref_receiver_eq]
    by (simp add: rf_receiver_set_group_def stop_radio_def receiver_storage_set_group_def
        receiver_storage_clear_trackers_def receiver_storage_set_tracker_count_def rf_boot_def Let_def
        split_beta ref_platform_def)
  then show ?thesis
    using set_group_all_or_nothing [OF prod.collapse [symmetric], of ref_platform True 0 ref_receiver]
      set_group_all_or_nothing [OF prod.collapse [symmetric], of ref_platform True 5 ref_receiver]
    by (simp add: rf_receiver_set_group_def [of _ _ 0])
qed

text \<open>
  A pairing that was accepted but not yet written cannot come back: after the trackers were
  cleared or a new group was set, the persistence work leaves the storage and the flash untouched
  when it meets a record of the time before.
\<close>

theorem stale_pairing_not_persisted:
  assumes "rf_receiver_clear_trackers p s = (r, s') \<or> rf_receiver_set_group p secondary g s = (0, s')"
    and "pp_generation record = rf_config_generation s"
  shows "persist_pairing p record s' = (0, s')"
proof -
  have "rf_config_generation s' = rf_config_generation s + 1"
    using assms(1) clear_trackers_spec set_group_commits by metis
  then show ?thesis using assms(2) by (simp add: persist_pairing_def)
qed

theorem stale_pairing_not_persisted_witness:
  "persist_pairing ref_platform \<lparr> pp_id = 0, pp_tracker_count = 1, pp_address = 5, pp_generation = 0 \<rparr>
      (snd (rf_receiver_clear_trackers ref_platform ref_receiver)) =
    (0, snd (rf_receiver_clear_trackers ref_platform ref_receiver))"
proof -
  have "rf_config_generation ref_receiver = 0"
    unfolding conjunct2 [OF ref_receiver_eq] by (simp add: rf_boot_def)
  then show ?thesis
    by (intro stale_pairing_not_persisted [OF disjI1 [OF prod.collapse [symmetric]]]) simp
qed

text \<open>
  The radio base address of a group consists of four bytes, none of which is 0x00, 0x55 or
  0xAA, the values that look like a preamble, whatever the group id is.
\<close>

theorem derived_addresses_safe:
  "length (derive_addresses gid) = 4 \<and> set (derive_addresses gid) \<inter> {0x00, 0x55, 0xaa} = {}"
  by (auto simp: derive_addresses_def Let_def split: if_splits)

end
