(* ===== verification/Frame_Codec.thy ===== *)
theory Frame_Codec
  imports Smol_Prelude
begin

text \<open>
  What the SPI envelope and the UDP datagram have in common: the little-endian field accessors and
  the CRC-32 of \<open>protocol/bridge_protocol.c\<close>, and the contract of a framed format (locale
  \<open>frame_codec\<close>). The CRC is linear over XOR and its shift register loses no state; so a frame
  followed by its CRC has a residue that no other frame within a burst of four bytes has, and this
  is all the contract needs to refuse corrupted frames.
\<close>

section \<open>Field accessors\<close>

definition read_le16 :: "byte list \<Rightarrow> u16" where
  "read_le16 data = ucast (data ! 0) OR push_bit 8 (ucast (data ! 1))"

definition read_le32 :: "byte list \<Rightarrow> u32" where
  "read_le32 data = ucast (data ! 0) OR push_bit 8 (ucast (data ! 1)) OR
     push_bit 16 (ucast (data ! 2)) OR push_bit 24 (ucast (data ! 3))"

text \<open>The writers take the offset of \<open>&output[off]\<close> and return the buffer.\<close>

definition write_le16 :: "nat \<Rightarrow> u16 \<Rightarrow> byte list \<Rightarrow> byte list" where
  "write_le16 off value data =
     data[off := ucast value, off + 1 := ucast (drop_bit 8 value)]"

definition write_le32 :: "nat \<Rightarrow> u32 \<Rightarrow> byte list \<Rightarrow> byte list" where
  "write_le32 off value data =
     data[off := ucast value, off + 1 := ucast (drop_bit 8 value),
          off + 2 := ucast (drop_bit 16 value), off + 3 := ucast (drop_bit 24 value)]"

lemma read_le16_word: "length xs = 2 \<Longrightarrow> read_le16 (xs @ ys) = word_of_le xs"
  by (auto simp: read_le16_def nth_append length_Suc_conv numeral_2_eq_2)

lemma le32_4: "length xs = 4 \<Longrightarrow> \<exists>a b c d. xs = [a, b, c, d]"
  by (auto simp: length_Suc_conv numeral_eq_Suc)

lemma read_le32_word:
  assumes "length xs = 4"
  shows "read_le32 (xs @ ys) = word_of_le xs"
proof -
  obtain a b c d where "xs = [a, b, c, d]"
    using le32_4 [OF assms] by blast
  then show ?thesis
    by (simp add: read_le32_def push_bit_or ac_simps)
qed

lemma read_le32_exact: "length xs = 4 \<Longrightarrow> read_le32 xs = word_of_le xs"
  using read_le32_word [of xs "[]"] by simp

lemma le16_bslice:
  assumes "i + 2 \<le> length input"
  shows "le_of_word 2 (read_le16 (drop i input)) = bslice i 2 input"
proof -
  have l: "length (bslice i 2 input) = 2" using assms by (simp add: length_bslice)
  have "read_le16 (drop i input) = word_of_le (bslice i 2 input)"
    using read_le16_word [OF l, of "drop 2 (drop i input)"]
    by (simp only: bslice_def append_take_drop_id)
  then show ?thesis
    using le_of_word_of_le [of "bslice i 2 input", where 'a = 16] l by simp
qed

lemma le32_bslice:
  assumes "i + 4 \<le> length input"
  shows "le_of_word 4 (read_le32 (drop i input)) = bslice i 4 input"
proof -
  have l: "length (bslice i 4 input) = 4" using assms by (simp add: length_bslice)
  have "read_le32 (drop i input) = word_of_le (bslice i 4 input)"
    using read_le32_word [OF l, of "drop 4 (drop i input)"]
    by (simp only: bslice_def append_take_drop_id)
  then show ?thesis
    using le_of_word_of_le [of "bslice i 4 input", where 'a = 32] l by simp
qed

lemma write_le16_filled [buffer_simps]:
  assumes "length pre = off" and "2 \<le> n"
  shows "write_le16 off v (filled pre n) = filled (pre @ le_of_word 2 v) (n - 2)"
  using assms by (simp add: write_le16_def update_filled numeral_2_eq_2)

lemma write_le32_filled [buffer_simps]:
  assumes "length pre = off" and "4 \<le> n"
  shows "write_le32 off v (filled pre n) = filled (pre @ le_of_word 4 v) (n - 4)"
  using assms by (simp add: write_le32_def update_filled numeral_eq_Suc drop_bit_drop_bit)

section \<open>CRC-32 (sv_crc32_ieee)\<close>

text \<open>One turn of the inner loop: \<open>mask\<close> is all ones exactly when the low bit is set.\<close>

definition crc32_bit :: "u32 \<Rightarrow> u32" where
  "crc32_bit crc = (let mask = - (crc AND 1) in drop_bit 1 crc XOR (0xedb88320 AND mask))"

text \<open>One turn of the outer loop, and the loop itself from a given register.\<close>

definition crc32_byte :: "u32 \<Rightarrow> byte \<Rightarrow> u32" where
  "crc32_byte crc b = (crc32_bit ^^ 8) (crc XOR ucast b)"

definition crc32_feed :: "u32 \<Rightarrow> byte list \<Rightarrow> u32" where
  "crc32_feed = foldl crc32_byte"

definition sv_crc32_ieee :: "byte list \<Rightarrow> nat \<Rightarrow> u32" where
  "sv_crc32_ieee data n = NOT (crc32_feed (- 1) (take n data))"

subsection \<open>The shift register: linear and injective\<close>

lemma crc32_bit_cases:
  "crc32_bit c = (if odd c then drop_bit 1 c XOR 0xedb88320 else drop_bit 1 c)"
  by (auto simp: crc32_bit_def Let_def and_one_eq mod_2_eq_odd)

lemma crc32_bit_xor: "crc32_bit (a XOR b) = crc32_bit a XOR crc32_bit b"
  by (auto simp: crc32_bit_cases even_xor_iff ac_simps)

lemma crc32_bit_zero: "crc32_bit a = 0 \<Longrightarrow> a = 0"
proof -
  assume z: "crc32_bit a = 0"
  have top: "\<not> bit (drop_bit 1 a) 31"
    using bit_imp_le_length [of a 32] by (auto simp: bit_drop_bit_eq)
  show "a = 0"
  proof (cases "odd a")
    case True
    with z have "drop_bit 1 a = 0xedb88320"
      by (simp add: crc32_bit_cases xor_zero_iff)
    then have "bit (drop_bit 1 a) 31" by simp
    with top show ?thesis ..
  next
    case False
    with z have d: "drop_bit 1 a = 0" by (simp add: crc32_bit_cases)
    show ?thesis
    proof (rule bit_word_eqI)
      fix n
      show "bit a n = bit 0 n"
        using False arg_cong [OF d, of "\<lambda>w. bit w (n - 1)"]
        by (cases n) (auto simp: bit_0 bit_drop_bit_eq)
    qed
  qed
qed

lemma crc32_bits_xor: "(crc32_bit ^^ n) (a XOR b) = (crc32_bit ^^ n) a XOR (crc32_bit ^^ n) b"
  by (induction n) (simp_all add: crc32_bit_xor)

lemma crc32_bits_zero: "(crc32_bit ^^ n) a = 0 \<Longrightarrow> a = 0"
  by (induction n) (auto dest: crc32_bit_zero)

lemma crc32_bits_inj: "(crc32_bit ^^ n) a = (crc32_bit ^^ n) b \<longleftrightarrow> a = b"
proof
  assume "(crc32_bit ^^ n) a = (crc32_bit ^^ n) b"
  then have "(crc32_bit ^^ n) (a XOR b) = 0" by (simp add: crc32_bits_xor)
  then have "a XOR b = 0" by (rule crc32_bits_zero)
  then show "a = b" by (simp add: xor_zero_iff)
qed simp

text \<open>Zeros shifted out on the right change nothing else.\<close>

lemma crc32_bits_clear:
  "(\<And>i. i < n \<Longrightarrow> \<not> bit w i) \<Longrightarrow> (crc32_bit ^^ n) w = drop_bit n w"
proof (induction n)
  case (Suc n)
  have "\<not> odd (drop_bit n w)"
    using Suc.prems [of n] by (simp add: bit_iff_odd_drop_bit)
  moreover have "(crc32_bit ^^ n) w = drop_bit n w"
    using Suc by simp
  ultimately show ?case
    by (simp add: crc32_bit_cases [of "drop_bit n w"] drop_bit_drop_bit)
qed simp

text \<open>
  Up to four bytes enter the register as if they had been XORed in at once, as the little
  endian integer they spell.
\<close>

lemma crc32_feed_word:
  "length bs \<le> 4 \<Longrightarrow>
   crc32_feed c bs = (crc32_bit ^^ (8 * length bs)) (c XOR word_of_le bs)"
proof (induction bs arbitrary: c)
  case Nil
  then show ?case by (simp add: crc32_feed_def)
next
  case (Cons b bs)
  let ?w = "word_of_le bs :: u32"
  have shift: "(crc32_bit ^^ 8) (push_bit 8 ?w) = ?w"
  proof -
    have "drop_bit 8 (push_bit 8 ?w) = ?w"
    proof (rule bit_word_eqI)
      fix i
      have "bit ?w i \<Longrightarrow> 8 + i < 32"
        using bit_word_of_le_bound [of bs i, where 'a = 32] Cons.prems by simp
      then show "bit (drop_bit 8 (push_bit 8 ?w)) i = bit ?w i"
        by (auto simp: bit_simps)
    qed
    moreover have "(crc32_bit ^^ 8) (push_bit 8 ?w) = drop_bit 8 (push_bit 8 ?w)"
      by (rule crc32_bits_clear) (simp add: bit_simps)
    ultimately show ?thesis by simp
  qed
  have disjoint: "word_of_le (b # bs) = (ucast b XOR push_bit 8 ?w :: u32)"
    by (rule bit_word_eqI) (auto simp: bit_simps dest: bit_imp_le_length)
  have turns: "8 * length bs + 8 = 8 * length (b # bs)" by simp
  have "crc32_feed c (b # bs) = crc32_feed (crc32_byte c b) bs"
    by (simp add: crc32_feed_def)
  also have "\<dots> = (crc32_bit ^^ (8 * length bs)) (crc32_byte c b XOR ?w)"
    using Cons by simp
  also have "crc32_byte c b XOR ?w = (crc32_bit ^^ 8) (c XOR word_of_le (b # bs))"
    by (simp only: crc32_byte_def disjoint shift crc32_bits_xor xor.assoc)
  finally show ?case
    by (simp only: turns [symmetric] funpow_add comp_apply)
qed

lemma crc32_feed_append: "crc32_feed c (xs @ ys) = crc32_feed (crc32_feed c xs) ys"
  by (simp add: crc32_feed_def)

lemma crc32_feed_inj: "crc32_feed c ys = crc32_feed d ys \<longleftrightarrow> c = d"
proof (induction ys arbitrary: c d)
  case (Cons y ys)
  have "crc32_byte c y = crc32_byte d y \<longleftrightarrow> c = d"
    by (simp add: crc32_byte_def crc32_bits_inj)
  then show ?case using Cons by (simp add: crc32_feed_def)
qed (simp add: crc32_feed_def)

text \<open>A burst of at most four bytes always changes the register.\<close>

lemma crc32_feed_burst:
  assumes len: "length bs = length cs" "length bs \<le> 4"
    and eq: "crc32_feed c (xs @ bs @ ys) = crc32_feed c (xs @ cs @ ys)"
  shows "bs = cs"
proof -
  let ?c = "crc32_feed c xs"
  have "(word_of_le bs :: u32) = word_of_le cs"
    using eq len by (simp add: crc32_feed_append crc32_feed_inj crc32_feed_word crc32_bits_inj)
  then show ?thesis using len by (auto intro: word_of_le_inj)
qed

text \<open>
  A buffer followed by its CRC in little-endian order drives the register into one constant,
  whatever the buffer was; nothing else does.
\<close>

definition crc32_residue :: u32 where
  "crc32_residue = (crc32_bit ^^ 32) (- 1)"

lemma crc32_residue_iff:
  assumes "length crc = 4"
  shows "word_of_le crc = NOT (crc32_feed (- 1) body) \<longleftrightarrow>
    crc32_feed (- 1) (body @ crc) = crc32_residue"
proof -
  let ?c = "crc32_feed (- 1) body"
  have "crc32_feed (- 1) (body @ crc) = crc32_residue \<longleftrightarrow> ?c XOR word_of_le crc = - 1"
    using assms by (simp add: crc32_feed_append crc32_feed_word crc32_residue_def crc32_bits_inj)
  also have "\<dots> \<longleftrightarrow> word_of_le crc = NOT ?c"
    by (rule xor_minus_one_iff)
  finally show ?thesis by simp
qed

lemma sv_crc32_ieee_append [buffer_simps]:
  "length xs = n \<Longrightarrow> sv_crc32_ieee (xs @ ys) n = sv_crc32_ieee xs n"
  by (simp add: sv_crc32_ieee_def)

lemma sv_crc32_ieee_filled [buffer_simps]:
  "length xs = n \<Longrightarrow> sv_crc32_ieee (filled xs k) n = sv_crc32_ieee xs n"
  by (simp add: filled_def sv_crc32_ieee_append)

text \<open>The CRC test of a decoder, as a statement about the whole frame.\<close>

lemma crc32_check_residue:
  assumes "length input = n + 4"
  shows "read_le32 (drop n input) = sv_crc32_ieee input n \<longleftrightarrow>
    crc32_feed (- 1) input = crc32_residue"
  using assms crc32_residue_iff [of "drop n input" "take n input"]
  by (simp add: read_le32_exact sv_crc32_ieee_def)

lemma crc32_check_le:
  "length body = n \<Longrightarrow>
   read_le32 (drop n (body @ le_of_word 4 (sv_crc32_ieee body n))) =
     sv_crc32_ieee (body @ le_of_word 4 (sv_crc32_ieee body n)) n"
  by (simp add: read_le32_exact sv_crc32_ieee_append)

section \<open>Framed formats\<close>

text \<open>
  Messages for which \<open>ok\<close> holds are encoded and decoded to \<open>norm\<close> of themselves; what is decoded is
  such a message, and its bytes have the residue.
\<close>

locale frame_codec =
  fixes encode :: "'m \<Rightarrow> byte list option"
    and decode :: "byte list \<Rightarrow> 'm option"
    and ok :: "'m \<Rightarrow> bool"
    and norm :: "'m \<Rightarrow> 'm"
  assumes round_trip: "ok m \<Longrightarrow> \<exists>bytes. encode m = Some bytes \<and> decode bytes = Some (norm m)"
    and decoded: "decode input = Some m \<Longrightarrow> ok m \<and> norm m = m"
    and residue: "decode input = Some m \<Longrightarrow> crc32_feed (- 1) input = crc32_residue"
begin

text \<open>A burst of at most four bytes is always refused.\<close>

lemma burst:
  assumes "decode (xs @ bs @ ys) \<noteq> None" and "length cs = length bs" and "length bs \<le> 4" and "cs \<noteq> bs"
  shows "decode (xs @ cs @ ys) = None"
proof (rule ccontr)
  assume "decode (xs @ cs @ ys) \<noteq> None"
  then have "crc32_feed (- 1) (xs @ bs @ ys) = crc32_feed (- 1) (xs @ cs @ ys)"
    using assms(1) residue by (metis not_None_eq)
  then show False using crc32_feed_burst [of bs cs] assms by metis
qed

text \<open>A message that was received can be sent on, and arrives as it was.\<close>

lemma passed_on: "decode input = Some m \<Longrightarrow> \<exists>bytes. encode m = Some bytes \<and> decode bytes = Some m"
  using round_trip [of m] decoded [of input m] by auto

text \<open>Two messages with the same encoding are the same to the other side.\<close>

lemma encode_inj: "ok m \<Longrightarrow> ok m' \<Longrightarrow> encode m = encode m' \<Longrightarrow> norm m = norm m'"
  using round_trip [of m] round_trip [of m'] by auto

text \<open>Messages that differ are encoded in more than a burst of four bytes of difference.\<close>

lemma distance:
  assumes "ok m" and "ok m'" and "encode m = Some (xs @ bs @ ys)" and "encode m' = Some (xs @ cs @ ys)"
    and "length cs = length bs" and "length bs \<le> 4"
  shows "norm m = norm m'"
proof (cases "cs = bs")
  case True
  then show ?thesis using encode_inj [OF assms(1,2)] assms(3,4) by simp
next
  case False
  then show ?thesis
    using burst [of xs bs ys cs] round_trip [OF assms(1)] round_trip [OF assms(2)] assms(3-6) by auto
qed

end

section \<open>Evaluating the model\<close>

text \<open>
  Rules that let the simplifier compute a CRC on concrete bytes: the register stays a
  numeral, and each turn of the inner loop is one rewrite.
\<close>

lemma crc32_byte_unrolled:
  "crc32_byte c b = crc32_bit (crc32_bit (crc32_bit (crc32_bit
     (crc32_bit (crc32_bit (crc32_bit (crc32_bit (c XOR ucast b))))))))"
  by (simp add: crc32_byte_def eval_nat_numeral)

lemma crc32_bit_numeral:
  "crc32_bit 0 = 0" "crc32_bit 1 = 0xedb88320"
  "crc32_bit (numeral (Num.Bit0 k)) = drop_bit 1 (numeral (Num.Bit0 k))"
  "crc32_bit (numeral (Num.Bit1 k)) = drop_bit 1 (numeral (Num.Bit1 k)) XOR 0xedb88320"
  by (simp_all add: crc32_bit_cases)

lemma sv_crc32_ieee_eval:
  "sv_crc32_ieee data n = NOT (foldl crc32_byte 0xffffffff (take n data))"
proof -
  have "(0xffffffff :: u32) = - 1" by simp
  then show ?thesis by (simp only: sv_crc32_ieee_def crc32_feed_def)
qed

lemmas crc32_eval = sv_crc32_ieee_eval crc32_byte_unrolled crc32_bit_numeral

lemma crc32_check_value:
  "sv_crc32_ieee [0x31, 0x32, 0x33, 0x34, 0x35, 0x36, 0x37, 0x38, 0x39] 9 = 0xcbf43926"
  by (simp add: crc32_eval)

end
