(* ===== verification/Bridge_Protocol.thy ===== *)
theory Bridge_Protocol
  imports Frame_Codec
begin

text \<open>
  The SPI envelope of \<open>protocol/bridge_protocol.c\<close> and \<open>bridge_protocol.h\<close>:
  \<open>sv_bridge_encode\<close> and \<open>sv_bridge_decode\<close>, over the field accessors and the CRC of
  \<open>Frame_Codec\<close>. After the layout of an encoded envelope come the round trips; envelopes are an
  interpretation of \<open>frame_codec\<close>, from which the rejection of corrupted frames follows.
\<close>

section \<open>Constants and messages (bridge_protocol.h)\<close>

abbreviation (input) SV_BRIDGE_VERSION :: byte where "SV_BRIDGE_VERSION \<equiv> 1"
abbreviation (input) SV_BRIDGE_PAYLOAD_SIZE :: "'a::numeral" where "SV_BRIDGE_PAYLOAD_SIZE \<equiv> 64"
abbreviation (input) SV_BRIDGE_ENVELOPE_SIZE :: nat where "SV_BRIDGE_ENVELOPE_SIZE \<equiv> 80"

abbreviation (input) SV_BRIDGE_FLAG_MORE_PENDING :: byte where "SV_BRIDGE_FLAG_MORE_PENDING \<equiv> 1"
abbreviation (input) SV_BRIDGE_FLAG_ERROR :: byte where "SV_BRIDGE_FLAG_ERROR \<equiv> 2"

abbreviation (input) SV_BRIDGE_IDLE :: byte where "SV_BRIDGE_IDLE \<equiv> 0"
abbreviation (input) SV_BRIDGE_RECEIVER_REPORT :: byte where "SV_BRIDGE_RECEIVER_REPORT \<equiv> 1"
abbreviation (input) SV_BRIDGE_COMMAND :: byte where "SV_BRIDGE_COMMAND \<equiv> 2"
abbreviation (input) SV_BRIDGE_COMMAND_RESPONSE :: byte where "SV_BRIDGE_COMMAND_RESPONSE \<equiv> 3"
abbreviation (input) SV_BRIDGE_STATUS_EVENT :: byte where "SV_BRIDGE_STATUS_EVENT \<equiv> 4"

abbreviation (input) SV_CMD_GET_STATUS :: byte where "SV_CMD_GET_STATUS \<equiv> 1"
abbreviation (input) SV_CMD_GET_TRACKER_PAGE :: byte where "SV_CMD_GET_TRACKER_PAGE \<equiv> 2"
abbreviation (input) SV_CMD_SET_GROUP :: byte where "SV_CMD_SET_GROUP \<equiv> 3"
abbreviation (input) SV_CMD_START_PAIRING :: byte where "SV_CMD_START_PAIRING \<equiv> 4"
abbreviation (input) SV_CMD_STOP_PAIRING :: byte where "SV_CMD_STOP_PAIRING \<equiv> 5"
abbreviation (input) SV_CMD_CLEAR_TRACKERS :: byte where "SV_CMD_CLEAR_TRACKERS \<equiv> 6"
abbreviation (input) SV_CMD_REBOOT :: byte where "SV_CMD_REBOOT \<equiv> 7"
abbreviation (input) SV_CMD_SET_RADIO_ENABLED :: byte where "SV_CMD_SET_RADIO_ENABLED \<equiv> 8"

abbreviation (input) SV_STATUS_OK :: byte where "SV_STATUS_OK \<equiv> 0"
abbreviation (input) SV_STATUS_BAD_REQUEST :: byte where "SV_STATUS_BAD_REQUEST \<equiv> 1"
abbreviation (input) SV_STATUS_NOT_ALLOWED :: byte where "SV_STATUS_NOT_ALLOWED \<equiv> 2"
abbreviation (input) SV_STATUS_NOT_FOUND :: byte where "SV_STATUS_NOT_FOUND \<equiv> 3"
abbreviation (input) SV_STATUS_BUSY :: byte where "SV_STATUS_BUSY \<equiv> 4"
abbreviation (input) SV_STATUS_INTERNAL_ERROR :: byte where "SV_STATUS_INTERNAL_ERROR \<equiv> 5"

text \<open>\<open>payload\<close> is the 64-byte array of the struct; \<open>bm_wf\<close> is its declared size.\<close>

record sv_bridge_message =
  bm_kind :: byte
  bm_flags :: byte
  bm_payload_length :: byte
  bm_sequence :: u16
  bm_request_id :: u16
  bm_payload :: "byte list"

definition bm_wf :: "sv_bridge_message \<Rightarrow> bool" where
  "bm_wf m \<longleftrightarrow> length (bm_payload m) = SV_BRIDGE_PAYLOAD_SIZE"

text \<open>\<open>struct sv_bridge_message m = {0}\<close>.\<close>

definition bm_zero :: sv_bridge_message where
  "bm_zero = \<lparr> bm_kind = 0, bm_flags = 0, bm_payload_length = 0, bm_sequence = 0,
     bm_request_id = 0, bm_payload = zeros SV_BRIDGE_PAYLOAD_SIZE \<rparr>"

lemma bm_wf_zero [simp]: "bm_wf bm_zero"
  by (simp add: bm_wf_def bm_zero_def)

definition bridge_magic :: "byte list" where
  "bridge_magic = [0x53, 0x56, 0x42, 0x31]"

section \<open>Envelopes\<close>

definition sv_bridge_encode :: "sv_bridge_message \<Rightarrow> byte list" where
  "sv_bridge_encode m =
    (let out = zeros SV_BRIDGE_ENVELOPE_SIZE;
         out = blit 0 bridge_magic out;
         out = out[4 := SV_BRIDGE_VERSION];
         out = out[5 := bm_kind m];
         out = out[6 := bm_flags m];
         out = out[7 := (if bm_payload_length m \<le> SV_BRIDGE_PAYLOAD_SIZE
                         then bm_payload_length m else SV_BRIDGE_PAYLOAD_SIZE)];
         out = write_le16 8 (bm_sequence m) out;
         out = write_le16 10 (bm_request_id m) out;
         out = blit 12 (take (unat (out ! 7)) (bm_payload m)) out
     in write_le32 76 (sv_crc32_ieee out 76) out)"

definition sv_bridge_decode :: "byte list \<Rightarrow> sv_bridge_message option" where
  "sv_bridge_decode input =
    (if take 4 input \<noteq> bridge_magic \<or>
        input ! 4 \<noteq> SV_BRIDGE_VERSION \<or> SV_BRIDGE_STATUS_EVENT < input ! 5 \<or>
        SV_BRIDGE_PAYLOAD_SIZE < input ! 7 \<or>
        read_le32 (drop 76 input) \<noteq> sv_crc32_ieee input 76
     then None
     else
      (let n = input ! 7 in
       Some \<lparr> bm_kind = input ! 5, bm_flags = input ! 6, bm_payload_length = n,
              bm_sequence = read_le16 (drop 8 input),
              bm_request_id = read_le16 (drop 10 input),
              bm_payload = blit 0 (bslice 12 (unat n) input) (zeros SV_BRIDGE_PAYLOAD_SIZE) \<rparr>))"

text \<open>
  What the other side sees of a message: the length clamped to the payload size, the payload
  beyond it zero.
\<close>

definition bm_clamped :: "sv_bridge_message \<Rightarrow> byte" where
  "bm_clamped m = (if bm_payload_length m \<le> 64 then bm_payload_length m else 64)"

definition bm_padded :: "sv_bridge_message \<Rightarrow> byte list" where
  "bm_padded m = take (unat (bm_clamped m)) (bm_payload m) @ zeros (64 - unat (bm_clamped m))"

definition bm_normal :: "sv_bridge_message \<Rightarrow> sv_bridge_message" where
  "bm_normal m = m\<lparr> bm_payload_length := bm_clamped m, bm_payload := bm_padded m \<rparr>"

definition bridge_body :: "sv_bridge_message \<Rightarrow> byte list" where
  "bridge_body m = bridge_magic @
     [SV_BRIDGE_VERSION, bm_kind m, bm_flags m, bm_clamped m] @
     le_of_word 2 (bm_sequence m) @ le_of_word 2 (bm_request_id m) @ bm_padded m"

lemma bm_clamped_le: "unat (bm_clamped m) \<le> 64"
  by (simp add: bm_clamped_def word_le_nat_alt)

lemma length_bm_padded: "bm_wf m \<Longrightarrow> length (bm_padded m) = 64"
  using bm_clamped_le [of m] by (simp add: bm_padded_def bm_wf_def)

lemma length_bridge_magic [simp]: "length bridge_magic = 4"
  by (simp add: bridge_magic_def)

lemma length_bridge_body [simp]: "bm_wf m \<Longrightarrow> length (bridge_body m) = 76"
  by (simp add: bridge_body_def length_bm_padded)

lemma bm_wf_normal [simp]: "bm_wf m \<Longrightarrow> bm_wf (bm_normal m)"
  by (simp add: bm_wf_def bm_normal_def length_bm_padded [unfolded bm_wf_def])

lemma sv_bridge_encode_body:
  assumes "bm_wf m"
  shows "sv_bridge_encode m = bridge_body m @ le_of_word 4 (sv_crc32_ieee (bridge_body m) 76)"
proof -
  let ?n = "unat (bm_clamped m)"
  let ?head = "bridge_magic @ [SV_BRIDGE_VERSION, bm_kind m, bm_flags m, bm_clamped m] @
     le_of_word 2 (bm_sequence m) @ le_of_word 2 (bm_request_id m)"
  have n: "?n \<le> 64" by (rule bm_clamped_le)
  have sev: "?head ! 7 = bm_clamped m"
    by (simp add: bridge_magic_def)
  have skip: "filled (?head @ take ?n (bm_payload m)) (68 - ?n) = filled (bridge_body m) 4"
    using n filled_skip [of "64 - ?n" "68 - ?n" "?head @ take ?n (bm_payload m)"]
    by (simp add: bridge_body_def bm_padded_def)
  show ?thesis
    using assms n skip sev
    by (simp add: sv_bridge_encode_def bm_clamped_def [symmetric] Let_def filled_start
         buffer_simps bm_wf_def)
qed

lemma length_sv_bridge_encode [simp]: "bm_wf m \<Longrightarrow> length (sv_bridge_encode m) = 80"
  by (simp add: sv_bridge_encode_body)

lemma bridge_body_parts:
  "take 4 (bridge_body m @ xs) = bridge_magic"
  "(bridge_body m @ xs) ! 4 = SV_BRIDGE_VERSION"
  "(bridge_body m @ xs) ! 5 = bm_kind m"
  "(bridge_body m @ xs) ! 6 = bm_flags m"
  "(bridge_body m @ xs) ! 7 = bm_clamped m"
  "read_le16 (drop 8 (bridge_body m @ xs)) = bm_sequence m"
  "read_le16 (drop 10 (bridge_body m @ xs)) = bm_request_id m"
  "bm_wf m \<Longrightarrow> bslice 12 (unat (bm_clamped m)) (bridge_body m @ xs) =
     take (unat (bm_clamped m)) (bm_payload m)"
  using bm_clamped_le [of m]
  by (simp_all add: bridge_body_def bridge_magic_def read_le16_word bslice_def bm_padded_def
      bm_wf_def)

lemma bridge_roundtrip:
  assumes "bm_wf m"
  shows "sv_bridge_decode (sv_bridge_encode m) =
    (if bm_kind m \<le> SV_BRIDGE_STATUS_EVENT then Some (bm_normal m) else None)"
proof -
  have "\<not> 64 < bm_clamped m"
    by (simp add: bm_clamped_def not_less)
  moreover have "blit 0 (take (unat (bm_clamped m)) (bm_payload m)) (zeros 64) = bm_padded m"
    using assms bm_clamped_le [of m] by (simp add: blit_def bm_padded_def bm_wf_def)
  moreover define e where
    "e = bridge_body m @ le_of_word 4 (sv_crc32_ieee (bridge_body m) 76)"
  moreover have "read_le32 (drop 76 e) = sv_crc32_ieee e 76"
    unfolding e_def by (rule crc32_check_le) (simp add: assms)
  moreover note bridge_body_parts [of m "le_of_word 4 (sv_crc32_ieee (bridge_body m) 76)",
      folded e_def]
  ultimately show ?thesis
    using assms
    by (cases m) (simp add: sv_bridge_decode_def sv_bridge_encode_body Let_def bm_normal_def not_le)
qed

lemma bridge_decode_props:
  assumes "sv_bridge_decode input = Some m" and "length input = 80"
  shows "bm_wf m" and "bm_kind m \<le> SV_BRIDGE_STATUS_EVENT" and "bm_payload_length m \<le> 64"
    and "bm_normal m = m"
proof -
  from assms have len: "input ! 7 \<le> 64" and kind: "input ! 5 \<le> 4"
    and m: "m = \<lparr> bm_kind = input ! 5, bm_flags = input ! 6, bm_payload_length = input ! 7,
      bm_sequence = read_le16 (drop 8 input), bm_request_id = read_le16 (drop 10 input),
      bm_payload = blit 0 (bslice 12 (unat (input ! 7)) input) (zeros 64) \<rparr>"
    by (auto simp: sv_bridge_decode_def Let_def split: if_splits)
  from len have n: "unat (input ! 7) \<le> 64"
    by (simp add: word_le_nat_alt)
  then have sl: "length (bslice 12 (unat (input ! 7)) input) = unat (input ! 7)"
    using assms(2) by (simp add: length_bslice)
  show "bm_wf m" using n sl by (simp add: m bm_wf_def length_blit)
  show "bm_kind m \<le> 4" and "bm_payload_length m \<le> 64" using kind len by (simp_all add: m)
  show "bm_normal m = m"
    using len n sl by (simp add: m bm_normal_def bm_padded_def bm_clamped_def blit_def)
qed

text \<open>The header and length tests apart, a frame is accepted for its CRC residue alone.\<close>

lemma bridge_decode_accepts:
  assumes "length input = 80"
  shows "sv_bridge_decode input \<noteq> None \<longleftrightarrow>
    take 4 input = bridge_magic \<and> input ! 4 = SV_BRIDGE_VERSION \<and>
    input ! 5 \<le> SV_BRIDGE_STATUS_EVENT \<and> input ! 7 \<le> 64 \<and>
    crc32_feed (- 1) input = crc32_residue"
  using crc32_check_residue [of input 76] assms
  by (auto simp: sv_bridge_decode_def Let_def)

interpretation envelope: frame_codec "\<lambda>m. Some (sv_bridge_encode m)"
    "\<lambda>input. if length input = 80 then sv_bridge_decode input else None"
    "\<lambda>m. bm_wf m \<and> bm_kind m \<le> SV_BRIDGE_STATUS_EVENT" bm_normal
proof unfold_locales
  fix m input
  show "bm_wf m \<and> bm_kind m \<le> 4 \<Longrightarrow> \<exists>bytes. Some (sv_bridge_encode m) = Some bytes \<and>
      (if length bytes = 80 then sv_bridge_decode bytes else None) = Some (bm_normal m)"
    by (simp add: bridge_roundtrip)
  assume "(if length input = 80 then sv_bridge_decode input else None) = Some m"
  then have d: "sv_bridge_decode input = Some m" "length input = 80" by (auto split: if_splits)
  show "(bm_wf m \<and> bm_kind m \<le> 4) \<and> bm_normal m = m" using bridge_decode_props [OF d] by simp
  show "crc32_feed (- 1) input = crc32_residue" using bridge_decode_accepts [OF d(2)] d(1) by simp
qed

lemma bridge_burst:
  assumes "sv_bridge_decode (xs @ bs @ ys) \<noteq> None"
    and "length (xs @ bs @ ys) = 80" and "length cs = length bs" "length bs \<le> 4" "cs \<noteq> bs"
  shows "sv_bridge_decode (xs @ cs @ ys) = None"
  using envelope.burst [of xs bs ys cs] assms by simp

text \<open>Decoding and encoding again gives the frame back, when its padding is zero.\<close>

lemma bridge_decode_body:
  assumes "sv_bridge_decode input = Some m" and "length input = 80"
    and "bslice (12 + unat (input ! 7)) (64 - unat (input ! 7)) input =
      zeros (64 - unat (input ! 7))"
  shows "bridge_body m = take 76 input"
proof -
  let ?n = "unat (input ! 7)"
  from assms(1) have hd: "take 4 input = bridge_magic" "input ! 4 = 1"
    and len: "input ! 7 \<le> 64"
    and m: "m = \<lparr> bm_kind = input ! 5, bm_flags = input ! 6, bm_payload_length = input ! 7,
      bm_sequence = read_le16 (drop 8 input), bm_request_id = read_le16 (drop 10 input),
      bm_payload = blit 0 (bslice 12 (unat (input ! 7)) input) (zeros 64) \<rparr>"
    by (auto simp: sv_bridge_decode_def Let_def split: if_splits)
  from len have n: "?n \<le> 64" by (simp add: word_le_nat_alt)
  have pad: "bm_padded m = bslice 12 64 input"
  proof -
    have "bslice 12 64 input = bslice 12 ?n input @ bslice (12 + ?n) (64 - ?n) input"
      using n take_add [of ?n "64 - ?n" "drop 12 input"] by (simp add: bslice_def add.commute)
    also have "\<dots> = bm_padded m"
      using n len assms(2,3) by (simp add: m bm_padded_def bm_clamped_def blit_def length_bslice)
    finally show ?thesis ..
  qed
  have "take 76 input = take 4 input @ bslice 4 1 input @ bslice 5 1 input @ bslice 6 1 input @
      bslice 7 1 input @ bslice 8 2 input @ bslice 10 2 input @ bslice 12 64 input"
    using take_bslice [of 12 64 input] take_bslice [of 10 2 input] take_bslice [of 8 2 input]
      take_bslice [of 7 1 input] take_bslice [of 6 1 input] take_bslice [of 5 1 input]
      take_bslice [of 4 1 input] by simp
  also have "\<dots> = bridge_body m"
    using hd len le16_bslice [of 8 input] le16_bslice [of 10 input] pad assms(2)
    by (simp add: bridge_body_def m bm_clamped_def bslice_one)
  finally show ?thesis ..
qed

lemma bridge_reencode:
  assumes "sv_bridge_decode input = Some m" and "length input = 80"
    and "bslice (12 + unat (input ! 7)) (64 - unat (input ! 7)) input =
      zeros (64 - unat (input ! 7))"
  shows "sv_bridge_encode m = input"
proof -
  have "read_le32 (drop 76 input) = sv_crc32_ieee input 76"
    using assms(1) by (auto simp: sv_bridge_decode_def split: if_splits)
  moreover have "le_of_word 4 (read_le32 (drop 76 input)) = drop 76 input"
    using le32_bslice [of 76 input] assms(2) by (simp add: bslice_def)
  ultimately have "drop 76 input = le_of_word 4 (sv_crc32_ieee (take 76 input) 76)"
    by (simp add: sv_crc32_ieee_def)
  then show ?thesis
    using bridge_decode_body [OF assms] bridge_decode_props(1) [OF assms(1,2)]
      append_take_drop_id [of 76 input]
    by (simp add: sv_bridge_encode_body)
qed

section \<open>The golden command of golden_vectors.h\<close>

text \<open>The command envelope of \<open>golden_vectors.h\<close>, as the tests build it.\<close>

definition golden_command :: sv_bridge_message where
  "golden_command = \<lparr> bm_kind = SV_BRIDGE_COMMAND, bm_flags = 0, bm_payload_length = 2,
     bm_sequence = 0xffff, bm_request_id = 0x1234,
     bm_payload = SV_CMD_SET_RADIO_ENABLED # zeros 63 \<rparr>"

definition golden_command_bytes :: "byte list" where
  "golden_command_bytes =
    [0x53, 0x56, 0x42, 0x31, 0x01, 0x02, 0x00, 0x02, 0xff, 0xff, 0x34, 0x12, 0x08] @ zeros 63 @
    [0xed, 0x9a, 0xe9, 0x5e]"

lemma bm_wf_golden [simp]: "bm_wf golden_command"
  by (simp add: golden_command_def bm_wf_def)

lemma golden_command_kind [simp]: "bm_kind golden_command = SV_BRIDGE_COMMAND"
  by (simp add: golden_command_def)

lemma golden_command_encode: "sv_bridge_encode golden_command = golden_command_bytes"
proof -
  have body: "bridge_body golden_command =
    [0x53, 0x56, 0x42, 0x31, 0x01, 0x02, 0x00, 0x02, 0xff, 0xff, 0x34, 0x12, 8] @ zeros 63"
    by (simp add: bridge_body_def golden_command_def bm_padded_def bm_clamped_def
        bridge_magic_def byte_eval)
  have crc: "sv_crc32_ieee (bridge_body golden_command) 76 = 0x5ee99aed"
    unfolding body by (simp add: byte_eval crc32_eval)
  have "sv_bridge_encode golden_command =
      bridge_body golden_command @ le_of_word 4 (0x5ee99aed :: u32)"
    by (simp only: sv_bridge_encode_body [OF bm_wf_golden] crc)
  then show ?thesis
    by (simp add: body golden_command_bytes_def byte_eval)
qed

lemma golden_command_accepted: "sv_bridge_decode golden_command_bytes \<noteq> None"
  using bridge_roundtrip [of golden_command]
  by (simp add: golden_command_encode)

section \<open>Properties\<close>

text \<open>
  C22: A message sent over the SPI link is received as it was sent. Decoding the envelope of
  any message gives back that message, with the length byte clamped to the 64 payload bytes
  and the payload beyond it zero; only a message with an unknown kind is refused.
\<close>

theorem bridge_envelope_roundtrip:
  assumes "bm_wf m"
  shows "length (sv_bridge_encode m) = 80 \<and>
    sv_bridge_decode (sv_bridge_encode m) =
      (if bm_kind m \<le> SV_BRIDGE_STATUS_EVENT then Some (bm_normal m) else None)"
  using assms by (simp add: bridge_roundtrip)

theorem bridge_envelope_roundtrip_witness:
  "bm_wf golden_command \<and>
   sv_bridge_decode (sv_bridge_encode golden_command) = Some (bm_normal golden_command)"
  using bridge_envelope_roundtrip [OF bm_wf_golden] by simp

text \<open>
  The envelope's CRC detects every burst of corruption of up to four consecutive bytes
  (so every single corrupted byte) anywhere in the 80 bytes, the CRC field included: a frame
  that differs from an accepted frame only there is refused.
\<close>

theorem bridge_detects_bursts:
  assumes "sv_bridge_decode (xs @ bs @ ys) \<noteq> None" and "length (xs @ bs @ ys) = 80"
    and "length cs = length bs" and "length bs \<le> 4" and "cs \<noteq> bs"
  shows "sv_bridge_decode (xs @ cs @ ys) = None"
  using assms by (rule bridge_burst)

theorem bridge_detects_bursts_witness:
  "sv_bridge_decode
    ([0x53, 0x56, 0x42, 0x31, 0x01, 0x02, 0x00, 0x02, 0xff, 0xff] @ [0x35, 0x12, 0x09] @
     (zeros 63 @ [0xed, 0x9a, 0xe9, 0x5e])) = None"
  by (rule bridge_detects_bursts [of _ "[0x34, 0x12, 0x08]"])
     (use golden_command_accepted in \<open>simp_all add: golden_command_bytes_def\<close>)

text \<open>
  The decoder accepts no second spelling of a message: a frame it accepts, with the
  padding the encoder writes, is exactly the encoding of the decoded message.
\<close>

theorem bridge_decode_canonical:
  assumes "sv_bridge_decode input = Some m" and "length input = 80"
    and "bslice (12 + unat (input ! 7)) (64 - unat (input ! 7)) input =
      zeros (64 - unat (input ! 7))"
  shows "sv_bridge_encode m = input"
  using assms by (rule bridge_reencode)

theorem bridge_decode_canonical_witness:
  "sv_bridge_decode golden_command_bytes = Some (bm_normal golden_command) \<and>
   sv_bridge_encode (bm_normal golden_command) = golden_command_bytes"
proof -
  have d: "sv_bridge_decode golden_command_bytes = Some (bm_normal golden_command)"
    using bridge_roundtrip [OF bm_wf_golden] by (simp add: golden_command_encode)
  have p: "bslice (12 + unat (golden_command_bytes ! 7)) (64 - unat (golden_command_bytes ! 7))
      golden_command_bytes = zeros (64 - unat (golden_command_bytes ! 7))"
    by (simp add: golden_command_bytes_def bslice_def byte_eval)
  have "sv_bridge_encode (bm_normal golden_command) = golden_command_bytes"
    by (rule bridge_decode_canonical [OF d _ p]) (simp add: golden_command_bytes_def)
  with d show ?thesis by simp
qed

text \<open>
  The encoder produces the golden command envelope of \<open>protocol/golden_vectors.h\<close>, CRC
  included.
\<close>

theorem bridge_golden_vector: "sv_bridge_encode golden_command = golden_command_bytes"
  by (rule golden_command_encode)

end
