(* ===== verification/Command_Replay_Cache.thy ===== *)
theory Command_Replay_Cache
  imports Bridge_Protocol "HOL-Library.Multiset"
begin

text \<open>
  The response cache of \<open>protocol/command_replay_cache.c\<close>: eight slots written round robin,
  searched by request id. The interface the receiver relies on is the locale
  \<open>response_log\<close> (a bounded log of the most recent responses); the C implementation is shown
  to provide it, so the clients only ever reason about the log.
\<close>

section \<open>The contract: a bounded log of responses\<close>

text \<open>The last \<open>n\<close> elements of a list.\<close>

definition keep_last :: "nat \<Rightarrow> 'a list \<Rightarrow> 'a list" where
  "keep_last n xs = drop (length xs - n) xs"

lemma length_keep_last: "length (keep_last n xs) = min n (length xs)"
  by (simp add: keep_last_def min_def)

lemma keep_last_snoc:
  "0 < n \<Longrightarrow> keep_last n (xs @ [x]) = keep_last (n - 1) xs @ [x]"
  by (cases n) (simp_all add: keep_last_def)

lemma keep_last_idem_append:
  "keep_last n (keep_last n xs @ ys) = keep_last n (xs @ ys)"
  by (cases "length xs \<le> n") (simp_all add: keep_last_def min_def not_le add.commute)

lemma set_keep_last: "set (keep_last n xs) \<subseteq> set xs"
  by (simp add: keep_last_def set_drop_subset)

lemma distinct_keep_last: "distinct (map f xs) \<Longrightarrow> distinct (map f (keep_last n xs))"
  by (simp add: keep_last_def drop_map [symmetric])

lemma distinct_keep_last_append:
  "distinct (map f (xs @ ys)) \<Longrightarrow> distinct (map f (keep_last n xs @ ys))"
  using set_keep_last [of n xs] distinct_keep_last [of f xs n] by auto

lemma keep_last_all: "length xs \<le> n \<Longrightarrow> keep_last n xs = xs"
  by (simp add: keep_last_def)

locale response_log =
  fixes empty :: 'c
    and find_response :: "'c \<Rightarrow> 'k \<Rightarrow> 'v option"
    and store :: "'c \<Rightarrow> 'k \<Rightarrow> 'v \<Rightarrow> 'c"
    and log :: "'c \<Rightarrow> ('k \<times> 'v) list"
    and invar :: "'c \<Rightarrow> bool"
    and cap :: nat
  assumes cap_pos: "0 < cap"
    and invar_empty: "invar empty"
    and log_empty: "log empty = []"
    and log_distinct: "invar c \<Longrightarrow> distinct (map fst (log c))"
    and find_log: "invar c \<Longrightarrow> find_response c k = map_of (log c) k"
    and invar_store: "invar c \<Longrightarrow> find_response c k = None \<Longrightarrow> invar (store c k v)"
    and log_store: "invar c \<Longrightarrow> find_response c k = None \<Longrightarrow>
      log (store c k v) = keep_last cap (log c @ [(k, v)])"
begin

lemma find_empty: "find_response empty k = None"
  by (simp add: find_log invar_empty log_empty)

lemma find_mem:
  "invar c \<Longrightarrow> find_response c k = Some v \<longleftrightarrow> (k, v) \<in> set (log c)"
  by (simp add: find_log log_distinct)

lemma find_none:
  "invar c \<Longrightarrow> find_response c k = None \<longleftrightarrow> k \<notin> fst ` set (log c)"
  by (simp add: find_log map_of_eq_None_iff)

text \<open>What has just been stored is found.\<close>

lemma find_stored:
  assumes "invar c" and "find_response c k = None"
  shows "find_response (store c k v) k = Some v"
  using assms invar_store [OF assms, of v] cap_pos
  by (simp add: find_mem log_store keep_last_snoc)

text \<open>A run of stores of new keys leaves the last \<open>cap\<close> of them.\<close>

lemma log_run:
  assumes "invar c" and "length (log c) \<le> cap" and "distinct (map fst (log c @ kvs))"
  shows "invar (foldl (\<lambda>c (k, v). store c k v) c kvs) \<and>
    log (foldl (\<lambda>c (k, v). store c k v) c kvs) = keep_last cap (log c @ kvs)"
  using assms
proof (induction kvs arbitrary: c)
  case Nil
  then show ?case by (simp add: keep_last_all)
next
  case (Cons kv kvs)
  obtain k v where kv: "kv = (k, v)" by (cases kv)
  let ?c = "store c k v"
  have new: "find_response c k = None"
    using Cons.prems by (auto simp: find_none kv)
  have i: "invar ?c" and lg: "log ?c = keep_last cap (log c @ [(k, v)])"
    using Cons.prems(1) new by (simp_all add: invar_store log_store)
  have "distinct (map fst (keep_last cap (log c @ [(k, v)]) @ kvs))"
    using Cons.prems(3) distinct_keep_last_append [of fst "log c @ [(k, v)]" kvs cap]
    by (simp add: kv)
  with i lg have "invar (foldl (\<lambda>c (k, v). store c k v) ?c kvs) \<and>
      log (foldl (\<lambda>c (k, v). store c k v) ?c kvs) = keep_last cap (log ?c @ kvs)"
    by (intro Cons.IH) (simp_all add: length_keep_last)
  then show ?case
    by (simp add: kv lg keep_last_idem_append)
qed

lemma find_after_run:
  assumes "distinct (map fst kvs)"
  shows "find_response (foldl (\<lambda>c (k, v). store c k v) empty kvs) k =
    map_of (keep_last cap kvs) k"
  using assms log_run [of empty kvs] by (simp add: invar_empty log_empty find_log)

end

section \<open>The implementation (command_replay_cache.c)\<close>

record sv_command_replay_entry =
  re_valid :: bool
  re_request_id :: u16
  re_response :: sv_bridge_message

record sv_command_replay_cache =
  rc_entries :: "sv_command_replay_entry list"
  rc_cursor :: byte

abbreviation (input) SV_COMMAND_REPLAY_CACHE_SIZE :: "'a::numeral" where
  "SV_COMMAND_REPLAY_CACHE_SIZE \<equiv> 8"

text \<open>\<open>memset (cache, 0, sizeof *cache)\<close>.\<close>

definition sv_command_replay_init :: sv_command_replay_cache where
  "sv_command_replay_init =
    \<lparr> rc_entries = replicate SV_COMMAND_REPLAY_CACHE_SIZE
        \<lparr> re_valid = False, re_request_id = 0, re_response = bm_zero \<rparr>,
      rc_cursor = 0 \<rparr>"

text \<open>The loop over the entries; \<open>None\<close> is \<open>return false\<close>.\<close>

primrec replay_scan :: "sv_command_replay_entry list \<Rightarrow> u16 \<Rightarrow> sv_bridge_message option" where
  "replay_scan [] request_id = None"
| "replay_scan (e # es) request_id =
    (if re_valid e \<and> re_request_id e = request_id then Some (re_response e)
     else replay_scan es request_id)"

definition sv_command_replay_find ::
    "sv_command_replay_cache \<Rightarrow> u16 \<Rightarrow> sv_bridge_message option" where
  "sv_command_replay_find cache request_id = replay_scan (rc_entries cache) request_id"

definition sv_command_replay_store ::
    "sv_command_replay_cache \<Rightarrow> u16 \<Rightarrow> sv_bridge_message \<Rightarrow> sv_command_replay_cache" where
  "sv_command_replay_store cache request_id response =
    cache\<lparr> rc_entries := (rc_entries cache)[unat (rc_cursor cache) :=
             \<lparr> re_valid = True, re_request_id = request_id, re_response = response \<rparr>],
           rc_cursor := (rc_cursor cache + 1) mod SV_COMMAND_REPLAY_CACHE_SIZE \<rparr>"

section \<open>The implementation provides the contract\<close>

text \<open>
  Read from the cursor on, the slots go from the oldest to the newest, the unused ones first.
\<close>

definition replay_ring :: "sv_command_replay_cache \<Rightarrow> sv_command_replay_entry list" where
  "replay_ring c = rotate (unat (rc_cursor c)) (rc_entries c)"

definition replay_log :: "sv_command_replay_cache \<Rightarrow> (u16 \<times> sv_bridge_message) list" where
  "replay_log c =
    map (\<lambda>e. (re_request_id e, re_response e)) (filter re_valid (replay_ring c))"

definition replay_invar :: "sv_command_replay_cache \<Rightarrow> bool" where
  "replay_invar c \<longleftrightarrow> length (rc_entries c) = 8 \<and> unat (rc_cursor c) < 8 \<and>
     sorted (map re_valid (replay_ring c)) \<and> distinct (map fst (replay_log c))"

lemma mset_rotate: "mset (rotate n xs) = mset xs"
proof (induction n)
  case (Suc n)
  have "mset (rotate1 ys) = mset ys" for ys :: "'a list"
    by (cases ys) simp_all
  with Suc show ?case by simp
qed simp

lemma replay_scan_map_of:
  "replay_scan es k = map_of (map (\<lambda>e. (re_request_id e, re_response e)) (filter re_valid es)) k"
  by (induction es) auto

lemma map_of_same_set:
  assumes "distinct (map fst xs)" and "set ys = set xs" and "distinct (map fst ys)"
  shows "map_of xs = map_of ys"
  using assms by (metis map_of_inject_set)

lemma find_replay_log:
  assumes "replay_invar c"
  shows "sv_command_replay_find c k = map_of (replay_log c) k"
proof -
  let ?p = "\<lambda>e. (re_request_id e, re_response e)"
  let ?es = "map ?p (filter re_valid (rc_entries c))"
  have "mset (replay_ring c) = mset (rc_entries c)"
    by (simp add: replay_ring_def mset_rotate)
  then have m: "mset ?es = mset (replay_log c)"
    by (simp add: replay_log_def)
  have "mset (map fst ?es) = mset (map fst (replay_log c))"
    by (simp only: mset_map [of fst] m)
  then have "distinct (map fst ?es) \<longleftrightarrow> distinct (map fst (replay_log c))"
    by (rule mset_eq_imp_distinct_iff)
  then have "distinct (map fst ?es)"
    using assms by (simp only: replay_invar_def)
  moreover have "set ?es = set (replay_log c)"
    using m by (rule mset_eq_setD)
  ultimately show ?thesis
    using assms map_of_same_set [of "replay_log c" ?es]
    by (simp add: sv_command_replay_find_def replay_scan_map_of replay_invar_def)
qed

text \<open>A store drops the slot at the cursor, the first of the ring, and appends the new one.\<close>

lemma replay_ring_store:
  assumes "length (rc_entries c) = 8" and "unat (rc_cursor c) < 8"
  shows "replay_ring (sv_command_replay_store c k v) =
    tl (replay_ring c) @ [\<lparr> re_valid = True, re_request_id = k, re_response = v \<rparr>]"
    and "unat (rc_cursor (sv_command_replay_store c k v)) < 8"
proof -
  let ?n = "unat (rc_cursor c)" and ?es = "rc_entries c"
  let ?e = "\<lparr> re_valid = True, re_request_id = k, re_response = v \<rparr>"
  have cur: "unat ((rc_cursor c + 1) mod 8) = Suc ?n mod 8"
  proof -
    have "unat (rc_cursor c + 1) = Suc ?n"
      using assms(2) by (simp add: unat_word_ariths)
    then show ?thesis by (simp add: unat_mod_distrib)
  qed
  then show "unat (rc_cursor (sv_command_replay_store c k v)) < 8"
    by (simp add: sv_command_replay_store_def)
  have "rotate (Suc ?n mod 8) (?es[?n := ?e]) = rotate (Suc ?n) (?es[?n := ?e])"
    using assms(1) by (metis length_list_update rotate_conv_mod)
  also have "\<dots> = rotate1 (rotate ?n (?es[?n := ?e]))"
    by simp
  also have "rotate ?n (?es[?n := ?e]) = ?e # tl (rotate ?n ?es)"
    using assms
    by (simp add: rotate_drop_take upd_conv_take_nth_drop tl_drop drop_Suc)
  finally show "replay_ring (sv_command_replay_store c k v) = tl (replay_ring c) @ [?e]"
    by (simp add: replay_ring_def sv_command_replay_store_def cur)
qed

lemma sorted_snoc_True: "sorted (bs @ [True]) \<longleftrightarrow> sorted bs"
  by (simp add: sorted_append)

lemma filter_sorted_bool:
  assumes "sorted (map P (x # xs))"
  shows "filter P xs = keep_last (length xs) (filter P (x # xs))"
proof (cases "P x")
  case True
  then have "\<forall>y \<in> set xs. P y" using assms by auto
  with True show ?thesis by (simp add: keep_last_def filter_id_conv)
next
  case False
  then show ?thesis by (simp add: keep_last_all)
qed

lemma replay_log_store:
  assumes "replay_invar c"
  shows "replay_log (sv_command_replay_store c k v) = keep_last 8 (replay_log c @ [(k, v)])"
proof -
  let ?p = "\<lambda>e. (re_request_id e, re_response e)"
  obtain x xs where ring: "replay_ring c = x # xs" and len: "length xs = 7"
  proof -
    have "length (replay_ring c) = 8"
      using assms by (simp add: replay_invar_def replay_ring_def)
    then show thesis using that by (cases "replay_ring c") auto
  qed
  have "filter re_valid xs = keep_last 7 (filter re_valid (x # xs))"
    using filter_sorted_bool [of re_valid x xs] assms ring len by (simp add: replay_invar_def)
  then have "map ?p (filter re_valid xs) = keep_last 7 (replay_log c)"
    by (simp only: replay_log_def ring keep_last_def drop_map length_map)
  then show ?thesis
    using assms ring
    by (simp add: replay_invar_def replay_log_def [of "sv_command_replay_store c k v"]
        replay_ring_store keep_last_snoc)
qed

lemma replay_invar_store:
  assumes "replay_invar c" and "sv_command_replay_find c k = None"
  shows "replay_invar (sv_command_replay_store c k v)"
proof -
  have "distinct (map fst (replay_log c @ [(k, v)]))"
    using assms find_replay_log [OF assms(1), of k]
    by (auto simp: replay_invar_def map_of_eq_None_iff)
  then have "distinct (map fst (replay_log (sv_command_replay_store c k v)))"
    by (simp only: replay_log_store [OF assms(1)] distinct_keep_last)
  moreover have "sorted (map re_valid (tl (replay_ring c)))"
    using assms(1) by (simp add: replay_invar_def map_tl sorted_tl)
  moreover have "length (rc_entries (sv_command_replay_store c k v)) = 8"
    using assms(1) by (simp add: replay_invar_def sv_command_replay_store_def)
  ultimately show ?thesis
    using assms(1) by (simp add: replay_invar_def replay_ring_store sorted_snoc_True)
qed

lemma replay_init_ring:
  "replay_ring sv_command_replay_init =
    replicate 8 \<lparr> re_valid = False, re_request_id = 0, re_response = bm_zero \<rparr>"
  by (simp add: replay_ring_def sv_command_replay_init_def)

lemma replay_init_log: "replay_log sv_command_replay_init = []"
  by (simp add: replay_log_def replay_init_ring filter_replicate)

lemma replay_init_invar: "replay_invar sv_command_replay_init"
  by (simp add: replay_invar_def replay_init_log replay_init_ring)
     (simp add: sv_command_replay_init_def)

interpretation replay: response_log sv_command_replay_init sv_command_replay_find
    sv_command_replay_store replay_log replay_invar 8
  by unfold_locales
    (simp_all add: replay_init_invar replay_init_log find_replay_log replay_invar_store
      replay_log_store, simp add: replay_invar_def)

lemma length_replay_log:
  assumes "replay_invar c"
  shows "length (replay_log c) \<le> 8"
proof -
  have "length (replay_ring c) = 8"
    using assms by (simp add: replay_invar_def replay_ring_def)
  then show ?thesis
    using length_filter_le [of re_valid "replay_ring c"] by (simp add: replay_log_def)
qed

section \<open>Properties\<close>

text \<open>
  C28: The replay cache is a bounded log of responses: a search finds exactly the responses of
  the log, and storing the response of a new request id appends it to the log and drops the
  oldest one beyond eight.
\<close>

theorem replay_cache_refines_log:
  assumes "replay_invar cache" and "sv_command_replay_find cache request_id = None"
  shows "replay_invar (sv_command_replay_store cache request_id response) \<and>
    replay_log (sv_command_replay_store cache request_id response) =
      keep_last 8 (replay_log cache @ [(request_id, response)]) \<and>
    (\<forall>k. sv_command_replay_find (sv_command_replay_store cache request_id response) k =
      map_of (keep_last 8 (replay_log cache @ [(request_id, response)])) k)"
  using assms by (simp add: replay.invar_store replay.log_store replay.find_log)

theorem replay_cache_refines_log_witness:
  "replay_log (sv_command_replay_store sv_command_replay_init 7 bm_zero) = [(7, bm_zero)]"
  using replay_cache_refines_log [OF replay_init_invar replay.find_empty, of 7 bm_zero]
  by (simp add: replay_init_log keep_last_def)

text \<open>
  The cache remembers exactly eight commands: after any sequence of commands with distinct
  request ids, starting from the initialised cache, the last eight responses are found, each
  under its own id, and no other id is.
\<close>

theorem replay_cache_remembers_eight:
  assumes "distinct (map fst commands)"
  shows "sv_command_replay_find
      (foldl (\<lambda>c (k, v). sv_command_replay_store c k v) sv_command_replay_init commands) k =
    map_of (drop (length commands - 8) commands) k"
  using replay.find_after_run [OF assms, of k] by (simp add: keep_last_def)

theorem replay_cache_remembers_eight_witness:
  "sv_command_replay_find
      (foldl (\<lambda>c (k, v). sv_command_replay_store c k v) sv_command_replay_init
        (map (\<lambda>i. (of_nat i, bm_zero)) [1..<10])) 1 = None \<and>
   sv_command_replay_find
      (foldl (\<lambda>c (k, v). sv_command_replay_store c k v) sv_command_replay_init
        (map (\<lambda>i. (of_nat i, bm_zero)) [1..<10])) 2 = Some bm_zero"
proof -
  let ?cmds = "map (\<lambda>i. (of_nat i :: u16, bm_zero)) [1..<10]"
  have d: "distinct (map fst ?cmds)"
    by (simp add: upt_rec)
  show ?thesis
    using replay_cache_remembers_eight [OF d, of 1] replay_cache_remembers_eight [OF d, of 2]
    by (simp add: upt_rec)
qed

end
