(* ===== verification/Receiver_Control.thy ===== *)
theory Receiver_Control
  imports Rf_Management Command_Replay_Cache
begin

text \<open>
  Execution of management commands on the receiver, \<open>firmware/nrf54l15/src/receiver_control.c\<close>
  with \<open>protocol/receiver_control_protocol.h\<close>. The packed response structs are records with
  their memory layout written out. The state record extends that of the radio side by the replay
  cache and, since \<open>get_status\<close> reads its error counter, by the variables of
  \<open>spi_bridge.c\<close>. That a command is executed once however often it is repeated rests on the
  contract of the cache (the facts \<open>replay.*\<close>).
\<close>

section \<open>State and wire formats\<close>

record 'w receiver = "'w rf_state" +
  rx_cache :: sv_command_replay_cache
  sb_pending_response :: sv_bridge_message
  sb_response_pending :: bool
  sb_tx_sequence :: u16
  sb_crc_errors :: u32
  sb_ready :: bool

record sv_receiver_status_response =
  sr_command :: byte
  sr_status :: byte
  sr_protocol_version :: byte
  sr_flags :: byte
  sr_receiver_id :: "byte list"
  sr_group_id :: "byte list"
  sr_stored_trackers :: u16
  sr_uptime_ms :: u32
  sr_rf_received :: u32
  sr_rf_crc_errors :: u32
  sr_report_queue_drops :: u32
  sr_spi_crc_errors :: u32

definition status_response_bytes :: "sv_receiver_status_response \<Rightarrow> byte list" where
  "status_response_bytes r =
    [sr_command r, sr_status r, sr_protocol_version r, sr_flags r] @
    sr_receiver_id r @ sr_group_id r @ le_of_word 2 (sr_stored_trackers r) @
    le_of_word 4 (sr_uptime_ms r) @ le_of_word 4 (sr_rf_received r) @
    le_of_word 4 (sr_rf_crc_errors r) @ le_of_word 4 (sr_report_queue_drops r) @
    le_of_word 4 (sr_spi_crc_errors r)"

record sv_receiver_tracker_entry =
  te_id :: byte
  te_address :: "byte list"

text \<open>\<open>tp_entries\<close> are the entries in use; the array has eight, the others stay zero.\<close>

record sv_receiver_tracker_page_response =
  tp_command :: byte
  tp_status :: byte
  tp_page :: byte
  tp_entries :: "sv_receiver_tracker_entry list"

definition tracker_page_bytes :: "sv_receiver_tracker_page_response \<Rightarrow> byte list" where
  "tracker_page_bytes r =
    (let entries = concat (map (\<lambda>e. te_id e # te_address e) (tp_entries r)) in
     [tp_command r, tp_status r, tp_page r, of_nat (length (tp_entries r))] @
     entries @ zeros (56 - length entries))"

section \<open>Operations (receiver_control.c)\<close>

definition status_from_errno :: "int \<Rightarrow> byte" where
  "status_from_errno error =
    (if error = 0 then SV_STATUS_OK
     else if error = - EINVAL then SV_STATUS_BAD_REQUEST
     else if error = - EPERM then SV_STATUS_NOT_ALLOWED
     else if error = - ENOENT then SV_STATUS_NOT_FOUND
     else if error = - EBUSY then SV_STATUS_BUSY
     else SV_STATUS_INTERNAL_ERROR)"

definition basic_response :: "byte \<Rightarrow> int \<Rightarrow> sv_bridge_message \<Rightarrow> sv_bridge_message" where
  "basic_response command result response =
    (let response = response\<lparr> bm_payload := (bm_payload response)
           [0 := command, 1 := status_from_errno result], bm_payload_length := 2 \<rparr> in
     if result \<noteq> 0 then response\<lparr> bm_flags := bm_flags response OR SV_BRIDGE_FLAG_ERROR \<rparr>
     else response)"

definition get_status ::
    "'w platform \<Rightarrow> 'w receiver \<Rightarrow> sv_bridge_message \<Rightarrow> sv_bridge_message" where
  "get_status p s response =
    (let rf_status = rf_receiver_get_status s;
         status = \<lparr> sr_command = SV_CMD_GET_STATUS, sr_status = SV_STATUS_OK,
           sr_protocol_version = 1,
           sr_flags = (if rs_primary rf_status then 1 else 0) OR
             (if rs_pairing rf_status then 2 else 0) OR
             (if rs_radio_enabled rf_status then 4 else 0),
           sr_receiver_id = le_of_word 6 (rs_receiver_id rf_status),
           sr_group_id = le_of_word 6 (rs_group_id rf_status),
           sr_stored_trackers = ucast (rs_tracker_count rf_status),
           sr_uptime_ms = word_of_int (k_uptime_get p (world s)),
           sr_rf_received = rs_received rf_status, sr_rf_crc_errors = rs_crc_errors rf_status,
           sr_report_queue_drops = report_builder_drops (rf_builder s),
           sr_spi_crc_errors = sb_crc_errors s \<rparr>
     in response\<lparr> bm_payload := blit 0 (status_response_bytes status) (bm_payload response),
                  bm_payload_length := 38 \<rparr>)"

text \<open>The loop over the ids of a page; \<open>result.count\<close> is the number of entries so far.\<close>

function page_entries ::
    "byte \<Rightarrow> byte \<Rightarrow> ('w, 'x) rf_state_scheme \<Rightarrow> sv_receiver_tracker_entry list \<Rightarrow>
     sv_receiver_tracker_entry list" where
  "page_entries tid limit s entries =
    (if tid < limit \<and> length entries < 8 then
       (let address = rf_receiver_tracker tid s in
        page_entries (tid + 1) limit s
          (if address = 0 then entries
           else entries @ [\<lparr> te_id = tid, te_address = le_of_word 6 address \<rparr>]))
     else entries)"
  by pat_completeness auto
termination
  by (relation "measure (\<lambda>(tid, limit, _). unat limit - unat tid)")
    (auto simp: word_less_nat_alt unat_plus_one)

declare page_entries.simps [simp del]

definition get_tracker_page ::
    "sv_bridge_message \<Rightarrow> 'w receiver \<Rightarrow> sv_bridge_message \<Rightarrow> sv_bridge_message" where
  "get_tracker_page request s response =
    (let page = (if 2 \<le> bm_payload_length request then bm_payload request ! 1 else 0);
         start = page * 8;
         result = \<lparr> tp_command = SV_CMD_GET_TRACKER_PAGE, tp_status = SV_STATUS_OK,
           tp_page = page,
           tp_entries = page_entries start (rs_tracker_count (rf_receiver_get_status s)) s [] \<rparr>
     in response\<lparr> bm_payload := blit 0 (tracker_page_bytes result) (bm_payload response),
                  bm_payload_length := 60 \<rparr>)"

text \<open>A command whose whole answer is a result code.\<close>

definition respond ::
    "byte \<Rightarrow> sv_bridge_message \<Rightarrow> int \<times> 'w receiver \<Rightarrow> sv_bridge_message \<times> 'w receiver" where
  "respond command response r = (basic_response command (fst r) response, snd r)"

definition execute ::
    "'w platform \<Rightarrow> sv_bridge_message \<Rightarrow> 'w receiver \<Rightarrow> sv_bridge_message \<times> 'w receiver" where
  "execute p request s =
    (let response = bm_zero\<lparr> bm_kind := SV_BRIDGE_COMMAND_RESPONSE,
           bm_request_id := bm_request_id request \<rparr>;
         payload = bm_payload request in
     if bm_payload_length request = 0 then (basic_response 0 (- EINVAL) response, s)
     else
      (let command = payload ! 0 in
       if command = SV_CMD_GET_STATUS then (get_status p s response, s)
       else if command = SV_CMD_GET_TRACKER_PAGE then (get_tracker_page request s response, s)
       else if command = SV_CMD_SET_GROUP then
         (if bm_payload_length request < 8 then (basic_response command (- EINVAL) response, s)
          else respond command response
                 (rf_receiver_set_group p (payload ! 1 \<noteq> 0) (word_of_le (bslice 2 6 payload)) s))
       else if command = SV_CMD_START_PAIRING then
         respond command response (rf_receiver_start_pairing p s)
       else if command = SV_CMD_STOP_PAIRING then
         respond command response (rf_receiver_stop_pairing p s)
       else if command = SV_CMD_CLEAR_TRACKERS then
         respond command response (rf_receiver_clear_trackers p s)
       else if command = SV_CMD_SET_RADIO_ENABLED then
         respond command response
           (if 2 \<le> bm_payload_length request
            then rf_receiver_set_enabled p (payload ! 1 \<noteq> 0) s else (- EINVAL, s))
       else if command = SV_CMD_REBOOT then (basic_response command 0 response, s)
       else (basic_response command (- EINVAL) response, s)))"

definition receiver_control_init :: "'w receiver \<Rightarrow> 'w receiver" where
  "receiver_control_init s = s\<lparr> rx_cache := sv_command_replay_init \<rparr>"

definition receiver_control_handle ::
    "'w platform \<Rightarrow> sv_bridge_message \<Rightarrow> 'w receiver \<Rightarrow> sv_bridge_message \<times> 'w receiver" where
  "receiver_control_handle p request s =
    (case sv_command_replay_find (rx_cache s) (bm_request_id request) of
       Some response \<Rightarrow> (response, s)
     | None \<Rightarrow>
         (let (response, s) = execute p request s;
              s = s\<lparr> rx_cache := sv_command_replay_store (rx_cache s) (bm_request_id request) response \<rparr>;
              s = (if 0 < bm_payload_length request \<and>
                     (bm_payload request ! 0 = SV_CMD_REBOOT \<or> bm_payload request ! 0 = SV_CMD_SET_GROUP) \<and>
                     1 < bm_payload_length response \<and> bm_payload response ! 1 = SV_STATUS_OK
                   then s\<lparr> world := reschedule_reboot p 100 (world s) \<rparr> else s)
          in (response, s)))"

section \<open>Responses\<close>

text \<open>A response to \<open>request\<close>, as every path of \<open>execute\<close> builds it.\<close>

definition response_ok :: "sv_bridge_message \<Rightarrow> sv_bridge_message \<Rightarrow> bool" where
  "response_ok request r \<longleftrightarrow> bm_wf r \<and> bm_kind r = SV_BRIDGE_COMMAND_RESPONSE \<and>
     bm_request_id r = bm_request_id request \<and>
     2 \<le> bm_payload_length r \<and> bm_payload_length r \<le> 64 \<and>
     bm_payload r ! 0 = (if bm_payload_length request = 0 then 0 else bm_payload request ! 0) \<and>
     (bm_flags r = 0 \<and> bm_payload r ! 1 = SV_STATUS_OK \<or>
      bm_flags r = SV_BRIDGE_FLAG_ERROR \<and> bm_payload r ! 1 \<noteq> SV_STATUS_OK)"

abbreviation response_frame :: "sv_bridge_message \<Rightarrow> sv_bridge_message" where
  "response_frame request \<equiv> bm_zero\<lparr> bm_kind := SV_BRIDGE_COMMAND_RESPONSE,
     bm_request_id := bm_request_id request \<rparr>"

lemma status_from_errno_ok: "status_from_errno e = SV_STATUS_OK \<longleftrightarrow> e = 0"
  by (simp add: status_from_errno_def)

lemma basic_response_ok:
  "command = (if bm_payload_length request = 0 then 0 else bm_payload request ! 0) \<Longrightarrow>
   response_ok request (basic_response command e (response_frame request))"
  by (cases "e = 0")
    (simp_all add: response_ok_def basic_response_def Let_def bm_zero_def bm_wf_def status_from_errno_ok)

lemma length_status_response:
  "length (sr_receiver_id r) = 6 \<Longrightarrow> length (sr_group_id r) = 6 \<Longrightarrow>
   length (status_response_bytes r) = 38"
  by (simp add: status_response_bytes_def)

lemma page_entries_bound:
  "length entries \<le> 8 \<Longrightarrow> \<forall>e \<in> set entries. length (te_address e) = 6 \<Longrightarrow>
   length (page_entries tid limit s entries) \<le> 8 \<and>
   (\<forall>e \<in> set (page_entries tid limit s entries). length (te_address e) = 6)"
proof (induction tid limit s entries rule: page_entries.induct)
  case (1 tid limit s entries)
  let ?a = "rf_receiver_tracker tid s"
  let ?es = "if ?a = 0 then entries else entries @ [\<lparr> te_id = tid, te_address = le_of_word 6 ?a \<rparr>]"
  show ?case
  proof (cases "tid < limit \<and> length entries < 8")
    case True
    then have "page_entries tid limit s entries = page_entries (tid + 1) limit s ?es"
      by (simp add: page_entries.simps [of tid] Let_def)
    moreover have "length ?es \<le> 8" "\<forall>e \<in> set ?es. length (te_address e) = 6"
      using True 1(3) by auto
    ultimately show ?thesis using 1(1) [OF True refl] by metis
  next
    case False
    then have "page_entries tid limit s entries = entries" by (subst page_entries.simps) auto
    with 1(2,3) show ?thesis by simp
  qed
qed

lemma length_tracker_page:
  assumes "length (tp_entries r) \<le> 8" and "\<forall>e \<in> set (tp_entries r). length (te_address e) = 6"
  shows "length (tracker_page_bytes r) = 60"
proof -
  have "length (concat (map (\<lambda>e. te_id e # te_address e) (tp_entries r))) = length (tp_entries r) * 7"
    using length_concat_const [of "map (\<lambda>e. te_id e # te_address e) (tp_entries r)" 7] assms(2) by simp
  then show ?thesis using assms(1) by (simp add: tracker_page_bytes_def Let_def)
qed

lemma get_status_ok:
  "bm_payload_length request \<noteq> 0 \<Longrightarrow> bm_payload request ! 0 = SV_CMD_GET_STATUS \<Longrightarrow>
   response_ok request (get_status p s (response_frame request))"
  by (simp add: response_ok_def get_status_def Let_def bm_zero_def bm_wf_def length_blit
      length_status_response) (simp add: blit_def status_response_bytes_def)

lemma get_tracker_page_ok:
  assumes "bm_payload_length request \<noteq> 0" and "bm_payload request ! 0 = SV_CMD_GET_TRACKER_PAGE"
  shows "response_ok request (get_tracker_page request s (response_frame request))"
proof -
  let ?page = "if 2 \<le> bm_payload_length request then bm_payload request ! 1 else 0"
  let ?r = "\<lparr> tp_command = SV_CMD_GET_TRACKER_PAGE, tp_status = SV_STATUS_OK, tp_page = ?page,
    tp_entries = page_entries (?page * 8) (rs_tracker_count (rf_receiver_get_status s)) s [] \<rparr>"
  have "length (tracker_page_bytes ?r) = 60"
    by (intro length_tracker_page) (use page_entries_bound [of "[]"] in auto)
  moreover have "take 2 (tracker_page_bytes ?r) = [2, 0]"
    by (simp add: tracker_page_bytes_def Let_def)
  ultimately show ?thesis
    using assms
    by (simp add: response_ok_def get_tracker_page_def Let_def bm_zero_def bm_wf_def length_blit)
      (simp add: blit_def tracker_page_bytes_def Let_def)
qed

lemma respond_ok:
  "command = bm_payload request ! 0 \<Longrightarrow> bm_payload_length request \<noteq> 0 \<Longrightarrow>
   response_ok request (fst (respond command (response_frame request) r))"
  by (simp add: respond_def basic_response_ok)

lemma execute_response_ok: "response_ok request (fst (execute p request s))"
  unfolding execute_def Let_def
  by (simp add: basic_response_ok get_status_ok get_tracker_page_ok respond_ok split del: if_split
      split: if_splits)

section \<open>Executing once\<close>

lemma rx_cache_more: "rf_state.more s = rf_state.more t \<Longrightarrow> rx_cache s = rx_cache t"
  by (cases s; cases t) simp

lemma execute_more: "rf_state.more (snd (execute p request s)) = rf_state.more s"
  unfolding execute_def Let_def by (simp add: respond_def)

lemma execute_cache [simp]: "rx_cache (snd (execute p request s)) = rx_cache s"
  by (rule rx_cache_more [OF execute_more])

lemma handle_hit:
  "sv_command_replay_find (rx_cache s) (bm_request_id request) = Some response \<Longrightarrow>
   receiver_control_handle p request s = (response, s)"
  by (simp add: receiver_control_handle_def)

lemma handle_miss:
  assumes "sv_command_replay_find (rx_cache s) (bm_request_id request) = None"
  shows "fst (receiver_control_handle p request s) = fst (execute p request s) \<and>
    rx_cache (snd (receiver_control_handle p request s)) =
      sv_command_replay_store (rx_cache s) (bm_request_id request) (fst (execute p request s))"
  using assms execute_cache [of p request s]
  by (simp add: receiver_control_handle_def Let_def split_beta)

lemma handle_cache_invar:
  "replay_invar (rx_cache s) \<Longrightarrow> replay_invar (rx_cache (snd (receiver_control_handle p request s)))"
  using handle_hit [of s request _ p] handle_miss [of s request p]
  by (cases "sv_command_replay_find (rx_cache s) (bm_request_id request)")
    (simp_all add: replay.invar_store)

lemma keep_last_middle:
  "length zs < n \<Longrightarrow> \<exists>ys'. keep_last n (ys @ x # zs) = ys' @ x # zs"
  by (rule exI [of _ "drop (length ys + Suc (length zs) - n) ys"]) (simp add: keep_last_def)

text \<open>Handling other requests pushes a cached response back by at most one place each.\<close>

lemma handle_others:
  assumes "replay_invar (rx_cache s)" and "replay_log (rx_cache s) = ys @ (k, v) # zs"
    and "length zs + length others < 8" and "k \<notin> bm_request_id ` set others"
  shows "\<exists>ys' zs'. let s' = foldl (\<lambda>s r. snd (receiver_control_handle p r s)) s others in
    replay_invar (rx_cache s') \<and> replay_log (rx_cache s') = ys' @ (k, v) # zs'"
  using assms
proof (induction others arbitrary: s ys zs)
  case Nil
  then show ?case by auto
next
  case (Cons r others)
  let ?s = "snd (receiver_control_handle p r s)"
  have inv: "replay_invar (rx_cache ?s)" by (rule handle_cache_invar [OF Cons.prems(1)])
  obtain ys' zs' where log: "replay_log (rx_cache ?s) = ys' @ (k, v) # zs'"
    and len: "length zs' \<le> Suc (length zs)"
  proof (cases "sv_command_replay_find (rx_cache s) (bm_request_id r)")
    case None
    have "length (zs @ [(bm_request_id r, fst (execute p r s))]) < 8" using Cons.prems(3) by simp
    from keep_last_middle [OF this, of ys "(k, v)"] obtain ys' where
      "keep_last 8 (ys @ (k, v) # zs @ [(bm_request_id r, fst (execute p r s))]) =
        ys' @ (k, v) # zs @ [(bm_request_id r, fst (execute p r s))]" ..
    then have "replay_log (rx_cache ?s) = ys' @ (k, v) # zs @ [(bm_request_id r, fst (execute p r s))]"
      using replay.log_store [OF Cons.prems(1) None] handle_miss [OF None] Cons.prems(2) by simp
    then show ?thesis by (rule that) simp
  next
    case (Some response)
    then show ?thesis using handle_hit [OF Some] Cons.prems(2) by (intro that [of ys zs]) simp_all
  qed
  have "length zs' + length others < 8" "k \<notin> bm_request_id ` set others"
    using len Cons.prems(3,4) by auto
  from Cons.IH [OF inv log this] show ?case by simp
qed

lemma replayed:
  assumes "replay_invar (rx_cache s)"
    and new: "sv_command_replay_find (rx_cache s) (bm_request_id request) = None"
    and "length others \<le> 7" and "bm_request_id request \<notin> bm_request_id ` set others"
    and h: "receiver_control_handle p request s = (response, s1)"
    and same: "bm_request_id request' = bm_request_id request"
  shows "receiver_control_handle p request' (foldl (\<lambda>s r. snd (receiver_control_handle p r s)) s1 others) =
    (response, foldl (\<lambda>s r. snd (receiver_control_handle p r s)) s1 others)"
proof -
  let ?k = "bm_request_id request"
  let ?s2 = "foldl (\<lambda>s r. snd (receiver_control_handle p r s)) s1 others"
  have inv: "replay_invar (rx_cache s1)"
    using handle_cache_invar [OF assms(1), of p request] h by simp
  have "replay_log (rx_cache s1) = keep_last 8 (replay_log (rx_cache s) @ [(?k, response)])"
    using replay.log_store [OF assms(1) new] handle_miss [OF new, of p] h by simp
  then have "replay_log (rx_cache s1) = keep_last 7 (replay_log (rx_cache s)) @ (?k, response) # []"
    by (simp add: keep_last_snoc)
  from handle_others [OF inv this, of others p] assms(3,4) obtain ys zs where
    i2: "replay_invar (rx_cache ?s2)" and l2: "replay_log (rx_cache ?s2) = ys @ (?k, response) # zs"
    by (auto simp: Let_def)
  have "sv_command_replay_find (rx_cache ?s2) ?k = Some response"
    using replay.find_mem [OF i2, of ?k response] l2 by simp
  then show ?thesis using handle_hit [of ?s2 request' response p] same by simp
qed

section \<open>Every response answers a request\<close>

text \<open>
  The requests handled so far, each followed by what else the receiver does before the next one
  (the radio, the SPI link, the persistence): any change of the state that leaves the cache alone.
\<close>

primrec handle_run ::
    "'w platform \<Rightarrow> (sv_bridge_message \<times> ('w receiver \<Rightarrow> 'w receiver)) list \<Rightarrow> 'w receiver \<Rightarrow> 'w receiver" where
  "handle_run p [] s = s"
| "handle_run p (r # rs) s = handle_run p rs (snd r (snd (receiver_control_handle p (fst r) s)))"

definition keeps_cache :: "('w receiver \<Rightarrow> 'w receiver) \<Rightarrow> bool" where
  "keeps_cache f \<longleftrightarrow> (\<forall>s. rx_cache (f s) = rx_cache s)"

text \<open>The command byte a response echoes; 0 for an empty request.\<close>

definition command_of :: "sv_bridge_message \<Rightarrow> byte" where
  "command_of request = (if bm_payload_length request = 0 then 0 else bm_payload request ! 0)"

definition answers_one_of :: "sv_bridge_message list \<Rightarrow> u16 \<Rightarrow> sv_bridge_message \<Rightarrow> bool" where
  "answers_one_of requests k response \<longleftrightarrow>
    (\<exists>request \<in> set requests. bm_request_id request = k \<and> response_ok request response)"

text \<open>Every cached response answers one of the requests, under its id.\<close>

definition cache_answers :: "sv_bridge_message list \<Rightarrow> 'w receiver \<Rightarrow> bool" where
  "cache_answers requests s \<longleftrightarrow> replay_invar (rx_cache s) \<and>
    (\<forall>(k, response) \<in> set (replay_log (rx_cache s)). answers_one_of requests k response)"

lemma response_ok_command:
  "response_ok r response \<Longrightarrow> bm_request_id r = bm_request_id request \<Longrightarrow>
   command_of r = command_of request \<Longrightarrow> response_ok request response"
  by (simp add: response_ok_def command_of_def)

lemma handle_answers:
  assumes "cache_answers requests s"
  shows "answers_one_of (request # requests) (bm_request_id request)
      (fst (receiver_control_handle p request s)) \<and>
    cache_answers (request # requests) (snd (receiver_control_handle p request s))"
proof (cases "sv_command_replay_find (rx_cache s) (bm_request_id request)")
  case (Some response)
  then show ?thesis
    using handle_hit [OF Some] assms replay.find_mem [of "rx_cache s" "bm_request_id request" response]
    by (auto simp: cache_answers_def answers_one_of_def)
next
  case None
  have inv: "replay_invar (rx_cache s)" using assms by (simp add: cache_answers_def)
  let ?kr = "(bm_request_id request, fst (execute p request s))"
  have "set (keep_last 8 (replay_log (rx_cache s) @ [?kr])) \<subseteq> insert ?kr (set (replay_log (rx_cache s)))"
    using set_keep_last by fastforce
  then show ?thesis
    using assms handle_miss [OF None, of p] replay.log_store [OF inv None] replay.invar_store [OF inv None]
      execute_response_ok [of request p s]
    by (fastforce simp: cache_answers_def answers_one_of_def)
qed

lemma handle_run_answers:
  "cache_answers requests s \<Longrightarrow> \<forall>r \<in> set rs. keeps_cache (snd r) \<Longrightarrow>
   cache_answers (rev (map fst rs) @ requests) (handle_run p rs s)"
proof (induction rs arbitrary: s requests)
  case (Cons r rs)
  have "cache_answers (fst r # requests) (snd r (snd (receiver_control_handle p (fst r) s)))"
    using handle_answers [OF Cons.prems(1), of "fst r" p] Cons.prems(2)
    by (simp add: cache_answers_def keeps_cache_def)
  from Cons.IH [OF this] Cons.prems(2) show ?case by simp
qed simp

lemma init_cache_answers: "cache_answers [] (receiver_control_init s)"
  by (simp add: cache_answers_def receiver_control_init_def replay_init_invar replay_init_log)

section \<open>Tracker pages\<close>

definition tracker_entry :: "('w, 'x) rf_state_scheme \<Rightarrow> nat \<Rightarrow> sv_receiver_tracker_entry" where
  "tracker_entry s tid = \<lparr> te_id = of_nat tid, te_address = le_of_word 6 (rf_tracker_addresses s ! tid) \<rparr>"

lemma page_entries_spec:
  assumes "length entries \<le> 8" and "limit = rf_tracker_count s"
  shows "page_entries tid limit s entries = entries @ take (8 - length entries)
    (map (tracker_entry s) (filter (\<lambda>i. rf_tracker_addresses s ! i \<noteq> 0) [unat tid..<unat limit]))"
  using assms
proof (induction tid limit s entries rule: page_entries.induct)
  case (1 tid limit s entries)
  let ?a = "rf_receiver_tracker tid s"
  let ?es = "if ?a = 0 then entries else entries @ [\<lparr> te_id = tid, te_address = le_of_word 6 ?a \<rparr>]"
  show ?case
  proof (cases "tid < limit \<and> length entries < 8")
    case True
    then have a: "?a = rf_tracker_addresses s ! unat tid" and lt: "unat tid < unat limit"
      using 1(3) by (simp_all add: rf_receiver_tracker_def word_less_nat_alt)
    have "page_entries tid limit s entries = page_entries (tid + 1) limit s ?es"
      using True by (simp add: page_entries.simps [of tid] Let_def)
    also have "\<dots> = ?es @ take (8 - length ?es) (map (tracker_entry s)
        (filter (\<lambda>i. rf_tracker_addresses s ! i \<noteq> 0) [unat (tid + 1)..<unat limit]))"
      using True 1(3) by (intro 1(1) [OF True refl]) auto
    also have "\<dots> = entries @ take (8 - length entries) (map (tracker_entry s)
        (filter (\<lambda>i. rf_tracker_addresses s ! i \<noteq> 0) [unat tid..<unat limit]))"
    proof -
      obtain k where k: "8 - length entries = Suc k" "8 - Suc (length entries) = k"
        using True by (metis Suc_diff_Suc diff_Suc_Suc)
      have "filter (\<lambda>i. rf_tracker_addresses s ! i \<noteq> 0) [unat tid..<unat limit] =
          (if ?a = 0 then [] else [unat tid]) @
          filter (\<lambda>i. rf_tracker_addresses s ! i \<noteq> 0) [unat (tid + 1)..<unat limit]"
        using lt by (simp add: a upt_conv_Cons unat_plus_one [OF lt])
      then show ?thesis using k by (simp add: tracker_entry_def a)
    qed
    finally show ?thesis .
  next
    case False
    then have "page_entries tid limit s entries = entries" by (subst page_entries.simps) auto
    then show ?thesis using False by (auto simp: word_less_nat_alt not_less)
  qed
qed

lemma page_covers:
  assumes "tid < limit" and "start \<le> tid" and "tid < start + 8" and "P tid"
  shows "tid \<in> set (take 8 (filter P [start..<limit]))"
proof -
  have "[start..<limit] = [start..<tid] @ [tid..<limit]"
    using assms(1,2) by (metis le_add_diff_inverse less_imp_le upt_add_eq_append)
  then have split: "filter P [start..<limit] = filter P [start..<tid] @ tid # filter P [Suc tid..<limit]"
    using assms(1,4) by (simp add: upt_conv_Cons)
  have "length (filter P [start..<tid]) \<le> tid - start"
    using length_filter_le [of P "[start..<tid]"] by simp
  then have "length (filter P [start..<tid]) < 8" using assms(2,3) by linarith
  then obtain k where "8 - length (filter P [start..<tid]) = Suc k" by (metis Suc_diff_Suc)
  then show ?thesis by (simp add: split)
qed

text \<open>
  Two behaviours of the paging that its callers have to cope with: page numbers are taken modulo
  32, and since ids without a tracker do not count, a page may run into the next one.
\<close>

lemma tracker_page_wraps: "(p + 32) * 8 = (p * 8 :: byte)"
  by (simp add: distrib_right)

lemma tracker_pages_overlap:
  assumes "rf_tracker_addresses s ! 0 = 0" and "\<forall>i \<in> {1..<10}. rf_tracker_addresses s ! i \<noteq> 0"
    and "rf_tracker_count s = 10"
  shows "tracker_entry s 8 \<in> set (page_entries 0 10 s []) \<and>
    tracker_entry s 8 \<in> set (page_entries 8 10 s [])"
proof -
  let ?P = "\<lambda>i. rf_tracker_addresses s ! i \<noteq> 0"
  have "filter ?P [1..<10] = [1..<10]" using assms(2) by (simp add: filter_id_conv)
  then have "filter ?P [0..<10] = [1..<10]" using assms(1) by (simp add: upt_conv_Cons)
  moreover have "filter ?P [8..<10] = [8..<10]" using assms(2) by (simp add: filter_id_conv)
  ultimately show ?thesis
    using page_entries_spec [of "[]" 10 s 0] page_entries_spec [of "[]" 10 s 8] assms(3)
    by (simp add: take_map)
qed

section \<open>Properties\<close>

text \<open>
  C32: A command takes effect once. When a request is executed, the same request id coming again,
  with up to seven other requests handled in between, gets the identical response and does not
  change the receiver's state; so a command the ESP32 repeats because a response was lost is not
  executed a second time.
\<close>

theorem command_executed_once:
  assumes "replay_invar (rx_cache s)"
    and "sv_command_replay_find (rx_cache s) (bm_request_id request) = None"
    and "receiver_control_handle p request s = (response, s1)"
    and "length others \<le> 7" and "bm_request_id request \<notin> bm_request_id ` set others"
    and "bm_request_id request' = bm_request_id request"
  shows "receiver_control_handle p request'
      (foldl (\<lambda>s r. snd (receiver_control_handle p r s)) s1 others) =
    (response, foldl (\<lambda>s r. snd (receiver_control_handle p r s)) s1 others)"
  using replayed [OF assms(1,2,4,5,3,6)] .

text \<open>The reference receiver with an empty cache, and two commands.\<close>

definition ref_firmware :: "ref_world receiver" where
  "ref_firmware = rf_state.extend ref_receiver \<lparr> rx_cache = sv_command_replay_init,
     sb_pending_response = bm_zero, sb_response_pending = False, sb_tx_sequence = 0,
     sb_crc_errors = 0, sb_ready = False \<rparr>"

definition demo_command :: "byte \<Rightarrow> u16 \<Rightarrow> sv_bridge_message" where
  "demo_command c k = bm_zero\<lparr> bm_kind := 2, bm_payload_length := 1, bm_request_id := k,
     bm_payload := c # zeros 63 \<rparr>"

lemma ref_firmware_cache [simp]: "rx_cache ref_firmware = sv_command_replay_init"
  by (simp add: ref_firmware_def rf_state.extend_def)

theorem command_executed_once_witness:
  "let (response, s1) = receiver_control_handle ref_platform (demo_command 6 1) ref_firmware;
       s2 = snd (receiver_control_handle ref_platform (demo_command 4 2) s1)
   in receiver_control_handle ref_platform (demo_command 6 1) s2 = (response, s2)"
proof -
  obtain response s1 where h: "receiver_control_handle ref_platform (demo_command 6 1) ref_firmware = (response, s1)"
    by fastforce
  have "receiver_control_handle ref_platform (demo_command 6 1)
      (foldl (\<lambda>s r. snd (receiver_control_handle ref_platform r s)) s1 [demo_command 4 2]) =
    (response, foldl (\<lambda>s r. snd (receiver_control_handle ref_platform r s)) s1 [demo_command 4 2])"
    by (rule command_executed_once [OF _ _ h])
      (simp_all add: replay_init_invar replay.find_empty demo_command_def)
  then show ?thesis by (simp add: h)
qed

text \<open>
  C33: Every command gets a well-formed response. After the control component is initialised and
  has handled any requests, with anything in between that leaves the response cache alone, the
  response to the next request has the kind command response, the request's id, a payload of 2 to
  64 bytes whose second byte is a status, and the error flag exactly when the status is not OK; it
  is a response to this request or to an earlier one with the same id. So its first byte is the
  command of this request unless the same id came before with another command, when the cached
  response of that command may be replayed.
\<close>

theorem every_command_answered:
  assumes "\<forall>r \<in> set rs. keeps_cache (snd r)"
    and "fst (receiver_control_handle p request (handle_run p rs (receiver_control_init s))) = response"
  shows "bm_wf response \<and> bm_kind response = SV_BRIDGE_COMMAND_RESPONSE \<and>
    bm_request_id response = bm_request_id request \<and>
    2 \<le> bm_payload_length response \<and> bm_payload_length response \<le> 64 \<and>
    (bm_flags response = 0 \<and> bm_payload response ! 1 = SV_STATUS_OK \<or>
     bm_flags response = SV_BRIDGE_FLAG_ERROR \<and> bm_payload response ! 1 \<noteq> SV_STATUS_OK) \<and>
    (\<exists>r \<in> set (request # map fst rs).
       bm_request_id r = bm_request_id request \<and> bm_payload response ! 0 = command_of r) \<and>
    ((\<forall>r \<in> set rs. bm_request_id (fst r) = bm_request_id request \<longrightarrow>
        command_of (fst r) = command_of request) \<longrightarrow> bm_payload response ! 0 = command_of request)"
proof -
  have "cache_answers (rev (map fst rs)) (handle_run p rs (receiver_control_init s))"
    using handle_run_answers [OF init_cache_answers assms(1)] by simp
  from handle_answers [OF this, of request p] assms(2) obtain r where
    "r = request \<or> r \<in> fst ` set rs" "bm_request_id r = bm_request_id request" "response_ok r response"
    by (auto simp: answers_one_of_def)
  then show ?thesis by (auto simp: response_ok_def command_of_def)
qed

text \<open>Two requests with the same id: the second gets the response of the first.\<close>

theorem every_command_answered_witness:
  "\<exists>response. fst (receiver_control_handle ref_platform (demo_command 6 1)
      (handle_run ref_platform [(demo_command 9 1, \<lambda>s. s\<lparr> sb_crc_errors := 3 \<rparr>)]
        (receiver_control_init ref_firmware))) = response \<and>
    bm_request_id response = 1 \<and> bm_payload response ! 0 \<in> {6, 9} \<and>
    bm_kind response = SV_BRIDGE_COMMAND_RESPONSE"
  using every_command_answered [of "[(demo_command 9 1, \<lambda>s. s\<lparr> sb_crc_errors := 3 \<rparr>)]" ref_platform
      "demo_command 6 1" ref_firmware, OF _ refl]
  by (simp add: keeps_cache_def) (auto simp: demo_command_def command_of_def)

text \<open>
  Requests that are no command are refused without effect: an empty payload, an unknown
  command byte, a SET_GROUP shorter than eight bytes or a SET_RADIO_ENABLED without its argument
  get the status BAD_REQUEST; so does a SET_GROUP to be secondary of group zero, and START_PAIRING
  on a secondary gets NOT_ALLOWED. In each case the receiver's state is unchanged.
\<close>

theorem bad_commands_have_no_effect:
  "(bm_payload_length request = 0 \<or> bm_payload request ! 0 \<notin> {1, 2, 3, 4, 5, 6, 7, 8} \<or>
    bm_payload request ! 0 = SV_CMD_SET_GROUP \<and> (bm_payload_length request < 8 \<or>
      bm_payload request ! 1 \<noteq> 0 \<and> word_of_le (bslice 2 6 (bm_payload request)) AND
        DEVICE_ADDRESS_MASK = (0 :: u64)) \<or>
    bm_payload request ! 0 = SV_CMD_SET_RADIO_ENABLED \<and> bm_payload_length request < 2 \<longrightarrow>
    bm_payload (fst (execute p request s)) ! 1 = SV_STATUS_BAD_REQUEST \<and> snd (execute p request s) = s) \<and>
   (bm_payload_length request \<noteq> 0 \<and> bm_payload request ! 0 = SV_CMD_START_PAIRING \<and> \<not> rf_primary s \<longrightarrow>
    bm_payload (fst (execute p request s)) ! 1 = SV_STATUS_NOT_ALLOWED \<and> snd (execute p request s) = s)"
proof -
  have status: "bm_payload (basic_response c e (response_frame request)) ! 1 = status_from_errno e" for c e
    by (simp add: basic_response_def Let_def bm_zero_def)
  have bad: "status_from_errno (- EINVAL) = SV_STATUS_BAD_REQUEST"
    "status_from_errno (- EPERM) = SV_STATUS_NOT_ALLOWED"
    by (simp_all add: status_from_errno_def)
  note simps = status [simplified] bad [simplified] respond_def rf_receiver_set_group_def
    rf_receiver_start_pairing_def
  show ?thesis
    unfolding execute_def Let_def
    by (intro conjI impI; elim disjE conjE) (simp_all add: simps not_le [symmetric])
qed

theorem bad_commands_have_no_effect_witness:
  "snd (execute ref_platform (demo_command 9 1) ref_firmware) = ref_firmware"
proof -
  have "bm_payload (demo_command 9 1) ! 0 = 9" by (simp add: demo_command_def)
  then show ?thesis
    using bad_commands_have_no_effect [of "demo_command 9 1" ref_platform ref_firmware] by simp
qed

text \<open>
  The tracker pages are complete: page \<open>tid div 8\<close> lists tracker \<open>tid\<close> with its address,
  for every registered tracker, whatever other ids are free; and a page response is 60 bytes.
\<close>

theorem tracker_pages_complete:
  assumes "rf_invar s" and "tid < 32" and "rf_tracker_addresses s ! tid \<noteq> 0"
    and "2 \<le> bm_payload_length request" and "bm_payload request ! 1 = of_nat (tid div 8)"
    and "bm_wf response"
  shows "\<exists>es. tracker_entry s tid \<in> set es \<and> length es \<le> 8 \<and>
    bm_payload_length (get_tracker_page request s response) = 60 \<and>
    take 60 (bm_payload (get_tracker_page request s response)) =
      tracker_page_bytes \<lparr> tp_command = SV_CMD_GET_TRACKER_PAGE, tp_status = SV_STATUS_OK,
        tp_page = of_nat (tid div 8), tp_entries = es \<rparr>"
proof -
  let ?start = "of_nat (tid div 8) * 8 :: byte"
  let ?es = "page_entries ?start (rf_tracker_count s) s []"
  let ?r = "\<lparr> tp_command = SV_CMD_GET_TRACKER_PAGE, tp_status = SV_STATUS_OK,
        tp_page = of_nat (tid div 8), tp_entries = ?es \<rparr>"
  have e: "?start = of_nat (tid div 8 * 8)" by simp
  have "tid div 8 * 8 < 2 ^ LENGTH(8)" using assms(2) by simp
  then have start: "unat ?start = tid div 8 * 8"
    unfolding e unat_of_nat by (rule mod_less)
  have lim: "tid < unat (rf_tracker_count s)"
    using assms(1,2,3) by (auto simp: rf_invar_def rf_table_def not_less [symmetric])
  have "tracker_entry s tid \<in> tracker_entry s ` set (take 8
      (filter (\<lambda>i. rf_tracker_addresses s ! i \<noteq> 0) [tid div 8 * 8..<unat (rf_tracker_count s)]))"
    using assms(3) by (intro imageI page_covers [OF lim]) simp_all
  then have mem: "tracker_entry s tid \<in> set ?es"
    using page_entries_spec [of "[]" "rf_tracker_count s" s ?start] by (simp add: start take_map)
  have b: "length ?es \<le> 8" "\<forall>e \<in> set ?es. length (te_address e) = 6"
    using page_entries_bound [of "[]"] by auto
  have "length (tracker_page_bytes ?r) = 60" using b by (intro length_tracker_page) simp_all
  then have "take 60 (bm_payload (get_tracker_page request s response)) = tracker_page_bytes ?r"
    using assms(4,5,6) by (simp add: get_tracker_page_def Let_def rf_receiver_get_status_def blit_def)
  moreover have "bm_payload_length (get_tracker_page request s response) = 60"
    by (simp add: get_tracker_page_def Let_def)
  ultimately show ?thesis using mem b by blast
qed

theorem tracker_pages_complete_witness:
  "\<exists>(s :: ref_world receiver) es. tracker_entry s 3 \<in> set es \<and>
     take 60 (bm_payload (get_tracker_page (bm_zero\<lparr> bm_payload_length := 2 \<rparr>) s bm_zero)) =
       tracker_page_bytes \<lparr> tp_command = SV_CMD_GET_TRACKER_PAGE, tp_status = SV_STATUS_OK,
         tp_page = 0, tp_entries = es \<rparr>"
proof -
  obtain t where t: "handle_rf_v2 ref_platform demo_packet ref_secondary = Some t" "rf_invar t"
    "rf_tracker_addresses t ! 3 = 0x010203040506"
    using rf_packet_accepted [OF ref_secondary_invar demo_packet_accepted]
    by (auto simp: ref_secondary_def rf_boot_def bslice_def)
  define s :: "ref_world receiver" where "s = rf_state.extend t \<lparr> rx_cache = sv_command_replay_init,
     sb_pending_response = bm_zero, sb_response_pending = False, sb_tx_sequence = 0,
     sb_crc_errors = 0, sb_ready = False \<rparr>"
  have s: "rf_invar s" "rf_tracker_addresses s ! 3 \<noteq> 0"
    using t by (simp_all add: s_def rf_state.extend_def rf_invar_def)
  show ?thesis
    using tracker_pages_complete [OF s(1) _ s(2), of "bm_zero\<lparr> bm_payload_length := 2 \<rparr>" bm_zero]
    by (auto simp: bm_zero_def bm_wf_def)
qed

end
