(* ===== verification/Nrf_Spi_Bridge.thy ===== *)
theory Nrf_Spi_Bridge
  imports Receiver_Control
begin

text \<open>
  The SPI peripheral of the receiver, \<open>firmware/nrf54l15/src/spi_bridge.c\<close>, and the start of
  the firmware (\<open>main.c\<close>, \<open>test_generator.c\<close>). Its variables are the \<open>sb_\<close> fields
  of the record \<open>receiver\<close>. One turn of \<open>spi_thread\<close> is one transition: arming the
  driver with the prepared frame, the transfer (the bytes the controller clocks in are an input)
  and the processing of what was received. The two clock readings of \<open>prepare_tx\<close> are inputs.
\<close>

section \<open>The SPI thread (spi_bridge.c)\<close>

text \<open>\<open>prepare_tx\<close>: the frame in \<open>tx_buffer\<close> and the new state.\<close>

definition prepare_tx ::
    "int \<Rightarrow> int \<Rightarrow> 'w receiver \<Rightarrow> byte list \<times> 'w receiver" where
  "prepare_tx now later s =
    (let message = bm_zero\<lparr> bm_sequence := sb_tx_sequence s \<rparr>;
         s = s\<lparr> sb_tx_sequence := sb_tx_sequence s + 1 \<rparr>;
         (message, s) =
           (if sb_response_pending s
            then ((sb_pending_response s)\<lparr> bm_sequence := sb_tx_sequence s - 1 \<rparr>,
                  s\<lparr> sb_response_pending := False \<rparr>)
            else
             (let (report, builder) = report_builder_next now (rf_builder s);
                  s = s\<lparr> rf_builder := builder \<rparr> in
              case report of
                Some payload \<Rightarrow> (message\<lparr> bm_payload := payload, bm_kind := SV_BRIDGE_RECEIVER_REPORT,
                    bm_payload_length := SV_BRIDGE_PAYLOAD_SIZE \<rparr>, s)
              | None \<Rightarrow> (message, s)));
         message = (if report_builder_pending later (rf_builder s) \<or> sb_response_pending s
                    then message\<lparr> bm_flags := bm_flags message OR SV_BRIDGE_FLAG_MORE_PENDING \<rparr>
                    else message)
     in (sv_bridge_encode message, s))"

definition process_rx :: "'w platform \<Rightarrow> byte list \<Rightarrow> 'w receiver \<Rightarrow> 'w receiver" where
  "process_rx p rx_buffer s =
    (case sv_bridge_decode rx_buffer of
       None \<Rightarrow> s\<lparr> sb_crc_errors := sb_crc_errors s + 1 \<rparr>
     | Some request \<Rightarrow>
         if bm_kind request = SV_BRIDGE_COMMAND then
           (let (response, s) = receiver_control_handle p request s
            in s\<lparr> sb_pending_response := response, sb_response_pending := True \<rparr>)
         else s)"

definition transfer_callback :: "'w receiver \<Rightarrow> 'w receiver" where
  "transfer_callback s = s\<lparr> sb_ready := False \<rparr>"

text \<open>
  One turn of the thread's loop. \<open>result\<close> is that of \<open>spi_transceive_cb\<close>; if the driver
  could not be armed the turn ends there, otherwise \<open>received\<close> is what the transfer left in
  \<open>rx_buffer\<close>. The first component is the frame the driver was armed with.
\<close>

definition spi_thread_turn ::
    "'w platform \<Rightarrow> int \<Rightarrow> int \<Rightarrow> int \<Rightarrow> byte list \<Rightarrow> 'w receiver \<Rightarrow> byte list \<times> 'w receiver" where
  "spi_thread_turn p now later result received s =
    (let (tx_buffer, s) = prepare_tx now later s in
     if result \<noteq> 0 then (tx_buffer, s)
     else
      (let s = s\<lparr> sb_ready := True \<rparr>;
           s = transfer_callback s
       in (tx_buffer, process_rx p received s)))"

text \<open>
  \<open>spi_bridge_init\<close>: \<open>ready\<close> says whether both devices are, \<open>result\<close> is that of
  configuring the pin; the thread starts when 0 is returned.
\<close>

definition spi_bridge_init :: "bool \<Rightarrow> int \<Rightarrow> 'w receiver \<Rightarrow> int \<times> 'w receiver" where
  "spi_bridge_init ready result s =
    (if \<not> ready then (- ENODEV, s)
     else (let s = s\<lparr> sb_ready := False \<rparr> in
           if result = 0 then (0, receiver_control_init s) else (result, s)))"

section \<open>Start (main.c)\<close>

definition firmware_boot :: "'w \<Rightarrow> 'w receiver" where
  "firmware_boot w = rf_state.extend ((rf_boot w)\<lparr> rf_builder := rb_boot \<rparr>)
     \<lparr> rx_cache = sv_command_replay_init, sb_pending_response = bm_zero,
       sb_response_pending = False, sb_tx_sequence = 0, sb_crc_errors = 0, sb_ready = False \<rparr>"

definition firmware_main ::
    "'w platform \<Rightarrow> bool \<Rightarrow> int \<Rightarrow> 'w receiver \<Rightarrow> (int \<times> 'w receiver) option" where
  "firmware_main p ready pin_result s =
    (let s = s\<lparr> rf_builder := report_builder_init (rf_builder s) \<rparr> in
     Option.bind (rf_receiver_init p s) (\<lambda>(result, s).
       if result \<noteq> 0 then Some (result, s) else Some (spi_bridge_init ready pin_result s)))"

section \<open>The test generator (test_generator.c)\<close>

abbreviation (input) TEST_TRACKERS :: "'a::numeral" where "TEST_TRACKERS \<equiv> 16"

definition test_generator_init :: "'w platform \<Rightarrow> 'w receiver \<Rightarrow> 'w receiver" where
  "test_generator_init p s =
    (let s = snd (rf_receiver_set_enabled p False s) in
     s\<lparr> rf_builder := foldl (\<lambda>b tid. report_builder_set_tracker (of_nat tid)
          (0x535600000000 + of_nat tid + 1) b) (rf_builder s) [0..<TEST_TRACKERS] \<rparr>)"

text \<open>One turn of \<open>generator_thread\<close> for the sequence numbers and the current tracker.\<close>

definition generator_turn ::
    "u32 \<Rightarrow> byte list \<Rightarrow> byte \<Rightarrow> 'w receiver \<Rightarrow> (byte list \<times> byte \<times> 'w receiver) option" where
  "generator_turn uptime sequences tracker s =
    (let n = sequences ! unat tracker;
         record = (zeros SV_SMOL_RECORD_SIZE)[0 := 1, 1 := tracker, 2 := n, 3 := ucast uptime];
         sequences' = sequences[unat tracker := n + 1] in
     map_option (\<lambda>s. (sequences', (tracker + 1) mod TEST_TRACKERS, s))
       (rf_enqueue record 42 n
         (SV_SMOL_META_SEQUENCE_VALID OR SV_SMOL_META_RF_V2 OR SV_SMOL_META_CRC_VALID) True s))"

section \<open>The frames\<close>

text \<open>What the receiver sends when it has no response to deliver.\<close>

definition report_message :: "int \<Rightarrow> 'w receiver \<Rightarrow> sv_bridge_message" where
  "report_message now s =
    (case fst (report_builder_next now (rf_builder s)) of
       Some payload \<Rightarrow> bm_zero\<lparr> bm_sequence := sb_tx_sequence s, bm_payload := payload,
         bm_kind := SV_BRIDGE_RECEIVER_REPORT, bm_payload_length := 64 \<rparr>
     | None \<Rightarrow> bm_zero\<lparr> bm_sequence := sb_tx_sequence s \<rparr>)"

definition with_more :: "bool \<Rightarrow> sv_bridge_message \<Rightarrow> sv_bridge_message" where
  "with_more again m = (if again then m\<lparr> bm_flags := bm_flags m OR SV_BRIDGE_FLAG_MORE_PENDING \<rparr> else m)"

lemma prepare_tx_response:
  "sb_response_pending s \<Longrightarrow> prepare_tx now later s =
    (sv_bridge_encode (with_more (report_builder_pending later (rf_builder s))
       ((sb_pending_response s)\<lparr> bm_sequence := sb_tx_sequence s \<rparr>)),
     s\<lparr> sb_tx_sequence := sb_tx_sequence s + 1, sb_response_pending := False \<rparr>)"
  by (simp add: prepare_tx_def Let_def with_more_def)

lemma prepare_tx_report:
  "\<not> sb_response_pending s \<Longrightarrow> prepare_tx now later s =
    (sv_bridge_encode (with_more
       (report_builder_pending later (snd (report_builder_next now (rf_builder s)))) (report_message now s)),
     s\<lparr> sb_tx_sequence := sb_tx_sequence s + 1,
        rf_builder := snd (report_builder_next now (rf_builder s)) \<rparr>)"
  by (simp add: prepare_tx_def Let_def split_beta report_message_def with_more_def split: option.splits)

section \<open>Invariant of the firmware\<close>

text \<open>A response that may be sent for request \<open>k\<close>.\<close>

definition sendable :: "u16 \<Rightarrow> sv_bridge_message \<Rightarrow> bool" where
  "sendable k r \<longleftrightarrow> bm_wf r \<and> bm_kind r = SV_BRIDGE_COMMAND_RESPONSE \<and> bm_request_id r = k \<and>
     bm_payload_length r \<le> 64 \<and> bm_flags r \<in> {0, SV_BRIDGE_FLAG_ERROR}"

definition fw_invar :: "'w receiver \<Rightarrow> bool" where
  "fw_invar s \<longleftrightarrow> rf_invar s \<and> replay_invar (rx_cache s) \<and>
     (\<forall>(k, r) \<in> set (replay_log (rx_cache s)). sendable k r) \<and>
     (sb_response_pending s \<longrightarrow> sendable (bm_request_id (sb_pending_response s)) (sb_pending_response s))"

lemma fw_invar_fields [simp]:
  "rf_invar (s\<lparr> sb_pending_response := m \<rparr>) = rf_invar s"
  "rf_invar (s\<lparr> sb_response_pending := b \<rparr>) = rf_invar s"
  "rf_invar (s\<lparr> sb_tx_sequence := n \<rparr>) = rf_invar s"
  "rf_invar (s\<lparr> sb_crc_errors := e \<rparr>) = rf_invar s"
  "rf_invar (s\<lparr> sb_ready := b \<rparr>) = rf_invar s"
  "rf_invar (s\<lparr> rx_cache := c \<rparr>) = rf_invar s"
  by (simp_all add: rf_invar_def)

lemma execute_step: "snd (execute p request s) = s \<or> rf_step p s (snd (execute p request s))"
proof -
  have q: "rf_step p s (snd (rf_receiver_set_group p b g s))"
    "rf_step p s (snd (rf_receiver_start_pairing p s))" "rf_step p s (snd (rf_receiver_stop_pairing p s))"
    "rf_step p s (snd (rf_receiver_clear_trackers p s))" "rf_step p s (snd (rf_receiver_set_enabled p b s))"
    for b g
    unfolding rf_step_def
    by (blast intro: prod.collapse [symmetric] quiet_start_pairing quiet_stop_pairing quiet_enable
        reset_group reset_trackers)+
  show ?thesis
    unfolding execute_def Let_def by (simp add: respond_def q)
qed

lemma execute_invar: "radio_ok p rx \<Longrightarrow> rf_invar s \<Longrightarrow> rf_invar (snd (execute p request s))"
  using execute_step [of p request s] quiet_invar reset_invar unfolding rf_step_def by metis

lemma response_ok_sendable: "response_ok request r \<Longrightarrow> sendable (bm_request_id request) r"
  by (auto simp: response_ok_def sendable_def)

lemma handle_invar:
  assumes "radio_ok p rx" and "fw_invar s" and h: "receiver_control_handle p request s = (response, s')"
  shows "rf_invar s' \<and> replay_invar (rx_cache s') \<and>
    (\<forall>(k, r) \<in> set (replay_log (rx_cache s')). sendable k r) \<and>
    sendable (bm_request_id request) response"
proof (cases "sv_command_replay_find (rx_cache s) (bm_request_id request)")
  case None
  have inv: "replay_invar (rx_cache s)" using assms(2) by (simp add: fw_invar_def)
  have r: "sendable (bm_request_id request) response"
    using handle_miss [OF None, of p] execute_response_ok [of request p s] h
    by (simp add: response_ok_sendable)
  have "replay_log (rx_cache s') = keep_last 8 (replay_log (rx_cache s) @ [(bm_request_id request, response)])"
    using replay.log_store [OF inv None] handle_miss [OF None, of p] h by simp
  then have "set (replay_log (rx_cache s')) \<subseteq>
      set (replay_log (rx_cache s) @ [(bm_request_id request, response)])"
    using set_keep_last by metis
  then have "\<forall>(k, r) \<in> set (replay_log (rx_cache s')). sendable k r"
    using assms(2) r by (auto simp: fw_invar_def)
  moreover have "rf_invar s'"
    using h None execute_invar [OF assms(1), of s request] assms(2)
    by (auto simp: receiver_control_handle_def Let_def split_beta fw_invar_def)
  moreover have "replay_invar (rx_cache s')"
    using handle_cache_invar [OF inv, of p request] h by simp
  ultimately show ?thesis using r by simp
next
  case (Some r)
  then have "(bm_request_id request, r) \<in> set (replay_log (rx_cache s))"
    using replay.find_mem assms(2) by (simp add: fw_invar_def)
  then show ?thesis
    using handle_hit [OF Some, of p] h assms(2) by (auto simp: fw_invar_def)
qed

lemma prepare_invar: "fw_invar s \<Longrightarrow> fw_invar (snd (prepare_tx now later s))"
  using report_builder_next_spec(2) [of "rf_builder s" now]
  by (cases "sb_response_pending s")
    (simp_all add: prepare_tx_response prepare_tx_report fw_invar_def rf_invar_def)

lemma process_invar:
  assumes "radio_ok p rx" and "fw_invar s"
  shows "fw_invar (process_rx p received s)"
proof (cases "sv_bridge_decode received")
  case None
  then show ?thesis using assms(2) by (simp add: process_rx_def fw_invar_def)
next
  case (Some request)
  obtain response s' where h: "receiver_control_handle p request s = (response, s')" by fastforce
  from handle_invar [OF assms h] have "fw_invar (s'\<lparr> sb_pending_response := response, sb_response_pending := True \<rparr>)"
    by (auto simp: fw_invar_def sendable_def)
  then show ?thesis using Some h assms(2) by (simp add: process_rx_def)
qed

lemma turn_invar:
  assumes "radio_ok p rx" and "fw_invar s"
  shows "fw_invar (snd (spi_thread_turn p now later result received s))"
proof -
  obtain tx t where t: "prepare_tx now later s = (tx, t)" by fastforce
  have inv: "fw_invar t" using prepare_invar [OF assms(2), of now later] by (simp add: t)
  then have "fw_invar (transfer_callback (t\<lparr> sb_ready := True \<rparr>))"
    by (simp add: transfer_callback_def fw_invar_def)
  then show ?thesis
    using inv process_invar [OF assms(1)] by (simp add: spi_thread_turn_def t Let_def)
qed

text \<open>
  The steps of the running firmware: a radio interrupt, the persistence work, a turn of the SPI
  thread. Management operations happen inside the SPI thread.
\<close>

inductive fw_step :: "'w platform \<Rightarrow> 'w receiver \<Rightarrow> 'w receiver \<Rightarrow> bool" for p :: "'w platform" where
  fw_radio: "receiver_esb_event_handler p rx_received s = Some s' \<Longrightarrow> fw_step p s s'"
| fw_persist: "persist_pairing_work_handler p s = Some s' \<Longrightarrow> fw_step p s s'"
| fw_spi: "spi_thread_turn p now later result received s = (tx, s') \<Longrightarrow> fw_step p s s'"

inductive_cases fw_stepE: "fw_step p s s'"

lemma fw_invar_more:
  "rf_invar s' \<Longrightarrow> rf_state.more s' = rf_state.more s \<Longrightarrow> fw_invar s \<Longrightarrow> fw_invar s'"
  by (cases s; cases s') (auto simp: fw_invar_def)

lemma fw_step_invar:
  assumes "radio_ok p rx" and "fw_step p s s'" and inv: "fw_invar s"
  shows "fw_invar s'"
  using assms(2)
proof (cases rule: fw_step.cases)
  case (fw_radio rx_received)
  then have "rf_quiet p s s'" by (rule quiet_event)
  moreover have "rf_state.more s' = rf_state.more s"
    using fw_radio receive_packets_more by (auto simp: receiver_esb_event_handler_def split: if_splits)
  ultimately show ?thesis
    using quiet_invar [OF assms(1)] inv fw_invar_more by (metis fw_invar_def)
next
  case fw_persist
  then have "rf_quiet p s s'" by (rule quiet_persist)
  moreover have "rf_state.more s' = rf_state.more s"
    using persist_handler_frame [OF fw_persist] outer_frame_more by blast
  ultimately show ?thesis
    using quiet_invar [OF assms(1)] inv fw_invar_more by (metis fw_invar_def)
next
  case (fw_spi now later result received tx)
  then show ?thesis using turn_invar [OF assms(1) inv, of now later result received] by simp
qed

lemma firmware_start:
  assumes "firmware_main p ready pin (firmware_boot w) = Some (0, s0)" and "unique_ids (rf_tracker_addresses s0)"
  shows "fw_invar s0"
proof -
  let ?b = "(firmware_boot w)\<lparr> rf_builder := report_builder_init (rf_builder (firmware_boot w)) \<rparr>"
  from assms(1) obtain r s1 where s1: "rf_receiver_init p ?b = Some (r, s1)"
    "(if r \<noteq> 0 then Some (r, s1) else Some (spi_bridge_init ready pin s1)) = Some (0, s0)"
    by (auto simp: firmware_main_def bind_eq_Some_conv)
  then have r: "rf_receiver_init p ?b = Some (0, s1)" and s0: "spi_bridge_init ready pin s1 = (0, s0)"
    by (auto split: if_splits)
  then have eq: "s0 = s1\<lparr> sb_ready := False, rx_cache := sv_command_replay_init \<rparr>"
    by (auto simp: spi_bridge_init_def receiver_control_init_def Let_def split: if_splits)
  have fresh: "fresh_state ?b"
    using rb_invar_init
    by (simp add: fresh_state_def firmware_boot_def rf_state.extend_def rf_boot_def
        report_builder_init_def rb_boot_def)
  have more: "rf_state.more s1 = rf_state.more ?b" using rf_init_spec [OF r fresh] by simp
  have "rf_invar s1"
    using rf_init_spec [OF r fresh] assms(2) eq by (auto simp: rf_invar_def)
  moreover have "\<not> sb_response_pending s1"
    using more by (cases s1) (simp add: firmware_boot_def rf_state.extend_def)
  ultimately show ?thesis
    by (simp add: fw_invar_def eq replay_init_invar replay_init_log)
qed

text \<open>Decoding a frame the receiver encodes.\<close>

lemma decode_frame:
  assumes "bm_wf m" and "bm_kind m \<le> 4" and "bm_flags m \<in> {0, 2}"
  shows "\<exists>d. sv_bridge_decode (sv_bridge_encode (with_more again m)) = Some d \<and>
    length (sv_bridge_encode (with_more again m)) = 80 \<and> bm_kind d = bm_kind m \<and>
    bm_sequence d = bm_sequence m \<and> bm_request_id d = bm_request_id m \<and>
    (bm_flags d AND SV_BRIDGE_FLAG_MORE_PENDING \<noteq> 0 \<longleftrightarrow> again) \<and>
    (bm_payload_length m = 64 \<longrightarrow> bm_payload d = bm_payload m \<and> bm_payload_length d = 64)"
proof -
  let ?m = "with_more again m"
  have wf: "bm_wf ?m" "bm_kind ?m \<le> 4" using assms by (simp_all add: with_more_def bm_wf_def)
  have flags: "bm_flags ?m AND 1 \<noteq> 0 \<longleftrightarrow> again" using assms(3) by (auto simp: with_more_def)
  have "bm_payload_length m = 64 \<Longrightarrow>
      bm_payload (bm_normal ?m) = bm_payload m \<and> bm_payload_length (bm_normal ?m) = 64"
    using assms(1) by (simp add: with_more_def bm_normal_def bm_padded_def bm_clamped_def bm_wf_def)
  then show ?thesis
    using bridge_roundtrip [OF wf(1)] wf flags length_sv_bridge_encode [of ?m]
    by (simp add: bm_normal_def) (simp add: with_more_def)
qed

lemma report_message_ok:
  assumes "rb_invar (rf_builder s)"
  shows "bm_wf (report_message now s) \<and> bm_kind (report_message now s) \<le> 4 \<and>
    bm_flags (report_message now s) = 0 \<and> bm_sequence (report_message now s) = sb_tx_sequence s"
  using report_output_length [OF assms, of now]
  by (auto simp: report_message_def bm_wf_def bm_zero_def split: option.split)

lemma frame_of_state:
  assumes "fw_invar s" and "prepare_tx now later s = (tx, s')"
  shows "\<exists>m. sv_bridge_decode tx = Some m \<and> length tx = 80 \<and>
    bm_sequence m = sb_tx_sequence s \<and> sb_tx_sequence s' = sb_tx_sequence s + 1 \<and>
    (bm_flags m AND SV_BRIDGE_FLAG_MORE_PENDING \<noteq> 0 \<longleftrightarrow> report_builder_pending later (rf_builder s')) \<and>
    \<not> sb_response_pending s' \<and>
    (if sb_response_pending s then bm_kind m = SV_BRIDGE_COMMAND_RESPONSE \<and>
       bm_request_id m = bm_request_id (sb_pending_response s) \<and> rf_builder s' = rf_builder s
     else case fst (report_builder_next now (rf_builder s)) of
       Some report \<Rightarrow> bm_kind m = SV_BRIDGE_RECEIVER_REPORT \<and> bm_payload_length m = 64 \<and> bm_payload m = report
     | None \<Rightarrow> bm_kind m = SV_BRIDGE_IDLE)"
proof -
  have inv: "rb_invar (rf_builder s)" using assms(1) by (simp add: fw_invar_def rf_invar_def)
  show ?thesis
  proof (cases "sb_response_pending s")
    case True
    let ?m = "(sb_pending_response s)\<lparr> bm_sequence := sb_tx_sequence s \<rparr>"
    have "bm_wf ?m" "bm_kind ?m \<le> 4" "bm_flags ?m \<in> {0, 2}"
      using assms(1) True by (auto simp: fw_invar_def sendable_def bm_wf_def)
    from decode_frame [OF this, of "report_builder_pending later (rf_builder s)"] show ?thesis
      using assms True by (auto simp: prepare_tx_response fw_invar_def sendable_def)
  next
    case False
    let ?m = "report_message now s"
    from report_message_ok [OF inv, of now] have "bm_wf ?m" "bm_kind ?m \<le> 4" "bm_flags ?m \<in> {0, 2}"
      by auto
    from decode_frame [OF this, of "report_builder_pending later (snd (report_builder_next now (rf_builder s)))"]
    show ?thesis
      using assms(2) False report_message_ok [OF inv, of now]
      by (auto simp: prepare_tx_report report_message_def bm_zero_def split: option.splits)
  qed
qed

lemma handle_sequence:
  "sb_tx_sequence (snd (receiver_control_handle p request s)) = sb_tx_sequence s"
proof -
  have "sb_tx_sequence t = sb_tx_sequence u" if "rf_state.more t = rf_state.more u" for t u :: "'a receiver"
    using that by (cases t; cases u) simp
  from this [OF execute_more] show ?thesis
    by (auto simp: receiver_control_handle_def Let_def split_beta split: option.split)
qed

section \<open>Properties\<close>

text \<open>
  The invariant of the whole firmware: from a successful start with a stored tracker table
  without duplicates, through radio interrupts, persistence work and SPI turns in any order with
  any bytes received, the receiver's configuration stays consistent, the replay cache stays a log
  of at most eight responses with distinct request ids, and every cached or pending response is
  well formed and carries the request id it is filed under.
\<close>

theorem firmware_invariant:
  assumes "radio_ok p rx" and "firmware_main p ready pin (firmware_boot w) = Some (0, s0)"
    and "unique_ids (rf_tracker_addresses s0)" and "(fw_step p)\<^sup>*\<^sup>* s0 s"
  shows "rf_invar s \<and> length (replay_log (rx_cache s)) \<le> 8 \<and>
    distinct (map fst (replay_log (rx_cache s))) \<and>
    (\<forall>(k, r) \<in> set (replay_log (rx_cache s)). sendable k r) \<and>
    (sb_response_pending s \<longrightarrow> bm_wf (sb_pending_response s) \<and>
       bm_kind (sb_pending_response s) = SV_BRIDGE_COMMAND_RESPONSE)"
proof -
  have "fw_invar s"
    using assms(4) firmware_start [OF assms(2,3)]
    by (induction rule: rtranclp_induct) (auto dest: fw_step_invar [OF assms(1)])
  then show ?thesis
    using length_replay_log [of "rx_cache s"] replay.log_distinct [of "rx_cache s"]
    by (simp add: fw_invar_def sendable_def)
qed

text \<open>The reference firmware starts.\<close>

lemma ref_firmware_start:
  "\<exists>s0. firmware_main ref_platform True 0 (firmware_boot ref_world0) = Some (0, s0) \<and>
     rf_tracker_addresses s0 = replicate 32 0 \<and> rf_primary s0"
  by (simp add: firmware_main_def rf_receiver_init_def ref_storage_init ref_start_radio ref_hf_clock
      ref_device_address firmware_boot_def rf_state.extend_def rf_boot_def ref_world0_def
      receiver_storage_group_def receiver_storage_tracker_count_def restore_trackers_def
      spi_bridge_init_def receiver_control_init_def)

theorem firmware_invariant_witness:
  "\<exists>s0. firmware_main ref_platform True 0 (firmware_boot ref_world0) = Some (0, s0) \<and>
     rf_invar (snd (spi_thread_turn ref_platform 0 0 0 (zeros 80) s0))"
proof -
  obtain s0 where s0: "firmware_main ref_platform True 0 (firmware_boot ref_world0) = Some (0, s0)"
    "rf_tracker_addresses s0 = replicate 32 0" using ref_firmware_start by blast
  then have u: "unique_ids (rf_tracker_addresses s0)" by (simp add: unique_ids_empty)
  have "(fw_step ref_platform)\<^sup>*\<^sup>* s0 (snd (spi_thread_turn ref_platform 0 0 0 (zeros 80) s0))"
    by (rule r_into_rtranclp, rule fw_spi, rule prod.collapse [symmetric])
  from firmware_invariant [OF ref_radio_ok s0(1) u this] s0(1) show ?thesis by blast
qed

text \<open>
  Every frame the receiver arms is valid and says what it is. It decodes; its sequence number
  is the frame counter, which goes up by one (modulo 65536) with every frame; it is the pending
  response, or else the next report, or else idle; and its MORE_PENDING flag is set exactly when
  another report is waiting.
\<close>

theorem spi_frames_are_valid:
  assumes "fw_invar s" and "prepare_tx now later s = (tx, s')"
  shows "\<exists>m. sv_bridge_decode tx = Some m \<and> length tx = 80 \<and>
    bm_sequence m = sb_tx_sequence s \<and> sb_tx_sequence s' = sb_tx_sequence s + 1 \<and>
    (bm_flags m AND SV_BRIDGE_FLAG_MORE_PENDING \<noteq> 0 \<longleftrightarrow> report_builder_pending later (rf_builder s')) \<and>
    \<not> sb_response_pending s' \<and>
    (if sb_response_pending s then bm_kind m = SV_BRIDGE_COMMAND_RESPONSE \<and>
       bm_request_id m = bm_request_id (sb_pending_response s) \<and> rf_builder s' = rf_builder s
     else case fst (report_builder_next now (rf_builder s)) of
       Some report \<Rightarrow> bm_kind m = SV_BRIDGE_RECEIVER_REPORT \<and> bm_payload_length m = 64 \<and> bm_payload m = report
     | None \<Rightarrow> bm_kind m = SV_BRIDGE_IDLE)"
  using frame_of_state [OF assms] .

lemma ref_fw_invar: "\<exists>s. fw_invar (s :: ref_world receiver) \<and> rf_primary s"
  using ref_firmware_start firmware_start unique_ids_empty by metis

theorem spi_frames_are_valid_witness:
  "\<exists>(s :: ref_world receiver) m. fw_invar s \<and> sv_bridge_decode (fst (prepare_tx 0 0 s)) = Some m"
proof -
  obtain s :: "ref_world receiver" where s: "fw_invar s" using ref_fw_invar by blast
  from spi_frames_are_valid [OF this prod.collapse [symmetric], of 0 0] s show ?thesis by blast
qed

text \<open>
  A command is answered in the next frame. When a turn of the SPI thread receives a valid
  command frame, the frame armed in the following turn decodes to the response with the command's
  request id; the turn after that does not send it again unless another command came in, and a
  report waiting in the queue is not lost in between.
\<close>

theorem response_in_next_frame:
  assumes "radio_ok p rx" and "fw_invar s"
    and "sv_bridge_decode received = Some request" and "bm_kind request = SV_BRIDGE_COMMAND"
    and "spi_thread_turn p now later 0 received s = (tx, s1)"
    and "prepare_tx now' later' s1 = (tx', s2)"
  shows "\<exists>m. sv_bridge_decode tx' = Some m \<and> bm_kind m = SV_BRIDGE_COMMAND_RESPONSE \<and>
    bm_request_id m = bm_request_id request \<and> bm_sequence m = sb_tx_sequence s + 1 \<and>
    \<not> sb_response_pending s2 \<and> rf_builder s2 = rf_builder s1"
proof -
  obtain t where t: "prepare_tx now later s = (tx, t)"
    using assms(5) by (cases "prepare_tx now later s") (simp add: spi_thread_turn_def Let_def)
  let ?t = "transfer_callback (t\<lparr> sb_ready := True \<rparr>)"
  obtain r t' where h: "receiver_control_handle p request ?t = (r, t')" by fastforce
  have s1: "s1 = t'\<lparr> sb_pending_response := r, sb_response_pending := True \<rparr>"
    using assms(3,4,5) h by (simp add: spi_thread_turn_def t Let_def process_rx_def)
  have inv: "fw_invar ?t"
    using prepare_invar [OF assms(2), of now later] by (simp add: t transfer_callback_def fw_invar_def)
  have send: "sendable (bm_request_id request) r"
    using handle_invar [OF assms(1) inv h] by simp
  have fw1: "fw_invar s1"
    using turn_invar [OF assms(1,2), of now later 0 received] assms(5) by simp
  have more: "sb_tx_sequence t' = sb_tx_sequence t"
    using handle_sequence [of p request ?t] h by (simp add: transfer_callback_def)
  have "sb_tx_sequence t = sb_tx_sequence s + 1"
    using frame_of_state [OF assms(2) t] by blast
  then show ?thesis
    using frame_of_state [OF fw1 assms(6)] s1 send more by (auto simp: sendable_def)
qed

theorem response_in_next_frame_witness:
  "\<exists>(s :: ref_world receiver) m. fw_invar s \<and>
    sv_bridge_decode (fst (prepare_tx 0 0
      (snd (spi_thread_turn ref_platform 0 0 0 golden_command_bytes s)))) = Some m \<and>
    bm_kind m = SV_BRIDGE_COMMAND_RESPONSE \<and> bm_request_id m = 0x1234"
proof -
  obtain s :: "ref_world receiver" where s: "fw_invar s" using ref_fw_invar by blast
  have d: "sv_bridge_decode golden_command_bytes = Some (bm_normal golden_command)"
    using bridge_roundtrip [OF bm_wf_golden] by (simp add: golden_command_encode)
  have k: "bm_kind (bm_normal golden_command) = SV_BRIDGE_COMMAND"
    "bm_request_id (bm_normal golden_command) = 0x1234"
    by (simp_all add: bm_normal_def golden_command_def)
  from response_in_next_frame [OF ref_radio_ok s d k(1) prod.collapse [symmetric] prod.collapse [symmetric],
      of 0 0 0 0] s k(2)
  show ?thesis by metis
qed

end
