(* ===== verification/Esp_Platform.thy ===== *)
theory Esp_Platform
  imports Smol_Prelude
begin

text \<open>
  What the ESP32-C5 firmware calls and does not contain (ESP-IDF, FreeRTOS, lwIP, its flash
  storage): a record of functions over a state \<open>'v\<close> of the world. As on the receiver, nothing
  is assumed about them here, and \<open>queue_ok\<close> names documented behaviour for the theorems that
  need it.
\<close>

section \<open>Result codes and addresses\<close>

abbreviation (input) ESP_OK :: int where "ESP_OK \<equiv> 0"
abbreviation (input) ESP_FAIL :: int where "ESP_FAIL \<equiv> - 1"
abbreviation (input) ESP_ERR_NO_MEM :: int where "ESP_ERR_NO_MEM \<equiv> 0x101"
abbreviation (input) ESP_ERR_INVALID_ARG :: int where "ESP_ERR_INVALID_ARG \<equiv> 0x102"
abbreviation (input) ESP_ERR_INVALID_SIZE :: int where "ESP_ERR_INVALID_SIZE \<equiv> 0x104"
abbreviation (input) ESP_ERR_TIMEOUT :: int where "ESP_ERR_TIMEOUT \<equiv> 0x107"
abbreviation (input) ESP_ERR_NVS_NO_FREE_PAGES :: int where "ESP_ERR_NVS_NO_FREE_PAGES \<equiv> 0x110d"
abbreviation (input) ESP_ERR_NVS_NEW_VERSION_FOUND :: int where "ESP_ERR_NVS_NEW_VERSION_FOUND \<equiv> 0x1110"

text \<open>The IPv4 address and the port of a \<open>struct sockaddr_in\<close>, in host order.\<close>

record sockaddr_in =
  sin_addr :: u32
  sin_port :: u16

text \<open>What the non-volatile storage of ESP-IDF holds under a key.\<close>

datatype nvs_value = Nvs_U8 byte | Nvs_U16 u16 | Nvs_Str string

text \<open>The calls of the Wi-Fi driver and its surroundings that return an error code.\<close>

datatype wifi_mode = WIFI_MODE_STA | WIFI_MODE_AP
datatype wifi_band = WIFI_BAND_MODE_2G_ONLY | WIFI_BAND_MODE_5G_ONLY

datatype wifi_op =
    Esp_Netif_Init
  | Esp_Event_Loop_Create_Default
  | Esp_Wifi_Init
  | Esp_Event_Handler_Register bool
  | Esp_Wifi_Set_Country_Code string
  | Esp_Wifi_Set_Mode wifi_mode
  | Esp_Wifi_Set_Config_Sta string string
  | Esp_Wifi_Set_Config_Ap string string byte byte
  | Esp_Wifi_Start
  | Esp_Wifi_Stop
  | Esp_Wifi_Set_Band_Mode wifi_band
  | Esp_Wifi_Connect

text \<open>The set-up of the pins and of the SPI bus.\<close>

datatype hw_op = Gpio_Config_Ready | Gpio_Config_Cs | Gpio_Set_Cs bool | Spi_Bus_Initialize | Spi_Bus_Add_Device

text \<open>
  \<open>ESP_RETURN_ON_ERROR\<close> and chains of \<open>error == ESP_OK && ...\<close>: the next call is made if the
  last one succeeded. \<open>ESP_ERROR_CHECK\<close> aborts on an error, which is \<open>None\<close>.
\<close>

definition and_then :: "int \<times> 'v \<Rightarrow> ('v \<Rightarrow> int \<times> 'v) \<Rightarrow> int \<times> 'v" where
  "and_then r f = (if fst r = ESP_OK then f (snd r) else r)"

definition esp_error_check :: "int \<times> 'v \<Rightarrow> 'v option" where
  "esp_error_check r = (if fst r = ESP_OK then Some (snd r) else None)"

lemma and_then_ok [simp]: "and_then (0, v) f = f v"
  by (simp add: and_then_def)

lemma and_then_result:
  "fst (and_then r f) = 0 \<longleftrightarrow> fst r = 0 \<and> fst (f (snd r)) = 0"
  by (simp add: and_then_def)

section \<open>The platform\<close>

text \<open>
  \<open>http_recv\<close> gives the next part of a request body, empty at its end or on an error.
  \<open>gpio_ready\<close> reads the READY pin; the world it returns is the one after the read, so that
  consecutive reads may differ. A non-blocking \<open>recvfrom\<close> gives no datagram with a flag that says
  whether \<open>errno\<close> is just \<open>EAGAIN\<close>, or a datagram with its source.
\<close>

record 'v esp_platform =
  spi_transmit :: "byte list \<Rightarrow> 'v \<Rightarrow> int \<times> byte list \<times> 'v"
  gpio_ready :: "'v \<Rightarrow> bool \<times> 'v"
  delay_us :: "nat \<Rightarrow> 'v \<Rightarrow> 'v"
  delay_ticks :: "u32 \<Rightarrow> 'v \<Rightarrow> 'v"
  tick_count :: "'v \<Rightarrow> u32"
  queue_send :: "byte list \<Rightarrow> 'v \<Rightarrow> bool \<times> 'v"
  queue_receive :: "'v \<Rightarrow> (byte list \<times> 'v) option"
  udp_send :: "sockaddr_in \<Rightarrow> byte list \<Rightarrow> 'v \<Rightarrow> int \<times> 'v"
  udp_receive :: "'v \<Rightarrow> (bool + sockaddr_in \<times> byte list) \<times> 'v"
  resolve_host :: "string \<Rightarrow> 'v \<Rightarrow> u32 option \<times> 'v"
  flash_init :: "'v \<Rightarrow> int \<times> 'v"
  flash_erase :: "'v \<Rightarrow> int \<times> 'v"
  flash_open :: "bool \<Rightarrow> 'v \<Rightarrow> int \<times> 'v"
  flash_get_u8 :: "string \<Rightarrow> 'v \<Rightarrow> byte option"
  flash_get_u16 :: "string \<Rightarrow> 'v \<Rightarrow> u16 option"
  flash_get_str :: "string \<Rightarrow> nat \<Rightarrow> 'v \<Rightarrow> string option"
  flash_set :: "string \<Rightarrow> nvs_value \<Rightarrow> 'v \<Rightarrow> int \<times> 'v"
  flash_commit :: "'v \<Rightarrow> int \<times> 'v"
  wifi_call :: "wifi_op \<Rightarrow> 'v \<Rightarrow> int \<times> 'v"
  create_netif :: "wifi_mode \<Rightarrow> 'v \<Rightarrow> bool \<times> 'v"
  destroy_netif :: "'v \<Rightarrow> 'v"
  read_mac :: "wifi_mode \<Rightarrow> 'v \<Rightarrow> int \<times> byte list"
  random_u32 :: "'v \<Rightarrow> u32 \<times> 'v"
  queue_create :: "nat \<Rightarrow> 'v \<Rightarrow> bool \<times> 'v"
  semaphore_create :: "'v \<Rightarrow> bool \<times> 'v"
  hw_call :: "hw_op \<Rightarrow> 'v \<Rightarrow> int \<times> 'v"
  task_create :: "string \<Rightarrow> 'v \<Rightarrow> bool \<times> 'v"
  http_recv :: "nat \<Rightarrow> 'v \<Rightarrow> string \<times> 'v"
  http_start :: "'v \<Rightarrow> int \<times> 'v"
  http_register :: "string \<Rightarrow> bool \<Rightarrow> 'v \<Rightarrow> int \<times> 'v"

text \<open>
  Documented behaviour of the FreeRTOS queue of reports, with contents \<open>q\<close>: first in, first out,
  128 elements, a send to a full queue fails and changes nothing.
\<close>

definition queue_ok :: "'v esp_platform \<Rightarrow> ('v \<Rightarrow> byte list list) \<Rightarrow> bool" where
  "queue_ok p q \<longleftrightarrow>
    (\<forall>r v. fst (queue_send p r v) = (length (q v) < 128) \<and>
       q (snd (queue_send p r v)) = (if length (q v) < 128 then q v @ [r] else q v)) \<and>
    (\<forall>v. q v = [] \<longrightarrow> queue_receive p v = None) \<and>
    (\<forall>v r rs. q v = r # rs \<longrightarrow> (\<exists>v'. queue_receive p v = Some (r, v') \<and> q v' = rs)) \<and>
    (\<forall>d b v. q (snd (udp_send p d b v)) = q v) \<and>
    (\<forall>v. q (snd (udp_receive p v)) = q v) \<and>
    (\<forall>h v. q (snd (resolve_host p h v)) = q v) \<and>
    (\<forall>t v. q (snd (snd (spi_transmit p t v))) = q v) \<and>
    (\<forall>v. q (snd (gpio_ready p v)) = q v) \<and>
    (\<forall>n v. q (delay_us p n v) = q v) \<and>
    (\<forall>n v. q (delay_ticks p n v) = q v) \<and>
    (\<forall>op v. q (snd (wifi_call p op v)) = q v) \<and>
    (\<forall>b v. q (snd (flash_open p b v)) = q v) \<and>
    (\<forall>k x v. q (snd (flash_set p k x v)) = q v) \<and>
    (\<forall>v. q (snd (flash_commit p v)) = q v)"

lemma queue_ok_send:
  assumes "queue_ok p q"
  shows "fst (queue_send p r v) = (length (q v) < 128)"
    and "q (snd (queue_send p r v)) = (if length (q v) < 128 then q v @ [r] else q v)"
  using assms by (simp_all add: queue_ok_def)

lemma queue_ok_frame:
  assumes "queue_ok p q"
  shows "q (snd (udp_send p d b v)) = q v" and "q (snd (udp_receive p v)) = q v"
    and "q (snd (resolve_host p h v)) = q v" and "q (snd (snd (spi_transmit p t v))) = q v"
    and "q (snd (gpio_ready p v)) = q v" and "q (delay_us p k v) = q v"
    and "q (delay_ticks p n v) = q v" and "q (snd (wifi_call p op v)) = q v"
    and "q (snd (flash_open p b' v)) = q v" and "q (snd (flash_set p key x v)) = q v"
    and "q (snd (flash_commit p v)) = q v"
  using assms by (simp_all add: queue_ok_def)

lemma queue_ok_receive:
  assumes "queue_ok p q"
  shows "q v = [] \<Longrightarrow> queue_receive p v = None"
    and "q v = r # rs \<Longrightarrow> \<exists>v'. queue_receive p v = Some (r, v') \<and> q v' = rs"
  using assms by (simp_all add: queue_ok_def)

text \<open>
  Documented behaviour of \<open>sendto\<close> on a datagram socket: it sends all of the datagram or fails.
\<close>

definition udp_whole :: "'v esp_platform \<Rightarrow> bool" where
  "udp_whole p \<longleftrightarrow> (\<forall>d b v. fst (udp_send p d b v) = int (length b) \<or> fst (udp_send p d b v) < 0)"

text \<open>A record \<open>sent\<close> of the datagrams handed to \<open>sendto\<close>, which only \<open>sendto\<close> extends.\<close>

definition udp_recorded :: "'v esp_platform \<Rightarrow> ('v \<Rightarrow> (sockaddr_in \<times> byte list) list) \<Rightarrow> bool" where
  "udp_recorded p sent \<longleftrightarrow>
    (\<forall>d b v. sent (snd (udp_send p d b v)) = sent v @ [(d, b)]) \<and>
    (\<forall>v r v'. queue_receive p v = Some (r, v') \<longrightarrow> sent v' = sent v) \<and>
    (\<forall>v. sent (snd (udp_receive p v)) = sent v) \<and>
    (\<forall>h v. sent (snd (resolve_host p h v)) = sent v) \<and>
    (\<forall>n v. sent (delay_ticks p n v) = sent v)"

text \<open>
  Documented behaviour of the NVS namespace with contents \<open>view\<close>: a value that was set is read
  back with its type, a string only into a buffer that holds it and its terminator, opening and
  committing change nothing, and a namespace with contents can be opened for reading.
\<close>

definition flash_ok :: "'v esp_platform \<Rightarrow> ('v \<Rightarrow> string \<Rightarrow> nvs_value option) \<Rightarrow> bool" where
  "flash_ok p view \<longleftrightarrow>
    (\<forall>v. fst (flash_init p v) = ESP_OK \<longrightarrow> view (snd (flash_init p v)) = view v) \<and>
    (\<forall>b v. view (snd (flash_open p b v)) = view v) \<and>
    (\<forall>v. view v \<noteq> Map.empty \<longrightarrow> fst (flash_open p False v) = ESP_OK) \<and>
    (\<forall>k v. flash_get_u8 p k v = (case view v k of Some (Nvs_U8 x) \<Rightarrow> Some x | _ \<Rightarrow> None)) \<and>
    (\<forall>k v. flash_get_u16 p k v = (case view v k of Some (Nvs_U16 x) \<Rightarrow> Some x | _ \<Rightarrow> None)) \<and>
    (\<forall>k n v. flash_get_str p k n v = (case view v k of
       Some (Nvs_Str x) \<Rightarrow> if length x < n then Some x else None | _ \<Rightarrow> None)) \<and>
    (\<forall>k x v. fst (flash_set p k x v) = ESP_OK \<longrightarrow> view (snd (flash_set p k x v)) = (view v)(k \<mapsto> x)) \<and>
    (\<forall>v. fst (flash_commit p v) = ESP_OK \<longrightarrow> view (snd (flash_commit p v)) = view v)"

section \<open>A reference world\<close>

record esp_world =
  ew_queue :: "byte list list"
  ew_ticks :: u32
  ew_ready :: "bool list"
  ew_sent :: "(sockaddr_in \<times> byte list) list"
  ew_incoming :: "(sockaddr_in \<times> byte list) list"
  ew_spi :: "byte list list"
  ew_flash :: "string \<Rightarrow> nvs_value option"
  ew_wifi :: "wifi_op list"
  ew_body :: string

definition esp_world0 :: esp_world where
  "esp_world0 = \<lparr> ew_queue = [], ew_ticks = 0, ew_ready = [], ew_sent = [], ew_incoming = [], ew_spi = [],
     ew_flash = Map.empty, ew_wifi = [], ew_body = [] \<rparr>"

definition ref_esp :: "esp_world esp_platform" where
  "ref_esp = \<lparr>
     spi_transmit = (\<lambda>tx w. case ew_spi w of [] \<Rightarrow> (0, zeros 80, w) | f # fs \<Rightarrow> (0, take 80 (f @ zeros 80), w\<lparr> ew_spi := fs \<rparr>)),
     gpio_ready = (\<lambda>w. case ew_ready w of [] \<Rightarrow> (False, w) | b # bs \<Rightarrow> (b, w\<lparr> ew_ready := bs \<rparr>)),
     delay_us = (\<lambda>n w. w),
     delay_ticks = (\<lambda>n w. w\<lparr> ew_ticks := ew_ticks w + n \<rparr>),
     tick_count = ew_ticks,
     queue_send = (\<lambda>r w. if length (ew_queue w) < 128 then (True, w\<lparr> ew_queue := ew_queue w @ [r] \<rparr>)
        else (False, w)),
     queue_receive = (\<lambda>w. case ew_queue w of [] \<Rightarrow> None | r # rs \<Rightarrow> Some (r, w\<lparr> ew_queue := rs \<rparr>)),
     udp_send = (\<lambda>d b w. (int (length b), w\<lparr> ew_sent := ew_sent w @ [(d, b)] \<rparr>)),
     udp_receive = (\<lambda>w. case ew_incoming w of [] \<Rightarrow> (Inl True, w)
        | m # ms \<Rightarrow> (Inr m, w\<lparr> ew_incoming := ms \<rparr>)),
     resolve_host = (\<lambda>name w. (None, w)),
     flash_init = (\<lambda>w. (0, w)),
     flash_erase = (\<lambda>w. (0, w\<lparr> ew_flash := Map.empty \<rparr>)),
     flash_open = (\<lambda>write w. (0, w)),
     flash_get_u8 = (\<lambda>k w. case ew_flash w k of Some (Nvs_U8 x) \<Rightarrow> Some x | _ \<Rightarrow> None),
     flash_get_u16 = (\<lambda>k w. case ew_flash w k of Some (Nvs_U16 x) \<Rightarrow> Some x | _ \<Rightarrow> None),
     flash_get_str = (\<lambda>k n w. case ew_flash w k of
        Some (Nvs_Str x) \<Rightarrow> if length x < n then Some x else None | _ \<Rightarrow> None),
     flash_set = (\<lambda>k x w. (0, w\<lparr> ew_flash := (ew_flash w)(k \<mapsto> x) \<rparr>)),
     flash_commit = (\<lambda>w. (0, w)),
     wifi_call = (\<lambda>op w. (0, w\<lparr> ew_wifi := ew_wifi w @ [op] \<rparr>)),
     create_netif = (\<lambda>m w. (True, w)),
     destroy_netif = (\<lambda>w. w),
     read_mac = (\<lambda>m w. (0, [1, 2, 3, 4, 5, 6])),
     random_u32 = (\<lambda>w. (0x12345678, w)),
     queue_create = (\<lambda>n w. (True, w\<lparr> ew_queue := [] \<rparr>)),
     semaphore_create = (\<lambda>w. (True, w)),
     hw_call = (\<lambda>op w. (0, w)),
     task_create = (\<lambda>name w. (True, w)),
     http_recv = (\<lambda>n w. (take n (ew_body w), w\<lparr> ew_body := drop n (ew_body w) \<rparr>)),
     http_start = (\<lambda>w. (0, w)),
     http_register = (\<lambda>uri post w. (0, w)) \<rparr>"

lemma ref_queue_ok: "queue_ok ref_esp ew_queue"
  unfolding queue_ok_def by (auto simp: ref_esp_def split: list.splits)

lemma ref_udp_whole: "udp_whole ref_esp"
  by (simp add: udp_whole_def ref_esp_def)

lemma ref_udp_recorded: "udp_recorded ref_esp ew_sent"
  unfolding udp_recorded_def by (auto simp: ref_esp_def split: list.splits)

lemma ref_flash_ok: "flash_ok ref_esp ew_flash"
  unfolding flash_ok_def by (auto simp: ref_esp_def)

end
