(* ===== verification/Esp_Bridge_Spi.thy ===== *)
theory Esp_Bridge_Spi
  imports Bridge_Protocol Esp_Platform
begin

text \<open>
  The SPI controller of the gateway, \<open>firmware/esp32c5/main/bridge_spi.c\<close>: the command slot
  with its retries, the exchange of one frame, the task that drains the receiver while READY is
  high, and the blocking \<open>bridge_spi_command\<close>. The mutexes make each critical section atomic;
  the binary semaphore \<open>command_done\<close> is a flag of the state. What other tasks do while a
  caller is blocked on it is an argument of the blocking function.
\<close>

section \<open>State (bridge_spi.c, bridge_spi.h)\<close>

abbreviation (input) BRIDGE_REARM_TIMEOUT_US :: nat where "BRIDGE_REARM_TIMEOUT_US \<equiv> 1000"
abbreviation (input) COMMAND_RETRY_TICKS :: u32 where "COMMAND_RETRY_TICKS \<equiv> 50"
abbreviation (input) COMMAND_MAX_ATTEMPTS :: byte where "COMMAND_MAX_ATTEMPTS \<equiv> 3"

record bridge_stats =
  bs_transfers :: u32
  bs_transfer_errors :: u32
  bs_reports :: u32
  bs_decode_errors :: u32
  bs_queue_drops :: u32
  bs_command_timeouts :: u32

datatype bridge_transfer_result =
  BRIDGE_TRANSFER_ERROR | BRIDGE_TRANSFER_COMPLETE | BRIDGE_TRANSFER_MORE_PENDING

record bridge_command =
  cm_active :: bool
  cm_request_id :: u16
  cm_payload :: "byte list"
  cm_payload_length :: byte
  cm_response :: "byte list"
  cm_response_length :: byte
  cm_attempts :: byte
  cm_next_attempt :: u32
  cm_result :: int

record 'v esp_state =
  env :: 'v
  eb_tx_sequence :: u16
  eb_next_request_id :: u16
  eb_stats :: bridge_stats
  eb_command :: bridge_command
  eb_command_done :: bool

definition esp_boot :: "'v \<Rightarrow> 'v esp_state" where
  "esp_boot v = \<lparr> env = v, eb_tx_sequence = 0, eb_next_request_id = 1,
     eb_stats = \<lparr> bs_transfers = 0, bs_transfer_errors = 0, bs_reports = 0, bs_decode_errors = 0,
       bs_queue_drops = 0, bs_command_timeouts = 0 \<rparr>,
     eb_command = \<lparr> cm_active = False, cm_request_id = 0, cm_payload = zeros 64,
       cm_payload_length = 0, cm_response = zeros 64, cm_response_length = 0, cm_attempts = 0,
       cm_next_attempt = 0, cm_result = 0 \<rparr>,
     eb_command_done = False \<rparr>"

section \<open>Exchanging a frame\<close>

text \<open>The signed comparison of ticks, \<open>(int32_t)(now - command.next_attempt) >= 0\<close>.\<close>

definition tick_reached :: "u32 \<Rightarrow> u32 \<Rightarrow> bool" where
  "tick_reached now t \<longleftrightarrow> 0 \<le>s (now - t)"

definition prepare_command ::
    "'v esp_platform \<Rightarrow> sv_bridge_message \<Rightarrow> ('v, 'x) esp_state_scheme \<Rightarrow>
     bool \<times> sv_bridge_message \<times> ('v, 'x) esp_state_scheme" where
  "prepare_command p message s =
    (let now = tick_count p (env s); c = eb_command s in
     if cm_active c \<and> cm_attempts c < COMMAND_MAX_ATTEMPTS \<and>
        (cm_attempts c = 0 \<or> tick_reached now (cm_next_attempt c))
     then (True,
       message\<lparr> bm_kind := SV_BRIDGE_COMMAND, bm_request_id := cm_request_id c,
         bm_payload_length := cm_payload_length c,
         bm_payload := blit 0 (take (unat (cm_payload_length c)) (cm_payload c)) (bm_payload message) \<rparr>,
       s\<lparr> eb_command := c\<lparr> cm_attempts := cm_attempts c + 1,
            cm_next_attempt := now + COMMAND_RETRY_TICKS \<rparr> \<rparr>)
     else (False, message, s))"

definition accept_response ::
    "sv_bridge_message \<Rightarrow> ('v, 'x) esp_state_scheme \<Rightarrow> ('v, 'x) esp_state_scheme" where
  "accept_response message s =
    (let c = eb_command s in
     if cm_active c \<and> bm_request_id message = cm_request_id c
     then s\<lparr> eb_command := c\<lparr> cm_response_length := bm_payload_length message,
            cm_response := blit 0 (take (unat (bm_payload_length message)) (bm_payload message)) (cm_response c),
            cm_result := (if bm_flags message AND SV_BRIDGE_FLAG_ERROR \<noteq> 0 then ESP_FAIL else ESP_OK),
            cm_active := False \<rparr>,
          eb_command_done := True \<rparr>
     else s)"

definition count_stat ::
    "((u32 \<Rightarrow> u32) \<Rightarrow> bridge_stats \<Rightarrow> bridge_stats) \<Rightarrow> ('v, 'x) esp_state_scheme \<Rightarrow>
     ('v, 'x) esp_state_scheme" where
  "count_stat field s = s\<lparr> eb_stats := field (\<lambda>n. n + 1) (eb_stats s) \<rparr>"

text \<open>The part of \<open>transact\<close> after a transfer that delivered \<open>rx\<close>.\<close>

definition receive_frame ::
    "'v esp_platform \<Rightarrow> byte list \<Rightarrow> ('v, 'x) esp_state_scheme \<Rightarrow>
     bridge_transfer_result \<times> ('v, 'x) esp_state_scheme" where
  "receive_frame p rx s =
    (let s = count_stat bs_transfers_update s in
     case sv_bridge_decode rx of
       None \<Rightarrow> (BRIDGE_TRANSFER_COMPLETE, count_stat bs_decode_errors_update s)
     | Some incoming \<Rightarrow>
         (let s =
            (if bm_kind incoming = SV_BRIDGE_RECEIVER_REPORT \<and> bm_payload_length incoming = 64 then
               (let (sent, v) = queue_send p (bm_payload incoming) (env s); s = s\<lparr> env := v \<rparr> in
                if \<not> sent then count_stat bs_queue_drops_update s else count_stat bs_reports_update s)
             else if bm_kind incoming = SV_BRIDGE_COMMAND_RESPONSE then accept_response incoming s
             else s)
          in (if bm_flags incoming AND SV_BRIDGE_FLAG_MORE_PENDING \<noteq> 0
              then BRIDGE_TRANSFER_MORE_PENDING else BRIDGE_TRANSFER_COMPLETE, s)))"

text \<open>The frame \<open>transact\<close> sends.\<close>

definition outgoing_frame ::
    "'v esp_platform \<Rightarrow> ('v, 'x) esp_state_scheme \<Rightarrow> byte list \<times> ('v, 'x) esp_state_scheme" where
  "outgoing_frame p s =
    (let outgoing = bm_zero\<lparr> bm_sequence := eb_tx_sequence s \<rparr>;
         s = s\<lparr> eb_tx_sequence := eb_tx_sequence s + 1 \<rparr>;
         (_, outgoing, s) = prepare_command p outgoing s
     in (sv_bridge_encode outgoing, s))"

definition transact ::
    "'v esp_platform \<Rightarrow> ('v, 'x) esp_state_scheme \<Rightarrow> bridge_transfer_result \<times> ('v, 'x) esp_state_scheme" where
  "transact p s =
    (let (tx, s) = outgoing_frame p s;
         (result, rx, v) = spi_transmit p tx (delay_us p 2 (env s));
         s = s\<lparr> env := delay_us p 2 v \<rparr> in
     if result \<noteq> ESP_OK then (BRIDGE_TRANSFER_ERROR, count_stat bs_transfer_errors_update s)
     else receive_frame p rx s)"

section \<open>The task\<close>

text \<open>A loop of \<open>wait_for_receiver_rearm\<close>: up to \<open>n\<close> reads, 1 us apart, until the level is seen.\<close>

primrec wait_level :: "'v esp_platform \<Rightarrow> bool \<Rightarrow> nat \<Rightarrow> 'v \<Rightarrow> bool \<times> 'v" where
  "wait_level p level 0 v = (False, v)"
| "wait_level p level (Suc n) v =
    (let (ready, v) = gpio_ready p v in
     if ready = level then (True, v) else wait_level p level n (delay_us p 1 v))"

definition wait_for_receiver_rearm ::
    "'v esp_platform \<Rightarrow> ('v, 'x) esp_state_scheme \<Rightarrow> bool \<times> ('v, 'x) esp_state_scheme" where
  "wait_for_receiver_rearm p s =
    (let (saw_not_ready, v) = wait_level p False BRIDGE_REARM_TIMEOUT_US (env s) in
     if \<not> saw_not_ready then (False, s\<lparr> env := v \<rparr>)
     else (let (ready, v) = wait_level p True BRIDGE_REARM_TIMEOUT_US v in (ready, s\<lparr> env := v \<rparr>)))"

primrec drain_receiver ::
    "'v esp_platform \<Rightarrow> nat \<Rightarrow> ('v, 'x) esp_state_scheme \<Rightarrow> ('v, 'x) esp_state_scheme" where
  "drain_receiver p 0 s = s"
| "drain_receiver p (Suc n) s =
    (let (result, s) = transact p s in
     if result \<noteq> BRIDGE_TRANSFER_MORE_PENDING then s
     else (let (rearmed, s) = wait_for_receiver_rearm p s in
           if \<not> rearmed then s else drain_receiver p n s))"

text \<open>One turn of \<open>bridge_task\<close>.\<close>

definition bridge_task_turn ::
    "'v esp_platform \<Rightarrow> ('v, 'x) esp_state_scheme \<Rightarrow> ('v, 'x) esp_state_scheme" where
  "bridge_task_turn p s =
    (let (ready, v) = gpio_ready p (env s);
         s = s\<lparr> env := v \<rparr>;
         s = (if ready then drain_receiver p 8 s else s)
     in s\<lparr> env := delay_ticks p 1 (env s) \<rparr>)"

section \<open>Interface to the other components\<close>

definition bridge_spi_receive_report ::
    "'v esp_platform \<Rightarrow> ('v, 'x) esp_state_scheme \<Rightarrow> (byte list \<times> ('v, 'x) esp_state_scheme) option" where
  "bridge_spi_receive_report p s =
    map_option (\<lambda>(report, v). (report, s\<lparr> env := v \<rparr>)) (queue_receive p (env s))"

text \<open>The critical section that starts a command.\<close>

definition start_command ::
    "byte list \<Rightarrow> ('v, 'x) esp_state_scheme \<Rightarrow> ('v, 'x) esp_state_scheme" where
  "start_command request s =
    (let s = s\<lparr> eb_command_done := False \<rparr>; c = eb_command s
     in s\<lparr> eb_command := c\<lparr> cm_active := True, cm_request_id := eb_next_request_id s,
            cm_payload_length := of_nat (length request),
            cm_payload := blit 0 request (cm_payload c),
            cm_response_length := 0, cm_attempts := 0, cm_result := ESP_ERR_TIMEOUT \<rparr>,
          eb_next_request_id := eb_next_request_id s + 1 \<rparr>)"

text \<open>The critical section that ends one: \<open>taken\<close> says whether \<open>command_done\<close> came in time.\<close>

definition finish_command ::
    "bool \<Rightarrow> nat \<Rightarrow> ('v, 'x) esp_state_scheme \<Rightarrow> int \<times> byte list option \<times> ('v, 'x) esp_state_scheme" where
  "finish_command taken capacity s =
    (if taken then
       (let c = eb_command s; s = s\<lparr> eb_command_done := False \<rparr>; n = unat (cm_response_length c) in
        if capacity < n then (ESP_ERR_INVALID_SIZE, None, s)
        else (cm_result c, Some (take n (cm_response c)), s))
     else (ESP_ERR_TIMEOUT, None,
       count_stat bs_command_timeouts_update
         (s\<lparr> eb_command := (eb_command s)\<lparr> cm_active := False \<rparr> \<rparr>)))"

text \<open>
  \<open>bridge_spi_command\<close>. A null pointer is \<open>None\<close>; \<open>capacity\<close> is \<open>*response_length\<close> on entry.
  \<open>locked\<close> says whether the command mutex was obtained in time. \<open>wait\<close> is what happens while
  the caller waits for \<open>command_done\<close>: whether it was taken, and the state then. The result has
  the response bytes when they were copied.
\<close>

definition bridge_spi_command ::
    "(('v, 'x) esp_state_scheme \<Rightarrow> bool \<times> ('v, 'x) esp_state_scheme) \<Rightarrow> bool \<Rightarrow>
     byte list option \<Rightarrow> bool \<Rightarrow> nat option \<Rightarrow> ('v, 'x) esp_state_scheme \<Rightarrow>
     int \<times> byte list option \<times> ('v, 'x) esp_state_scheme" where
  "bridge_spi_command wait locked request response_given capacity s =
    (case (request, capacity) of
       (Some request, Some capacity) \<Rightarrow>
         if request = [] \<or> 64 < length request \<or> \<not> response_given then (ESP_ERR_INVALID_ARG, None, s)
         else if \<not> locked then (ESP_ERR_TIMEOUT, None, s)
         else
          (let (done_taken, s) = wait (start_command request s) in finish_command done_taken capacity s)
     | _ \<Rightarrow> (ESP_ERR_INVALID_ARG, None, s))"

definition bridge_spi_set_radio_enabled ::
    "(('v, 'x) esp_state_scheme \<Rightarrow> bool \<times> ('v, 'x) esp_state_scheme) \<Rightarrow> bool \<Rightarrow> bool \<Rightarrow>
     ('v, 'x) esp_state_scheme \<Rightarrow> int \<times> ('v, 'x) esp_state_scheme" where
  "bridge_spi_set_radio_enabled wait locked enabled s =
    (let request = [SV_CMD_SET_RADIO_ENABLED, if enabled then 1 else 0];
         (result, _, s) = bridge_spi_command wait locked (Some request) True (Some 64) s
     in (result, s))"

definition bridge_spi_get_stats :: "('v, 'x) esp_state_scheme \<Rightarrow> bridge_stats" where
  "bridge_spi_get_stats s = eb_stats s"

text \<open>
  \<open>bridge_spi_init\<close>: the queue of 128 reports, three semaphores, the pins and the bus, with
  \<open>ESP_RETURN_ON_ERROR\<close> after each of these calls, and the task.
\<close>

definition bridge_spi_init ::
    "'v esp_platform \<Rightarrow> ('v, 'x) esp_state_scheme \<Rightarrow> int \<times> ('v, 'x) esp_state_scheme" where
  "bridge_spi_init p s =
    (let (report_queue, v) = queue_create p 128 (env s);
         (command_mutex, v) = semaphore_create p v;
         (state_mutex, v) = semaphore_create p v;
         (command_done, v) = semaphore_create p v in
     if \<not> report_queue \<or> \<not> command_mutex \<or> \<not> state_mutex \<or> \<not> command_done
     then (ESP_ERR_NO_MEM, s\<lparr> env := v \<rparr>)
     else
      (let (error, v) =
         and_then (hw_call p Gpio_Config_Ready v) (\<lambda>v.
         and_then (hw_call p Gpio_Config_Cs v) (\<lambda>v.
         and_then (hw_call p (Gpio_Set_Cs True) v) (\<lambda>v.
         and_then (hw_call p Spi_Bus_Initialize v) (hw_call p Spi_Bus_Add_Device)))) in
       if error \<noteq> ESP_OK then (error, s\<lparr> env := v \<rparr>)
       else
        (let (created, v) = task_create p ''bridge-spi'' v
         in (if created then ESP_OK else ESP_ERR_NO_MEM, s\<lparr> env := v \<rparr>))))"

section \<open>Invariant\<close>

definition command_ok :: "bridge_command \<Rightarrow> bool" where
  "command_ok c \<longleftrightarrow> length (cm_payload c) = 64 \<and> length (cm_response c) = 64 \<and>
     unat (cm_payload_length c) \<le> 64 \<and> unat (cm_response_length c) \<le> 64 \<and> unat (cm_attempts c) \<le> 3"

lemma prepare_command_cases:
  "prepare_command p m s = (True,
      m\<lparr> bm_kind := SV_BRIDGE_COMMAND, bm_request_id := cm_request_id (eb_command s),
        bm_payload_length := cm_payload_length (eb_command s),
        bm_payload := blit 0 (take (unat (cm_payload_length (eb_command s))) (cm_payload (eb_command s)))
          (bm_payload m) \<rparr>,
      s\<lparr> eb_command := (eb_command s)\<lparr> cm_attempts := cm_attempts (eb_command s) + 1,
        cm_next_attempt := tick_count p (env s) + 50 \<rparr> \<rparr>) \<and>
      cm_active (eb_command s) \<and> cm_attempts (eb_command s) < 3 \<and>
      (cm_attempts (eb_command s) = 0 \<or> tick_reached (tick_count p (env s)) (cm_next_attempt (eb_command s))) \<or>
   prepare_command p m s = (False, m, s)"
  by (auto simp: prepare_command_def Let_def)

lemma attempts_step: "(n :: byte) < 3 \<Longrightarrow> unat (n + 1) = Suc (unat n) \<and> unat (n + 1) \<le> 3"
  using unat_plus_one [of n 3] by (simp add: word_less_nat_alt)

lemma command_ok_prepare:
  "command_ok (eb_command s) \<Longrightarrow> command_ok (eb_command (snd (snd (prepare_command p m s))))"
  using prepare_command_cases [of p m s] attempts_step [of "cm_attempts (eb_command s)"]
  by (auto simp: command_ok_def)

lemma command_ok_outgoing:
  "command_ok (eb_command s) \<Longrightarrow> command_ok (eb_command (snd (outgoing_frame p s)))"
  using command_ok_prepare [of "s\<lparr> eb_tx_sequence := eb_tx_sequence s + 1 \<rparr>"]
  by (simp add: outgoing_frame_def Let_def split_beta)

lemma count_stat_simps [simp]:
  "eb_command (count_stat f s) = eb_command s" "env (count_stat f s) = env s"
  "eb_tx_sequence (count_stat f s) = eb_tx_sequence s"
  "eb_command_done (count_stat f s) = eb_command_done s"
  "eb_next_request_id (count_stat f s) = eb_next_request_id s"
  by (simp_all add: count_stat_def)

lemma accept_response_simps [simp]:
  "env (accept_response m s) = env s" "eb_stats (accept_response m s) = eb_stats s"
  "eb_tx_sequence (accept_response m s) = eb_tx_sequence s"
  "eb_next_request_id (accept_response m s) = eb_next_request_id s"
  by (simp_all add: accept_response_def Let_def)

lemma command_ok_accept:
  "command_ok (eb_command s) \<Longrightarrow> bm_wf m \<Longrightarrow> bm_payload_length m \<le> 64 \<Longrightarrow>
   command_ok (eb_command (accept_response m s))"
  by (simp add: command_ok_def accept_response_def Let_def bm_wf_def length_blit word_le_nat_alt)

lemma command_ok_receive:
  assumes "command_ok (eb_command s)" and "length rx = 80"
  shows "command_ok (eb_command (snd (receive_frame p rx s)))"
  using command_ok_accept [OF assms(1)] assms bridge_decode_props [of rx]
  by (auto simp: receive_frame_def Let_def split_beta command_ok_accept split: option.split)

text \<open>The frame the controller sends decodes to the command or to an idle message.\<close>

lemma outgoing_frame_decodes:
  assumes "command_ok (eb_command s)"
  shows "\<exists>m. sv_bridge_decode (fst (outgoing_frame p s)) = Some m \<and> length (fst (outgoing_frame p s)) = 80 \<and>
    bm_sequence m = eb_tx_sequence s \<and>
    eb_tx_sequence (snd (outgoing_frame p s)) = eb_tx_sequence s + 1 \<and>
    (if cm_active (eb_command s) \<and> cm_attempts (eb_command s) < 3 \<and>
        (cm_attempts (eb_command s) = 0 \<or> tick_reached (tick_count p (env s)) (cm_next_attempt (eb_command s)))
     then bm_kind m = SV_BRIDGE_COMMAND \<and> bm_request_id m = cm_request_id (eb_command s) \<and>
       bm_payload_length m = cm_payload_length (eb_command s) \<and>
       take (unat (cm_payload_length (eb_command s))) (bm_payload m) =
         take (unat (cm_payload_length (eb_command s))) (cm_payload (eb_command s)) \<and>
       eb_command (snd (outgoing_frame p s)) = (eb_command s)
         \<lparr> cm_attempts := cm_attempts (eb_command s) + 1, cm_next_attempt := tick_count p (env s) + 50 \<rparr>
     else bm_kind m = SV_BRIDGE_IDLE \<and> eb_command (snd (outgoing_frame p s)) = eb_command s)"
proof -
  let ?c = "eb_command s" and ?n = "unat (cm_payload_length (eb_command s))"
  let ?s = "s\<lparr> eb_tx_sequence := eb_tx_sequence s + 1 \<rparr>"
  let ?idle = "bm_zero\<lparr> bm_sequence := eb_tx_sequence s \<rparr>"
  let ?cmd = "?idle\<lparr> bm_kind := SV_BRIDGE_COMMAND, bm_request_id := cm_request_id ?c,
    bm_payload_length := cm_payload_length ?c, bm_payload := blit 0 (take ?n (cm_payload ?c)) (zeros 64) \<rparr>"
  have ok: "length (cm_payload ?c) = 64" "?n \<le> 64" using assms by (simp_all add: command_ok_def)
  then have len: "length (blit 0 (take ?n (cm_payload ?c)) (zeros 64)) = 64"
    by (simp add: length_blit)
  have wf: "bm_wf ?idle" "bm_wf ?cmd" using len by (simp_all add: bm_wf_def bm_zero_def)
  have idle: "sv_bridge_decode (sv_bridge_encode ?idle) = Some (bm_normal ?idle)"
    and cmd: "sv_bridge_decode (sv_bridge_encode ?cmd) = Some (bm_normal ?cmd)"
    using bridge_roundtrip [OF wf(1)] bridge_roundtrip [OF wf(2)] by (simp_all add: bm_zero_def)
  have pl: "cm_payload_length ?c \<le> 64" using ok(2) by (simp add: word_le_nat_alt)
  then have pay: "bm_payload_length (bm_normal ?cmd) = cm_payload_length ?c"
    "take ?n (bm_payload (bm_normal ?cmd)) = take ?n (cm_payload ?c)"
    using ok by (simp_all add: bm_normal_def bm_clamped_def bm_padded_def blit_def)
  show ?thesis
  proof (cases "cm_active ?c \<and> cm_attempts ?c < 3 \<and>
      (cm_attempts ?c = 0 \<or> tick_reached (tick_count p (env s)) (cm_next_attempt ?c))")
    case True
    then have "prepare_command p ?idle ?s = (True, ?cmd, ?s\<lparr> eb_command := ?c
        \<lparr> cm_attempts := cm_attempts ?c + 1, cm_next_attempt := tick_count p (env s) + 50 \<rparr> \<rparr>)"
      by (simp add: prepare_command_def Let_def bm_zero_def)
    then have out: "outgoing_frame p s = (sv_bridge_encode ?cmd, ?s\<lparr> eb_command := ?c
        \<lparr> cm_attempts := cm_attempts ?c + 1, cm_next_attempt := tick_count p (env s) + 50 \<rparr> \<rparr>)"
      by (simp add: outgoing_frame_def Let_def)
    show ?thesis
      using True cmd pay length_sv_bridge_encode [of ?cmd] wf(2)
      by (simp add: out) (simp add: bm_normal_def)
  next
    case False
    then have "prepare_command p ?idle ?s = (False, ?idle, ?s)"
      by (auto simp: prepare_command_def Let_def)
    then have out: "outgoing_frame p s = (sv_bridge_encode ?idle, ?s)"
      by (simp add: outgoing_frame_def Let_def)
    show ?thesis
      using False idle length_sv_bridge_encode [of ?idle] wf(1)
      by (simp add: out) (simp add: bm_normal_def bm_zero_def)
  qed
qed

section \<open>The drain loop\<close>

lemma transact_sequence:
  fixes s :: "('v, 'x) esp_state_scheme"
  shows "eb_tx_sequence (snd (transact p s)) = eb_tx_sequence s + 1"
proof -
  have "eb_tx_sequence (snd (outgoing_frame p s)) = eb_tx_sequence s + 1"
    by (simp add: outgoing_frame_def prepare_command_def Let_def split_beta)
  moreover have "eb_tx_sequence (snd (receive_frame p rx t)) = eb_tx_sequence t"
    for rx and t :: "('v, 'x) esp_state_scheme"
    by (simp add: receive_frame_def Let_def split_beta split: option.split)
  ultimately show ?thesis by (simp add: transact_def Let_def split_beta)
qed

lemma rearm_sequence: "eb_tx_sequence (snd (wait_for_receiver_rearm p s)) = eb_tx_sequence s"
  by (simp add: wait_for_receiver_rearm_def split_beta Let_def)

section \<open>What is observed on the link\<close>

text \<open>
  The reads of the READY line and the exchanges, in their order. An exchange is marked with
  whether it succeeded and delivered a frame that announces more pending data.
\<close>

datatype link_event = Ready_Read bool | Exchange bool

definition frame_more :: "int \<Rightarrow> byte list \<Rightarrow> bool" where
  "frame_more result rx \<longleftrightarrow> result = ESP_OK \<and>
     (case sv_bridge_decode rx of None \<Rightarrow> False
      | Some m \<Rightarrow> bm_flags m AND SV_BRIDGE_FLAG_MORE_PENDING \<noteq> 0)"

text \<open>\<open>trace\<close> records these events in the world of the platform and nothing else.\<close>

definition spi_observed :: "'v esp_platform \<Rightarrow> ('v \<Rightarrow> link_event list) \<Rightarrow> bool" where
  "spi_observed p trace \<longleftrightarrow>
    (\<forall>v. trace (snd (gpio_ready p v)) = trace v @ [Ready_Read (fst (gpio_ready p v))]) \<and>
    (\<forall>tx v. trace (snd (snd (spi_transmit p tx v))) = trace v @
       [Exchange (frame_more (fst (spi_transmit p tx v)) (fst (snd (spi_transmit p tx v))))]) \<and>
    (\<forall>n v. trace (delay_us p n v) = trace v) \<and> (\<forall>n v. trace (delay_ticks p n v) = trace v) \<and>
    (\<forall>r v. trace (snd (queue_send p r v)) = trace v)"

text \<open>
  The handshake the wiring document asks for. \<open>low\<close>: READY was seen low since the last exchange;
  \<open>armed\<close>: it was seen high after that. A frame is exchanged only when armed, and nothing
  follows an exchange that announced no more data.
\<close>

fun ready_handshakes :: "bool \<Rightarrow> bool \<Rightarrow> link_event list \<Rightarrow> bool" where
  "ready_handshakes low armed [] \<longleftrightarrow> True"
| "ready_handshakes low armed (Ready_Read False # es) \<longleftrightarrow> ready_handshakes True False es"
| "ready_handshakes low armed (Ready_Read True # es) \<longleftrightarrow> ready_handshakes low low es"
| "ready_handshakes low armed (Exchange pending # es) \<longleftrightarrow>
    armed \<and> (if pending then ready_handshakes False False es else es = [])"

definition exchanges :: "link_event list \<Rightarrow> nat" where
  "exchanges es = length (filter (\<lambda>e. case e of Exchange _ \<Rightarrow> True | Ready_Read _ \<Rightarrow> False) es)"

lemma exchanges_simps [simp]:
  "exchanges [] = 0" "exchanges (Exchange b # es) = Suc (exchanges es)"
  "exchanges (Ready_Read b # es) = exchanges es" "exchanges (xs @ ys) = exchanges xs + exchanges ys"
  "exchanges (map Ready_Read bs) = 0"
  by (simp_all add: exchanges_def filter_empty_conv)

lemma ready_reads: "ready_handshakes low armed (map Ready_Read bs)"
proof (induction bs arbitrary: low armed)
  case (Cons b bs)
  then show ?case by (cases b) simp_all
qed simp

lemma ready_high:
  "ready_handshakes low low (replicate k (Ready_Read True) @ es) = ready_handshakes low low es"
  by (induction k) simp_all

lemma ready_low:
  "ready_handshakes True armed (replicate j (Ready_Read False) @ Ready_Read True # es) = ready_handshakes True True es"
  by (induction j arbitrary: armed) simp_all

lemma ready_rearmed:
  "ready_handshakes False False (map Ready_Read (replicate k True @ False # replicate j False @ [True]) @ es)
    = ready_handshakes True True es"
  using ready_high [of False k] by (simp add: ready_low)

lemma wait_level_trace:
  assumes "spi_observed p trace"
  shows "\<exists>bs. trace (snd (wait_level p level n v)) = trace v @ map Ready_Read bs \<and> length bs \<le> n \<and>
    (fst (wait_level p level n v) \<longrightarrow> (\<exists>k. bs = replicate k (\<not> level) @ [level]))"
proof (induction n arbitrary: v)
  case (Suc n)
  obtain ready v1 where g: "gpio_ready p v = (ready, v1)" by fastforce
  have t1: "trace v1 = trace v @ [Ready_Read ready]"
    using assms unfolding spi_observed_def by (metis fst_conv g snd_conv)
  show ?case
  proof (cases "ready = level")
    case True
    then show ?thesis using g t1 by (auto intro: exI [of _ "[level]"])
  next
    case False
    have "trace (delay_us p 1 v1) = trace v1" using assms by (simp add: spi_observed_def)
    with Suc.IH [of "delay_us p 1 v1"] obtain bs where
      bs: "trace (snd (wait_level p level n (delay_us p 1 v1))) = trace v1 @ map Ready_Read bs"
        "length bs \<le> n"
        "fst (wait_level p level n (delay_us p 1 v1)) \<longrightarrow> (\<exists>k. bs = replicate k (\<not> level) @ [level])"
      by auto
    have w: "wait_level p level (Suc n) v = wait_level p level n (delay_us p 1 v1)"
      using False g by simp
    have "\<exists>k. ready # bs = replicate k (\<not> level) @ [level]"
      if found: "fst (wait_level p level (Suc n) v)"
    proof -
      obtain k where "bs = replicate k (\<not> level) @ [level]" using found bs(3) unfolding w by blast
      moreover have "ready \<longleftrightarrow> \<not> level" using False by blast
      ultimately have "ready # bs = replicate (Suc k) (\<not> level) @ [level]" by simp
      then show ?thesis by (rule exI)
    qed
    moreover have "trace (snd (wait_level p level (Suc n) v)) = trace v @ map Ready_Read (ready # bs)"
      using bs(1) t1 by (simp add: w del: wait_level.simps)
    ultimately show ?thesis
      using bs(2) by (intro exI [of _ "ready # bs"] conjI impI) simp_all
  qed
qed simp

lemma rearm_trace:
  assumes "spi_observed p trace"
  shows "\<exists>bs. trace (env (snd (wait_for_receiver_rearm p s))) = trace (env s) @ map Ready_Read bs \<and>
    length bs \<le> 2000 \<and>
    (fst (wait_for_receiver_rearm p s) \<longrightarrow>
      (\<exists>k j. bs = replicate k True @ False # replicate j False @ [True]))"
proof -
  obtain low v1 where w1: "wait_level p False 1000 (env s) = (low, v1)" by fastforce
  obtain high v2 where w2: "wait_level p True 1000 v1 = (high, v2)" by fastforce
  obtain b1 where b1: "trace v1 = trace (env s) @ map Ready_Read b1" "length b1 \<le> 1000"
    "low \<longrightarrow> (\<exists>k. b1 = replicate k True @ [False])"
    using wait_level_trace [OF assms, of False 1000 "env s"] w1 by auto
  obtain b2 where b2: "trace v2 = trace v1 @ map Ready_Read b2" "length b2 \<le> 1000"
    "high \<longrightarrow> (\<exists>k. b2 = replicate k False @ [True])"
    using wait_level_trace [OF assms, of True 1000 v1] w2 by auto
  show ?thesis
  proof (cases low)
    case True
    have "high \<longrightarrow> (\<exists>k j. b1 @ b2 = replicate k True @ False # replicate j False @ [True])"
      using b1(3) b2(3) True by (metis append_Cons append_Nil append_assoc)
    then show ?thesis
      using True w1 w2 b1 b2
      by (intro exI [of _ "b1 @ b2"]) (simp add: wait_for_receiver_rearm_def)
  next
    case False
    then show ?thesis
      using w1 b1 by (intro exI [of _ b1]) (simp add: wait_for_receiver_rearm_def)
  qed
qed

lemma receive_frame_trace:
  assumes "spi_observed p trace"
  shows "trace (env (snd (receive_frame p rx s))) = trace (env s)"
  using assms
  by (auto simp: receive_frame_def Let_def split_beta spi_observed_def split: option.splits)

lemma receive_frame_more:
  "fst (receive_frame p rx s) = BRIDGE_TRANSFER_MORE_PENDING \<longleftrightarrow> frame_more ESP_OK rx"
  by (auto simp: receive_frame_def Let_def split_beta frame_more_def split: option.splits)

lemma outgoing_frame_env [simp]: "env (snd (outgoing_frame p s)) = env s"
  by (simp add: outgoing_frame_def prepare_command_def Let_def)

lemma transact_trace:
  assumes "spi_observed p trace"
  shows "trace (env (snd (transact p s))) = trace (env s) @
    [Exchange (fst (transact p s) = BRIDGE_TRANSFER_MORE_PENDING)]"
proof -
  obtain tx s1 where o: "outgoing_frame p s = (tx, s1)" by fastforce
  then have e: "env s1 = env s" using outgoing_frame_env [of p s] by simp
  obtain result rx v where t: "spi_transmit p tx (delay_us p 2 (env s)) = (result, rx, v)"
    by (metis prod.exhaust)
  have d: "trace (delay_us p 2 u) = trace u" for u using assms by (simp add: spi_observed_def)
  have tv: "trace v = trace (env s) @ [Exchange (frame_more result rx)]"
    using assms t d unfolding spi_observed_def by (metis fst_conv snd_conv)
  show ?thesis
  proof (cases "result = ESP_OK")
    case True
    then show ?thesis
      using o e t tv d
      by (simp add: transact_def Let_def receive_frame_more receive_frame_trace [OF assms])
  next
    case False
    then show ?thesis using o e t tv d by (simp add: transact_def Let_def frame_more_def)
  qed
qed

lemma drain_trace:
  assumes "spi_observed p trace"
  shows "\<exists>es. trace (env (drain_receiver p n s)) = trace (env s) @ es \<and> ready_handshakes True True es \<and>
    exchanges es \<le> n \<and> length es \<le> n * 2001 \<and>
    eb_tx_sequence (drain_receiver p n s) = eb_tx_sequence s + of_nat (exchanges es)"
proof (induction n arbitrary: s)
  case (Suc n)
  obtain result s1 where t: "transact p s = (result, s1)" by fastforce
  have q1: "eb_tx_sequence s1 = eb_tx_sequence s + 1" using transact_sequence [of p s] t by simp
  have t1: "trace (env s1) = trace (env s) @ [Exchange (result = BRIDGE_TRANSFER_MORE_PENDING)]"
    using transact_trace [OF assms, of s] t by simp
  obtain rearmed s2 where w: "wait_for_receiver_rearm p s1 = (rearmed, s2)" by fastforce
  have q2: "eb_tx_sequence s2 = eb_tx_sequence s1" using rearm_sequence [of p s1] w by simp
  obtain bs where bs: "trace (env s2) = trace (env s1) @ map Ready_Read bs" "length bs \<le> 2000"
    "rearmed \<longrightarrow> (\<exists>k j. bs = replicate k True @ False # replicate j False @ [True])"
    using rearm_trace [OF assms, of s1] w by auto
  obtain es where es: "trace (env (drain_receiver p n s2)) = trace (env s2) @ es"
    "ready_handshakes True True es" "exchanges es \<le> n" "length es \<le> n * 2001"
    "eb_tx_sequence (drain_receiver p n s2) = eb_tx_sequence s2 + of_nat (exchanges es)"
    using Suc.IH by blast
  consider (last) "result \<noteq> BRIDGE_TRANSFER_MORE_PENDING"
    | (timeout) "result = BRIDGE_TRANSFER_MORE_PENDING" "\<not> rearmed"
    | (again) "result = BRIDGE_TRANSFER_MORE_PENDING" "rearmed" by blast
  then show ?case
  proof cases
    case last
    then show ?thesis using t t1 q1 by (intro exI [of _ "[Exchange False]"]) simp
  next
    case timeout
    then show ?thesis
      using t t1 q1 q2 w bs
      by (intro exI [of _ "Exchange True # map Ready_Read bs"]) (simp add: ready_reads)
  next
    case again
    then have "ready_handshakes False False (map Ready_Read bs @ es)"
      using bs(3) es(2) ready_rearmed by blast
    then show ?thesis
      using again t t1 q1 q2 w bs es
      by (intro exI [of _ "Exchange True # map Ready_Read bs @ es"]) (simp add: ac_simps)
  qed
qed simp

section \<open>Properties\<close>

text \<open>
  Every frame the controller sends is valid, and it is the command exactly when one is due.
  The frame decodes; its sequence number is the counter, which goes up by one; and it carries the
  active command (its request id, length and payload) exactly if fewer than three attempts were
  made and the retry time has come, counting the attempt and setting the next one 50 ms later;
  otherwise it is idle and the command is unchanged.
\<close>

theorem controller_frames_are_valid:
  assumes "command_ok (eb_command s)" and "outgoing_frame p s = (tx, s')"
  shows "\<exists>m. sv_bridge_decode tx = Some m \<and> length tx = 80 \<and>
    bm_sequence m = eb_tx_sequence s \<and> eb_tx_sequence s' = eb_tx_sequence s + 1 \<and>
    (if cm_active (eb_command s) \<and> cm_attempts (eb_command s) < 3 \<and>
        (cm_attempts (eb_command s) = 0 \<or> tick_reached (tick_count p (env s)) (cm_next_attempt (eb_command s)))
     then bm_kind m = SV_BRIDGE_COMMAND \<and> bm_request_id m = cm_request_id (eb_command s) \<and>
       take (unat (cm_payload_length (eb_command s))) (bm_payload m) =
         take (unat (cm_payload_length (eb_command s))) (cm_payload (eb_command s)) \<and>
       eb_command s' = (eb_command s)\<lparr> cm_attempts := cm_attempts (eb_command s) + 1,
         cm_next_attempt := tick_count p (env s) + 50 \<rparr>
     else bm_kind m = SV_BRIDGE_IDLE \<and> eb_command s' = eb_command s)"
  using outgoing_frame_decodes [OF assms(1), of p] assms(2) by (auto split: if_splits)

lemma command_ok_boot: "command_ok (eb_command (esp_boot v))"
  by (simp add: command_ok_def esp_boot_def)

lemma command_ok_start:
  "command_ok (eb_command s) \<Longrightarrow> length request \<le> 64 \<Longrightarrow> command_ok (eb_command (start_command request s))"
  by (simp add: command_ok_def start_command_def Let_def length_blit unat_of_nat take_bit_eq_mod)

theorem controller_frames_are_valid_witness:
  "\<exists>m. sv_bridge_decode (fst (outgoing_frame ref_esp (start_command [1] (esp_boot esp_world0)))) = Some m \<and>
    bm_kind m = SV_BRIDGE_COMMAND \<and> bm_request_id m = 1 \<and> take 1 (bm_payload m) = [1]"
proof -
  let ?s = "start_command [1] (esp_boot esp_world0)"
  have "command_ok (eb_command ?s)" by (intro command_ok_start command_ok_boot) simp
  from controller_frames_are_valid [OF this prod.collapse [symmetric], of ref_esp] show ?thesis
    by (auto simp: start_command_def esp_boot_def Let_def blit_def)
qed

text \<open>
  A report that arrives is queued or counted as dropped. With a FreeRTOS queue, a valid
  report frame appends its 64 bytes to the queue and counts a report, or, when 128 reports are
  waiting, leaves the queue as it is and counts a drop; any other frame leaves the queue alone.
\<close>

theorem report_frames_are_queued:
  assumes "queue_ok p q"
  shows "case sv_bridge_decode rx of
      Some m \<Rightarrow>
        if bm_kind m = SV_BRIDGE_RECEIVER_REPORT \<and> bm_payload_length m = 64 then
          (if length (q (env s)) < 128
           then q (env (snd (receive_frame p rx s))) = q (env s) @ [bm_payload m] \<and>
             bs_reports (eb_stats (snd (receive_frame p rx s))) = bs_reports (eb_stats s) + 1 \<and>
             bs_queue_drops (eb_stats (snd (receive_frame p rx s))) = bs_queue_drops (eb_stats s)
           else q (env (snd (receive_frame p rx s))) = q (env s) \<and>
             bs_reports (eb_stats (snd (receive_frame p rx s))) = bs_reports (eb_stats s) \<and>
             bs_queue_drops (eb_stats (snd (receive_frame p rx s))) = bs_queue_drops (eb_stats s) + 1)
        else q (env (snd (receive_frame p rx s))) = q (env s)
    | None \<Rightarrow> q (env (snd (receive_frame p rx s))) = q (env s) \<and>
        bs_decode_errors (eb_stats (snd (receive_frame p rx s))) = bs_decode_errors (eb_stats s) + 1"
proof -
  note send = queue_ok_send [OF assms]
  show ?thesis
    by (cases "sv_bridge_decode rx")
      (simp_all add: receive_frame_def Let_def split_beta send count_stat_def)
qed

theorem report_frames_are_queued_witness:
  "ew_queue (env (snd (receive_frame ref_esp (zeros 80) (esp_boot esp_world0)))) = []"
proof -
  have "sv_bridge_decode (zeros 80) = None"
    by (simp add: sv_bridge_decode_def bridge_magic_def byte_eval)
  then show ?thesis
    using report_frames_are_queued [OF ref_queue_ok, of "zeros 80" "esp_boot esp_world0"]
    by (simp add: esp_boot_def esp_world0_def)
qed

text \<open>
  C34: The SPI task keeps the READY handshake and its turns are bounded. On any platform whose
  reads of READY and exchanges are observed, a turn exchanges at most eight frames, one for each
  sequence number it uses, and makes at most 16009 reads and exchanges in all. Every frame is
  exchanged right after READY was read high: at the start of the turn, a tick or more after the
  exchanges of the last turn, or after READY was read low and then high since the previous
  exchange, which must have announced more data. While READY is low nothing is exchanged.
\<close>

theorem task_turn_is_bounded:
  assumes "spi_observed p trace"
  shows "\<exists>es. trace (env (bridge_task_turn p s)) = trace (env s) @ es \<and>
    ready_handshakes True False es \<and> exchanges es \<le> 8 \<and> length es \<le> 16009 \<and>
    eb_tx_sequence (bridge_task_turn p s) = eb_tx_sequence s + of_nat (exchanges es) \<and>
    (\<not> fst (gpio_ready p (env s)) \<longrightarrow> es = [Ready_Read False] \<and> bridge_task_turn p s =
      s\<lparr> env := delay_ticks p 1 (snd (gpio_ready p (env s))) \<rparr>)"
proof -
  obtain ready v where r: "gpio_ready p (env s) = (ready, v)" by fastforce
  have tv: "trace v = trace (env s) @ [Ready_Read ready]"
    using assms r unfolding spi_observed_def by (metis fst_conv snd_conv)
  have d: "trace (delay_ticks p 1 u) = trace u" for u using assms by (simp add: spi_observed_def)
  obtain es where "trace (env (drain_receiver p 8 (s\<lparr> env := v \<rparr>))) = trace v @ es"
    "ready_handshakes True True es" "exchanges es \<le> 8" "length es \<le> 8 * 2001"
    "eb_tx_sequence (drain_receiver p 8 (s\<lparr> env := v \<rparr>)) = eb_tx_sequence s + of_nat (exchanges es)"
    using drain_trace [OF assms, of 8 "s\<lparr> env := v \<rparr>"] by auto
  then show ?thesis
    using r tv d
    by (intro exI [of _ "Ready_Read ready # (if ready then es else [])"])
      (cases ready; simp add: bridge_task_turn_def Let_def)
qed

text \<open>
  Any platform can be observed: a list beside its world collects the events. On the reference
  platform with READY high, low, high, low and a receiver that announces more data once, a turn
  exchanges a first frame and, after the rearming, a second one.
\<close>

definition beside :: "('v \<Rightarrow> 'a \<times> 'v) \<Rightarrow> 'v \<times> 'e \<Rightarrow> 'a \<times> 'v \<times> 'e" where
  "beside f v = (fst (f (fst v)), snd (f (fst v)), snd v)"

definition observed :: "'v esp_platform \<Rightarrow> ('v \<times> link_event list) esp_platform" where
  "observed p = \<lparr>
     spi_transmit = (\<lambda>tx v. let (result, rx, w) = spi_transmit p tx (fst v)
        in (result, rx, w, snd v @ [Exchange (frame_more result rx)])),
     gpio_ready = (\<lambda>v. let (ready, w) = gpio_ready p (fst v) in (ready, w, snd v @ [Ready_Read ready])),
     delay_us = (\<lambda>n v. (delay_us p n (fst v), snd v)),
     delay_ticks = (\<lambda>n v. (delay_ticks p n (fst v), snd v)),
     tick_count = (\<lambda>v. tick_count p (fst v)),
     queue_send = (\<lambda>r. beside (queue_send p r)),
     queue_receive = (\<lambda>v. map_option (\<lambda>(r, w). (r, w, snd v)) (queue_receive p (fst v))),
     udp_send = (\<lambda>d b. beside (udp_send p d b)),
     udp_receive = beside (udp_receive p),
     resolve_host = (\<lambda>h. beside (resolve_host p h)),
     flash_init = beside (flash_init p),
     flash_erase = beside (flash_erase p),
     flash_open = (\<lambda>b. beside (flash_open p b)),
     flash_get_u8 = (\<lambda>k v. flash_get_u8 p k (fst v)),
     flash_get_u16 = (\<lambda>k v. flash_get_u16 p k (fst v)),
     flash_get_str = (\<lambda>k n v. flash_get_str p k n (fst v)),
     flash_set = (\<lambda>k x. beside (flash_set p k x)),
     flash_commit = beside (flash_commit p),
     wifi_call = (\<lambda>op. beside (wifi_call p op)),
     create_netif = (\<lambda>m. beside (create_netif p m)),
     destroy_netif = (\<lambda>v. (destroy_netif p (fst v), snd v)),
     read_mac = (\<lambda>m v. read_mac p m (fst v)),
     random_u32 = beside (random_u32 p),
     queue_create = (\<lambda>n. beside (queue_create p n)),
     semaphore_create = beside (semaphore_create p),
     hw_call = (\<lambda>op. beside (hw_call p op)),
     task_create = (\<lambda>name. beside (task_create p name)),
     http_recv = (\<lambda>n. beside (http_recv p n)),
     http_start = beside (http_start p),
     http_register = (\<lambda>uri post. beside (http_register p uri post)) \<rparr>"

lemma observed_spi: "spi_observed (observed p) snd"
  by (simp add: spi_observed_def observed_def beside_def split_beta)

definition demo_message :: sv_bridge_message where
  "demo_message = bm_zero\<lparr> bm_flags := SV_BRIDGE_FLAG_MORE_PENDING \<rparr>"

definition demo_link :: "esp_world \<times> link_event list" where
  "demo_link = (esp_world0\<lparr> ew_ready := [True, False, True, False],
     ew_spi := [sv_bridge_encode demo_message] \<rparr>, [])"

lemma demo_frames:
  "frame_more 0 (sv_bridge_encode demo_message)" "\<not> frame_more 0 (zeros 80)"
  "length (sv_bridge_encode demo_message) = 80"
proof -
  have wf: "bm_wf demo_message" by (simp add: demo_message_def bm_wf_def bm_zero_def)
  then show "length (sv_bridge_encode demo_message) = 80" by simp
  show "frame_more 0 (sv_bridge_encode demo_message)"
    using bridge_roundtrip [OF wf] by (simp add: frame_more_def demo_message_def bm_zero_def bm_normal_def)
  show "\<not> frame_more 0 (zeros 80)"
    by (simp add: frame_more_def sv_bridge_decode_def bridge_magic_def byte_eval)
qed

lemma transact_demo:
  "ew_spi (fst (env s)) = [sv_bridge_encode demo_message] \<Longrightarrow>
   fst (transact (observed ref_esp) s) = BRIDGE_TRANSFER_MORE_PENDING \<and>
   env (snd (transact (observed ref_esp) s)) = ((fst (env s))\<lparr> ew_spi := [] \<rparr>, snd (env s) @ [Exchange True])"
  "ew_spi (fst (env s)) = [] \<Longrightarrow>
   fst (transact (observed ref_esp) s) = BRIDGE_TRANSFER_COMPLETE \<and>
   env (snd (transact (observed ref_esp) s)) = (fst (env s), snd (env s) @ [Exchange False])"
proof -
  have wf: "bm_wf demo_message" by (simp add: demo_message_def bm_wf_def bm_zero_def)
  have d: "sv_bridge_decode (sv_bridge_encode demo_message) = Some (bm_normal demo_message)"
    using bridge_roundtrip [OF wf] by (simp add: demo_message_def bm_zero_def)
  have z: "sv_bridge_decode (zeros 80) = None"
    by (simp add: sv_bridge_decode_def bridge_magic_def byte_eval)
  show "ew_spi (fst (env s)) = [sv_bridge_encode demo_message] \<Longrightarrow>
    fst (transact (observed ref_esp) s) = BRIDGE_TRANSFER_MORE_PENDING \<and>
    env (snd (transact (observed ref_esp) s)) = ((fst (env s))\<lparr> ew_spi := [] \<rparr>, snd (env s) @ [Exchange True])"
    using d demo_frames
    by (simp add: transact_def Let_def split_beta observed_def ref_esp_def receive_frame_def)
      (simp add: demo_message_def bm_zero_def bm_normal_def)
  show "ew_spi (fst (env s)) = [] \<Longrightarrow> fst (transact (observed ref_esp) s) = BRIDGE_TRANSFER_COMPLETE \<and>
    env (snd (transact (observed ref_esp) s)) = (fst (env s), snd (env s) @ [Exchange False])"
    using z demo_frames
    by (simp add: transact_def Let_def split_beta observed_def ref_esp_def receive_frame_def)
qed

lemma wait_level_demo:
  "wait_level (observed ref_esp) level (Suc n) v =
    (case ew_ready (fst v) of
       [] \<Rightarrow> if level then wait_level (observed ref_esp) level n (fst v, snd v @ [Ready_Read False])
         else (True, fst v, snd v @ [Ready_Read False])
     | b # bs \<Rightarrow> if b = level then (True, (fst v)\<lparr> ew_ready := bs \<rparr>, snd v @ [Ready_Read b])
         else wait_level (observed ref_esp) level n ((fst v)\<lparr> ew_ready := bs \<rparr>, snd v @ [Ready_Read b]))"
  by (cases "ew_ready (fst v)") (simp_all add: observed_def ref_esp_def)

lemma demo_link_turn:
  "snd (env (bridge_task_turn (observed ref_esp) (esp_boot demo_link))) =
    [Ready_Read True, Exchange True, Ready_Read False, Ready_Read True, Exchange False]"
proof -
  let ?p = "observed ref_esp"
  let ?s = "(esp_boot demo_link)\<lparr> env := ((fst demo_link)\<lparr> ew_ready := [False, True, False] \<rparr>, [Ready_Read True]) \<rparr>"
  have g: "gpio_ready ?p (env (esp_boot demo_link)) = (True, env ?s)"
    by (simp add: observed_def ref_esp_def esp_boot_def demo_link_def)
  obtain s1 where t1: "transact ?p ?s = (BRIDGE_TRANSFER_MORE_PENDING, s1)"
    and e1: "env s1 = (esp_world0\<lparr> ew_ready := [False, True, False] \<rparr>, [Ready_Read True, Exchange True])"
    using transact_demo(1) [of ?s] by (cases "transact ?p ?s") (auto simp: demo_link_def esp_world0_def)
  have "wait_for_receiver_rearm ?p s1 = (True, s1\<lparr> env := (esp_world0\<lparr> ew_ready := [False] \<rparr>,
      [Ready_Read True, Exchange True, Ready_Read False, Ready_Read True]) \<rparr>)" (is "_ = (True, ?s2)")
    using wait_level_demo [of False 999] wait_level_demo [of True 999]
    by (simp add: wait_for_receiver_rearm_def e1 del: wait_level.simps)
  moreover have "fst (transact ?p ?s2) = BRIDGE_TRANSFER_COMPLETE"
    "snd (env (snd (transact ?p ?s2))) =
      [Ready_Read True, Exchange True, Ready_Read False, Ready_Read True, Exchange False]"
    using transact_demo(2) [of ?s2] by (simp_all add: esp_world0_def)
  ultimately have "snd (env (drain_receiver ?p 8 ?s)) =
      [Ready_Read True, Exchange True, Ready_Read False, Ready_Read True, Exchange False]"
    using drain_receiver.simps(2) [of ?p 7 ?s] drain_receiver.simps(2) [of ?p 6 ?s2]
    by (simp add: t1 split_beta del: drain_receiver.simps)
  moreover have "snd (delay_ticks ?p 1 v) = snd v" for v by (simp add: observed_def)
  ultimately show ?thesis
    by (simp add: bridge_task_turn_def Let_def g)
qed

theorem task_turn_is_bounded_witness:
  "\<exists>es. es = [Ready_Read True, Exchange True, Ready_Read False, Ready_Read True, Exchange False] \<and>
    snd (env (bridge_task_turn (observed ref_esp) (esp_boot demo_link))) = es \<and>
    ready_handshakes True False es \<and> exchanges es \<le> 8 \<and>
    eb_tx_sequence (bridge_task_turn (observed ref_esp) (esp_boot demo_link)) = of_nat (exchanges es)"
  using task_turn_is_bounded [OF observed_spi, of ref_esp "esp_boot demo_link"] demo_link_turn
  by (auto simp: esp_boot_def demo_link_def)

end
