(* ===== verification/Spi_Link.thy ===== *)
theory Spi_Link
  imports Nrf_Spi_Bridge Esp_Bridge_Spi
begin

text \<open>
  The two ends of the SPI link together: the controller of \<open>bridge_spi.c\<close> and the receiver's
  thread of \<open>spi_bridge.c\<close>, joined by a full-duplex exchange that may corrupt frames in
  either direction. The step relation interleaves the receiver arming a frame, the exchange, the
  receiver's radio work and anything that happens on the ESP32 outside the link. The trace of a
  run lists the commands the receiver executed, each with the response it made.
\<close>

section \<open>The composed system\<close>

record ('w, 'v) link =
  lk_esp :: "'v esp_state"
  lk_armed :: "byte list option"
  lk_nrf :: "'w receiver"

text \<open>A corrupted frame is one the decoder refuses: the CRC catches it (see the burst theorem).\<close>

definition arrives :: "byte list \<Rightarrow> byte list \<Rightarrow> bool" where
  "arrives sent received \<longleftrightarrow> length received = 80 \<and> (received = sent \<or> sv_bridge_decode received = None)"

text \<open>The command a received frame makes the receiver execute, if any, and the answer.\<close>

definition executed ::
    "'w platform \<Rightarrow> byte list \<Rightarrow> 'w receiver \<Rightarrow> (sv_bridge_message \<times> sv_bridge_message) list" where
  "executed p received n =
    (case sv_bridge_decode received of
       Some m \<Rightarrow> if bm_kind m = SV_BRIDGE_COMMAND \<and>
           sv_command_replay_find (rx_cache n) (bm_request_id m) = None
         then [(m, fst (execute p m n))] else []
     | None \<Rightarrow> [])"

inductive link_step ::
    "'w platform \<Rightarrow> 'v esp_platform \<Rightarrow> ('w, 'v) link \<Rightarrow> (sv_bridge_message \<times> sv_bridge_message) list \<Rightarrow> ('w, 'v) link \<Rightarrow> bool"
  for p :: "'w platform" and q :: "'v esp_platform" where
  link_arm: "lk_armed l = None \<Longrightarrow> prepare_tx now later (lk_nrf l) = (tx, n) \<Longrightarrow>
    link_step p q l [] (l\<lparr> lk_armed := Some tx, lk_nrf := n \<rparr>)"
| link_exchange: "lk_armed l = Some tx_n \<Longrightarrow> outgoing_frame q (lk_esp l) = (tx_e, s) \<Longrightarrow>
    arrives tx_n rx_e \<Longrightarrow> arrives tx_e rx_n \<Longrightarrow>
    receive_frame q rx_e s = (result, s') \<Longrightarrow>
    link_step p q l (executed p rx_n (lk_nrf l))
      (l\<lparr> lk_esp := s', lk_armed := None, lk_nrf := process_rx p rx_n (lk_nrf l) \<rparr>)"
| link_failed: "outgoing_frame q (lk_esp l) = (tx_e, s) \<Longrightarrow>
    link_step p q l [] (l\<lparr> lk_esp := count_stat bs_transfer_errors_update s \<rparr>)"
| link_radio: "receiver_esb_event_handler p rx_received (lk_nrf l) = Some n \<Longrightarrow>
    link_step p q l [] (l\<lparr> lk_nrf := n \<rparr>)"
| link_persist: "persist_pairing_work_handler p (lk_nrf l) = Some n \<Longrightarrow>
    link_step p q l [] (l\<lparr> lk_nrf := n \<rparr>)"
| link_esp: "link_step p q l [] (l\<lparr> lk_esp := (lk_esp l)\<lparr> env := v \<rparr> \<rparr>)"

inductive_cases link_stepE: "link_step p q l trace l'"

inductive link_run ::
    "'w platform \<Rightarrow> 'v esp_platform \<Rightarrow> ('w, 'v) link \<Rightarrow> (sv_bridge_message \<times> sv_bridge_message) list \<Rightarrow> ('w, 'v) link \<Rightarrow> bool"
  for p :: "'w platform" and q :: "'v esp_platform" where
  run_nil: "link_run p q l [] l"
| run_step: "link_run p q l trace l' \<Longrightarrow> link_step p q l' trace' l'' \<Longrightarrow> link_run p q l (trace @ trace') l''"

section \<open>The protocol invariant\<close>

text \<open>What a frame or a command slot holds agrees with the receiver's response \<open>r\<close>.\<close>

definition carries :: "sv_bridge_message \<Rightarrow> byte \<Rightarrow> byte list \<Rightarrow> bool \<Rightarrow> bool" where
  "carries r n payload error \<longleftrightarrow> n = bm_payload_length r \<and>
     take (unat n) payload = take (unat n) (bm_payload r) \<and>
     error = (bm_flags r AND SV_BRIDGE_FLAG_ERROR \<noteq> 0)"

definition answers :: "u16 \<Rightarrow> 'w receiver \<Rightarrow> byte list \<Rightarrow> bool" where
  "answers k n frame \<longleftrightarrow> (\<forall>m. sv_bridge_decode frame = Some m \<longrightarrow>
     bm_kind m = SV_BRIDGE_COMMAND_RESPONSE \<longrightarrow> bm_request_id m = k \<longrightarrow>
     (\<exists>r. sv_command_replay_find (rx_cache n) k = Some r \<and>
        carries r (bm_payload_length m) (bm_payload m) (bm_flags m AND SV_BRIDGE_FLAG_ERROR \<noteq> 0)))"

definition asks :: "u16 \<Rightarrow> byte list \<Rightarrow> sv_bridge_message \<Rightarrow> bool" where
  "asks k request m \<longleftrightarrow> bm_kind m = SV_BRIDGE_COMMAND \<and> bm_request_id m = k \<and>
     unat (bm_payload_length m) = length request \<and> take (length request) (bm_payload m) = request"

definition link_inv ::
    "u16 \<Rightarrow> byte list \<Rightarrow> (sv_bridge_message \<times> sv_bridge_message) list \<Rightarrow> ('w, 'v) link \<Rightarrow> bool" where
  "link_inv k request trace l \<longleftrightarrow>
    (let n = lk_nrf l; c = eb_command (lk_esp l); found = sv_command_replay_find (rx_cache n) k in
     fw_invar n \<and> command_ok c \<and> cm_request_id c = k \<and>
     unat (cm_payload_length c) = length request \<and> take (length request) (cm_payload c) = request \<and>
     (if trace = [] then found = None
      else \<exists>m r. trace = [(m, r)] \<and> asks k request m \<and> found = Some r) \<and>
     (sb_response_pending n \<and> bm_request_id (sb_pending_response n) = k \<longrightarrow>
        found = Some (sb_pending_response n)) \<and>
     (\<forall>frame. lk_armed l = Some frame \<longrightarrow> answers k n frame) \<and>
     (\<not> cm_active c \<longrightarrow> (\<exists>r. found = Some r \<and>
        carries r (cm_response_length c) (cm_response c) (cm_result c = ESP_FAIL) \<and>
        cm_result c \<in> {ESP_OK, ESP_FAIL})))"

lemma response_frame_carries:
  assumes "sendable k r"
  shows "\<exists>m. sv_bridge_decode (sv_bridge_encode (with_more again (r\<lparr> bm_sequence := n \<rparr>))) = Some m \<and>
    bm_request_id m = k \<and>
    carries r (bm_payload_length m) (bm_payload m) (bm_flags m AND SV_BRIDGE_FLAG_ERROR \<noteq> 0)"
proof -
  let ?m = "with_more again (r\<lparr> bm_sequence := n \<rparr>)"
  have wf: "bm_wf ?m" "bm_kind ?m = 3" "bm_payload_length ?m = bm_payload_length r"
    "bm_payload ?m = bm_payload r" "bm_request_id ?m = k"
    using assms by (simp_all add: sendable_def with_more_def bm_wf_def)
  have len: "bm_payload_length r \<le> 64" "length (bm_payload r) = 64"
    using assms by (simp_all add: sendable_def bm_wf_def)
  have flags: "(bm_flags ?m AND 2 \<noteq> 0) = (bm_flags r AND 2 \<noteq> 0)"
    using assms by (auto simp: sendable_def with_more_def)
  have "unat (bm_payload_length r) \<le> 64" using len(1) by (simp add: word_le_nat_alt)
  then have "carries r (bm_payload_length (bm_normal ?m)) (bm_payload (bm_normal ?m))
      (bm_flags (bm_normal ?m) AND 2 \<noteq> 0)"
    using len wf flags by (simp add: carries_def bm_normal_def bm_clamped_def bm_padded_def)
  then show ?thesis
    using bridge_roundtrip [OF wf(1)] wf by (simp add: bm_normal_def)
qed

text \<open>Arming keeps the invariant.\<close>

lemma armed_answers:
  assumes inv: "link_inv k request trace l" and tx: "prepare_tx now later (lk_nrf l) = (tx, n)"
  shows "answers k n tx"
proof -
  let ?n = "lk_nrf l"
  have fw: "fw_invar ?n" and pend: "sb_response_pending ?n \<Longrightarrow>
      bm_request_id (sb_pending_response ?n) = k \<Longrightarrow>
      sv_command_replay_find (rx_cache ?n) k = Some (sb_pending_response ?n)"
    using inv by (simp_all add: link_inv_def Let_def)
  have cache: "rx_cache n = rx_cache ?n"
    using tx by (cases "sb_response_pending ?n") (auto simp: prepare_tx_response prepare_tx_report)
  show ?thesis
  proof (cases "sb_response_pending ?n")
    case True
    let ?r = "sb_pending_response ?n"
    have "sendable (bm_request_id ?r) ?r" using fw True by (simp add: fw_invar_def)
    from response_frame_carries [OF this] pend [OF True] show ?thesis
      using tx True by (auto simp: answers_def prepare_tx_response cache) (metis option.inject)
  next
    case False
    from frame_of_state [OF fw tx] False show ?thesis
      by (auto simp: answers_def split: option.splits)
  qed
qed

lemma link_arm_inv:
  assumes inv: "link_inv k request trace l" and tx: "prepare_tx now later (lk_nrf l) = (tx, n)"
  shows "link_inv k request trace (l\<lparr> lk_armed := Some tx, lk_nrf := n \<rparr>)"
proof -
  have "fw_invar n"
    using inv tx prepare_invar [of "lk_nrf l" now later] by (simp add: link_inv_def Let_def)
  moreover have "rx_cache n = rx_cache (lk_nrf l)" "\<not> sb_response_pending n"
    using tx by (cases "sb_response_pending (lk_nrf l)", auto simp: prepare_tx_response prepare_tx_report)+
  ultimately show ?thesis
    using inv armed_answers [OF inv tx] by (simp add: link_inv_def Let_def)
qed

text \<open>The receiver's side of an exchange in which only requests with id \<open>k\<close> can arrive.\<close>

lemma receiver_side:
  assumes rad: "radio_ok p rx" and fw: "fw_invar n"
    and cmd: "\<forall>m. sv_bridge_decode f = Some m \<longrightarrow> bm_kind m = SV_BRIDGE_COMMAND \<longrightarrow> bm_request_id m = k"
    and pend: "sb_response_pending n \<and> bm_request_id (sb_pending_response n) = k \<longrightarrow>
      sv_command_replay_find (rx_cache n) k = Some (sb_pending_response n)"
  defines "n' \<equiv> process_rx p f n"
  shows "fw_invar n' \<and>
    (sb_response_pending n' \<and> bm_request_id (sb_pending_response n') = k \<longrightarrow>
      sv_command_replay_find (rx_cache n') k = Some (sb_pending_response n')) \<and>
    (\<forall>r. sv_command_replay_find (rx_cache n) k = Some r \<longrightarrow>
      sv_command_replay_find (rx_cache n') k = Some r \<and> executed p f n = []) \<and>
    (sv_command_replay_find (rx_cache n) k = None \<longrightarrow>
      executed p f n = [] \<and> sv_command_replay_find (rx_cache n') k = None \<or>
      (\<exists>m r. executed p f n = [(m, r)] \<and> sv_bridge_decode f = Some m \<and> bm_kind m = SV_BRIDGE_COMMAND \<and>
        sv_command_replay_find (rx_cache n') k = Some r))"
proof (cases "\<exists>m. sv_bridge_decode f = Some m \<and> bm_kind m = SV_BRIDGE_COMMAND")
  case False
  then have "rx_cache n' = rx_cache n" "sb_response_pending n' = sb_response_pending n"
    "sb_pending_response n' = sb_pending_response n" "executed p f n = []"
    by (auto simp: n'_def process_rx_def executed_def split: option.splits)
  then show ?thesis
    using pend process_invar [OF rad fw, of f] by (simp add: n'_def)
next
  case True
  then obtain m where m: "sv_bridge_decode f = Some m" "bm_kind m = SV_BRIDGE_COMMAND"
    "bm_request_id m = k" using cmd by blast
  obtain r n1 where h: "receiver_control_handle p m n = (r, n1)" by fastforce
  have n': "n' = n1\<lparr> sb_pending_response := r, sb_response_pending := True \<rparr>"
    using m h by (simp add: n'_def process_rx_def)
  have ci: "replay_invar (rx_cache n)" using fw by (simp add: fw_invar_def)
  have found: "sv_command_replay_find (rx_cache n1) k = Some r \<and>
      (\<forall>r'. sv_command_replay_find (rx_cache n) k = Some r' \<longrightarrow> r' = r) \<and>
      (sv_command_replay_find (rx_cache n) k = None \<longrightarrow> r = fst (execute p m n))"
  proof (cases "sv_command_replay_find (rx_cache n) k")
    case None
    then show ?thesis
      using handle_miss [of n m p] h m(3) replay.find_stored [OF ci None] by simp
  next
    case (Some r')
    then show ?thesis using handle_hit [of n m r' p] h m(3) by simp
  qed
  show ?thesis
    using process_invar [OF rad fw, of f] found m n'
    by (cases "sv_command_replay_find (rx_cache n) k") (auto simp: executed_def n'_def [symmetric])
qed

text \<open>The controller's side: the slot only ever takes over an answer to its own request.\<close>

lemma controller_side:
  fixes q :: "'v esp_platform" and s :: "'v esp_state" and n :: "'w receiver"
  assumes ok: "command_ok (eb_command s)" and ans: "answers k n f" and k: "cm_request_id (eb_command s) = k"
    and len: "length f = 80"
  defines "c \<equiv> eb_command s" and "c' \<equiv> eb_command (snd (receive_frame q f s))"
  shows "command_ok c' \<and> cm_request_id c' = k \<and> cm_payload_length c' = cm_payload_length c \<and>
    cm_payload c' = cm_payload c \<and>
    (c' = c \<or> \<not> cm_active c' \<and> (\<exists>r. sv_command_replay_find (rx_cache n) k = Some r \<and>
        carries r (cm_response_length c') (cm_response c') (cm_result c' = ESP_FAIL) \<and>
        cm_result c' \<in> {ESP_OK, ESP_FAIL}))"
proof (cases "\<exists>m. sv_bridge_decode f = Some m \<and> bm_kind m = SV_BRIDGE_COMMAND_RESPONSE \<and>
    bm_request_id m = k \<and> cm_active c")
  case False
  then have "c' = c"
    using k by (auto simp: c_def c'_def receive_frame_def Let_def split_beta accept_response_def
        split: option.split)
  then show ?thesis using ok k by (simp add: c_def)
next
  case True
  then obtain m where m: "sv_bridge_decode f = Some m" "bm_kind m = SV_BRIDGE_COMMAND_RESPONSE"
    "bm_request_id m = k" "cm_active c" by blast
  obtain r where r: "sv_command_replay_find (rx_cache n) k = Some r"
    "carries r (bm_payload_length m) (bm_payload m) (bm_flags m AND SV_BRIDGE_FLAG_ERROR \<noteq> 0)"
    using ans m unfolding answers_def by blast
  have wf: "bm_wf m" "bm_payload_length m \<le> 64" using bridge_decode_props [OF m(1) len] by simp_all
  then have n64: "unat (bm_payload_length m) \<le> 64" by (simp add: word_le_nat_alt)
  have c': "c' = c\<lparr> cm_response_length := bm_payload_length m,
      cm_response := blit 0 (take (unat (bm_payload_length m)) (bm_payload m)) (cm_response c),
      cm_result := (if bm_flags m AND SV_BRIDGE_FLAG_ERROR \<noteq> 0 then ESP_FAIL else ESP_OK),
      cm_active := False \<rparr>"
    using m k by (simp add: c_def c'_def receive_frame_def Let_def accept_response_def)
  have "command_ok c'" using command_ok_receive [OF ok len, of q] by (simp add: c'_def)
  moreover have "take (unat (bm_payload_length m)) (cm_response c') =
      take (unat (bm_payload_length m)) (bm_payload m)"
    using wf n64 by (simp add: c' blit_def bm_wf_def)
  moreover have "take (unat (bm_payload_length r)) (bm_payload m) =
      take (unat (bm_payload_length r)) (bm_payload r)" using r(2) unfolding carries_def by metis
  ultimately show ?thesis using r k by (simp add: c' carries_def c_def [symmetric])
qed

lemma outgoing_command:
  assumes "outgoing_frame q s = (tx, s')"
  shows "eb_command s' = eb_command s \<or> (\<exists>a t. eb_command s' = (eb_command s)\<lparr> cm_attempts := a, cm_next_attempt := t \<rparr>)"
proof -
  define s1 where "s1 = s\<lparr> eb_tx_sequence := eb_tx_sequence s + 1 \<rparr>"
  obtain b m t where b: "prepare_command q (bm_zero\<lparr> bm_sequence := eb_tx_sequence s \<rparr>) s1 = (b, m, t)"
    using prod_cases3 by blast
  have "s' = t" using assms b by (simp add: outgoing_frame_def Let_def s1_def)
  moreover have "eb_command t = eb_command s1 \<or>
      eb_command t = (eb_command s1)\<lparr> cm_attempts := cm_attempts (eb_command s1) + 1,
        cm_next_attempt := tick_count q (env s1) + 50 \<rparr>"
    using prepare_command_cases [of q "bm_zero\<lparr> bm_sequence := eb_tx_sequence s \<rparr>" s1] b by auto
  ultimately show ?thesis by (simp add: s1_def) metis
qed

lemma outgoing_inv:
  assumes inv: "link_inv k request trace l" and tx: "outgoing_frame q (lk_esp l) = (tx, s)"
  shows "link_inv k request trace (l\<lparr> lk_esp := s \<rparr>) \<and>
    (\<forall>m. sv_bridge_decode tx = Some m \<longrightarrow> bm_kind m = SV_BRIDGE_COMMAND \<longrightarrow> asks k request m)"
proof -
  let ?c = "eb_command (lk_esp l)"
  have ok: "command_ok ?c" "cm_request_id ?c = k" "unat (cm_payload_length ?c) = length request"
    "take (length request) (cm_payload ?c) = request"
    using inv by (simp_all add: link_inv_def Let_def)
  have ok': "command_ok (eb_command s)" using command_ok_outgoing [OF ok(1), of q] tx by simp
  have "link_inv k request trace (l\<lparr> lk_esp := s \<rparr>)"
    using inv ok' outgoing_command [OF tx] by (auto simp: link_inv_def Let_def)
  moreover have "asks k request m" if "sv_bridge_decode tx = Some m" "bm_kind m = SV_BRIDGE_COMMAND" for m
    using outgoing_frame_decodes [OF ok(1), of q] tx that ok by (auto simp: asks_def split: if_splits)
  ultimately show ?thesis by blast
qed

lemma link_exchange_inv:
  assumes rad: "radio_ok p rx" and inv: "link_inv k request trace l"
    and armed: "lk_armed l = Some tx_n" and tx: "outgoing_frame q (lk_esp l) = (tx_e, s)"
    and ch: "arrives tx_n rx_e" "arrives tx_e rx_n" and rcv: "receive_frame q rx_e s = (result, s')"
  shows "link_inv k request (trace @ executed p rx_n (lk_nrf l))
    (l\<lparr> lk_esp := s', lk_armed := None, lk_nrf := process_rx p rx_n (lk_nrf l) \<rparr>)"
proof -
  let ?n = "lk_nrf l" and ?n' = "process_rx p rx_n (lk_nrf l)"
  have inv1: "link_inv k request trace (l\<lparr> lk_esp := s \<rparr>)"
    and asked: "\<And>m. sv_bridge_decode tx_e = Some m \<Longrightarrow> bm_kind m = SV_BRIDGE_COMMAND \<Longrightarrow> asks k request m"
    using outgoing_inv [OF inv tx] by blast+
  have cmd: "asks k request m" if "sv_bridge_decode rx_n = Some m" "bm_kind m = SV_BRIDGE_COMMAND" for m
    using asked that ch(2) by (auto simp: arrives_def)
  then have ids: "\<forall>m. sv_bridge_decode rx_n = Some m \<longrightarrow> bm_kind m = SV_BRIDGE_COMMAND \<longrightarrow> bm_request_id m = k"
    by (simp add: asks_def)
  have fw: "fw_invar ?n" and pend: "sb_response_pending ?n \<and> bm_request_id (sb_pending_response ?n) = k \<longrightarrow>
      sv_command_replay_find (rx_cache ?n) k = Some (sb_pending_response ?n)"
    using inv by (simp_all add: link_inv_def Let_def)
  note rs = receiver_side [OF rad fw ids pend]
  have ans: "answers k ?n tx_n" using inv armed by (simp add: link_inv_def Let_def)
  then have ans_e: "answers k ?n rx_e" using ch(1) by (auto simp: arrives_def answers_def)
  have c1: "command_ok (eb_command s)" "cm_request_id (eb_command s) = k"
    "unat (cm_payload_length (eb_command s)) = length request"
    "take (length request) (cm_payload (eb_command s)) = request"
    "\<not> cm_active (eb_command s) \<Longrightarrow> \<exists>r. sv_command_replay_find (rx_cache ?n) k = Some r \<and>
        carries r (cm_response_length (eb_command s)) (cm_response (eb_command s))
          (cm_result (eb_command s) = ESP_FAIL) \<and> cm_result (eb_command s) \<in> {ESP_OK, ESP_FAIL}"
    using inv1 by (simp_all add: link_inv_def Let_def)
  have "length rx_e = 80" using ch(1) by (simp add: arrives_def)
  note cs = controller_side [OF c1(1) ans_e c1(2) this, of q, unfolded rcv snd_conv]
  have tr: "if trace @ executed p rx_n ?n = [] then sv_command_replay_find (rx_cache ?n') k = None
     else \<exists>m r. trace @ executed p rx_n ?n = [(m, r)] \<and> asks k request m \<and>
       sv_command_replay_find (rx_cache ?n') k = Some r"
  proof (cases "trace = []")
    case True
    then have "sv_command_replay_find (rx_cache ?n) k = None" using inv by (simp add: link_inv_def Let_def)
    with rs True cmd show ?thesis by auto
  next
    case False
    then obtain r m where "sv_command_replay_find (rx_cache ?n) k = Some r" "trace = [(m, r)]" "asks k request m"
      using inv by (auto simp: link_inv_def Let_def)
    with rs show ?thesis by auto
  qed
  have keep: "sv_command_replay_find (rx_cache ?n) k = Some r \<Longrightarrow>
      sv_command_replay_find (rx_cache ?n') k = Some r" for r using rs by blast
  have done_ok: "\<exists>r. sv_command_replay_find (rx_cache ?n') k = Some r \<and>
      carries r (cm_response_length (eb_command s')) (cm_response (eb_command s'))
        (cm_result (eb_command s') = ESP_FAIL) \<and> cm_result (eb_command s') \<in> {ESP_OK, ESP_FAIL}"
    if "\<not> cm_active (eb_command s')"
    using cs c1(5) that keep by metis
  show ?thesis
    using rs cs tr c1(3,4) done_ok by (simp add: link_inv_def Let_def)
qed

lemma link_nrf_inv:
  assumes "link_inv k request trace l" and "fw_invar n" and "rf_state.more n = rf_state.more (lk_nrf l)"
  shows "link_inv k request trace (l\<lparr> lk_nrf := n \<rparr>)"
proof -
  have "rx_cache n = rx_cache (lk_nrf l)" "sb_response_pending n = sb_response_pending (lk_nrf l)"
    "sb_pending_response n = sb_pending_response (lk_nrf l)"
    using assms(3) by (cases n; cases "lk_nrf l"; simp)+
  then show ?thesis using assms(1,2) by (simp add: link_inv_def Let_def answers_def)
qed

lemma link_step_inv:
  assumes rad: "radio_ok p rx" and "link_step p q l trace' l'" and inv: "link_inv k request trace l"
  shows "link_inv k request (trace @ trace') l'"
  using assms(2)
proof (cases rule: link_step.cases)
  case (link_arm now later tx n)
  then show ?thesis using link_arm_inv [OF inv] by simp
next
  case (link_exchange tx_n tx_e s rx_e rx_n result s')
  then show ?thesis using link_exchange_inv [OF rad inv] by simp
next
  case (link_failed tx_e s)
  then show ?thesis using outgoing_inv [OF inv] by (simp add: link_inv_def Let_def)
next
  case (link_radio rx_received n)
  have fw: "fw_invar (lk_nrf l)" using inv by (simp add: link_inv_def Let_def)
  have "fw_invar n" using fw_step_invar [OF rad fw_radio fw] link_radio by blast
  moreover have "rf_state.more n = rf_state.more (lk_nrf l)"
    using link_radio receive_packets_more by (auto simp: receiver_esb_event_handler_def split: if_splits)
  ultimately show ?thesis using link_radio link_nrf_inv [OF inv] by simp
next
  case (link_persist n)
  have fw: "fw_invar (lk_nrf l)" using inv by (simp add: link_inv_def Let_def)
  have "fw_invar n" using fw_step_invar [OF rad fw_persist fw] link_persist by blast
  moreover have "rf_state.more n = rf_state.more (lk_nrf l)"
    using persist_handler_frame link_persist outer_frame_more by blast
  ultimately show ?thesis using link_persist link_nrf_inv [OF inv] by simp
next
  case (link_esp v)
  then show ?thesis using inv by (simp add: link_inv_def Let_def)
qed

lemma link_run_inv:
  assumes rad: "radio_ok p rx" and "link_run p q l trace l'" and "link_inv k request [] l"
  shows "link_inv k request trace l'"
  using assms(2,3)
  by (induction rule: link_run.induct) (auto dest: link_step_inv [OF rad])

section \<open>Starting a command\<close>

text \<open>No answer to the request id \<open>k\<close> is left over from before.\<close>

definition fresh_id :: "u16 \<Rightarrow> ('w, 'v) link \<Rightarrow> bool" where
  "fresh_id k l \<longleftrightarrow> sv_command_replay_find (rx_cache (lk_nrf l)) k = None \<and>
     (sb_response_pending (lk_nrf l) \<longrightarrow> bm_request_id (sb_pending_response (lk_nrf l)) \<noteq> k) \<and>
     (\<forall>f m. lk_armed l = Some f \<longrightarrow> sv_bridge_decode f = Some m \<longrightarrow>
        bm_kind m = SV_BRIDGE_COMMAND_RESPONSE \<longrightarrow> bm_request_id m \<noteq> k)"

lemma link_inv_start:
  assumes "fw_invar (lk_nrf l)" and "command_ok (eb_command (lk_esp l))"
    and "length request \<le> 64" and "fresh_id (eb_next_request_id (lk_esp l)) l"
  shows "link_inv (eb_next_request_id (lk_esp l)) request []
    (l\<lparr> lk_esp := start_command request (lk_esp l) \<rparr>)"
proof -
  let ?s = "lk_esp l" and ?c = "eb_command (start_command request (lk_esp l))"
  have "command_ok ?c" using command_ok_start [OF assms(2,3)] .
  moreover have "unat (cm_payload_length ?c) = length request"
    using assms(3) by (simp add: start_command_def Let_def unat_of_nat take_bit_eq_mod)
  moreover have "take (length request) (cm_payload ?c) = request"
    using assms(2,3) by (simp add: start_command_def Let_def blit_def)
  moreover have "cm_request_id ?c = eb_next_request_id ?s" "cm_active ?c"
    by (simp_all add: start_command_def Let_def)
  ultimately show ?thesis
    using assms(1,4) by (auto simp: link_inv_def Let_def fresh_id_def answers_def)
qed

text \<open>
  C18: A command over the lossy link is executed at most once and answered truthfully. Start a
  command whose request id has no answer left over at the receiver, and let anything happen: frames
  lost or corrupted in either direction, exchanges that fail, radio packets, up to three attempts.
  Then the receiver has executed at most one command, exactly the request; and if the command is no
  longer active then it was executed, and what the caller is given (length, bytes and whether it is
  an error) is the response that execution made.
\<close>

theorem command_over_lossy_link:
  assumes "radio_ok p rx" and "fw_invar (lk_nrf l)" and "command_ok (eb_command (lk_esp l))"
    and "length request \<le> 64" and "fresh_id (eb_next_request_id (lk_esp l)) l"
    and "link_run p q (l\<lparr> lk_esp := start_command request (lk_esp l) \<rparr>) trace l'"
  shows "(trace = [] \<or> (\<exists>m r. trace = [(m, r)] \<and> asks (eb_next_request_id (lk_esp l)) request m)) \<and>
    (\<not> cm_active (eb_command (lk_esp l')) \<longrightarrow>
      (\<exists>m r. trace = [(m, r)] \<and>
        carries r (cm_response_length (eb_command (lk_esp l'))) (cm_response (eb_command (lk_esp l')))
          (cm_result (eb_command (lk_esp l')) = ESP_FAIL) \<and>
        cm_result (eb_command (lk_esp l')) \<in> {ESP_OK, ESP_FAIL}))"
  using link_run_inv [OF assms(1,6) link_inv_start [OF assms(2-5)]]
  by (auto simp: link_inv_def Let_def split: if_splits)

text \<open>An exchange of which neither direction is corrupted delivers the command.\<close>

theorem command_over_lossy_link_witness:
  "\<exists>(l :: (ref_world, esp_world) link) m r l'.
     link_run ref_platform ref_esp (l\<lparr> lk_esp := start_command [1] (esp_boot esp_world0) \<rparr>) [(m, r)] l' \<and>
     asks 1 [1] m"
proof -
  obtain n0 :: "ref_world receiver" where n0: "fw_invar n0" using ref_fw_invar by blast
  let ?n = "receiver_control_init (n0\<lparr> sb_response_pending := False \<rparr>)"
  have fw: "fw_invar ?n"
    using n0 by (simp add: fw_invar_def receiver_control_init_def replay_init_invar replay_init_log)
  have none: "sv_command_replay_find (rx_cache ?n) k = None" for k
    by (simp add: receiver_control_init_def replay.find_empty)
  let ?e = "start_command [1] (esp_boot esp_world0)"
  let ?l = "\<lparr> lk_esp = esp_boot esp_world0, lk_armed = None, lk_nrf = ?n \<rparr>"
  obtain tx_n n1 where tx_n: "prepare_tx 0 0 ?n = (tx_n, n1)" by fastforce
  have n1: "rx_cache n1 = rx_cache ?n" "length tx_n = 80"
    using tx_n frame_of_state [OF fw tx_n] by (auto simp: prepare_tx_report receiver_control_init_def)
  obtain tx_e s where tx_e: "outgoing_frame ref_esp ?e = (tx_e, s)" by fastforce
  have ok: "command_ok (eb_command ?e)" by (intro command_ok_start command_ok_boot) simp
  obtain m where m: "sv_bridge_decode tx_e = Some m" "bm_kind m = SV_BRIDGE_COMMAND" "length tx_e = 80"
    using outgoing_frame_decodes [OF ok, of ref_esp] tx_e by (auto simp: start_command_def Let_def)
  obtain result s' where r: "receive_frame ref_esp tx_n s = (result, s')" by fastforce
  let ?l1 = "?l\<lparr> lk_esp := ?e, lk_armed := Some tx_n, lk_nrf := n1 \<rparr>"
  let ?l2 = "?l1\<lparr> lk_esp := s', lk_armed := None, lk_nrf := process_rx ref_platform tx_e n1 \<rparr>"
  have "link_step ref_platform ref_esp (?l\<lparr> lk_esp := ?e \<rparr>) [] ?l1"
    using link_arm [of "?l\<lparr> lk_esp := ?e \<rparr>" 0 0 tx_n n1] tx_n by simp
  from run_step [OF run_nil this]
  have run1: "link_run ref_platform ref_esp (?l\<lparr> lk_esp := ?e \<rparr>) [] ?l1" by simp
  have "link_step ref_platform ref_esp ?l1 (executed ref_platform tx_e n1) ?l2"
    using link_exchange [of ?l1 tx_n ref_esp tx_e s tx_n tx_e result s' ref_platform] tx_e r m(3) n1(2)
    by (simp add: arrives_def)
  moreover have ex: "executed ref_platform tx_e n1 = [(m, fst (execute ref_platform m n1))]"
    using m none n1(1) by (simp add: executed_def)
  ultimately have run2: "link_run ref_platform ref_esp (?l\<lparr> lk_esp := ?e \<rparr>)
      [(m, fst (execute ref_platform m n1))] ?l2"
    using run_step [OF run1] by fastforce
  have fresh: "fresh_id (eb_next_request_id (lk_esp ?l)) ?l"
    using none by (simp add: fresh_id_def receiver_control_init_def)
  have "asks (eb_next_request_id (lk_esp ?l)) [1] m"
    using command_over_lossy_link [OF ref_radio_ok _ _ _ fresh, of "[1]"] fw run2
      command_ok_boot [of esp_world0] by fastforce
  then show ?thesis using run2 by (fastforce simp: esp_boot_def)
qed

end
