(* ===== verification/App_Config.thy ===== *)
theory App_Config
  imports Esp_Bridge_Spi
begin

text \<open>
  The gateway's stored configuration, \<open>firmware/esp32c5/main/app_config.c\<close>: defaults, loading
  with the migration of the old default port, and saving. The variable \<open>current\<close> is the field
  \<open>cf_current\<close>; the character arrays of \<open>struct app_config\<close> are strings, with their sizes in
  \<open>config_ok\<close>. \<open>nvs_close\<close> has no effect and no result.
\<close>

section \<open>Data (app_config.h, app_config.c)\<close>

abbreviation (input) APP_DEFAULT_SERVER_PORT :: u16 where "APP_DEFAULT_SERVER_PORT \<equiv> 6970"
abbreviation (input) LEGACY_DYNAMIC_SERVER_PORT :: u16 where "LEGACY_DYNAMIC_SERVER_PORT \<equiv> 6969"
abbreviation (input) CONFIG_SCHEMA_VERSION :: byte where "CONFIG_SCHEMA_VERSION \<equiv> 1"

record app_config =
  ac_configured :: bool
  ac_ssid :: string
  ac_password :: string
  ac_country :: string
  ac_server :: string
  ac_server_port :: u16

record 'v app_state = "'v esp_state" +
  cf_current :: app_config

section \<open>Operations\<close>

definition defaults :: app_config where
  "defaults = \<lparr> ac_configured = False, ac_ssid = [], ac_password = [], ac_country = ''JP'',
     ac_server = [], ac_server_port = APP_DEFAULT_SERVER_PORT \<rparr>"

definition read_string :: "'v esp_platform \<Rightarrow> string \<Rightarrow> nat \<Rightarrow> 'v \<Rightarrow> string" where
  "read_string p key capacity v = (case flash_get_str p key capacity v of Some x \<Rightarrow> x | None \<Rightarrow> [])"

text \<open>The initialisation of the flash, which is erased once if its format does not fit.\<close>

definition init_flash :: "'v esp_platform \<Rightarrow> 'v \<Rightarrow> (int \<times> 'v) option" where
  "init_flash p v =
    (let (error, v) = flash_init p v in
     if error = ESP_ERR_NVS_NO_FREE_PAGES \<or> error = ESP_ERR_NVS_NEW_VERSION_FOUND
     then map_option (flash_init p) (esp_error_check (flash_erase p v))
     else Some (error, v))"

text \<open>What is read over the previous configuration \<open>c\<close>, with the repairs of country and port.\<close>

definition load_config :: "'v esp_platform \<Rightarrow> 'v \<Rightarrow> app_config \<Rightarrow> app_config" where
  "load_config p v c =
    (let configured = (case flash_get_u8 p ''configured'' v of Some x \<Rightarrow> x | None \<Rightarrow> 0);
         country = read_string p ''country'' 3 v;
         port = (case flash_get_u16 p ''server_port'' v of Some x \<Rightarrow> x | None \<Rightarrow> ac_server_port c)
     in \<lparr> ac_configured = (configured \<noteq> 0),
          ac_ssid = read_string p ''ssid'' 33 v,
          ac_password = read_string p ''password'' 65 v,
          ac_country = (if length country \<noteq> 2 then ''JP'' else country),
          ac_server = read_string p ''server'' 65 v,
          ac_server_port = (if port = 0 then APP_DEFAULT_SERVER_PORT else port) \<rparr>)"

text \<open>The move of a schema below version 1 to version 1.\<close>

definition migrate_config ::
    "'v esp_platform \<Rightarrow> ('v, 'x) app_state_scheme \<Rightarrow> int \<times> ('v, 'x) app_state_scheme" where
  "migrate_config p s =
    (let c = cf_current s;
         migrate = (ac_server c = [] \<and> ac_server_port c = LEGACY_DYNAMIC_SERVER_PORT);
         s = (if migrate then s\<lparr> cf_current := c\<lparr> ac_server_port := APP_DEFAULT_SERVER_PORT \<rparr> \<rparr> else s);
         (error, v) = flash_open p True (env s) in
     if error \<noteq> ESP_OK then (error, s\<lparr> env := v \<rparr>)
     else
      (let r = (if migrate then flash_set p ''server_port'' (Nvs_U16 (ac_server_port (cf_current s))) v
                else (ESP_OK, v));
           r = and_then r (flash_set p ''schema_version'' (Nvs_U8 CONFIG_SCHEMA_VERSION));
           (error, v) = and_then r (flash_commit p)
       in (error, s\<lparr> env := v \<rparr>)))"

definition app_config_init ::
    "'v esp_platform \<Rightarrow> ('v, 'x) app_state_scheme \<Rightarrow> (int \<times> ('v, 'x) app_state_scheme) option" where
  "app_config_init p s =
    (let s = s\<lparr> cf_current := defaults \<rparr> in
     Option.bind (init_flash p (env s)) (\<lambda>(error, v).
       if error \<noteq> ESP_OK then Some (error, s\<lparr> env := v \<rparr>)
       else
        (let (error, v) = flash_open p False v; s = s\<lparr> env := v \<rparr> in
         if error \<noteq> ESP_OK then Some (ESP_OK, s)
         else
          (let s = s\<lparr> cf_current := load_config p v (cf_current s) \<rparr>;
               schema_version = (case flash_get_u8 p ''schema_version'' v of Some x \<Rightarrow> x | None \<Rightarrow> 0) in
           if schema_version < CONFIG_SCHEMA_VERSION then Some (migrate_config p s)
           else Some (ESP_OK, s)))))"

definition app_config_get :: "('v, 'x) app_state_scheme \<Rightarrow> app_config" where
  "app_config_get s = cf_current s"

text \<open>The writes of \<open>app_config_save\<close>, each made if the one before it succeeded.\<close>

definition write_config :: "'v esp_platform \<Rightarrow> app_config \<Rightarrow> 'v \<Rightarrow> int \<times> 'v" where
  "write_config p c v =
    and_then (foldl (\<lambda>r (key, x). and_then r (flash_set p key x)) (ESP_OK, v)
      [(''configured'', Nvs_U8 (if ac_configured c then 1 else 0)),
       (''ssid'', Nvs_Str (ac_ssid c)),
       (''password'', Nvs_Str (ac_password c)),
       (''country'', Nvs_Str (ac_country c)),
       (''server'', Nvs_Str (ac_server c)),
       (''server_port'', Nvs_U16 (ac_server_port c)),
       (''schema_version'', Nvs_U8 CONFIG_SCHEMA_VERSION)])
      (flash_commit p)"

text \<open>A null pointer is \<open>None\<close>.\<close>

definition app_config_save ::
    "'v esp_platform \<Rightarrow> app_config option \<Rightarrow> ('v, 'x) app_state_scheme \<Rightarrow> int \<times> ('v, 'x) app_state_scheme" where
  "app_config_save p config s =
    (case config of
       None \<Rightarrow> (ESP_ERR_INVALID_ARG, s)
     | Some c \<Rightarrow>
         if 32 < length (ac_ssid c) \<or> 64 < length (ac_password c) \<or> length (ac_country c) \<noteq> 2 \<or>
            64 < length (ac_server c) \<or> ac_server_port c = 0
         then (ESP_ERR_INVALID_ARG, s)
         else
          (let (error, v) = and_then (flash_open p True (env s)) (write_config p c);
               s = s\<lparr> env := v \<rparr>
           in (error, if error = ESP_OK then s\<lparr> cf_current := c \<rparr> else s)))"

section \<open>Invariant\<close>

text \<open>The strings fit their arrays, the country has two letters and the port is not 0.\<close>

definition config_ok :: "app_config \<Rightarrow> bool" where
  "config_ok c \<longleftrightarrow> length (ac_ssid c) \<le> 32 \<and> length (ac_password c) \<le> 64 \<and>
     length (ac_country c) = 2 \<and> length (ac_server c) \<le> 64 \<and> ac_server_port c \<noteq> 0"

lemma config_ok_defaults: "config_ok defaults"
  by (simp add: config_ok_def defaults_def)

lemma read_string_bound:
  "flash_ok p view \<Longrightarrow> 0 < n \<Longrightarrow> length (read_string p k n v) < n"
  by (auto simp: flash_ok_def read_string_def split: option.splits nvs_value.splits)

lemma config_ok_load:
  assumes "flash_ok p view" and "config_ok c"
  shows "config_ok (load_config p v c)"
  using read_string_bound [OF assms(1), of 33 "''ssid''" v] read_string_bound [OF assms(1), of 65 _ v]
    assms(2)
  by (auto simp: config_ok_def load_config_def Let_def less_Suc_eq_le [symmetric] split: option.split)

lemma config_ok_migrate:
  assumes "config_ok (cf_current s)"
  shows "config_ok (cf_current (snd (migrate_config p s)))"
  using assms by (simp add: migrate_config_def Let_def split_beta config_ok_def)

lemma config_ok_init:
  assumes "flash_ok p view" and "app_config_init p s = Some (error, s')"
  shows "config_ok (cf_current s')"
proof -
  have "config_ok (cf_current (snd r))" if "app_config_init p s = Some r" for r
    using that config_ok_load [OF assms(1) config_ok_defaults] config_ok_defaults
    by (auto simp: app_config_init_def Let_def bind_eq_Some_conv split_beta
        intro!: config_ok_migrate split: if_splits)
  then show ?thesis using assms(2) by fastforce
qed

lemma config_ok_save:
  assumes "config_ok (cf_current s)"
  shows "config_ok (cf_current (snd (app_config_save p config s)))"
proof (cases config)
  case (Some c)
  then show ?thesis
    using assms
    by (auto simp: app_config_save_def Let_def split_beta config_ok_def)
qed (use assms in \<open>simp add: app_config_save_def\<close>)

section \<open>What saving writes\<close>

lemma set_all_result:
  fixes p :: "'v esp_platform"
  assumes "flash_ok p view"
  defines "put \<equiv> \<lambda>(r :: int \<times> 'v) (k, x). and_then r (flash_set p k x)"
  shows "fst (foldl put r kvs) = 0 \<Longrightarrow>
    fst r = 0 \<and> view (snd (foldl put r kvs)) = foldl (\<lambda>m (k, x). m(k \<mapsto> x)) (view (snd r)) kvs"
proof (induction kvs arbitrary: r)
  case (Cons kv kvs)
  obtain k x where kv: "kv = (k, x)" by fastforce
  have ok: "fst (put r kv) = 0"
    and rest: "view (snd (foldl put r (kv # kvs))) = foldl (\<lambda>m (k, x). m(k \<mapsto> x)) (view (snd (put r kv))) kvs"
    using Cons.IH [of "put r kv"] Cons.prems by (simp_all del: fun_upd_apply)
  have r: "fst r = 0" "fst (flash_set p k x (snd r)) = 0"
    using ok by (auto simp: put_def kv and_then_result)
  have "put r kv = flash_set p k x (snd r)" using r(1) by (simp add: put_def kv and_then_def)
  moreover have "view (snd (flash_set p k x (snd r))) = (view (snd r))(k \<mapsto> x)"
    using assms r(2) by (simp add: flash_ok_def)
  ultimately show ?case using rest r(1) by (simp add: kv del: fun_upd_apply)
qed (simp del: fun_upd_apply)

definition config_view :: "app_config \<Rightarrow> (string \<Rightarrow> nvs_value option) \<Rightarrow> string \<Rightarrow> nvs_value option" where
  "config_view c m = m(''configured'' \<mapsto> Nvs_U8 (if ac_configured c then 1 else 0),
     ''ssid'' \<mapsto> Nvs_Str (ac_ssid c), ''password'' \<mapsto> Nvs_Str (ac_password c),
     ''country'' \<mapsto> Nvs_Str (ac_country c), ''server'' \<mapsto> Nvs_Str (ac_server c),
     ''server_port'' \<mapsto> Nvs_U16 (ac_server_port c), ''schema_version'' \<mapsto> Nvs_U8 1)"

lemma write_config_view:
  assumes "flash_ok p view" and "fst (write_config p c v) = 0"
  shows "view (snd (write_config p c v)) = config_view c (view v)"
proof -
  let ?kvs = "[(''configured'', Nvs_U8 (if ac_configured c then 1 else 0)),
       (''ssid'', Nvs_Str (ac_ssid c)), (''password'', Nvs_Str (ac_password c)),
       (''country'', Nvs_Str (ac_country c)), (''server'', Nvs_Str (ac_server c)),
       (''server_port'', Nvs_U16 (ac_server_port c)), (''schema_version'', Nvs_U8 1)]"
  define r where "r = foldl (\<lambda>r (k, x). and_then r (flash_set p k x)) (0, v) ?kvs"
  have w: "write_config p c v = and_then r (flash_commit p)"
    unfolding write_config_def r_def ..
  have r: "fst r = 0" "fst (flash_commit p (snd r)) = 0"
    using assms(2) by (simp_all add: w and_then_result)
  have "view (snd r) = config_view c (view v)"
    using set_all_result [OF assms(1), of "(0, v)" ?kvs] r(1) unfolding r_def
    by (simp add: config_view_def)
  moreover have "view (snd (flash_commit p (snd r))) = view (snd r)"
    using assms(1) r(2) by (simp add: flash_ok_def)
  ultimately show ?thesis using r(1) by (simp add: w and_then_def)
qed

lemma load_config_view:
  assumes "flash_ok p view" and "view v = config_view c m" and "config_ok c"
  shows "load_config p v c0 = c"
  using assms
  by (simp add: load_config_def read_string_def flash_ok_def config_view_def config_ok_def Let_def)

lemma save_ok_cases:
  assumes "app_config_save p (Some c) s = (ESP_OK, s')"
  shows "config_ok c \<and> cf_current s' = c \<and> fst (flash_open p True (env s)) = 0 \<and>
    write_config p c (snd (flash_open p True (env s))) = (0, env s')"
  using assms
  by (auto simp: app_config_save_def Let_def split_beta config_ok_def and_then_def prod_eq_iff
      split: if_splits)

section \<open>Properties\<close>

text \<open>
  C37: A saved configuration survives a restart: after a save that reports success, the next start
  whose flash comes up loads exactly the saved configuration, whatever was stored before and
  whatever the RAM held.
\<close>

theorem config_survives_restart:
  assumes "flash_ok p view" and "app_config_save p (Some c) s = (ESP_OK, s')"
    and "view (env t) = view (env s')" and "fst (flash_init p (env t)) = ESP_OK"
  shows "\<exists>t'. app_config_init p t = Some (ESP_OK, t') \<and> cf_current t' = c \<and> view (env t') = view (env s')"
proof -
  note saved = save_ok_cases [OF assms(2)]
  have s': "view (env s') = config_view c (view (env s))"
    using write_config_view [OF assms(1)] saved assms(1) by (metis flash_ok_def fst_conv snd_conv)
  obtain v1 where v1: "flash_init p (env t) = (0, v1)" using assms(4) by (metis prod.collapse)
  then have view1: "view v1 = config_view c (view (env s))"
    using assms(1,3) s' unfolding flash_ok_def by (metis fst_conv snd_conv)
  have "view v1 \<noteq> Map.empty" unfolding view1 config_view_def by (metis fun_upd_same option.distinct(1))
  then obtain v2 where v2: "flash_open p False v1 = (0, v2)"
    using assms(1) unfolding flash_ok_def by (metis prod.collapse)
  then have view2: "view v2 = config_view c (view (env s))"
    using assms(1) view1 unfolding flash_ok_def by (metis snd_conv)
  have load: "load_config p v2 c0 = c" for c0
    using load_config_view [OF assms(1) view2] saved by blast
  have "flash_get_u8 p ''schema_version'' v2 = Some 1"
    using assms(1) by (simp add: flash_ok_def view2 config_view_def)
  then show ?thesis
    using load s' view2 by (simp add: app_config_init_def init_flash_def v1 v2 Let_def)
qed

text \<open>An example: a saved configuration with a server.\<close>

definition demo_config :: app_config where
  "demo_config = \<lparr> ac_configured = True, ac_ssid = ''home'', ac_password = ''secret-word'',
     ac_country = ''DE'', ac_server = ''10.0.0.2'', ac_server_port = 7000 \<rparr>"

definition app_boot :: "'v \<Rightarrow> 'v app_state" where
  "app_boot v = esp_state.extend (esp_boot v) \<lparr> cf_current = defaults \<rparr>"

lemma app_boot_simps [simp]: "env (app_boot v) = v" "cf_current (app_boot v) = defaults"
  by (simp_all add: app_boot_def esp_state.extend_def esp_boot_def)

lemma demo_save: "fst (app_config_save ref_esp (Some demo_config) (app_boot esp_world0)) = ESP_OK"
  by (simp add: app_config_save_def demo_config_def ref_esp_def write_config_def Let_def)

theorem config_survives_restart_witness:
  "\<exists>t'. app_config_init ref_esp (app_boot (env (snd (app_config_save ref_esp (Some demo_config)
      (app_boot esp_world0))))) = Some (ESP_OK, t') \<and> cf_current t' = demo_config"
  using config_survives_restart [OF ref_flash_ok, of demo_config "app_boot esp_world0"
      "snd (app_config_save ref_esp (Some demo_config) (app_boot esp_world0))"
      "app_boot (env (snd (app_config_save ref_esp (Some demo_config) (app_boot esp_world0))))"]
    demo_save by (auto simp: prod_eq_iff ref_esp_def)

text \<open>What the other tasks may do to the state in between: anything but assign \<open>current\<close>.\<close>

inductive config_step :: "'v esp_platform \<Rightarrow> 'v app_state \<Rightarrow> 'v app_state \<Rightarrow> bool"
  for p :: "'v esp_platform" where
  step_save: "app_config_save p config s = (error, s') \<Longrightarrow> config_step p s s'"
| step_other: "cf_current s' = cf_current s \<Longrightarrow> config_step p s s'"

text \<open>
  C38: The configuration in use always has the type the firmware relies on: every string fits its
  array with the terminator, the country has two letters, and the port is not 0. It holds after
  every start, whatever the flash contains, and every attempt to save keeps it.
\<close>

theorem config_always_valid:
  assumes "flash_ok p view" and "app_config_init p s0 = Some (error, s1)" and "(config_step p)\<^sup>*\<^sup>* s1 s"
  shows "length (ac_ssid (cf_current s)) < 33 \<and> length (ac_password (cf_current s)) < 65 \<and>
    length (ac_country (cf_current s)) = 2 \<and> length (ac_server (cf_current s)) < 65 \<and>
    ac_server_port (cf_current s) \<noteq> 0"
proof -
  have "config_ok (cf_current s)"
    using assms(3)
  proof (induction rule: rtranclp_induct)
    case base
    then show ?case using config_ok_init [OF assms(1,2)] .
  next
    case (step t u)
    from step.hyps(2) show ?case
    proof (cases rule: config_step.cases)
      case (step_save config e)
      then show ?thesis using config_ok_save [OF step.IH, of p config] by simp
    next
      case step_other
      then show ?thesis using step.IH by simp
    qed
  qed
  then show ?thesis by (simp add: config_ok_def)
qed

text \<open>A flash with an over-long name and a bad country is repaired.\<close>

theorem config_always_valid_witness:
  "\<exists>s1. app_config_init ref_esp (app_boot (esp_world0\<lparr> ew_flash := [''ssid'' \<mapsto> Nvs_Str (replicate 40 (CHR ''x'')),
       ''country'' \<mapsto> Nvs_Str ''D'', ''schema_version'' \<mapsto> Nvs_U8 1] \<rparr>)) = Some (0, s1) \<and>
     length (ac_country (cf_current s1)) = 2 \<and> ac_ssid (cf_current s1) = []"
proof -
  let ?s = "app_boot (esp_world0\<lparr> ew_flash := [''ssid'' \<mapsto> Nvs_Str (replicate 40 (CHR ''x'')),
       ''country'' \<mapsto> Nvs_Str ''D'', ''schema_version'' \<mapsto> Nvs_U8 1] \<rparr>)"
  obtain s1 where s1: "app_config_init ref_esp ?s = Some (0, s1)" "ac_ssid (cf_current s1) = []"
    by (simp add: app_config_init_def init_flash_def ref_esp_def Let_def load_config_def read_string_def)
  from config_always_valid [OF ref_flash_ok s1(1) rtranclp.rtrancl_refl] s1 show ?thesis by blast
qed

text \<open>
  Saving is refused or done. A configuration that does not fit is refused with
  \<open>ESP_ERR_INVALID_ARG\<close> and nothing changes, not even the flash; if any write fails the error is
  returned and the configuration in use stays the old one; success means the new one is in use.
\<close>

theorem config_save_outcomes:
  "(\<not> config_ok c \<longrightarrow> app_config_save p (Some c) s = (ESP_ERR_INVALID_ARG, s)) \<and>
   (config_ok c \<longrightarrow> fst (app_config_save p (Some c) s) =
      fst (and_then (flash_open p True (env s)) (write_config p c))) \<and>
   cf_current (snd (app_config_save p (Some c) s)) =
     (if fst (app_config_save p (Some c) s) = ESP_OK then c else cf_current s)"
  by (auto simp: app_config_save_def config_ok_def Let_def split_beta)

theorem config_save_outcomes_witness:
  "app_config_save ref_esp (Some (demo_config\<lparr> ac_server_port := 0 \<rparr>)) (app_boot esp_world0) =
     (ESP_ERR_INVALID_ARG, app_boot esp_world0)"
  using config_save_outcomes [of "demo_config\<lparr> ac_server_port := 0 \<rparr>" ref_esp "app_boot esp_world0"]
  by (simp add: config_ok_def)

section \<open>Behaviour to know about\<close>

text \<open>
  The migration: a start with schema 0, no server name and the old port 6969 moves to port 6970,
  in RAM and in the flash, and marks the flash so that it happens once.
\<close>

lemma legacy_port_migrates:
  assumes "view = ew_flash" and "view w = [''server_port'' \<mapsto> Nvs_U16 6969]"
  shows "\<exists>s'. app_config_init ref_esp (app_boot w) = Some (0, s') \<and>
    ac_server_port (cf_current s') = 6970 \<and>
    view (env s') = [''server_port'' \<mapsto> Nvs_U16 6970, ''schema_version'' \<mapsto> Nvs_U8 1]"
  using assms
  by (simp add: app_config_init_def init_flash_def ref_esp_def Let_def load_config_def
      read_string_def migrate_config_def defaults_def)

text \<open>
  A save that fails halfway is not undone in the flash: here the write of the server name fails, the
  old configuration stays in use, and after a restart the new network comes with the old server.
\<close>

lemma failed_save_mixes_configurations:
  fixes w :: esp_world
  defines "p \<equiv> ref_esp\<lparr> flash_set := (\<lambda>k x w. if k = ''server'' then (ESP_FAIL, w)
     else (0, w\<lparr> ew_flash := (ew_flash w)(k \<mapsto> x) \<rparr>)) \<rparr>"
  assumes "ew_flash w = config_view (demo_config\<lparr> ac_ssid := ''old'', ac_server := ''10.0.0.1'' \<rparr>) Map.empty"
  shows "fst (app_config_save p (Some demo_config) (app_boot w)) = ESP_FAIL \<and>
    (\<exists>s'. app_config_init p (app_boot (env (snd (app_config_save p (Some demo_config) (app_boot w))))) =
        Some (0, s') \<and>
      ac_ssid (cf_current s') = ''home'' \<and> ac_server (cf_current s') = ''10.0.0.1'')"
  using assms(2)
  by (simp add: p_def app_config_save_def demo_config_def ref_esp_def write_config_def Let_def
      and_then_def app_config_init_def init_flash_def load_config_def read_string_def config_view_def)

end
