(* ===== verification/Wifi_Manager.thy ===== *)
theory Wifi_Manager
  imports App_Config
begin

text \<open>
  The gateway's Wi-Fi manager, \<open>firmware/esp32c5/main/wifi_manager.c\<close>: the start as a station,
  the event handler, the supervisor and the fall-back to a setup access point. Its variables are
  the \<open>wf_\<close> fields; the bit \<open>WIFI_CONNECTED_BIT\<close> of the event group is \<open>wf_connected\<close>.
  \<open>ESP_ERROR_CHECK\<close> aborts the firmware, which is the result \<open>None\<close>.
\<close>

section \<open>State (wifi_manager.c)\<close>

text \<open>The sizes of the name and password arrays of ESP-IDF's \<open>wifi_config_t\<close>.\<close>

abbreviation (input) WIFI_SSID_SIZE :: nat where "WIFI_SSID_SIZE \<equiv> 32"
abbreviation (input) WIFI_PASSWORD_SIZE :: nat where "WIFI_PASSWORD_SIZE \<equiv> 64"
abbreviation (input) SETUP_PASSWORD :: string where "SETUP_PASSWORD \<equiv> ''smol-wifi-setup''"

datatype wifi_event = Wifi_Event_Sta_Disconnected | Ip_Event_Sta_Got_Ip | Other_Event

record 'v wifi_state = "'v app_state" +
  wf_events :: bool
  wf_connected :: bool
  wf_sta_netif :: bool
  wf_ap_netif :: bool
  wf_setup_ap :: bool
  wf_wifi_started :: bool
  wf_setup_ssid :: string

definition wifi_boot :: "'v \<Rightarrow> 'v wifi_state" where
  "wifi_boot v = app_state.extend (app_boot v)
     \<lparr> wf_events = False, wf_connected = False, wf_sta_netif = False, wf_ap_netif = False,
       wf_setup_ap = False, wf_wifi_started = False, wf_setup_ssid = [] \<rparr>"

lemma wifi_boot_simps [simp]:
  "env (wifi_boot v) = v" "cf_current (wifi_boot v) = defaults" "wf_wifi_started (wifi_boot v) = False"
  by (simp_all add: wifi_boot_def app_state.extend_def app_boot_def esp_state.extend_def esp_boot_def)

section \<open>Operations\<close>

text \<open>\<open>strlcpy\<close> into an array of \<open>capacity\<close> bytes keeps at most \<open>capacity - 1\<close> characters.\<close>

definition strlcpy :: "nat \<Rightarrow> string \<Rightarrow> string" where
  "strlcpy capacity source = take (capacity - 1) source"

text \<open>A sequence of calls, each under \<open>ESP_ERROR_CHECK\<close>.\<close>

primrec checked_calls :: "'v esp_platform \<Rightarrow> wifi_op list \<Rightarrow> 'v \<Rightarrow> 'v option" where
  "checked_calls p [] v = Some v"
| "checked_calls p (op # ops) v =
    Option.bind (esp_error_check (wifi_call p op v)) (checked_calls p ops)"

definition event_handler ::
    "'v esp_platform \<Rightarrow> wifi_event \<Rightarrow> ('v, 'x) wifi_state_scheme \<Rightarrow> ('v, 'x) wifi_state_scheme" where
  "event_handler p event s =
    (case event of
       Wifi_Event_Sta_Disconnected \<Rightarrow>
         (let s = s\<lparr> wf_connected := False \<rparr> in
          if \<not> wf_setup_ap s then s\<lparr> env := snd (wifi_call p Esp_Wifi_Connect (env s)) \<rparr> else s)
     | Ip_Event_Sta_Got_Ip \<Rightarrow> s\<lparr> wf_connected := True \<rparr>
     | Other_Event \<Rightarrow> s)"

text \<open>\<open>%02X\<close> of a byte.\<close>

definition hex_upper_digits :: string where
  "hex_upper_digits = ''0123456789ABCDEF''"

definition format_02X :: "byte \<Rightarrow> string" where
  "format_02X b = [hex_upper_digits ! unat (drop_bit 4 b), hex_upper_digits ! unat (b AND 0x0f)]"

definition setup_ssid_of :: "byte list \<Rightarrow> string" where
  "setup_ssid_of mac = take 23 (''SmolReceiver-Setup-'' @ format_02X (mac ! 4) @ format_02X (mac ! 5))"

text \<open>The end of the station, if there is one.\<close>

definition stop_station ::
    "'v esp_platform \<Rightarrow> ('v, 'x) wifi_state_scheme \<Rightarrow> ('v, 'x) wifi_state_scheme" where
  "stop_station p s =
    (let s = (if wf_wifi_started s
              then (let v = snd (wifi_call p (Esp_Wifi_Set_Band_Mode WIFI_BAND_MODE_2G_ONLY) (env s));
                        v = snd (wifi_call p Esp_Wifi_Stop v)
                    in s\<lparr> env := v, wf_wifi_started := False \<rparr>)
              else s)
     in if wf_sta_netif s then s\<lparr> env := destroy_netif p (env s), wf_sta_netif := False \<rparr> else s)"

text \<open>\<open>wait\<close> and \<open>locked\<close> are those of the command to the receiver.\<close>

definition start_setup_ap ::
    "'v esp_platform \<Rightarrow> (('v, 'x) wifi_state_scheme \<Rightarrow> bool \<times> ('v, 'x) wifi_state_scheme) \<Rightarrow> bool \<Rightarrow>
     ('v, 'x) wifi_state_scheme \<Rightarrow> (int \<times> ('v, 'x) wifi_state_scheme) option" where
  "start_setup_ap p wait locked s =
    (let config = app_config_get s;
         s = s\<lparr> wf_setup_ap := True \<rparr>;
         s = snd (bridge_spi_set_radio_enabled wait locked False s);
         s = stop_station p s;
         (ap, v) = create_netif p WIFI_MODE_AP (env s);
         s = s\<lparr> env := v, wf_ap_netif := ap \<rparr> in
     if \<not> ap then Some (ESP_ERR_NO_MEM, s)
     else
      (let (error, mac) = read_mac p WIFI_MODE_AP (env s) in
       if error \<noteq> ESP_OK then None
       else
        (let s = s\<lparr> wf_setup_ssid := setup_ssid_of mac \<rparr> in
         Option.bind (checked_calls p
             [Esp_Wifi_Set_Country_Code (ac_country config), Esp_Wifi_Set_Mode WIFI_MODE_AP,
              Esp_Wifi_Set_Config_Ap (strlcpy WIFI_SSID_SIZE (wf_setup_ssid s))
                (strlcpy WIFI_PASSWORD_SIZE SETUP_PASSWORD) 1 4,
              Esp_Wifi_Start] (env s)) (\<lambda>v.
         let s = s\<lparr> env := v, wf_wifi_started := True \<rparr> in
         map_option (\<lambda>v. (ESP_OK, s\<lparr> env := v \<rparr>))
           (checked_calls p [Esp_Wifi_Set_Band_Mode WIFI_BAND_MODE_2G_ONLY] (env s))))))"

text \<open>
  \<open>connection_supervisor\<close>; \<open>until_connected\<close> is what the other tasks do while it waits up to 30 s
  for the connection.
\<close>

definition connection_supervisor ::
    "'v esp_platform \<Rightarrow> (('v, 'x) wifi_state_scheme \<Rightarrow> bool \<times> ('v, 'x) wifi_state_scheme) \<Rightarrow> bool \<Rightarrow>
     (('v, 'x) wifi_state_scheme \<Rightarrow> ('v, 'x) wifi_state_scheme) \<Rightarrow>
     ('v, 'x) wifi_state_scheme \<Rightarrow> ('v, 'x) wifi_state_scheme option" where
  "connection_supervisor p wait locked until_connected s =
    (if \<not> ac_configured (app_config_get s) then map_option snd (start_setup_ap p wait locked s)
     else
      (let s = until_connected s in
       if \<not> wf_connected s then map_option snd (start_setup_ap p wait locked s) else Some s))"

text \<open>\<open>created\<close> says whether the event group was.\<close>

definition wifi_manager_init ::
    "'v esp_platform \<Rightarrow> bool \<Rightarrow> ('v, 'x) wifi_state_scheme \<Rightarrow> (int \<times> ('v, 'x) wifi_state_scheme) option" where
  "wifi_manager_init p created s =
    (let s = s\<lparr> wf_events := created \<rparr> in
     if \<not> created then Some (ESP_ERR_NO_MEM, s)
     else Option.bind (checked_calls p [Esp_Netif_Init, Esp_Event_Loop_Create_Default, Esp_Wifi_Init,
         Esp_Event_Handler_Register True, Esp_Event_Handler_Register False] (env s)) (\<lambda>v.
      let s = s\<lparr> env := v \<rparr>; config = app_config_get s;
          finish = (\<lambda>s :: ('v, 'x) wifi_state_scheme.
            let (created, v) = task_create p ''wifi-supervisor'' (env s); s = s\<lparr> env := v \<rparr>
            in if \<not> created then (ESP_ERR_NO_MEM, s) else (ESP_OK, s)) in
      if ac_configured config then
        (let (sta, v) = create_netif p WIFI_MODE_STA (env s);
             s = s\<lparr> env := v, wf_sta_netif := sta \<rparr> in
         if \<not> sta then Some (ESP_ERR_NO_MEM, s)
         else Option.bind (checked_calls p
             [Esp_Wifi_Set_Country_Code (ac_country config), Esp_Wifi_Set_Mode WIFI_MODE_STA,
              Esp_Wifi_Set_Config_Sta (strlcpy WIFI_SSID_SIZE (ac_ssid config))
                (strlcpy WIFI_PASSWORD_SIZE (ac_password config)),
              Esp_Wifi_Start] (env s)) (\<lambda>v.
           let s = s\<lparr> env := v, wf_wifi_started := True \<rparr> in
           map_option (\<lambda>v. finish (s\<lparr> env := v \<rparr>))
             (checked_calls p [Esp_Wifi_Set_Band_Mode WIFI_BAND_MODE_5G_ONLY, Esp_Wifi_Connect] (env s))))
      else Some (finish s)))"

definition wifi_manager_is_connected :: "('v, 'x) wifi_state_scheme \<Rightarrow> bool" where
  "wifi_manager_is_connected s \<longleftrightarrow> wf_events s \<and> wf_connected s"

definition wifi_manager_is_setup_ap :: "('v, 'x) wifi_state_scheme \<Rightarrow> bool" where
  "wifi_manager_is_setup_ap s = wf_setup_ap s"

definition wifi_manager_setup_ssid :: "('v, 'x) wifi_state_scheme \<Rightarrow> string" where
  "wifi_manager_setup_ssid s = wf_setup_ssid s"

section \<open>The calls of the driver\<close>

text \<open>A record \<open>calls\<close> of the driver calls made so far, which only driver calls extend.\<close>

definition wifi_recorded :: "'v esp_platform \<Rightarrow> ('v \<Rightarrow> wifi_op list) \<Rightarrow> bool" where
  "wifi_recorded p calls \<longleftrightarrow>
    (\<forall>op v. calls (snd (wifi_call p op v)) = calls v @ [op]) \<and>
    (\<forall>m v. calls (snd (create_netif p m v)) = calls v) \<and>
    (\<forall>v. calls (destroy_netif p v) = calls v) \<and>
    (\<forall>n v. calls (snd (task_create p n v)) = calls v)"

lemma ref_wifi_recorded: "wifi_recorded ref_esp ew_wifi"
  by (simp add: wifi_recorded_def ref_esp_def)

lemma checked_calls_recorded:
  assumes "wifi_recorded p calls"
  shows "checked_calls p ops v = Some v' \<Longrightarrow> calls v' = calls v @ ops"
  using assms
  by (induction ops arbitrary: v)
    (auto simp: wifi_recorded_def esp_error_check_def split: if_splits bind_splits)

text \<open>What may happen while a task waits for the receiver's answer: no call of the driver.\<close>

definition waits_quietly ::
    "('v \<Rightarrow> wifi_op list) \<Rightarrow> (('v, 'x) wifi_state_scheme \<Rightarrow> bool \<times> ('v, 'x) wifi_state_scheme) \<Rightarrow> bool" where
  "waits_quietly calls wait \<longleftrightarrow>
    (\<forall>s. calls (env (snd (wait s))) = calls (env s) \<and> wf_wifi_started (snd (wait s)) = wf_wifi_started s \<and>
       wf_setup_ap (snd (wait s)) = wf_setup_ap s)"

lemma set_radio_enabled_quiet:
  fixes s :: "('v, 'x) wifi_state_scheme" and locked enabled :: bool
  assumes "waits_quietly calls wait"
  defines "s' \<equiv> snd (bridge_spi_set_radio_enabled wait locked enabled s)"
  shows "calls (env s') = calls (env s) \<and> wf_wifi_started s' = wf_wifi_started s \<and>
    wf_setup_ap s' = wf_setup_ap s"
  using assms
  by (simp add: bridge_spi_set_radio_enabled_def bridge_spi_command_def finish_command_def Let_def split_beta
      start_command_def count_stat_def waits_quietly_def)

section \<open>Properties\<close>

text \<open>
  The station is started in the documented order, on 5 GHz only. A successful start makes
  exactly these driver calls: the five of the initialisation and, if a network is configured, the
  country, station mode, the network's name and password, the start, the restriction to 5 GHz and
  only then the connection; otherwise no network is joined.
\<close>

theorem station_start_sequence:
  assumes "wifi_recorded p calls" and "wifi_manager_init p created s = Some (ESP_OK, s')"
  shows "created \<and> calls (env s') = calls (env s) @
      [Esp_Netif_Init, Esp_Event_Loop_Create_Default, Esp_Wifi_Init,
       Esp_Event_Handler_Register True, Esp_Event_Handler_Register False] @
      (if ac_configured (cf_current s)
       then [Esp_Wifi_Set_Country_Code (ac_country (cf_current s)), Esp_Wifi_Set_Mode WIFI_MODE_STA,
         Esp_Wifi_Set_Config_Sta (take 31 (ac_ssid (cf_current s))) (take 63 (ac_password (cf_current s))),
         Esp_Wifi_Start, Esp_Wifi_Set_Band_Mode WIFI_BAND_MODE_5G_ONLY, Esp_Wifi_Connect]
       else [])"
proof -
  note rec = checked_calls_recorded [OF assms(1)]
  define init where "init = [Esp_Netif_Init, Esp_Event_Loop_Create_Default, Esp_Wifi_Init,
       Esp_Event_Handler_Register True, Esp_Event_Handler_Register False]"
  have created: created using assms(2) by (rule_tac ccontr) (simp add: wifi_manager_init_def Let_def)
  then obtain v where v: "checked_calls p init (env s) = Some v"
    using assms(2) by (auto simp: wifi_manager_init_def Let_def bind_eq_Some_conv init_def
        simp del: checked_calls.simps)
  show ?thesis
  proof (cases "ac_configured (cf_current s)")
    case False
    then have "env s' = snd (task_create p ''wifi-supervisor'' v)"
      using assms(2) created v by (auto simp: wifi_manager_init_def Let_def init_def [symmetric]
          app_config_get_def split_beta simp del: checked_calls.simps split: if_splits)
    then show ?thesis
      using rec [OF v] assms(1) created False by (simp add: wifi_recorded_def init_def)
  next
    case True
    then obtain v2 v3 where
      "checked_calls p [Esp_Wifi_Set_Country_Code (ac_country (cf_current s)), Esp_Wifi_Set_Mode WIFI_MODE_STA,
         Esp_Wifi_Set_Config_Sta (take 31 (ac_ssid (cf_current s))) (take 63 (ac_password (cf_current s))),
         Esp_Wifi_Start] (snd (create_netif p WIFI_MODE_STA v)) = Some v2"
      and "checked_calls p [Esp_Wifi_Set_Band_Mode WIFI_BAND_MODE_5G_ONLY, Esp_Wifi_Connect] v2 = Some v3"
      and "env s' = snd (task_create p ''wifi-supervisor'' v3)"
      using assms(2) created v by (auto simp: wifi_manager_init_def Let_def init_def [symmetric]
          app_config_get_def split_beta bind_eq_Some_conv strlcpy_def simp del: checked_calls.simps
          split: if_splits)
    then show ?thesis
      using rec [OF v] rec assms(1) created True by (simp add: wifi_recorded_def init_def del: checked_calls.simps)
  qed
qed

theorem station_start_sequence_witness:
  "\<exists>s'. wifi_manager_init ref_esp True ((wifi_boot esp_world0)\<lparr> cf_current := demo_config \<rparr>) = Some (ESP_OK, s') \<and>
     last (ew_wifi (env s')) = Esp_Wifi_Connect \<and>
     last (butlast (ew_wifi (env s'))) = Esp_Wifi_Set_Band_Mode WIFI_BAND_MODE_5G_ONLY"
proof -
  obtain s' where s': "wifi_manager_init ref_esp True ((wifi_boot esp_world0)\<lparr> cf_current := demo_config \<rparr>) =
      Some (ESP_OK, s')"
    by (simp add: wifi_manager_init_def ref_esp_def esp_error_check_def Let_def app_config_get_def demo_config_def)
  have "ew_wifi (env s') = butlast (butlast (ew_wifi (env s'))) @
      [Esp_Wifi_Set_Band_Mode WIFI_BAND_MODE_5G_ONLY, Esp_Wifi_Connect]"
    using station_start_sequence [OF ref_wifi_recorded s']
    by (simp add: demo_config_def esp_world0_def butlast_append)
  then have "last (ew_wifi (env s')) = Esp_Wifi_Connect \<and>
      last (butlast (ew_wifi (env s'))) = Esp_Wifi_Set_Band_Mode WIFI_BAND_MODE_5G_ONLY"
    by (metis append_Cons append_Nil append_assoc butlast_snoc last_snoc)
  with s' show ?thesis by blast
qed

text \<open>
  Falling back to the setup access point is orderly and final. It makes exactly these driver
  calls: a running station is stopped, then the access point is configured (channel 1, four clients,
  the name derived from the MAC address, the setup password), started and kept on 2.4 GHz; the
  station interface is gone; and from then on no event makes the gateway join a network again.
\<close>

theorem setup_ap_sequence:
  assumes "wifi_recorded p calls" and "waits_quietly calls wait"
    and "start_setup_ap p wait locked s = Some (ESP_OK, s')"
  shows "calls (env s') = calls (env s) @
      (if wf_wifi_started s then [Esp_Wifi_Set_Band_Mode WIFI_BAND_MODE_2G_ONLY, Esp_Wifi_Stop] else []) @
      [Esp_Wifi_Set_Country_Code (ac_country (cf_current s)), Esp_Wifi_Set_Mode WIFI_MODE_AP,
       Esp_Wifi_Set_Config_Ap (wf_setup_ssid s') ''smol-wifi-setup'' 1 4, Esp_Wifi_Start,
       Esp_Wifi_Set_Band_Mode WIFI_BAND_MODE_2G_ONLY] \<and>
    wf_setup_ap s' \<and> \<not> wf_sta_netif s' \<and> wf_ap_netif s' \<and>
    (\<forall>event. env (event_handler p event s') = env s' \<and> wf_setup_ap (event_handler p event s'))"
proof -
  define s1 where "s1 = snd (bridge_spi_set_radio_enabled wait locked False (s\<lparr> wf_setup_ap := True \<rparr>))"
  have s1: "calls (env s1) = calls (env s)" "wf_wifi_started s1 = wf_wifi_started s" "wf_setup_ap s1"
    using set_radio_enabled_quiet [OF assms(2), of locked False "s\<lparr> wf_setup_ap := True \<rparr>"]
    by (simp_all add: s1_def)
  define s3 where "s3 = stop_station p s1"
  have s3: "calls (env s3) = calls (env s) @
      (if wf_wifi_started s then [Esp_Wifi_Set_Band_Mode WIFI_BAND_MODE_2G_ONLY, Esp_Wifi_Stop] else [])"
    "\<not> wf_sta_netif s3" "wf_setup_ap s3"
    using s1 assms(1) by (simp_all add: s3_def stop_station_def Let_def wifi_recorded_def)
  have ssid: "take 31 (setup_ssid_of mac) = setup_ssid_of mac" for mac
    by (simp only: setup_ssid_of_def take_take) simp
  obtain mac v v' where
    "create_netif p WIFI_MODE_AP (env s3) = (True, snd (create_netif p WIFI_MODE_AP (env s3)))"
    "checked_calls p [Esp_Wifi_Set_Country_Code (ac_country (cf_current s)), Esp_Wifi_Set_Mode WIFI_MODE_AP,
       Esp_Wifi_Set_Config_Ap (setup_ssid_of mac) ''smol-wifi-setup'' 1 4, Esp_Wifi_Start]
       (snd (create_netif p WIFI_MODE_AP (env s3))) = Some v"
    "checked_calls p [Esp_Wifi_Set_Band_Mode WIFI_BAND_MODE_2G_ONLY] v = Some v'"
    "s' = s3\<lparr> wf_ap_netif := True, wf_setup_ssid := setup_ssid_of mac, wf_wifi_started := True, env := v' \<rparr>"
    using assms(3) unfolding start_setup_ap_def Let_def s1_def [symmetric]
    by (auto simp: s3_def [symmetric] split_beta prod_eq_iff bind_eq_Some_conv app_config_get_def strlcpy_def ssid
        simp del: checked_calls.simps split: if_splits)
  then have "calls (env s') = calls (env s3) @
      [Esp_Wifi_Set_Country_Code (ac_country (cf_current s)), Esp_Wifi_Set_Mode WIFI_MODE_AP,
       Esp_Wifi_Set_Config_Ap (wf_setup_ssid s') ''smol-wifi-setup'' 1 4, Esp_Wifi_Start,
       Esp_Wifi_Set_Band_Mode WIFI_BAND_MODE_2G_ONLY] \<and> wf_setup_ap s' \<and> \<not> wf_sta_netif s' \<and> wf_ap_netif s'"
    using s3 checked_calls_recorded [OF assms(1)] assms(1)
    by (simp add: wifi_recorded_def del: checked_calls.simps)
  then show ?thesis
    using s3 by (auto simp: event_handler_def Let_def split: wifi_event.split)
qed

theorem setup_ap_sequence_witness:
  "\<exists>s'. start_setup_ap ref_esp (Pair False) True (wifi_boot esp_world0) = Some (ESP_OK, s') \<and>
     wf_setup_ap (event_handler ref_esp Wifi_Event_Sta_Disconnected s') \<and>
     ew_wifi (env (event_handler ref_esp Wifi_Event_Sta_Disconnected s')) = ew_wifi (env s')"
proof -
  have quiet: "waits_quietly ew_wifi (Pair False)" by (simp add: waits_quietly_def)
  obtain s' where s': "start_setup_ap ref_esp (Pair False) True (wifi_boot esp_world0) = Some (ESP_OK, s')"
    by (simp add: start_setup_ap_def ref_esp_def esp_error_check_def Let_def split_beta)
  from setup_ap_sequence [OF ref_wifi_recorded quiet s'] s' show ?thesis by metis
qed

section \<open>Behaviour to know about\<close>

text \<open>
  A name of 32 characters or a password of 64, which \<open>app_config_save\<close> accepts and 802.11 allows,
  does not fit \<open>strlcpy\<close> into the driver's arrays: the last character is lost.
\<close>

lemma longest_name_is_cut:
  "length ssid = 32 \<Longrightarrow> strlcpy WIFI_SSID_SIZE ssid \<noteq> ssid"
  by (auto simp: strlcpy_def dest: arg_cong [of _ _ length])

end
