(* ===== verification/Gateway_Protocol.thy ===== *)
theory Gateway_Protocol
  imports Bridge_Protocol
begin

text \<open>
  The UDP datagram of \<open>protocol/gateway_protocol.c\<close>, \<open>gateway_protocol.h\<close> and
  \<open>smol_report.h\<close>. Its field accessors are the text of those of \<open>bridge_protocol.c\<close>,
  so the definitions of \<open>Frame_Codec\<close> serve both; the CRC is shared by the code. Datagrams are
  the second interpretation of its contract.
  Unlike an SPI envelope, a datagram has a length of its own, which a decoder must not trust.
\<close>

section \<open>Constants and messages (gateway_protocol.h, smol_report.h)\<close>

abbreviation (input) SV_SMOL_REPORT_SIZE :: nat where "SV_SMOL_REPORT_SIZE \<equiv> 64"
abbreviation (input) SV_GATEWAY_VERSION :: byte where "SV_GATEWAY_VERSION \<equiv> 1"
abbreviation (input) SV_GATEWAY_HEADER_SIZE :: "'a::numeral" where "SV_GATEWAY_HEADER_SIZE \<equiv> 28"
abbreviation (input) SV_GATEWAY_MAX_REPORTS :: "'a::numeral" where "SV_GATEWAY_MAX_REPORTS \<equiv> 8"
abbreviation (input) SV_GATEWAY_MAX_PAYLOAD :: "'a::numeral" where "SV_GATEWAY_MAX_PAYLOAD \<equiv> 512"
abbreviation (input) SV_GATEWAY_MAX_DATAGRAM :: nat where "SV_GATEWAY_MAX_DATAGRAM \<equiv> 544"

abbreviation (input) SV_GATEWAY_DISCOVER :: byte where "SV_GATEWAY_DISCOVER \<equiv> 1"
abbreviation (input) SV_GATEWAY_OFFER :: byte where "SV_GATEWAY_OFFER \<equiv> 2"
abbreviation (input) SV_GATEWAY_HELLO :: byte where "SV_GATEWAY_HELLO \<equiv> 3"
abbreviation (input) SV_GATEWAY_ACK :: byte where "SV_GATEWAY_ACK \<equiv> 4"
abbreviation (input) SV_GATEWAY_REPORT_BATCH :: byte where "SV_GATEWAY_REPORT_BATCH \<equiv> 5"

record sv_gateway_message =
  gm_kind :: byte
  gm_flags :: byte
  gm_report_count :: byte
  gm_gateway_id :: "byte list"
  gm_boot_id :: u32
  gm_sequence :: u32
  gm_payload_length :: u16
  gm_payload :: "byte list"

definition gm_wf :: "sv_gateway_message \<Rightarrow> bool" where
  "gm_wf m \<longleftrightarrow> length (gm_gateway_id m) = 6 \<and> length (gm_payload m) = SV_GATEWAY_MAX_PAYLOAD"

definition gateway_magic :: "byte list" where
  "gateway_magic = [0x53, 0x56, 0x57, 0x31]"

section \<open>Encoder and decoder (gateway_protocol.c)\<close>

text \<open>\<open>None\<close> is the return value 0; otherwise the bytes written, whose number is returned.\<close>

definition sv_gateway_encode :: "sv_gateway_message \<Rightarrow> byte list option" where
  "sv_gateway_encode m =
    (let payload_length = gm_payload_length m in
     if gm_kind m < SV_GATEWAY_DISCOVER \<or> SV_GATEWAY_REPORT_BATCH < gm_kind m \<or>
        SV_GATEWAY_MAX_PAYLOAD < payload_length \<or>
        SV_GATEWAY_MAX_REPORTS < gm_report_count m \<or>
        (gm_kind m = SV_GATEWAY_REPORT_BATCH \<and>
         unat payload_length \<noteq> unat (gm_report_count m) * SV_SMOL_REPORT_SIZE) \<or>
        (gm_kind m \<noteq> SV_GATEWAY_REPORT_BATCH \<and>
         (payload_length \<noteq> 0 \<or> gm_report_count m \<noteq> 0))
     then None
     else
      (let n = unat payload_length;
           total = SV_GATEWAY_HEADER_SIZE + n + 4;
           out = zeros total;
           out = blit 0 gateway_magic out;
           out = out[4 := SV_GATEWAY_VERSION];
           out = out[5 := gm_kind m];
           out = out[6 := gm_flags m];
           out = out[7 := gm_report_count m];
           out = blit 8 (gm_gateway_id m) out;
           out = write_le32 16 (gm_boot_id m) out;
           out = write_le32 20 (gm_sequence m) out;
           out = write_le16 24 payload_length out;
           out = write_le16 26 SV_GATEWAY_HEADER_SIZE out;
           out = blit SV_GATEWAY_HEADER_SIZE (take n (gm_payload m)) out
       in Some (write_le32 (SV_GATEWAY_HEADER_SIZE + n)
                  (sv_crc32_ieee out (SV_GATEWAY_HEADER_SIZE + n)) out)))"

definition sv_gateway_decode :: "byte list \<Rightarrow> nat \<Rightarrow> sv_gateway_message option" where
  "sv_gateway_decode input len =
    (if len < SV_GATEWAY_HEADER_SIZE + 4 \<or> take 4 input \<noteq> gateway_magic \<or>
        input ! 4 \<noteq> SV_GATEWAY_VERSION \<or> input ! 5 < SV_GATEWAY_DISCOVER \<or>
        SV_GATEWAY_REPORT_BATCH < input ! 5 \<or> SV_GATEWAY_MAX_REPORTS < input ! 7 \<or>
        read_le16 (drop 26 input) \<noteq> SV_GATEWAY_HEADER_SIZE
     then None
     else
      (let payload_length = read_le16 (drop 24 input); n = unat payload_length in
       if SV_GATEWAY_MAX_PAYLOAD < payload_length \<or>
          len \<noteq> SV_GATEWAY_HEADER_SIZE + n + 4 \<or>
          read_le32 (drop (SV_GATEWAY_HEADER_SIZE + n) input) \<noteq>
            sv_crc32_ieee input (SV_GATEWAY_HEADER_SIZE + n) \<or>
          (input ! 5 = SV_GATEWAY_REPORT_BATCH \<and>
           n \<noteq> unat (input ! 7) * SV_SMOL_REPORT_SIZE) \<or>
          (input ! 5 \<noteq> SV_GATEWAY_REPORT_BATCH \<and> (payload_length \<noteq> 0 \<or> input ! 7 \<noteq> 0))
       then None
       else
         Some \<lparr> gm_kind = input ! 5, gm_flags = input ! 6, gm_report_count = input ! 7,
           gm_gateway_id = bslice 8 6 input,
           gm_boot_id = read_le32 (drop 16 input), gm_sequence = read_le32 (drop 20 input),
           gm_payload_length = payload_length,
           gm_payload = blit 0 (bslice SV_GATEWAY_HEADER_SIZE n input)
             (zeros SV_GATEWAY_MAX_PAYLOAD) \<rparr>))"

section \<open>Valid messages and their layout\<close>

text \<open>What both sides require of a message.\<close>

definition gm_valid :: "sv_gateway_message \<Rightarrow> bool" where
  "gm_valid m \<longleftrightarrow> SV_GATEWAY_DISCOVER \<le> gm_kind m \<and> gm_kind m \<le> SV_GATEWAY_REPORT_BATCH \<and>
     gm_report_count m \<le> SV_GATEWAY_MAX_REPORTS \<and>
     (if gm_kind m = SV_GATEWAY_REPORT_BATCH
      then unat (gm_payload_length m) = unat (gm_report_count m) * SV_SMOL_REPORT_SIZE
      else gm_payload_length m = 0 \<and> gm_report_count m = 0)"

definition gm_data :: "sv_gateway_message \<Rightarrow> byte list" where
  "gm_data m = take (unat (gm_payload_length m)) (gm_payload m)"

definition gm_normal :: "sv_gateway_message \<Rightarrow> sv_gateway_message" where
  "gm_normal m = m\<lparr> gm_payload := gm_data m @ zeros (512 - unat (gm_payload_length m)) \<rparr>"

definition gateway_body :: "sv_gateway_message \<Rightarrow> byte list" where
  "gateway_body m = gateway_magic @
     [SV_GATEWAY_VERSION, gm_kind m, gm_flags m, gm_report_count m] @
     gm_gateway_id m @ [0, 0] @ le_of_word 4 (gm_boot_id m) @ le_of_word 4 (gm_sequence m) @
     le_of_word 2 (gm_payload_length m) @ [28, 0] @ gm_data m"

lemma length_gateway_magic [simp]: "length gateway_magic = 4"
  by (simp add: gateway_magic_def)

lemma gm_valid_count:
  assumes "gm_valid m"
  shows "unat (gm_payload_length m) = 64 * unat (gm_report_count m)"
    and "unat (gm_payload_length m) \<le> 512"
  using assms by (auto simp: gm_valid_def word_le_nat_alt split: if_splits)

lemma sv_gateway_encode_refuses:
  "\<not> gm_valid m \<Longrightarrow> sv_gateway_encode m = None"
  by (auto simp: sv_gateway_encode_def gm_valid_def Let_def not_le split: if_splits)

lemma gm_valid_guard:
  assumes "gm_valid m"
  shows "\<not> (gm_kind m < SV_GATEWAY_DISCOVER \<or> SV_GATEWAY_REPORT_BATCH < gm_kind m \<or>
        SV_GATEWAY_MAX_PAYLOAD < gm_payload_length m \<or>
        SV_GATEWAY_MAX_REPORTS < gm_report_count m \<or>
        (gm_kind m = SV_GATEWAY_REPORT_BATCH \<and>
         unat (gm_payload_length m) \<noteq> unat (gm_report_count m) * SV_SMOL_REPORT_SIZE) \<or>
        (gm_kind m \<noteq> SV_GATEWAY_REPORT_BATCH \<and>
         (gm_payload_length m \<noteq> 0 \<or> gm_report_count m \<noteq> 0)))"
  using assms gm_valid_count [OF assms]
  by (auto simp: gm_valid_def not_less word_less_nat_alt word_le_nat_alt split: if_splits)

lemma length_gateway_body:
  "gm_wf m \<Longrightarrow> gm_valid m \<Longrightarrow> length (gateway_body m) = 28 + unat (gm_payload_length m)"
  using gm_valid_count [of m] by (simp add: gateway_body_def gm_wf_def gm_data_def)

text \<open>The boot id is written past the two reserved bytes, which keep their zeros.\<close>

lemma write_le32_reserved:
  assumes "length pre + 2 = off" and "6 \<le> n"
  shows "write_le32 off v (filled pre n) = filled (pre @ 0 # 0 # le_of_word 4 v) (n - 6)"
  using assms filled_skip [of 2 n pre] write_le32_filled [of "pre @ zeros 2" off "n - 2" v]
  by (simp add: zeros_numeral)

lemma sv_gateway_encode_body:
  assumes "gm_wf m" and "gm_valid m"
  shows "sv_gateway_encode m = Some (gateway_body m @
    le_of_word 4 (sv_crc32_ieee (gateway_body m) (28 + unat (gm_payload_length m))))"
proof -
  let ?n = "unat (gm_payload_length m)"
  have hs: "le_of_word 2 (28 :: u16) = [28, 0]" by (simp add: byte_eval)
  have "?n \<le> 512" and "length (gm_gateway_id m) = 6" and "length (gm_payload m) = 512"
    using gm_valid_count [OF assms(2)] assms(1) by (simp_all add: gm_wf_def)
  then show ?thesis
    using gm_valid_guard [OF assms(2)]
    by (simp add: sv_gateway_encode_def Let_def filled_start buffer_simps hs
        write_le32_reserved gateway_body_def gm_data_def)
qed

section \<open>Round trips\<close>

lemma gateway_body_parts:
  assumes "gm_wf m" and "gm_valid m"
  shows "take 4 (gateway_body m @ xs) = gateway_magic"
    and "(gateway_body m @ xs) ! 4 = SV_GATEWAY_VERSION"
    and "(gateway_body m @ xs) ! 5 = gm_kind m"
    and "(gateway_body m @ xs) ! 6 = gm_flags m"
    and "(gateway_body m @ xs) ! 7 = gm_report_count m"
    and "bslice 8 6 (gateway_body m @ xs) = gm_gateway_id m"
    and "read_le32 (drop 16 (gateway_body m @ xs)) = gm_boot_id m"
    and "read_le32 (drop 20 (gateway_body m @ xs)) = gm_sequence m"
    and "read_le16 (drop 24 (gateway_body m @ xs)) = gm_payload_length m"
    and "read_le16 (drop 26 (gateway_body m @ xs)) = SV_GATEWAY_HEADER_SIZE"
    and "bslice 28 (unat (gm_payload_length m)) (gateway_body m @ xs) = gm_data m"
proof -
  have id: "length (gm_gateway_id m) = 6" and data: "length (gm_data m) = unat (gm_payload_length m)"
    using assms gm_valid_count [OF assms(2)] by (simp_all add: gm_wf_def gm_data_def)
  have hs: "read_le16 (28 # 0 # ys) = 28" for ys
    by (simp add: read_le16_def)
  show "take 4 (gateway_body m @ xs) = gateway_magic"
    and "(gateway_body m @ xs) ! 4 = SV_GATEWAY_VERSION"
    and "(gateway_body m @ xs) ! 5 = gm_kind m"
    and "(gateway_body m @ xs) ! 6 = gm_flags m"
    and "(gateway_body m @ xs) ! 7 = gm_report_count m"
    and "bslice 8 6 (gateway_body m @ xs) = gm_gateway_id m"
    and "read_le32 (drop 16 (gateway_body m @ xs)) = gm_boot_id m"
    and "read_le32 (drop 20 (gateway_body m @ xs)) = gm_sequence m"
    and "read_le16 (drop 24 (gateway_body m @ xs)) = gm_payload_length m"
    and "read_le16 (drop 26 (gateway_body m @ xs)) = SV_GATEWAY_HEADER_SIZE"
    and "bslice 28 (unat (gm_payload_length m)) (gateway_body m @ xs) = gm_data m"
    by (simp_all add: gateway_body_def gateway_magic_def read_le16_word read_le32_word
        bslice_def id data hs)
qed

lemma gateway_roundtrip:
  assumes "gm_wf m" and "gm_valid m" and "sv_gateway_encode m = Some bytes"
  shows "length bytes = 32 + 64 * unat (gm_report_count m)"
    and "sv_gateway_decode bytes (length bytes) = Some (gm_normal m)"
proof -
  let ?n = "unat (gm_payload_length m)"
  let ?crc = "le_of_word 4 (sv_crc32_ieee (gateway_body m) (28 + ?n))"
  have len: "length (gateway_body m) = 28 + ?n"
    using assms(1,2) by (rule length_gateway_body)
  have bytes: "bytes = gateway_body m @ ?crc"
    using assms by (simp add: sv_gateway_encode_body)
  have total: "length bytes = 32 + ?n" by (simp add: bytes len)
  then show "length bytes = 32 + 64 * unat (gm_report_count m)"
    using gm_valid_count(1) [OF assms(2)] by simp
  have crc: "read_le32 (drop (28 + ?n) bytes) = sv_crc32_ieee bytes (28 + ?n)"
    unfolding bytes by (rule crc32_check_le [OF len])
  note parts = gateway_body_parts [OF assms(1,2), of ?crc, folded bytes]
  have pay: "blit 0 (gm_data m) (zeros 512) = gm_data m @ zeros (512 - ?n)"
    using gm_valid_count(2) [OF assms(2)] assms(1) by (simp add: blit_def gm_data_def gm_wf_def)
  have normal: "gm_normal m = \<lparr> gm_kind = gm_kind m, gm_flags = gm_flags m,
      gm_report_count = gm_report_count m, gm_gateway_id = gm_gateway_id m,
      gm_boot_id = gm_boot_id m, gm_sequence = gm_sequence m,
      gm_payload_length = gm_payload_length m,
      gm_payload = gm_data m @ zeros (512 - ?n) \<rparr>"
    by (cases m) (simp add: gm_normal_def)
  show "sv_gateway_decode bytes (length bytes) = Some (gm_normal m)"
    using gm_valid_guard [OF assms(2)]
    by (simp add: sv_gateway_decode_def parts total crc Let_def normal pay)
qed

text \<open>What the decoder accepts, from an arbitrary input.\<close>

lemma guard_cases:
  "\<not> (A \<or> B \<or> C \<or> (K \<and> P) \<or> (\<not> K \<and> (Q \<or> R))) \<Longrightarrow> if K then \<not> P else \<not> Q \<and> \<not> R"
  by auto

lemma gateway_decode_shape:
  fixes input :: "byte list"
  defines "n \<equiv> unat (read_le16 (drop 24 input))"
  assumes "sv_gateway_decode input (length input) = Some m"
  shows "m = \<lparr> gm_kind = input ! 5, gm_flags = input ! 6, gm_report_count = input ! 7,
      gm_gateway_id = bslice 8 6 input,
      gm_boot_id = read_le32 (drop 16 input), gm_sequence = read_le32 (drop 20 input),
      gm_payload_length = read_le16 (drop 24 input),
      gm_payload = blit 0 (bslice 28 n input) (zeros 512) \<rparr>" (is "m = ?m")
    and "take 4 input = gateway_magic" and "input ! 4 = 1"
    and "1 \<le> input ! 5" and "input ! 5 \<le> 5" and "input ! 7 \<le> 8"
    and "read_le16 (drop 26 input) = 28"
    and "n \<le> 512" and "length input = 28 + n + 4"
    and "read_le32 (drop (28 + n) input) = sv_crc32_ieee input (28 + n)"
    and "if input ! 5 = 5 then n = unat (input ! 7) * 64
      else read_le16 (drop 24 input) = 0 \<and> input ! 7 = 0"
proof -
  note decoded = assms(2) [unfolded sv_gateway_decode_def Let_def, folded n_def]
  have first: "\<not> (length input < 28 + 4 \<or> take 4 input \<noteq> gateway_magic \<or>
      input ! 4 \<noteq> 1 \<or> input ! 5 < 1 \<or> 5 < input ! 5 \<or> 8 < input ! 7 \<or>
      read_le16 (drop 26 input) \<noteq> 28)"
    using decoded by (metis option.distinct(1))
  have second: "\<not> (512 < read_le16 (drop 24 input) \<or> length input \<noteq> 28 + n + 4 \<or>
      read_le32 (drop (28 + n) input) \<noteq> sv_crc32_ieee input (28 + n) \<or>
      (input ! 5 = 5 \<and> n \<noteq> unat (input ! 7) * 64) \<or>
      (input ! 5 \<noteq> 5 \<and> (read_le16 (drop 24 input) \<noteq> 0 \<or> input ! 7 \<noteq> 0)))"
    using decoded unfolding if_not_P [OF first] by (metis option.distinct(1))
  show "m = ?m"
    using decoded unfolding if_not_P [OF first] if_not_P [OF second] by (metis option.inject)
  from first show "take 4 input = gateway_magic" and "input ! 4 = 1"
    and "1 \<le> input ! 5" and "input ! 5 \<le> 5" and "input ! 7 \<le> 8"
    and "read_le16 (drop 26 input) = 28"
    unfolding not_less [symmetric] by blast+
  from second have "\<not> 512 < read_le16 (drop 24 input)" by blast
  then show "n \<le> 512" by (simp add: n_def not_less word_le_nat_alt)
  from second show "length input = 28 + n + 4"
    and "read_le32 (drop (28 + n) input) = sv_crc32_ieee input (28 + n)" by blast+
  from guard_cases [OF second] show "if input ! 5 = 5 then n = unat (input ! 7) * 64
      else read_le16 (drop 24 input) = 0 \<and> input ! 7 = 0" by (simp only: not_not)
qed

lemma gateway_decode_props:
  assumes "sv_gateway_decode input (length input) = Some m"
  shows "gm_wf m" and "gm_valid m" and "length input = 32 + 64 * unat (gm_report_count m)"
    and "crc32_feed (- 1) input = crc32_residue"
    and "gm_normal m = m"
proof -
  let ?n = "unat (read_le16 (drop 24 input))"
  note shape = gateway_decode_shape [OF assms]
  note m = shape(1)
  have n: "?n \<le> 512" by (rule shape(8))
  have sl: "length (bslice 28 ?n input) = ?n" "length (bslice 8 6 input) = 6"
    using shape(9) by (intro length_bslice; linarith)+
  show "gm_wf m" using n sl by (simp add: m gm_wf_def length_blit)
  show v: "gm_valid m" using shape(4,5,6,11) by (simp add: m gm_valid_def)
  show "length input = 32 + 64 * unat (gm_report_count m)"
  proof -
    have "unat (gm_payload_length m) = ?n" by (simp add: m)
    with shape(9) gm_valid_count(1) [OF v] show ?thesis by linarith
  qed
  show "crc32_feed (- 1) input = crc32_residue"
    by (rule iffD1 [OF crc32_check_residue [OF shape(9)] shape(10)])
  show "gm_normal m = m"
    using n sl by (simp add: m gm_normal_def gm_data_def blit_def)
qed

interpretation datagram: frame_codec sv_gateway_encode "\<lambda>input. sv_gateway_decode input (length input)"
    "\<lambda>m. gm_wf m \<and> gm_valid m" gm_normal
proof unfold_locales
  fix m input
  assume ok: "gm_wf m \<and> gm_valid m"
  then obtain bytes where "sv_gateway_encode m = Some bytes" using sv_gateway_encode_body by blast
  then show "\<exists>bytes. sv_gateway_encode m = Some bytes \<and> sv_gateway_decode bytes (length bytes) = Some (gm_normal m)"
    using gateway_roundtrip(2) ok by blast
next
  fix m input
  assume "sv_gateway_decode input (length input) = Some m"
  then show "(gm_wf m \<and> gm_valid m) \<and> gm_normal m = m" "crc32_feed (- 1) input = crc32_residue"
    using gateway_decode_props by blast+
qed

lemma gateway_reencode:
  assumes dec: "sv_gateway_decode input (length input) = Some m"
    and res: "bslice 14 2 input = [0, 0]"
  shows "sv_gateway_encode m = Some input"
proof -
  let ?n = "unat (gm_payload_length m)"
  note props = gateway_decode_props [OF dec]
  have n: "?n \<le> 512" "length input = 32 + ?n"
    using gm_valid_count [OF props(2)] props(3) by simp_all
  note shape = gateway_decode_shape [OF dec]
  have fields: "gm_kind m = input ! 5" "gm_flags m = input ! 6" "gm_report_count m = input ! 7"
      "gm_gateway_id m = bslice 8 6 input" "gm_boot_id m = read_le32 (drop 16 input)"
      "gm_sequence m = read_le32 (drop 20 input)"
      "gm_payload_length m = read_le16 (drop 24 input)"
      "gm_payload m = blit 0 (bslice 28 ?n input) (zeros 512)"
    by (simp_all add: shape(1))
  have hs: "bslice 26 2 input = [28, 0]"
    using le16_bslice [of 26 input] n by (simp add: shape(7) byte_eval)
  have le: "le_of_word 4 (read_le32 (drop 16 input)) = bslice 16 4 input"
      "le_of_word 4 (read_le32 (drop 20 input)) = bslice 20 4 input"
      "le_of_word 2 (read_le16 (drop 24 input)) = bslice 24 2 input"
    using n by (intro le32_bslice le16_bslice; linarith)+
  have one: "bslice 4 1 input = [1]" "bslice 5 1 input = [input ! 5]"
      "bslice 6 1 input = [input ! 6]" "bslice 7 1 input = [input ! 7]"
    using n bslice_one [of _ input] shape(3) by simp_all
  have data: "gm_data m = bslice 28 ?n input"
    using n by (simp add: gm_data_def fields(8) blit_def length_bslice)
  have "take (28 + ?n) input = take 4 input @ bslice 4 1 input @ bslice 5 1 input @
      bslice 6 1 input @ bslice 7 1 input @ bslice 8 6 input @ bslice 14 2 input @
      bslice 16 4 input @ bslice 20 4 input @ bslice 24 2 input @ bslice 26 2 input @
      bslice 28 ?n input"
    using take_bslice [of 28 ?n input] take_bslice [of 26 2 input] take_bslice [of 24 2 input]
      take_bslice [of 20 4 input] take_bslice [of 16 4 input] take_bslice [of 14 2 input]
      take_bslice [of 8 6 input] take_bslice [of 7 1 input] take_bslice [of 6 1 input]
      take_bslice [of 5 1 input] take_bslice [of 4 1 input] by simp
  also have "\<dots> = gateway_body m"
    unfolding gateway_body_def data fields(1-7) le res hs shape(2) one by simp
  finally have body: "gateway_body m = take (28 + ?n) input" ..
  have "le_of_word 4 (read_le32 (drop (28 + ?n) input)) = drop (28 + ?n) input"
    using le32_bslice [of "28 + ?n" input] n by (simp add: bslice_def)
  moreover have "read_le32 (drop (28 + ?n) input) = sv_crc32_ieee input (28 + ?n)"
    using crc32_check_residue [of input "28 + ?n"] n props(4) by simp
  ultimately show ?thesis
    using append_take_drop_id [of "28 + ?n" input]
    by (simp add: sv_gateway_encode_body [OF props(1,2)] body sv_crc32_ieee_def)
qed

section \<open>The golden HELLO of golden_vectors.h\<close>

definition golden_hello :: sv_gateway_message where
  "golden_hello = \<lparr> gm_kind = SV_GATEWAY_HELLO, gm_flags = 0, gm_report_count = 0,
     gm_gateway_id = [0x11, 0x22, 0x33, 0x44, 0x55, 0x66], gm_boot_id = 0x78563412,
     gm_sequence = 0xffffffff, gm_payload_length = 0, gm_payload = zeros 512 \<rparr>"

definition golden_hello_bytes :: "byte list" where
  "golden_hello_bytes =
    [0x53, 0x56, 0x57, 0x31, 0x01, 0x03, 0x00, 0x00, 0x11, 0x22, 0x33, 0x44, 0x55, 0x66, 0x00, 0x00,
     0x12, 0x34, 0x56, 0x78, 0xff, 0xff, 0xff, 0xff, 0x00, 0x00, 0x1c, 0x00, 0x62, 0xe7, 0x0a, 0xf1]"

lemma golden_hello_ok: "gm_wf golden_hello" "gm_valid golden_hello"
  by (simp_all add: golden_hello_def gm_wf_def gm_valid_def)

lemma golden_hello_encode: "sv_gateway_encode golden_hello = Some golden_hello_bytes"
proof -
  have body: "gateway_body golden_hello =
    [0x53, 0x56, 0x57, 0x31, 0x01, 0x03, 0x00, 0x00, 0x11, 0x22, 0x33, 0x44, 0x55, 0x66, 0x00, 0x00,
     0x12, 0x34, 0x56, 0x78, 0xff, 0xff, 0xff, 0xff, 0x00, 0x00, 0x1c, 0x00]"
    by (simp add: gateway_body_def golden_hello_def gm_data_def gateway_magic_def byte_eval)
  have len: "gm_payload_length golden_hello = 0" by (simp add: golden_hello_def)
  have crc: "sv_crc32_ieee (gateway_body golden_hello) 28 = 0xf10ae762"
    unfolding body by (simp add: crc32_eval)
  have "sv_gateway_encode golden_hello =
      Some (gateway_body golden_hello @ le_of_word 4 (0xf10ae762 :: u32))"
    using sv_gateway_encode_body [OF golden_hello_ok] by (simp add: len crc)
  then show ?thesis
    by (simp add: body golden_hello_bytes_def byte_eval)
qed

lemma golden_hello_decode:
  "sv_gateway_decode golden_hello_bytes (length golden_hello_bytes) = Some (gm_normal golden_hello)"
  using gateway_roundtrip(2) [OF golden_hello_ok golden_hello_encode] .

section \<open>Properties\<close>

text \<open>
  C26: Encoding a gateway message either refuses it or yields a datagram that decodes to it. It
  is refused exactly when its kind is unknown, it has more than eight reports, or its payload
  length is not 64 bytes per report; otherwise the datagram has 32 bytes and 64 per report, at
  most 544, and decoding it gives the message back with the unused payload zeroed.
\<close>

theorem gateway_datagram_roundtrip:
  assumes "gm_wf m"
  shows "(case sv_gateway_encode m of
      None \<Rightarrow> \<not> gm_valid m
    | Some bytes \<Rightarrow> gm_valid m \<and> length bytes = 32 + 64 * unat (gm_report_count m) \<and>
        length bytes \<le> SV_GATEWAY_MAX_DATAGRAM \<and>
        sv_gateway_decode bytes (length bytes) = Some (gm_normal m))"
proof (cases "gm_valid m")
  case True
  then obtain bytes where bytes: "sv_gateway_encode m = Some bytes"
    using sv_gateway_encode_body [OF assms] by blast
  then show ?thesis
    using gateway_roundtrip [OF assms True bytes] gm_valid_count [OF True] True by simp
qed (simp add: sv_gateway_encode_refuses)

theorem gateway_datagram_roundtrip_witness:
  "gm_wf golden_hello \<and>
   sv_gateway_decode golden_hello_bytes (length golden_hello_bytes) =
     Some (gm_normal golden_hello)"
  using golden_hello_ok(1) gateway_datagram_roundtrip [OF golden_hello_ok(1)]
  unfolding golden_hello_encode option.case by blast

text \<open>
  The decoder is safe and exact on untrusted input of any length: a datagram it accepts has
  exactly the length its header announces (never more than 544 bytes), it yields a message
  that satisfies every constraint of the protocol, and that message encodes to the same bytes
  when the two reserved bytes are zero.
\<close>

theorem gateway_decode_sound:
  assumes "sv_gateway_decode input (length input) = Some m"
  shows "gm_wf m \<and> gm_valid m \<and> length input = 32 + 64 * unat (gm_report_count m) \<and>
    length input \<le> SV_GATEWAY_MAX_DATAGRAM \<and>
    (bslice 14 2 input = [0, 0] \<longrightarrow> sv_gateway_encode m = Some input)"
  using gateway_decode_props [OF assms] gateway_reencode [OF assms] gm_valid_count [of m]
  by simp

theorem gateway_decode_sound_witness:
  "gm_valid (gm_normal golden_hello) \<and>
   sv_gateway_encode (gm_normal golden_hello) = Some golden_hello_bytes"
  using gateway_decode_sound [OF golden_hello_decode]
  by (simp add: golden_hello_bytes_def bslice_def byte_eval)

text \<open>
  The datagram CRC detects every burst of corruption of up to four consecutive bytes
  anywhere in an accepted datagram, its own field and the length fields included.
\<close>

theorem gateway_detects_bursts:
  assumes "sv_gateway_decode (xs @ bs @ ys) (length (xs @ bs @ ys)) \<noteq> None"
    and "length cs = length bs" and "length bs \<le> 4" and "cs \<noteq> bs"
  shows "sv_gateway_decode (xs @ cs @ ys) (length (xs @ cs @ ys)) = None"
  using assms by (rule datagram.burst)

theorem gateway_detects_bursts_witness:
  "sv_gateway_decode ([0x53, 0x56, 0x57, 0x31, 0x01, 0x03, 0x00, 0x00, 0x11] @ [0x23] @
    [0x33, 0x44, 0x55, 0x66, 0x00, 0x00, 0x12, 0x34, 0x56, 0x78, 0xff, 0xff, 0xff, 0xff,
     0x00, 0x00, 0x1c, 0x00, 0x62, 0xe7, 0x0a, 0xf1])
    (length ([0x53, 0x56, 0x57, 0x31, 0x01, 0x03, 0x00, 0x00, 0x11] @ [0x23] @
    [0x33, 0x44, 0x55, 0x66, 0x00, 0x00, 0x12, 0x34, 0x56, 0x78, 0xff, 0xff, 0xff, 0xff,
     0x00, 0x00, 0x1c, 0x00, 0x62, 0xe7, 0x0a, 0xf1 :: byte])) = None"
  by (rule gateway_detects_bursts [of _ "[0x22]"])
     (use golden_hello_decode in \<open>simp_all add: golden_hello_bytes_def\<close>)

text \<open>
  The encoder produces the golden HELLO datagram of \<open>protocol/golden_vectors.h\<close>.
\<close>

theorem gateway_golden_vector: "sv_gateway_encode golden_hello = Some golden_hello_bytes"
  by (rule golden_hello_encode)

end
