(* ===== verification/Gateway_Udp.thy ===== *)
theory Gateway_Udp
  imports Wifi_Manager Gateway_Protocol Fifo_Source
begin

text \<open>
  The gateway's UDP task, \<open>firmware/esp32c5/main/gateway_udp.c\<close>: finding the server, keeping the
  session with it alive and forwarding the reports of the SPI link in batches. The static variables
  are the \<open>gw_\<close> fields of the state, the local variables of \<open>gateway_task\<close> that live across the
  turns of its loop are the record \<open>gateway_session\<close>. A tick is one millisecond
  (\<open>CONFIG_FREERTOS_HZ\<close> is 1000). Tasks interleave at turns, which end where the task blocks.
\<close>

section \<open>State (gateway_udp.c, gateway_udp.h)\<close>

abbreviation (input) DISCOVER_INTERVAL_MS :: u32 where "DISCOVER_INTERVAL_MS \<equiv> 1000"
abbreviation (input) HELLO_INTERVAL_MS :: u32 where "HELLO_INTERVAL_MS \<equiv> 1000"
abbreviation (input) ACK_TIMEOUT_MS :: u32 where "ACK_TIMEOUT_MS \<equiv> 3000"
abbreviation (input) UINT32_MAX :: u32 where "UINT32_MAX \<equiv> 0xffffffff"
abbreviation (input) INADDR_BROADCAST :: u32 where "INADDR_BROADCAST \<equiv> 0xffffffff"

record gateway_udp_stats =
  gs_server_connected :: bool
  gs_datagrams_sent :: u32
  gs_reports_sent :: u32
  gs_reports_discarded :: u32
  gs_receive_errors :: u32
  gs_last_ack_age_ms :: u32

record 'v gateway_state = "'v wifi_state" +
  gw_gateway_id :: "byte list"
  gw_boot_id :: u32
  gw_sequence :: u32
  gw_stats :: gateway_udp_stats
  gw_last_ack :: u32

record gateway_session =
  se_fixed_server :: bool
  se_server :: sockaddr_in
  se_server_known :: bool
  se_last_discover :: u32
  se_last_hello :: u32

definition gateway_boot :: "'v \<Rightarrow> 'v gateway_state" where
  "gateway_boot v = wifi_state.extend (wifi_boot v)
     \<lparr> gw_gateway_id = zeros 6, gw_boot_id = 0, gw_sequence = 0,
       gw_stats = \<lparr> gs_server_connected = False, gs_datagrams_sent = 0, gs_reports_sent = 0,
         gs_reports_discarded = 0, gs_receive_errors = 0, gs_last_ack_age_ms = 0 \<rparr>,
       gw_last_ack = 0 \<rparr>"

abbreviation server_up :: "('v, 'x) gateway_state_scheme \<Rightarrow> bool" where
  "server_up s \<equiv> gs_server_connected (gw_stats s)"

lemma gateway_boot_simps [simp]:
  "env (gateway_boot v) = v" "cf_current (gateway_boot v) = defaults"
  "gw_gateway_id (gateway_boot v) = zeros 6" "gw_sequence (gateway_boot v) = 0"
  "\<not> server_up (gateway_boot v)" "bs_reports (eb_stats (gateway_boot v)) = 0"
  "gs_reports_sent (gw_stats (gateway_boot v)) = 0"
  "gs_reports_discarded (gw_stats (gateway_boot v)) = 0"
  by (simp_all add: gateway_boot_def wifi_state.extend_def wifi_boot_def app_state.extend_def
      app_boot_def esp_state.extend_def esp_boot_def)

section \<open>Operations\<close>

definition resolve_server ::
    "'v esp_platform \<Rightarrow> app_config \<Rightarrow> 'v \<Rightarrow> bool \<times> sockaddr_in \<times> 'v" where
  "resolve_server p config v =
    (let address = \<lparr> sin_addr = 0, sin_port = ac_server_port config \<rparr> in
     if ac_server config = [] then (False, address, v)
     else (case resolve_host p (ac_server config) v of
             (None, v) \<Rightarrow> (False, address, v)
           | (Some a, v) \<Rightarrow> (True, address\<lparr> sin_addr := a \<rparr>, v)))"

text \<open>\<open>reports\<close> are the bytes of \<open>report_count\<close> reports.\<close>

definition send_message ::
    "'v esp_platform \<Rightarrow> sockaddr_in \<Rightarrow> byte \<Rightarrow> byte list \<Rightarrow> byte \<Rightarrow>
     ('v, 'x) gateway_state_scheme \<Rightarrow> int \<times> ('v, 'x) gateway_state_scheme" where
  "send_message p destination kind reports report_count s =
    (let n = unat report_count * SV_SMOL_REPORT_SIZE;
         message = \<lparr> gm_kind = kind, gm_flags = 0, gm_report_count = report_count,
           gm_gateway_id = gw_gateway_id s, gm_boot_id = gw_boot_id s, gm_sequence = gw_sequence s,
           gm_payload_length = of_nat n,
           gm_payload = blit 0 (take n reports) (zeros SV_GATEWAY_MAX_PAYLOAD) \<rparr>;
         s = s\<lparr> gw_sequence := gw_sequence s + 1 \<rparr> in
     case sv_gateway_encode message of
       None \<Rightarrow> (- 1, s)
     | Some bytes \<Rightarrow>
         (let (sent, v) = udp_send p destination bytes (env s); s = s\<lparr> env := v \<rparr> in
          if sent = int (length bytes)
          then (sent, s\<lparr> gw_stats := (gw_stats s)
                 \<lparr> gs_datagrams_sent := gs_datagrams_sent (gw_stats s) + 1,
                   gs_reports_sent := gs_reports_sent (gw_stats s) + ucast report_count \<rparr> \<rparr>)
          else (sent, s)))"

definition receive_error :: "('v, 'x) gateway_state_scheme \<Rightarrow> ('v, 'x) gateway_state_scheme" where
  "receive_error s = s\<lparr> gw_stats := (gw_stats s)\<lparr> gs_receive_errors := gs_receive_errors (gw_stats s) + 1 \<rparr> \<rparr>"

text \<open>What \<open>receive_control\<close> does with a datagram, and the whole of it.\<close>

definition handle_datagram ::
    "'v esp_platform \<Rightarrow> sockaddr_in \<Rightarrow> byte list \<Rightarrow> gateway_session \<Rightarrow> ('v, 'x) gateway_state_scheme \<Rightarrow>
     gateway_session \<times> ('v, 'x) gateway_state_scheme" where
  "handle_datagram p source bytes e s =
    (case sv_gateway_decode bytes (length bytes) of
       None \<Rightarrow> (e, receive_error s)
     | Some message \<Rightarrow>
         if gm_gateway_id message \<noteq> gw_gateway_id s \<or> gm_boot_id message \<noteq> gw_boot_id s then (e, s)
         else if gm_kind message = SV_GATEWAY_OFFER then
           (e\<lparr> se_server := source, se_server_known := True \<rparr>,
            snd (send_message p source SV_GATEWAY_HELLO [] 0 s))
         else if gm_kind message = SV_GATEWAY_ACK \<and> se_server_known e \<and>
             sin_addr source = sin_addr (se_server e) then
           (e, s\<lparr> gw_last_ack := tick_count p (env s),
                 gw_stats := (gw_stats s)\<lparr> gs_server_connected := True \<rparr> \<rparr>)
         else (e, s))"

definition receive_control ::
    "'v esp_platform \<Rightarrow> gateway_session \<Rightarrow> ('v, 'x) gateway_state_scheme \<Rightarrow>
     gateway_session \<times> ('v, 'x) gateway_state_scheme" where
  "receive_control p e s =
    (let (received, v) = udp_receive p (env s); s = s\<lparr> env := v \<rparr> in
     case received of
       Inl would_block \<Rightarrow> (e, if would_block then s else receive_error s)
     | Inr (source, bytes) \<Rightarrow> handle_datagram p source (take SV_GATEWAY_MAX_DATAGRAM bytes) e s)"

definition count_discarded :: "u32 \<Rightarrow> ('v, 'x) gateway_state_scheme \<Rightarrow> ('v, 'x) gateway_state_scheme" where
  "count_discarded n s = s\<lparr> gw_stats := (gw_stats s)
     \<lparr> gs_reports_discarded := gs_reports_discarded (gw_stats s) + n \<rparr> \<rparr>"

text \<open>The loop ends only if reports do not come in faster than they are thrown away.\<close>

definition discard_pending_reports ::
    "'v esp_platform \<Rightarrow> ('v, 'x) gateway_state_scheme \<Rightarrow> ('v, 'x) gateway_state_scheme option" where
  "discard_pending_reports p = receive_all (bridge_spi_receive_report p) (\<lambda>report. count_discarded 1)"

text \<open>One turn of the loop that waits for the network, \<open>waited\<close> ticks of at most one.\<close>

definition offline_turn ::
    "'v esp_platform \<Rightarrow> u32 \<Rightarrow> ('v, 'x) gateway_state_scheme \<Rightarrow> ('v, 'x) gateway_state_scheme option" where
  "offline_turn p waited s =
    map_option (\<lambda>s. s\<lparr> env := delay_ticks p waited (env s) \<rparr>) (discard_pending_reports p s)"

text \<open>
  The start of a session once the network is up: \<open>opened\<close> says whether the socket was, \<open>junk\<close> is
  what the uninitialised \<open>server\<close> holds.
\<close>

definition start_session ::
    "'v esp_platform \<Rightarrow> app_config \<Rightarrow> sockaddr_in \<Rightarrow> bool \<Rightarrow> ('v, 'x) gateway_state_scheme \<Rightarrow>
     gateway_session option \<times> ('v, 'x) gateway_state_scheme" where
  "start_session p config junk opened s =
    (if \<not> opened then (None, s\<lparr> env := delay_ticks p 1000 (env s) \<rparr>)
     else
      (let fixed_server = (ac_server config \<noteq> []);
           (server_known, server, v) = (if fixed_server then resolve_server p config (env s)
             else (False, junk, env s));
           s = s\<lparr> env := v, gw_last_ack := 0,
             gw_stats := (gw_stats s)\<lparr> gs_server_connected := False \<rparr> \<rparr>
       in (Some \<lparr> se_fixed_server = fixed_server, se_server = server, se_server_known = server_known,
             se_last_discover = 0, se_last_hello = 0 \<rparr>, s)))"

text \<open>The parts of a turn: looking for a server, HELLO, the timeout and the reports.\<close>

definition discover_address :: "app_config \<Rightarrow> sockaddr_in" where
  "discover_address config = \<lparr> sin_addr = INADDR_BROADCAST, sin_port = ac_server_port config \<rparr>"

definition find_server ::
    "'v esp_platform \<Rightarrow> app_config \<Rightarrow> u32 \<Rightarrow> gateway_session \<times> ('v, 'x) gateway_state_scheme \<Rightarrow>
     gateway_session \<times> ('v, 'x) gateway_state_scheme" where
  "find_server p config now r =
    (let (e, s) = r in
     if se_fixed_server e \<and> \<not> se_server_known e \<and> DISCOVER_INTERVAL_MS \<le> now - se_last_discover e then
       (let (known, server, v) = resolve_server p config (env s)
        in (e\<lparr> se_server := server, se_server_known := known, se_last_discover := now \<rparr>, s\<lparr> env := v \<rparr>))
     else if \<not> se_fixed_server e \<and> \<not> se_server_known e \<and> DISCOVER_INTERVAL_MS \<le> now - se_last_discover e then
       (e\<lparr> se_last_discover := now \<rparr>,
        snd (send_message p (discover_address config) SV_GATEWAY_DISCOVER [] 0 s))
     else (e, s))"

definition say_hello ::
    "'v esp_platform \<Rightarrow> u32 \<Rightarrow> gateway_session \<times> ('v, 'x) gateway_state_scheme \<Rightarrow>
     gateway_session \<times> ('v, 'x) gateway_state_scheme" where
  "say_hello p now r =
    (let (e, s) = r in
     if se_server_known e \<and> HELLO_INTERVAL_MS \<le> now - se_last_hello e then
       (e\<lparr> se_last_hello := now \<rparr>, snd (send_message p (se_server e) SV_GATEWAY_HELLO [] 0 s))
     else (e, s))"

definition check_timeout ::
    "u32 \<Rightarrow> gateway_session \<times> ('v, 'x) gateway_state_scheme \<Rightarrow>
     gateway_session \<times> ('v, 'x) gateway_state_scheme" where
  "check_timeout now r =
    (let (e, s) = r in
     if server_up s \<and> ACK_TIMEOUT_MS \<le> now - gw_last_ack s then
       (if \<not> se_fixed_server e then e\<lparr> se_server_known := False \<rparr> else e,
        s\<lparr> gw_stats := (gw_stats s)\<lparr> gs_server_connected := False \<rparr> \<rparr>)
     else (e, s))"

definition forward_reports ::
    "'v esp_platform \<Rightarrow> gateway_session \<Rightarrow> ('v, 'x) gateway_state_scheme \<Rightarrow>
     ('v, 'x) gateway_state_scheme option" where
  "forward_reports p e s =
    (if server_up s then
       (let (reports, s) = receive_up_to (bridge_spi_receive_report p) SV_GATEWAY_MAX_REPORTS s;
            count = (of_nat (length reports) :: byte) in
        if count \<noteq> 0 then
          (let (sent, s) = send_message p (se_server e) SV_GATEWAY_REPORT_BATCH (concat reports) count s
           in Some (if sent < 0 then count_discarded (ucast count) s else s))
        else Some s)
     else discard_pending_reports p s)"

text \<open>One turn of the loop over a session.\<close>

definition session_control ::
    "'v esp_platform \<Rightarrow> app_config \<Rightarrow> gateway_session \<Rightarrow> ('v, 'x) gateway_state_scheme \<Rightarrow>
     u32 \<times> gateway_session \<times> ('v, 'x) gateway_state_scheme" where
  "session_control p config e s =
    (let (e, s) = receive_control p e s; now = tick_count p (env s)
     in (now, check_timeout now (say_hello p now (find_server p config now (e, s)))))"

definition session_turn ::
    "'v esp_platform \<Rightarrow> app_config \<Rightarrow> gateway_session \<Rightarrow> ('v, 'x) gateway_state_scheme \<Rightarrow>
     (gateway_session \<times> ('v, 'x) gateway_state_scheme) option" where
  "session_turn p config e s =
    (let (now, e, s) = session_control p config e s in
     map_option (\<lambda>s. (e, s\<lparr> gw_stats := (gw_stats s)\<lparr> gs_last_ack_age_ms :=
           (if gw_last_ack s = 0 then UINT32_MAX else now - gw_last_ack s) \<rparr>,
         env := delay_ticks p 1 (env s) \<rparr>))
       (forward_reports p e s))"

text \<open>
  The other tasks run while this one loops over the reports; the SPI task has the higher priority
  and may queue reports in between. In the functions that follow, \<open>others n\<close> is what they do
  before the n-th receive of the loop. With \<open>others n s = s\<close> these are the functions above.
\<close>

type_synonym ('v, 'x) others = "nat \<Rightarrow> ('v, 'x) gateway_state_scheme \<Rightarrow> ('v, 'x) gateway_state_scheme"

partial_function (option) discard_among ::
    "'v esp_platform \<Rightarrow> ('v, 'x) others \<Rightarrow> nat \<Rightarrow> ('v, 'x) gateway_state_scheme \<Rightarrow>
     ('v, 'x) gateway_state_scheme option" where
  "discard_among p others n s =
    (case bridge_spi_receive_report p (others n s) of
       None \<Rightarrow> Some (others n s)
     | Some (report, s) \<Rightarrow> discard_among p others (Suc n) (count_discarded 1 s))"

primrec gather_among ::
    "'v esp_platform \<Rightarrow> ('v, 'x) others \<Rightarrow> nat \<Rightarrow> nat \<Rightarrow> ('v, 'x) gateway_state_scheme \<Rightarrow>
     byte list list \<times> ('v, 'x) gateway_state_scheme" where
  "gather_among p others 0 n s = ([], s)"
| "gather_among p others (Suc k) n s =
    (case bridge_spi_receive_report p (others n s) of
       None \<Rightarrow> ([], others n s)
     | Some (report, s) \<Rightarrow>
         (let (reports, s) = gather_among p others k (Suc n) s in (report # reports, s)))"

definition forward_among ::
    "'v esp_platform \<Rightarrow> ('v, 'x) others \<Rightarrow> gateway_session \<Rightarrow> ('v, 'x) gateway_state_scheme \<Rightarrow>
     ('v, 'x) gateway_state_scheme option" where
  "forward_among p others e s =
    (if server_up s then
       (let (reports, s) = gather_among p others SV_GATEWAY_MAX_REPORTS 0 s;
            count = (of_nat (length reports) :: byte) in
        if count \<noteq> 0 then
          (let (sent, s) = send_message p (se_server e) SV_GATEWAY_REPORT_BATCH (concat reports) count s
           in Some (if sent < 0 then count_discarded (ucast count) s else s))
        else Some s)
     else discard_among p others 0 s)"

text \<open>
  The task: one turn of the loop it is in, \<open>None\<close> the one that waits for the network. A turn is given
  what \<open>start_session\<close> and \<open>offline_turn\<close> leave open, and what the other tasks do in its loops over
  the reports and, after it, until the next turn. The configuration is read once.
\<close>

definition gateway_task_turn ::
    "'v esp_platform \<Rightarrow> app_config \<Rightarrow> sockaddr_in \<times> bool \<times> u32 \<Rightarrow> ('v, 'x) others \<Rightarrow>
     gateway_session option \<times> ('v, 'x) gateway_state_scheme \<Rightarrow>
     (gateway_session option \<times> ('v, 'x) gateway_state_scheme) option" where
  "gateway_task_turn p config input others r =
    (let (junk, opened, waited) = input; (session, s) = r in
     case session of
       None \<Rightarrow>
         if wifi_manager_is_connected s then Some (start_session p config junk opened s)
         else map_option (\<lambda>s. (None, s\<lparr> env := delay_ticks p waited (env s) \<rparr>))
                (discard_among p others 0 s)
     | Some e \<Rightarrow>
         if wifi_manager_is_connected s then
           (let (now, e, s) = session_control p config e s in
            map_option (\<lambda>s. (Some e, s\<lparr> gw_stats := (gw_stats s)\<lparr> gs_last_ack_age_ms :=
                  (if gw_last_ack s = 0 then UINT32_MAX else now - gw_last_ack s) \<rparr>,
                env := delay_ticks p 1 (env s) \<rparr>))
              (forward_among p others e s))
         else Some (None, s))"

type_synonym ('v, 'x) task_turn =
  "(sockaddr_in \<times> bool \<times> u32) \<times> ('v, 'x) others \<times>
   (('v, 'x) gateway_state_scheme \<Rightarrow> ('v, 'x) gateway_state_scheme)"

primrec gateway_turns ::
    "'v esp_platform \<Rightarrow> app_config \<Rightarrow> ('v, 'x) task_turn list \<Rightarrow>
     gateway_session option \<times> ('v, 'x) gateway_state_scheme \<Rightarrow>
     (gateway_session option \<times> ('v, 'x) gateway_state_scheme) option" where
  "gateway_turns p config [] r = Some r"
| "gateway_turns p config (turn # turns) r =
    (case turn of (input, others, afterwards) \<Rightarrow>
       Option.bind (gateway_task_turn p config input others r) (\<lambda>(session, s).
         gateway_turns p config turns (session, afterwards s)))"

definition gateway_task ::
    "'v esp_platform \<Rightarrow> ('v, 'x) task_turn list \<Rightarrow> ('v, 'x) gateway_state_scheme \<Rightarrow>
     (gateway_session option \<times> ('v, 'x) gateway_state_scheme) option" where
  "gateway_task p turns s = gateway_turns p (app_config_get s) turns (None, s)"

definition gateway_udp_init ::
    "'v esp_platform \<Rightarrow> ('v, 'x) gateway_state_scheme \<Rightarrow> int \<times> ('v, 'x) gateway_state_scheme" where
  "gateway_udp_init p s =
    (let (error, mac) = read_mac p WIFI_MODE_STA (env s) in
     if error \<noteq> ESP_OK then (error, s)
     else
      (let (boot_id, v) = random_u32 p (env s);
           (created, v) = task_create p ''gateway-udp'' v;
           s = s\<lparr> gw_gateway_id := mac, gw_boot_id := boot_id, env := v \<rparr>
       in (if created then ESP_OK else ESP_ERR_NO_MEM, s)))"

definition gateway_udp_get_stats :: "('v, 'x) gateway_state_scheme \<Rightarrow> gateway_udp_stats" where
  "gateway_udp_get_stats s = gw_stats s"

end
