(* ===== verification/Gateway_Session.thy ===== *)
theory Gateway_Session
  imports Gateway_Udp
begin

text \<open>
  What the gateway's UDP task guarantees: which datagrams can change the session, what a batch of
  reports holds, when the session ends, and that no report leaves the queue without being counted
  as sent or as discarded, whatever the tasks do and in whatever order.
\<close>

section \<open>The queue of reports\<close>

lemma receive_report_some:
  "bridge_spi_receive_report p s = Some (r, s') \<Longrightarrow>
   \<exists>v. queue_receive p (env s) = Some (r, v) \<and> s' = s\<lparr> env := v \<rparr>"
  by (auto simp: bridge_spi_receive_report_def)

lemma report_source:
  "queue_ok p q \<Longrightarrow> fifo_source (bridge_spi_receive_report p) (\<lambda>s. q (env s)) (\<lambda>s. True)"
  by unfold_locales (auto simp: bridge_spi_receive_report_def dest: queue_ok_receive)

text \<open>Receiving touches nothing but the queue.\<close>

lemma receive_up_to_frame:
  "\<exists>v. snd (receive_up_to (bridge_spi_receive_report p) n s) = s\<lparr> env := v \<rparr>"
proof (induction n arbitrary: s)
  case 0
  then show ?case by (auto intro: exI [of _ "env s"])
next
  case (Suc n)
  show ?case
  proof (cases "bridge_spi_receive_report p s")
    case None
    then show ?thesis by (auto intro: exI [of _ "env s"])
  next
    case (Some rs')
    then obtain r v where "bridge_spi_receive_report p s = Some (r, s\<lparr> env := v \<rparr>)"
      using receive_report_some by (metis surj_pair)
    then show ?thesis using Suc.IH [of "s\<lparr> env := v \<rparr>"] by (auto simp: split_beta)
  qed
qed

lemma receive_up_to_sent:
  assumes "udp_recorded p sent"
  shows "sent (env (snd (receive_up_to (bridge_spi_receive_report p) n s))) = sent (env s)"
proof (induction n arbitrary: s)
  case (Suc n)
  then show ?case
    using assms receive_report_some
    by (fastforce simp: split_beta udp_recorded_def split: option.split)
qed simp

text \<open>Discarding ends, empties the queue and counts what was in it.\<close>

lemma count_discarded_simps [simp]:
  "env (count_discarded n s) = env s" "eb_stats (count_discarded n s) = eb_stats s"
  "gw_last_ack (count_discarded n s) = gw_last_ack s" "server_up (count_discarded n s) = server_up s"
  "gs_reports_sent (gw_stats (count_discarded n s)) = gs_reports_sent (gw_stats s)"
  "gs_reports_discarded (gw_stats (count_discarded n s)) = gs_reports_discarded (gw_stats s) + n"
  by (simp_all add: count_discarded_def)

lemma count_discarded_0 [simp]: "count_discarded 0 s = s"
  by (simp add: count_discarded_def)

lemma count_discarded_add [simp]:
  "count_discarded m (count_discarded n s) = count_discarded (n + m) s"
  by (simp add: count_discarded_def add.assoc)

lemma count_discarded_env: "count_discarded n s\<lparr> env := v \<rparr> = count_discarded n (s\<lparr> env := v \<rparr>)"
  by (simp add: count_discarded_def)

lemma discard_ends:
  fixes s :: "('v, 'x) gateway_state_scheme"
  assumes "queue_ok p q"
  shows "\<exists>v. discard_pending_reports p s =
      Some (count_discarded (of_nat (length (q (env s)))) (s\<lparr> env := v \<rparr>)) \<and> q v = []"
proof -
  let ?recv = "bridge_spi_receive_report p" and ?P = "\<lambda>n s u. \<exists>v. u = count_discarded (of_nat n) (s\<lparr> env := v \<rparr>)"
  note src = report_source [OF assms]
  obtain s' where s': "receive_all ?recv (\<lambda>_. count_discarded 1) s = Some s'" "q (env s') = []"
    using fifo_source.all_ends [OF src, of "\<lambda>_. count_discarded 1" s] by auto
  have "?P (length (q (env s))) s s'"
  proof (rule fifo_source.all_induct [OF src _ _ _ s'(1)])
    fix s :: "('v, 'x) gateway_state_scheme"
    show "?P 0 s s" by (rule exI [of _ "env s"]) simp
  next
    fix s r t u n
    assume "?recv s = Some (r, t)" and "?P n (count_discarded 1 t) u"
    then show "?P (Suc n) s u"
      using receive_report_some by (fastforce simp: count_discarded_env)
  qed simp_all
  then show ?thesis using s' by (auto simp: discard_pending_reports_def)
qed

lemma forward_ends: "queue_ok p q \<Longrightarrow> \<exists>s'. forward_reports p e s = Some s'"
  using discard_ends [of p q] by (auto simp: forward_reports_def split_beta Let_def)

section \<open>The messages\<close>

lemma send_message_frame:
  defines "t \<equiv> \<lambda>p d k r c s. snd (send_message p d k r c (s :: ('v, 'x) gateway_state_scheme))"
  shows "gw_last_ack (t p d k r c s) = gw_last_ack s" "server_up (t p d k r c s) = server_up s"
    "gw_gateway_id (t p d k r c s) = gw_gateway_id s" "gw_boot_id (t p d k r c s) = gw_boot_id s"
    "gw_sequence (t p d k r c s) = gw_sequence s + 1" "eb_stats (t p d k r c s) = eb_stats s"
    "gs_reports_discarded (gw_stats (t p d k r c s)) = gs_reports_discarded (gw_stats s)"
    "gs_receive_errors (gw_stats (t p d k r c s)) = gs_receive_errors (gw_stats s)"
  by (simp_all add: t_def send_message_def Let_def split_beta split: option.split)

text \<open>With a socket that sends whole datagrams, the reports are counted exactly if they were sent.\<close>

lemma send_message_counts:
  assumes "udp_whole p" and "send_message p d k r c s = (sent, s')"
  shows "gs_reports_sent (gw_stats s') = gs_reports_sent (gw_stats s) + (if sent < 0 then 0 else ucast c)"
proof (rule disjE)
  show "(\<exists>b. fst (udp_send p d b (env s)) = int (length b) \<and> sent = int (length b) \<and>
      gs_reports_sent (gw_stats s') = gs_reports_sent (gw_stats s) + ucast c) \<or>
    sent < 0 \<and> gs_reports_sent (gw_stats s') = gs_reports_sent (gw_stats s)"
    using assms by (auto simp: send_message_def Let_def split_beta udp_whole_def split: option.splits if_splits)
      (metis of_nat_less_0_iff)+
qed auto

lemma send_message_queue:
  "queue_ok p q \<Longrightarrow> q (env (snd (send_message p d k r c s))) = q (env s)"
  by (simp add: send_message_def Let_def split_beta queue_ok_frame split: option.split)

section \<open>Where the reports go\<close>

text \<open>Reports sent, discarded or still waiting, against the reports put into the queue.\<close>

definition balance :: "('v \<Rightarrow> byte list list) \<Rightarrow> ('v, 'x) gateway_state_scheme \<Rightarrow> u32" where
  "balance q s = gs_reports_sent (gw_stats s) + gs_reports_discarded (gw_stats s) +
     of_nat (length (q (env s))) - bs_reports (eb_stats s)"

lemma balance_same:
  assumes "gw_stats s' = gw_stats s" and "q (env s') = q (env s)" and "eb_stats s' = eb_stats s"
  shows "balance q s' = balance q s"
  using assms by (simp add: balance_def)

lemma balance_env: "q v = q (env s) \<Longrightarrow> balance q (s\<lparr> env := v \<rparr>) = balance q s"
  by (simp add: balance_def)

lemma balance_receive_error [simp]: "balance q (receive_error s) = balance q s"
  by (simp add: balance_def receive_error_def)

lemma balance_discard:
  assumes "queue_ok p q" and "discard_pending_reports p s = Some s'"
  shows "balance q s' = balance q s"
  using discard_ends [OF assms(1), of s] assms(2) by (auto simp: balance_def count_discarded_def)

lemma balance_message:
  assumes "queue_ok p q" and "udp_whole p"
  shows "balance q (snd (send_message p d k r 0 s)) = balance q s"
  using send_message_counts [OF assms(2) surjective_pairing, of d k r 0 s] assms(1)
  by (simp add: balance_def send_message_frame send_message_queue)

lemma count_byte:
  assumes "n \<le> 8"
  shows "(ucast (of_nat n :: byte) :: u32) = of_nat n" and "unat (of_nat n :: byte) = n"
    and "(of_nat n :: byte) = 0 \<longleftrightarrow> n = 0"
proof -
  have n: "take_bit 8 n = n" using assms by (simp add: take_bit_nat_eq_self_iff)
  then show "(ucast (of_nat n :: byte) :: u32) = of_nat n" "unat (of_nat n :: byte) = n"
    by (simp_all add: unsigned_of_nat)
  then show "(of_nat n :: byte) = 0 \<longleftrightarrow> n = 0" by (metis unat_eq_0)
qed

lemma balance_forward:
  assumes ok: "queue_ok p q" "udp_whole p" and fwd: "forward_reports p e s = Some s'"
  shows "balance q s' = balance q s"
proof (cases "server_up s")
  case False
  then show ?thesis using fwd balance_discard [OF ok(1)] by (simp add: forward_reports_def)
next
  case True
  obtain rs t where r: "receive_up_to (bridge_spi_receive_report p) 8 s = (rs, t)" by fastforce
  let ?c = "of_nat (length rs) :: byte"
  obtain v where t: "t = s\<lparr> env := v \<rparr>" using receive_up_to_frame [of p 8 s] r by auto
  have rs: "rs = take 8 (q (env s))" "q v = drop 8 (q (env s))"
    using fifo_source.up_to_contents [OF report_source [OF ok(1)] TrueI, where s = s and n = 8] r t by simp_all
  have len: "length rs \<le> 8" using rs(1) by simp
  have c: "(ucast ?c :: u32) = of_nat (length rs)" "?c = 0 \<longleftrightarrow> rs = []"
    using len count_byte [of "length rs"] by simp_all
  have all: "length (q (env s)) = length rs + length (q v)" using rs by simp
  show ?thesis
  proof (cases "rs = []")
    case True
    then show ?thesis
      using fwd \<open>server_up s\<close> c(2) all by (auto simp: forward_reports_def r t balance_def)
  next
    case False
    obtain sent u where u: "send_message p (se_server e) 5 (concat rs) ?c t = (sent, u)" by fastforce
    have s': "s' = (if sent < 0 then count_discarded (ucast ?c) u else u)"
      using fwd \<open>server_up s\<close> False c(2) u by (simp add: forward_reports_def r)
    show ?thesis
      using send_message_counts [OF ok(2) u] send_message_queue [OF ok(1), of "se_server e" 5 "concat rs" ?c t]
        send_message_frame(6,7) [of p "se_server e" 5 "concat rs" ?c t] u
      by (simp add: s' balance_def t all c(1))
  qed
qed

lemma balance_datagram:
  assumes ok: "queue_ok p q" "udp_whole p"
  shows "balance q (snd (handle_datagram p src b e s)) = balance q s"
proof -
  have "balance q (s\<lparr> gw_last_ack := n, gw_stats := (gw_stats s)\<lparr> gs_server_connected := c \<rparr> \<rparr>) = balance q s" for n c
    by (simp add: balance_def)
  then show ?thesis
    using balance_message [OF ok] by (auto simp: handle_datagram_def split: option.split)
qed

lemma balance_control:
  assumes ok: "queue_ok p q" "udp_whole p"
  shows "balance q (snd (snd (session_control p config e s))) = balance q s"
proof -
  note env = balance_env [of q, OF queue_ok_frame(2) [OF ok(1)]] balance_env [of q, OF queue_ok_frame(3) [OF ok(1)]]
  obtain e1 s1 where s1: "receive_control p e s = (e1, s1)" by fastforce
  have "balance q (snd (receive_control p e s)) = balance q s"
    by (cases "fst (udp_receive p (env s))")
      (simp_all add: receive_control_def Let_def split_beta env balance_datagram [OF ok])
  then have b1: "balance q s1 = balance q s" by (simp add: s1)
  define now where "now = tick_count p (env s1)"
  obtain e2 s2 where s2: "find_server p config now (e1, s1) = (e2, s2)" by fastforce
  have host: "balance q (s1\<lparr> env := snd (snd (resolve_server p config (env s1))) \<rparr>) = balance q s1"
    using queue_ok_frame(3) [OF ok(1), of "ac_server config" "env s1"]
    by (intro balance_env) (cases "resolve_host p (ac_server config) (env s1)",
        simp add: resolve_server_def Let_def split: option.split)
  have "balance q (snd (find_server p config now (e1, s1))) = balance q s1"
    using host by (simp add: find_server_def Let_def split_beta balance_message [OF ok])
  then have b2: "balance q s2 = balance q s1" by (simp add: s2)
  have b3: "balance q (snd (say_hello p now (e2, s2))) = balance q s2"
    by (simp add: say_hello_def balance_message [OF ok])
  have b4: "balance q (snd (check_timeout now r)) = balance q (snd r)" for r :: "gateway_session \<times> ('a, 'b) gateway_state_scheme"
    by (simp add: check_timeout_def split_beta balance_def)
  show ?thesis
    using b1 b2 b3 b4 by (simp add: session_control_def s1 Let_def now_def [symmetric] s2)
qed

text \<open>The SPI task puts a report into the queue or counts it as a queue drop.\<close>

lemma balance_receive_frame:
  assumes "queue_ok p q"
  shows "balance q (snd (receive_frame p rx s)) = balance q s"
  using queue_ok_send [OF assms]
  by (simp add: receive_frame_def Let_def split_beta count_stat_def accept_response_def balance_def
      split: option.split)

lemma balance_transact:
  assumes "queue_ok p q"
  shows "balance q (snd (transact p s)) = balance q s"
proof -
  obtain tx t where t: "outgoing_frame p s = (tx, t)" by fastforce
  have "balance q t = balance q s"
    using t by (auto simp: outgoing_frame_def prepare_command_def Let_def balance_def split: if_splits)
  then have "balance q (t\<lparr> env := delay_us p 2 (snd (snd (spi_transmit p tx (delay_us p 2 (env t))))) \<rparr>) = balance q s"
    using balance_env [of q _ t] queue_ok_frame [OF assms] by simp
  then show ?thesis
    by (simp add: transact_def t Let_def split_beta balance_receive_frame [OF assms])
      (simp add: count_stat_def balance_def)
qed

lemma wait_level_queue:
  "queue_ok p q \<Longrightarrow> q (snd (wait_level p level n v)) = q v"
  by (induction n arbitrary: v) (simp_all add: split_beta queue_ok_frame)

lemma balance_rearm:
  "queue_ok p q \<Longrightarrow> balance q (snd (wait_for_receiver_rearm p s)) = balance q s"
  by (simp add: wait_for_receiver_rearm_def Let_def split_beta balance_env wait_level_queue)

lemma balance_drain:
  assumes "queue_ok p q"
  shows "balance q (drain_receiver p n s) = balance q s"
proof (induction n arbitrary: s)
  case (Suc n)
  then show ?case
    by (simp add: split_beta Let_def balance_transact [OF assms] balance_rearm [OF assms])
qed simp

lemma balance_spi_turn:
  assumes "queue_ok p q"
  shows "balance q (bridge_task_turn p s) = balance q s"
  by (simp add: bridge_task_turn_def Let_def split_beta balance_env queue_ok_frame [OF assms]
      balance_drain [OF assms])

lemma balance_event:
  "queue_ok p q \<Longrightarrow> balance q (event_handler p event s) = balance q s"
  by (auto simp: event_handler_def balance_def queue_ok_frame Let_def split: wifi_event.split)

lemma balance_session_turn:
  assumes ok: "queue_ok p q" "udp_whole p" and turn: "session_turn p config e s = Some (e', s')"
  shows "balance q s' = balance q s"
proof -
  obtain now e1 s1 where c: "session_control p config e s = (now, e1, s1)" by (metis prod_cases3)
  obtain s2 a where s2: "forward_reports p e1 s1 = Some s2"
    "s' = s2\<lparr> gw_stats := (gw_stats s2)\<lparr> gs_last_ack_age_ms := a \<rparr>, env := delay_ticks p 1 (env s2) \<rparr>"
    using turn by (auto simp: session_turn_def c)
  have "balance q s' = balance q s2"
    by (simp add: s2(2) balance_def queue_ok_frame [OF ok(1)])
  then show ?thesis
    using balance_forward [OF ok s2(1)] balance_control [OF ok, of config e s] c by simp
qed

section \<open>Batches\<close>

lemma forward_batch:
  assumes "queue_ok p q" and "udp_recorded p sent" and "server_up s" and "q (env s) \<noteq> []"
    and "\<forall>r \<in> set (q (env s)). length r = 64" and "length (gw_gateway_id s) = 6"
    and "forward_reports p e s = Some s'"
  shows "\<exists>bytes m. sent (env s') = sent (env s) @ [(se_server e, bytes)] \<and>
    sv_gateway_decode bytes (length bytes) = Some m \<and> gm_kind m = SV_GATEWAY_REPORT_BATCH \<and>
    gm_gateway_id m = gw_gateway_id s \<and> gm_boot_id m = gw_boot_id s \<and>
    gm_sequence m = gw_sequence s \<and> gw_sequence s' = gw_sequence s + 1 \<and>
    unat (gm_report_count m) = min 8 (length (q (env s))) \<and>
    take (64 * min 8 (length (q (env s)))) (gm_payload m) = concat (take 8 (q (env s))) \<and>
    q (env s') = drop 8 (q (env s))"
proof -
  obtain rs t where r: "receive_up_to (bridge_spi_receive_report p) 8 s = (rs, t)" by fastforce
  obtain v where t: "t = s\<lparr> env := v \<rparr>" using receive_up_to_frame [of p 8 s] r by auto
  have rs: "rs = take 8 (q (env s))" "q v = drop 8 (q (env s))"
    using fifo_source.up_to_contents [OF report_source [OF assms(1)] TrueI, where s = s and n = 8] r t by simp_all
  have sv: "sent v = sent (env s)" using receive_up_to_sent [OF assms(2), of 8 s] r t by simp
  let ?n = "length rs" and ?c = "of_nat (length rs) :: byte"
  have n: "?n \<le> 8" "?n \<noteq> 0" "?n = min 8 (length (q (env s)))" using rs(1) assms(4) by auto
  note c = count_byte [OF n(1)]
  have "\<forall>r \<in> set rs. length r = 64" using assms(5) rs(1) by (auto dest: in_set_takeD)
  then have len: "length (concat rs) = ?n * 64" by (induction rs) auto
  let ?m = "\<lparr> gm_kind = SV_GATEWAY_REPORT_BATCH, gm_flags = 0, gm_report_count = ?c,
      gm_gateway_id = gw_gateway_id s, gm_boot_id = gw_boot_id s, gm_sequence = gw_sequence s,
      gm_payload_length = of_nat (?n * 64), gm_payload = blit 0 (concat rs) (zeros 512) \<rparr>"
  have pl: "unat (of_nat (?n * 64) :: u16) = ?n * 64"
    using n(1) by (simp only: unat_of_nat) (simp add: take_bit_nat_eq_self_iff flip: take_bit_eq_mod)
  have wf: "gm_wf ?m" using assms(6) len n(1) by (simp add: gm_wf_def length_blit)
  have valid: "gm_valid ?m" using n(1) pl c(2) by (simp add: gm_valid_def word_le_nat_alt)
  obtain bytes where b: "sv_gateway_encode ?m = Some bytes" using sv_gateway_encode_body [OF wf valid] by blast
  have dec: "sv_gateway_decode bytes (length bytes) = Some (gm_normal ?m)"
    using gateway_roundtrip [OF wf valid b] by blast
  have pay: "take (?n * 64) (gm_payload (gm_normal ?m)) = concat rs"
    using len pl by (simp add: gm_normal_def gm_data_def blit_def)
  obtain x u where u: "send_message p (se_server e) 5 (concat rs) ?c t = (x, u)" by fastforce
  have s': "s' = (if x < 0 then count_discarded (ucast ?c) u else u)"
    using assms(3,7) n(2) c(3) u by (simp add: forward_reports_def r)
  have msg: "\<lparr> gm_kind = SV_GATEWAY_REPORT_BATCH, gm_flags = 0, gm_report_count = ?c,
      gm_gateway_id = gw_gateway_id t, gm_boot_id = gw_boot_id t, gm_sequence = gw_sequence t,
      gm_payload_length = of_nat (unat ?c * 64),
      gm_payload = blit 0 (take (unat ?c * 64) (concat rs)) (zeros 512) \<rparr> = ?m"
    using len by (simp add: t c(2))
  have eu: "env u = snd (udp_send p (se_server e) bytes v)"
    using u b unfolding send_message_def Let_def msg
    by (simp add: t split_beta split: if_splits) auto
  have "sent (env u) = sent (env s) @ [(se_server e, bytes)]" "q (env u) = drop 8 (q (env s))"
    using assms(2) sv rs(2) queue_ok_frame(1) [OF assms(1)] by (simp_all add: eu udp_recorded_def)
  moreover have "gw_sequence u = gw_sequence s + 1"
    using send_message_frame(5) [of p "se_server e" 5 "concat rs" ?c t] u t by simp
  ultimately have out: "sent (env s') = sent (env s) @ [(se_server e, bytes)]"
    "q (env s') = drop 8 (q (env s))" "gw_sequence s' = gw_sequence s + 1"
    by (simp_all add: s' count_discarded_def)
  define m where "m = gm_normal ?m"
  have m: "gm_kind m = SV_GATEWAY_REPORT_BATCH" "gm_gateway_id m = gw_gateway_id s"
    "gm_boot_id m = gw_boot_id s" "gm_sequence m = gw_sequence s"
    "unat (gm_report_count m) = min 8 (length (q (env s)))"
    using c(2) n(3) by (simp_all add: m_def gm_normal_def)
  have "take (64 * min 8 (length (q (env s)))) (gm_payload m) = concat (take 8 (q (env s)))"
    using pay rs(1) unfolding m_def by (simp only: n(3) [symmetric] mult.commute [of 64])
  with m out dec show ?thesis unfolding m_def by blast
qed

section \<open>The gateway as a whole\<close>

text \<open>
  The tasks of the gateway that touch the reports, the commands or the configuration, interleaved
  at their turns; a caller of \<open>bridge_spi_command\<close> has two, the start of its command and what it
  does when it wakes up. The first component is the session of the UDP task, \<open>None\<close> while there is
  no socket.
\<close>

inductive gateway_step ::
    "'v esp_platform \<Rightarrow> app_config \<Rightarrow> gateway_session option \<times> 'v gateway_state \<Rightarrow>
     gateway_session option \<times> 'v gateway_state \<Rightarrow> bool"
  for p :: "'v esp_platform" and config :: app_config where
  gw_offline: "\<not> wifi_manager_is_connected s \<Longrightarrow> offline_turn p waited s = Some s' \<Longrightarrow>
    gateway_step p config (None, s) (None, s')"
| gw_start: "wifi_manager_is_connected s \<Longrightarrow> start_session p config junk opened s = (e, s') \<Longrightarrow>
    gateway_step p config (None, s) (e, s')"
| gw_turn: "wifi_manager_is_connected s \<Longrightarrow> session_turn p config e s = Some (e', s') \<Longrightarrow>
    gateway_step p config (Some e, s) (Some e', s')"
| gw_close: "\<not> wifi_manager_is_connected s \<Longrightarrow> gateway_step p config (Some e, s) (None, s)"
| gw_spi: "gateway_step p config (e, s) (e, bridge_task_turn p s)"
| gw_wifi: "gateway_step p config (e, s) (e, event_handler p event s)"
| gw_command: "request \<noteq> [] \<Longrightarrow> length request \<le> 64 \<Longrightarrow>
    gateway_step p config (e, s) (e, start_command request s)"
| gw_command_end: "(taken \<longrightarrow> eb_command_done s) \<Longrightarrow> finish_command taken capacity s = (result, response, s') \<Longrightarrow>
    gateway_step p config (e, s) (e, s')"
| gw_save: "app_config_save p c s = (error, s') \<Longrightarrow> gateway_step p config (e, s) (e, s')"

lemma balance_command: "balance q (start_command request s) = balance q s"
  by (simp add: balance_def start_command_def Let_def)

lemma balance_command_end: "balance q (snd (snd (finish_command taken capacity s))) = balance q s"
  by (simp add: balance_def finish_command_def Let_def count_stat_def)

lemma and_then_queue: "(\<And>v. q (snd (f v)) = q v) \<Longrightarrow> q (snd (and_then r f)) = q (snd r)"
  by (simp add: and_then_def)

lemma write_config_queue: "queue_ok p q \<Longrightarrow> q (snd (write_config p c v)) = q v"
  by (simp add: write_config_def and_then_queue queue_ok_frame)

lemma balance_save:
  assumes "queue_ok p q"
  shows "balance q (snd (app_config_save p c s)) = balance q s"
  using queue_ok_frame(9) [OF assms] write_config_queue [OF assms]
  by (simp add: app_config_save_def balance_def Let_def split_beta and_then_def split: option.split)

lemma balance_step:
  assumes ok: "queue_ok p q" "udp_whole p" and "gateway_step p config es es'"
  shows "balance q (snd es') = balance q (snd es)"
  using assms(3)
proof (cases rule: gateway_step.cases)
  case (gw_offline s waited s')
  then show ?thesis
    using balance_discard [OF ok(1)]
    by (auto simp: offline_turn_def balance_env queue_ok_frame [OF ok(1)])
next
  case (gw_start s junk opened e s')
  have "balance q (snd (start_session p config junk opened s)) = balance q s"
    using queue_ok_frame(3) [OF ok(1), of "ac_server config" "env s"]
    by (cases "resolve_host p (ac_server config) (env s)")
      (simp add: start_session_def Let_def split_beta balance_def queue_ok_frame [OF ok(1)]
        resolve_server_def split: option.split)
  with gw_start show ?thesis by simp
next
  case (gw_turn s e e' s')
  then show ?thesis using balance_session_turn [OF ok] by simp
next
  case (gw_command_end taken s capacity result response s' e)
  then show ?thesis using balance_command_end [of q taken capacity s] by simp
next
  case (gw_save c s error s' e)
  then show ?thesis using balance_save [OF ok(1), of c s] by simp
qed (simp_all add: balance_spi_turn [OF ok(1)] balance_event [OF ok(1)] balance_command)

section \<open>Properties\<close>

text \<open>
  C10: No report is lost unnoticed. Whatever the SPI task, the UDP task and the Wi-Fi events do and
  in whatever order, the reports taken from the receiver into the queue are those sent to the
  server, those counted as discarded and those still waiting (as 32-bit counters), if the queue
  behaves as FreeRTOS documents and a socket sends a datagram whole or not at all.
\<close>

theorem reports_are_accounted:
  assumes "queue_ok p q" and "udp_whole p" and "q v = []"
    and "(gateway_step p config)\<^sup>*\<^sup>* (None, gateway_boot v) (e, s)"
  shows "bs_reports (eb_stats s) = gs_reports_sent (gw_stats s) + gs_reports_discarded (gw_stats s) +
    of_nat (length (q (env s)))"
proof -
  have "balance q (snd (e, s)) = balance q (snd (None :: gateway_session option, gateway_boot v))"
    using assms(4) by (induction rule: rtranclp_induct) (auto dest: balance_step [OF assms(1,2)])
  moreover have "balance q (gateway_boot v) = 0"
    using assms(3) by (simp add: balance_def)
  ultimately show ?thesis by (simp add: balance_def)
qed

text \<open>
  A turn of the SPI task that takes a report from the receiver, then a turn of the UDP task that waits
  for the network: the report is counted as discarded.
\<close>

definition demo_report_message :: sv_bridge_message where
  "demo_report_message = bm_zero\<lparr> bm_kind := SV_BRIDGE_RECEIVER_REPORT, bm_payload_length := 64 \<rparr>"

definition demo_report_world :: esp_world where
  "demo_report_world = esp_world0\<lparr> ew_ready := [True], ew_spi := [sv_bridge_encode demo_report_message] \<rparr>"

lemma demo_report_taken:
  "bs_reports (eb_stats (bridge_task_turn ref_esp (gateway_boot demo_report_world))) = 1 \<and>
   \<not> wifi_manager_is_connected (bridge_task_turn ref_esp (gateway_boot demo_report_world))"
proof -
  have wf: "bm_wf demo_report_message" by (simp add: demo_report_message_def bm_wf_def bm_zero_def)
  have d: "sv_bridge_decode (sv_bridge_encode demo_report_message) = Some (bm_normal demo_report_message)"
    using bridge_roundtrip [OF wf] by (simp add: demo_report_message_def bm_zero_def)
  have n: "bm_kind (bm_normal demo_report_message) = SV_BRIDGE_RECEIVER_REPORT"
    "bm_payload_length (bm_normal demo_report_message) = 64" "bm_flags (bm_normal demo_report_message) = 0"
    by (simp_all add: demo_report_message_def bm_zero_def bm_normal_def bm_clamped_def)
  let ?s = "(gateway_boot demo_report_world)\<lparr> env := demo_report_world\<lparr> ew_ready := [] \<rparr> \<rparr>"
  have off: "\<not> wf_connected ?s"
    by (simp add: gateway_boot_def wifi_state.extend_def wifi_boot_def app_state.extend_def
        app_boot_def esp_state.extend_def esp_boot_def)
  have "fst (transact ref_esp ?s) \<noteq> BRIDGE_TRANSFER_MORE_PENDING"
    "bs_reports (eb_stats (snd (transact ref_esp ?s))) = 1" "\<not> wf_connected (snd (transact ref_esp ?s))"
    using d n wf off
    by (simp_all add: transact_def Let_def split_beta ref_esp_def receive_frame_def demo_report_world_def
        esp_world0_def count_stat_def outgoing_frame_def prepare_command_def)
  then have "bs_reports (eb_stats (drain_receiver ref_esp 8 ?s)) = 1"
    "\<not> wf_connected (drain_receiver ref_esp 8 ?s)"
    using drain_receiver.simps(2) [of ref_esp 7 ?s] by (simp_all add: split_beta del: drain_receiver.simps)
  moreover have "gpio_ready ref_esp (env (gateway_boot demo_report_world)) = (True, env ?s)"
    by (simp add: ref_esp_def demo_report_world_def)
  ultimately show ?thesis by (simp add: bridge_task_turn_def Let_def wifi_manager_is_connected_def)
qed

theorem reports_are_accounted_witness:
  "\<exists>s. offline_turn ref_esp 1 (bridge_task_turn ref_esp (gateway_boot demo_report_world)) = Some s \<and>
    gs_reports_sent (gw_stats s) + gs_reports_discarded (gw_stats s) + of_nat (length (ew_queue (env s))) = 1"
proof -
  let ?s0 = "gateway_boot demo_report_world" and ?s1 = "bridge_task_turn ref_esp (gateway_boot demo_report_world)"
  obtain v where v: "discard_pending_reports ref_esp ?s1 =
      Some (count_discarded (of_nat (length (ew_queue (env ?s1)))) (?s1\<lparr> env := v \<rparr>))"
    using discard_ends [OF ref_queue_ok, of ?s1] by auto
  then obtain s where s: "offline_turn ref_esp 1 ?s1 = Some s" "eb_stats s = eb_stats ?s1"
    by (auto simp: offline_turn_def)
  have "gateway_step ref_esp defaults (None, ?s0) (None, ?s1)" by (rule gw_spi)
  moreover have "gateway_step ref_esp defaults (None, ?s1) (None, s)"
    using demo_report_taken s(1) by (intro gw_offline) auto
  ultimately have "(gateway_step ref_esp defaults)\<^sup>*\<^sup>* (None, ?s0) (None, s)" by simp
  from reports_are_accounted [OF ref_queue_ok ref_udp_whole _ this] show ?thesis
    using s demo_report_taken by (simp add: demo_report_world_def esp_world0_def)
qed

text \<open>
  Discarding and every turn of the UDP task come to an end, although their loops have no
  bound in the code: with a queue that nobody fills meanwhile, discarding empties it and counts
  every report, and a turn always returns.
\<close>

theorem udp_task_terminates:
  assumes "queue_ok p q"
  shows "(\<exists>s'. discard_pending_reports p s = Some s' \<and> q (env s') = [] \<and>
      gs_reports_discarded (gw_stats s') = gs_reports_discarded (gw_stats s) + of_nat (length (q (env s)))) \<and>
    offline_turn p waited s \<noteq> None \<and> session_turn p config e s \<noteq> None"
proof -
  have d: "\<exists>s'. discard_pending_reports p t = Some s' \<and> q (env s') = [] \<and>
      gs_reports_discarded (gw_stats s') = gs_reports_discarded (gw_stats t) + of_nat (length (q (env t)))"
    for t :: "('a, 'b) gateway_state_scheme"
    using discard_ends [OF assms, of t] by auto
  obtain s1 where "discard_pending_reports p s = Some s1" using d [of s] by blast
  then show ?thesis
    using d [of s] forward_ends [OF assms]
    by (auto simp: offline_turn_def session_turn_def split_beta Let_def)
qed

theorem udp_task_terminates_witness:
  "\<exists>s'. discard_pending_reports ref_esp (gateway_boot (esp_world0\<lparr> ew_queue := [zeros 64, zeros 64] \<rparr>)) = Some s' \<and>
     ew_queue (env s') = [] \<and> gs_reports_discarded (gw_stats s') = 2"
proof -
  let ?s = "gateway_boot (esp_world0\<lparr> ew_queue := [zeros 64, zeros 64] \<rparr>)"
  show ?thesis using udp_task_terminates [OF ref_queue_ok, of ?s] by auto
qed

section \<open>The task among the other tasks\<close>

text \<open>
  \<open>adds_at_most q others g\<close>: before the n-th receive the other tasks queue at most \<open>g n\<close> reports.
  \<open>outpaced g\<close>: sooner or later the receives are ahead of what was queued, however many reports
  wait at first.
\<close>

definition adds_at_most ::
    "('v \<Rightarrow> byte list list) \<Rightarrow> ('v, 'x) others \<Rightarrow> (nat \<Rightarrow> nat) \<Rightarrow> bool" where
  "adds_at_most q others g \<longleftrightarrow>
    (\<forall>n s. length (q (env (others n s))) \<le> length (q (env s)) + g n)"

definition outpaced :: "(nat \<Rightarrow> nat) \<Rightarrow> bool" where
  "outpaced g \<longleftrightarrow> (\<forall>m. \<exists>n. m + sum g {..n} \<le> n)"

text \<open>
  Two ways to be outpaced: from some receive on nobody queues a report; or in the long run at most
  one report is queued in two receives.
\<close>

lemma outpaced_finite:
  assumes "\<forall>n \<ge> N. g n = 0"
  shows "outpaced g"
proof -
  have "sum g {..<N + k} = sum g {..<N}" for k
    using assms by (induction k) simp_all
  moreover have "sum g {..n} \<le> sum g {..<N + Suc n}" for n
    by (rule sum_mono2) auto
  ultimately have "sum g {..n} \<le> sum g {..<N}" for n by metis
  then show ?thesis unfolding outpaced_def by (metis add_left_mono)
qed

lemma outpaced_half:
  assumes "\<forall>n. sum g {..n} \<le> n div 2 + c"
  shows "outpaced g"
  unfolding outpaced_def
proof
  fix m
  have "m + sum g {..2 * (m + c)} \<le> 2 * (m + c)" using assms [rule_format, of "2 * (m + c)"] by simp
  then show "\<exists>n. m + sum g {..n} \<le> n" by (rule exI)
qed

lemma receive_report_step:
  assumes "queue_ok p q"
  shows "q (env s) = [] \<Longrightarrow> bridge_spi_receive_report p s = None"
    and "bridge_spi_receive_report p s = Some (r, s') \<Longrightarrow> q (env s) = r # q (env s') \<and>
      gw_stats s' = gw_stats s \<and> eb_stats s' = eb_stats s"
proof -
  show "q (env s) = [] \<Longrightarrow> bridge_spi_receive_report p s = None"
    using fifo_source.receive_empty [OF report_source [OF assms]] by blast
  assume r: "bridge_spi_receive_report p s = Some (r, s')"
  then obtain x xs where q: "q (env s) = x # xs"
    using fifo_source.receive_empty [OF report_source [OF assms], where s = s] by (cases "q (env s)") auto
  from fifo_source.receive_front [OF report_source [OF assms] TrueI this] r receive_report_some [OF r] q
  show "q (env s) = r # q (env s') \<and> gw_stats s' = gw_stats s \<and> eb_stats s' = eb_stats s" by auto
qed

lemma discard_among_returns:
  assumes ok: "queue_ok p q" and g: "adds_at_most q others g"
  shows "length (q (env s)) + sum g {n..n + d} \<le> d \<Longrightarrow>
    \<exists>s'. discard_among p others n s = Some s' \<and> q (env s') = []"
proof (induction d arbitrary: n s)
  case 0
  have "length (q (env (others n s))) \<le> length (q (env s)) + g n" using g by (simp add: adds_at_most_def)
  with 0 have "q (env (others n s)) = []" by simp
  then show ?case
    using receive_report_step(1) [OF ok, of "others n s"] by (simp add: discard_among.simps [of p others n s])
next
  case (Suc d)
  have l: "length (q (env (others n s))) \<le> length (q (env s)) + g n" using g by (simp add: adds_at_most_def)
  show ?case
  proof (cases "bridge_spi_receive_report p (others n s)")
    case None
    then have "q (env (others n s)) = []"
      using fifo_source.receive_front [OF report_source [OF ok] TrueI, of "others n s"]
      by (cases "q (env (others n s))") auto
    then show ?thesis using None by (simp add: discard_among.simps [of p others n s])
  next
    case (Some rt)
    then obtain r t where rt: "bridge_spi_receive_report p (others n s) = Some (r, t)" by (cases rt) auto
    have "sum g {n..n + Suc d} = g n + sum g {Suc n..Suc n + d}"
      by (simp add: sum.atLeast_Suc_atMost)
    moreover have "length (q (env (others n s))) = Suc (length (q (env t)))"
      using receive_report_step(2) [OF ok rt] by simp
    ultimately have "length (q (env (count_discarded 1 t))) + sum g {Suc n..Suc n + d} \<le> d"
      using Suc.prems l by simp
    from Suc.IH [OF this] show ?thesis using rt by (simp add: discard_among.simps [of p others n s])
  qed
qed

lemma discard_among_ends:
  assumes "queue_ok p q" and "adds_at_most q others g" and "outpaced g"
  shows "\<exists>s'. discard_among p others 0 s = Some s' \<and> q (env s') = []"
proof -
  obtain d where "length (q (env s)) + sum g {..d} \<le> d" using assms(3) by (auto simp: outpaced_def)
  then have "length (q (env s)) + sum g {0..0 + d} \<le> d" by (simp add: atLeast0AtMost)
  from discard_among_returns [OF assms(1,2) this] show ?thesis .
qed

lemma discard_among_induct:
  assumes "discard_among p others n s = Some s'"
    and stop: "\<And>n s. bridge_spi_receive_report p (others n s) = None \<Longrightarrow> P n s (others n s)"
    and step: "\<And>n s r t u. bridge_spi_receive_report p (others n s) = Some (r, t) \<Longrightarrow>
      P (Suc n) (count_discarded 1 t) u \<Longrightarrow> P n s u"
  shows "P n s s'"
proof -
  have "p = p \<longrightarrow> others = others \<longrightarrow> P n s s'"
  proof (rule discard_among.raw_induct [where P = "\<lambda>p' others' n s y. p' = p \<longrightarrow> others' = others \<longrightarrow> P n s y"])
    fix f p' others' n s y
    assume ih: "\<And>p' others' n s y. f p' others' n s = Some y \<Longrightarrow> p' = p \<longrightarrow> others' = others \<longrightarrow> P n s y"
      and eq: "(case bridge_spi_receive_report p' (others' n s) of None \<Rightarrow> Some (others' n s)
        | Some (report, s) \<Rightarrow> f p' others' (Suc n) (count_discarded 1 s)) = Some y"
    show "p' = p \<longrightarrow> others' = others \<longrightarrow> P n s y"
    proof (intro impI)
      assume e: "p' = p" "others' = others"
      show "P n s y"
      proof (cases "bridge_spi_receive_report p (others n s)")
        case None
        then show ?thesis using eq e stop [of n s] by simp
      next
        case (Some rt)
        then obtain r t where rt: "bridge_spi_receive_report p (others n s) = Some (r, t)" by (cases rt) auto
        then have "f p others (Suc n) (count_discarded 1 t) = Some y" using eq e by simp
        from ih [OF this] show ?thesis using step [OF rt] by simp
      qed
    qed
  qed (rule assms(1))
  then show ?thesis by simp
qed

text \<open>The condition is needed: a queue that is refilled before every receive keeps the loop going.\<close>

lemma discard_never_ends:
  assumes "queue_ok p q" and "\<And>n s. q (env (others n s)) \<noteq> []"
  shows "discard_among p others n s = None"
proof (rule ccontr)
  assume "discard_among p others n s \<noteq> None"
  then obtain s' where "discard_among p others n s = Some s'" by blast
  then show False
  proof (rule discard_among_induct [where P = "\<lambda>_ _ _. False"])
    fix n s assume "bridge_spi_receive_report p (others n s) = None"
    then show False
      using fifo_source.receive_front [OF report_source [OF assms(1)] TrueI, of "others n s"] assms(2) [of n s]
      by (cases "q (env (others n s))") auto
  qed
qed

text \<open>With nobody else at work the loops are those of \<open>Gateway_Udp\<close>.\<close>

lemma discard_quiet:
  assumes "queue_ok p q"
  shows "discard_among p (\<lambda>_ s. s) n s = discard_pending_reports p s"
proof -
  obtain s' where s': "discard_pending_reports p s = Some s'" using discard_ends [OF assms, of s] by blast
  obtain t where t: "discard_among p (\<lambda>_ s. s) n s = Some t"
    using discard_among_returns [OF assms, of "\<lambda>_ s. s" "\<lambda>_. 0" s n "length (q (env s))"]
    by (auto simp: adds_at_most_def)
  have "discard_pending_reports p s = Some t"
    using t unfolding discard_pending_reports_def
    by (rule discard_among_induct) (simp_all add: receive_all.simps [of "bridge_spi_receive_report p"])
  with t show ?thesis by simp
qed

lemma gather_quiet:
  "gather_among p (\<lambda>_ s. s) k n s = receive_up_to (bridge_spi_receive_report p) k s"
  by (induction k arbitrary: n s) (simp_all split: option.split)

lemma forward_quiet:
  "queue_ok p q \<Longrightarrow> forward_among p (\<lambda>_ s. s) e s = forward_reports p e s"
  by (simp add: forward_among_def forward_reports_def gather_quiet discard_quiet)

text \<open>A turn with nobody else at work is a step of \<open>gateway_step\<close>.\<close>

lemma quiet_turn_step:
  assumes "queue_ok p q" and "gateway_task_turn p config input (\<lambda>_ s. s) r = Some r'"
  shows "gateway_step p config r r'"
proof -
  obtain junk opened waited session s where r: "input = (junk, opened, waited)" "r = (session, s)"
    by (cases input; cases r)
  note quiet = discard_quiet [OF assms(1)] forward_quiet [OF assms(1)]
  show ?thesis
  proof (cases session)
    case None
    show ?thesis
    proof (cases "wifi_manager_is_connected s")
      case True
      then show ?thesis
        using assms(2) gw_start [OF True, of p config junk opened]
        by (cases "start_session p config junk opened s") (auto simp: gateway_task_turn_def r None)
    next
      case False
      then obtain t where t: "discard_pending_reports p s = Some t"
        "r' = (None, t\<lparr> env := delay_ticks p waited (env t) \<rparr>)"
        using assms(2) by (auto simp: gateway_task_turn_def r None quiet)
      then show ?thesis
        using gw_offline [OF False, of p waited] by (simp add: r None offline_turn_def)
    qed
  next
    case (Some e)
    show ?thesis
    proof (cases "wifi_manager_is_connected s")
      case True
      obtain now e1 s1 where c: "session_control p config e s = (now, e1, s1)" by (metis prod_cases3)
      show ?thesis
        using assms(2) gw_turn [OF True, of p config e]
        by (auto simp: gateway_task_turn_def r Some True quiet session_turn_def c)
    next
      case False
      then show ?thesis
        using assms(2) gw_close [OF False, of p config e] by (simp add: gateway_task_turn_def r Some)
    qed
  qed
qed

text \<open>No report is lost from the count by the loops, if the other tasks keep the balance.\<close>

lemma balance_receive:
  assumes "queue_ok p q" and "bridge_spi_receive_report p s = Some (r, t)"
  shows "balance q t + 1 = balance q s" and "balance q (count_discarded 1 t) = balance q s"
  using receive_report_step(2) [OF assms] by (simp_all add: balance_def count_discarded_def)

lemma balance_discard_among:
  assumes "queue_ok p q" and others: "\<And>n s. balance q (others n s) = balance q s"
    and "discard_among p others n s = Some s'"
  shows "balance q s' = balance q s"
  using assms(3)
proof (rule discard_among_induct)
  fix n s r t u
  assume r: "bridge_spi_receive_report p (others n s) = Some (r, t)"
    and "balance q u = balance q (count_discarded 1 t)"
  then show "balance q u = balance q s" using balance_receive(2) [OF assms(1) r] others by simp
qed (rule others)

lemma balance_gather:
  assumes "queue_ok p q" and others: "\<And>n s. balance q (others n s) = balance q s"
  shows "length (fst (gather_among p others k n s)) \<le> k \<and>
    balance q (snd (gather_among p others k n s)) + of_nat (length (fst (gather_among p others k n s))) =
      balance q s"
proof (induction k arbitrary: n s)
  case (Suc k)
  show ?case
  proof (cases "bridge_spi_receive_report p (others n s)")
    case None
    then show ?thesis by (simp add: others)
  next
    case (Some rt)
    then obtain r t where rt: "bridge_spi_receive_report p (others n s) = Some (r, t)" by (cases rt) auto
    have "balance q t + 1 = balance q s" using balance_receive(1) [OF assms(1) rt] others by simp
    then show ?thesis using Suc.IH [of "Suc n" t] rt by (simp add: split_beta ac_simps)
  qed
qed simp

lemma balance_forward_among:
  assumes ok: "queue_ok p q" "udp_whole p" and others: "\<And>n s. balance q (others n s) = balance q s"
    and fwd: "forward_among p others e s = Some s'"
  shows "balance q s' = balance q s"
proof (cases "server_up s")
  case False
  then show ?thesis using fwd balance_discard_among [OF ok(1) others] by (simp add: forward_among_def)
next
  case True
  obtain rs t where r: "gather_among p others 8 0 s = (rs, t)" by fastforce
  have len: "length rs \<le> 8" and bt: "balance q t + of_nat (length rs) = balance q s"
    using balance_gather [OF ok(1), of others 8 0 s, OF others] r by simp_all
  let ?c = "of_nat (length rs) :: byte"
  have c: "(ucast ?c :: u32) = of_nat (length rs)" "?c = 0 \<longleftrightarrow> rs = []"
    using len count_byte [of "length rs"] by simp_all
  show ?thesis
  proof (cases "rs = []")
    case True
    then show ?thesis using fwd \<open>server_up s\<close> c(2) bt by (simp add: forward_among_def r)
  next
    case False
    obtain sent u where u: "send_message p (se_server e) 5 (concat rs) ?c t = (sent, u)" by fastforce
    have s': "s' = (if sent < 0 then count_discarded (ucast ?c) u else u)"
      using fwd \<open>server_up s\<close> False c(2) u by (simp add: forward_among_def r)
    have "balance q s' = balance q t + of_nat (length rs)"
      using send_message_counts [OF ok(2) u] send_message_queue [OF ok(1), of "se_server e" 5 "concat rs" ?c t]
        send_message_frame(6,7) [of p "se_server e" 5 "concat rs" ?c t] u
      by (simp add: s' balance_def c(1))
    with bt show ?thesis by simp
  qed
qed

lemma forward_among_ends:
  assumes "queue_ok p q" and "adds_at_most q others g" and "outpaced g"
  shows "\<exists>s'. forward_among p others e s = Some s'"
  using discard_among_ends [OF assms] by (auto simp: forward_among_def split_beta Let_def)

text \<open>What the other tasks do: any steps of theirs; \<open>session\<close> is a local variable of this task.\<close>

definition tasks_step :: "'v esp_platform \<Rightarrow> app_config \<Rightarrow> ('v gateway_state \<Rightarrow> 'v gateway_state) \<Rightarrow> bool" where
  "tasks_step p config f \<longleftrightarrow> (\<forall>e s. (gateway_step p config)\<^sup>*\<^sup>* (e, s) (e, f s))"

lemma balance_steps:
  assumes "queue_ok p q" and "udp_whole p" and "(gateway_step p config)\<^sup>*\<^sup>* es es'"
  shows "balance q (snd es') = balance q (snd es)"
  using assms(3) by (induction rule: rtranclp_induct) (auto dest: balance_step [OF assms(1,2)])

lemma balance_tasks:
  assumes "queue_ok p q" and "udp_whole p" and "tasks_step p config f"
  shows "balance q (f s) = balance q s"
proof -
  have "(gateway_step p config)\<^sup>*\<^sup>* (None, s) (None, f s)" using assms(3) by (simp add: tasks_step_def)
  from balance_steps [OF assms(1,2) this] show ?thesis by simp
qed

lemma task_turn_returns:
  assumes "queue_ok p q" and "adds_at_most q others g" and "outpaced g"
  shows "\<exists>r'. gateway_task_turn p config input others r = Some r'"
proof -
  note ends = discard_among_ends [OF assms] forward_among_ends [OF assms]
  obtain junk opened waited session s where r: "input = (junk, opened, waited)" "r = (session, s)"
    by (cases input; cases r)
  show ?thesis
  proof (cases session)
    case None
    then show ?thesis using ends(1) [of s] by (auto simp: gateway_task_turn_def r)
  next
    case (Some e)
    obtain now e1 s1 where c: "session_control p config e s = (now, e1, s1)" by (metis prod_cases3)
    show ?thesis using ends(2) [of e1 s1] by (auto simp: gateway_task_turn_def r Some c)
  qed
qed

lemma task_turn_balance:
  assumes ok: "queue_ok p q" "udp_whole p" and others: "\<And>n s. balance q (others n s) = balance q s"
    and "gateway_task_turn p config input others (session, s) = Some (session', s')"
  shows "balance q s' = balance q (s :: 'v gateway_state)"
proof -
  obtain junk opened waited where i: "input = (junk, opened, waited)" by (cases input)
  have delay: "balance q (t\<lparr> env := delay_ticks p n (env t) \<rparr>) = balance q t" for n and t :: "'v gateway_state"
    by (rule balance_env) (simp add: queue_ok_frame [OF ok(1)])
  show ?thesis
  proof (cases session)
    case None
    show ?thesis
    proof (cases "wifi_manager_is_connected s")
      case True
      then have "gateway_step p config (None, s) (session', s')"
        using assms(4) gw_start [OF True, of p config junk opened] by (simp add: gateway_task_turn_def i None)
      from balance_step [OF ok this] show ?thesis by simp
    next
      case False
      then show ?thesis
        using assms(4) delay balance_discard_among [OF ok(1) others]
        by (auto simp: gateway_task_turn_def i None)
    qed
  next
    case (Some e)
    obtain now e1 s1 where c: "session_control p config e s = (now, e1, s1)" by (metis prod_cases3)
    have "balance q s1 = balance q s" using balance_control [OF ok, of config e s] c by simp
    moreover have "balance q (t\<lparr> gw_stats := (gw_stats t)\<lparr> gs_last_ack_age_ms := a \<rparr>,
        env := delay_ticks p 1 (env t) \<rparr>) = balance q t" for a and t :: "'v gateway_state"
      by (simp add: balance_def queue_ok_frame [OF ok(1)])
    moreover obtain t a where t: "forward_among p others e1 s1 = Some t"
      "s' = t \<or> s' = t\<lparr> gw_stats := (gw_stats t)\<lparr> gs_last_ack_age_ms := a \<rparr>, env := delay_ticks p 1 (env t) \<rparr>"
      if "wifi_manager_is_connected s"
      using assms(4) by (auto simp: gateway_task_turn_def i Some c split: if_splits)
    moreover have "s' = s" if "\<not> wifi_manager_is_connected s"
      using assms(4) that by (simp add: gateway_task_turn_def i Some)
    ultimately show ?thesis
      using balance_forward_among [OF ok, of others e1 s1, OF others] by metis
  qed
qed

lemma task_turns_return:
  assumes "queue_ok p q" and "\<forall>(input, others, afterwards) \<in> set turns. \<exists>g. adds_at_most q others g \<and> outpaced g"
  shows "\<exists>r'. gateway_turns p config turns r = Some r'"
  using assms(2)
proof (induction turns arbitrary: r)
  case (Cons turn turns)
  obtain input others afterwards where turn: "turn = (input, others, afterwards)" by (cases turn)
  then obtain g where "adds_at_most q others g" "outpaced g" using Cons.prems by auto
  from task_turn_returns [OF assms(1) this] obtain e s where
    "gateway_task_turn p config input others r = Some (e, s)" by (metis surj_pair)
  then show ?case using Cons by (simp add: turn)
qed simp

lemma task_turns_balance:
  assumes ok: "queue_ok p q" "udp_whole p"
    and "\<forall>(input, others, afterwards) \<in> set turns. (\<forall>n. tasks_step p config (others n)) \<and> tasks_step p config afterwards"
    and "gateway_turns p config turns (e, s) = Some (e', s')"
  shows "balance q s' = balance q s"
  using assms(3,4)
proof (induction turns arbitrary: e s)
  case (Cons turn turns)
  obtain input others afterwards where turn: "turn = (input, others, afterwards)" by (cases turn)
  then obtain e1 s1 where s1: "gateway_task_turn p config input others (e, s) = Some (e1, s1)"
    "gateway_turns p config turns (e1, afterwards s1) = Some (e', s')"
    using Cons.prems(2) by (auto split: bind_splits)
  have steps: "\<forall>n. tasks_step p config (others n)" "tasks_step p config afterwards"
    using Cons.prems(1) turn by auto
  have "balance q s1 = balance q s"
    using task_turn_balance [OF ok _ s1(1)] balance_tasks [OF ok] steps(1) by blast
  then show ?case
    using Cons.IH [OF _ s1(2)] Cons.prems(1) balance_tasks [OF ok steps(2), of s1] by simp
qed simp

text \<open>
  C39: The UDP task does not hang as long as the SPI task does not outrun it. From its start with
  whatever configuration, whenever the network comes and goes, whether sockets can be opened or not,
  and with other tasks that run between its turns and before every receive of its loops over the
  reports: if in each turn the reports they queue are outpaced by the receives, every turn of
  \<open>gateway_task\<close> returns, although the discarding loop has no bound in the code. If what they do are
  steps of theirs, no report is lost from the count by that: reports sent, discarded and waiting
  still add up to those taken from the receiver (\<open>balance\<close>). The condition is needed: when the
  queue is refilled before every receive, the discarding loop never ends.
\<close>

theorem gateway_task_returns:
  fixes s0 :: "'v gateway_state"
  assumes "queue_ok p q"
    and "\<forall>(input, others, afterwards) \<in> set turns. \<exists>g. adds_at_most q others g \<and> outpaced g"
  shows "(\<exists>e s. gateway_task p turns s0 = Some (e, s) \<and>
      (udp_whole p \<and> (\<forall>(input, others, afterwards) \<in> set turns.
          (\<forall>n. tasks_step p (app_config_get s0) (others n)) \<and> tasks_step p (app_config_get s0) afterwards) \<longrightarrow>
        balance q s = balance q s0)) \<and>
    (\<forall>others n (s :: 'v gateway_state). (\<forall>n s. q (env (others n s)) \<noteq> []) \<longrightarrow> discard_among p others n s = None)"
proof -
  obtain e s where "gateway_task p turns s0 = Some (e, s)"
    using task_turns_return [OF assms] unfolding gateway_task_def by (metis surj_pair)
  then show ?thesis
    using task_turns_balance [OF assms(1), of turns "app_config_get s0" None s0]
      discard_never_ends [OF assms(1)]
    unfolding gateway_task_def by blast
qed

text \<open>
  The witness: three turns in which the SPI task takes a turn before each of the first two receives
  and after the turn. It queues at most eight reports each time.
\<close>

lemma receive_frame_adds:
  "queue_ok p q \<Longrightarrow> length (q (env (snd (receive_frame p rx s)))) \<le> Suc (length (q (env s)))"
  by (simp add: receive_frame_def Let_def split_beta queue_ok_send split: option.split)

lemma transact_adds:
  assumes "queue_ok p q"
  shows "length (q (env (snd (transact p s)))) \<le> Suc (length (q (env s)))"
proof -
  obtain tx t where t: "outgoing_frame p s = (tx, t)" by fastforce
  have e: "env t = env s" using t by (auto simp: outgoing_frame_def prepare_command_def Let_def split: if_splits)
  obtain result rx v where x: "spi_transmit p tx (delay_us p 2 (env t)) = (result, rx, v)"
    by (metis prod.exhaust)
  let ?t = "t\<lparr> env := delay_us p 2 v \<rparr>"
  have "q (snd (snd (result, rx, v))) = q (delay_us p 2 (env t))"
    unfolding x [symmetric] by (rule queue_ok_frame(4) [OF assms])
  then have "q v = q (env s)" using e by (simp add: queue_ok_frame [OF assms])
  then have "q (env ?t) = q (env s)" by (simp add: queue_ok_frame [OF assms])
  then show ?thesis
    using receive_frame_adds [OF assms, of rx ?t]
    by (simp add: transact_def t Let_def x)
qed

lemma rearm_queue:
  "queue_ok p q \<Longrightarrow> q (env (snd (wait_for_receiver_rearm p s))) = q (env s)"
  by (simp add: wait_for_receiver_rearm_def Let_def split_beta wait_level_queue)

lemma drain_adds:
  assumes "queue_ok p q"
  shows "length (q (env (drain_receiver p n s))) \<le> length (q (env s)) + n"
proof (induction n arbitrary: s)
  case (Suc n)
  obtain result s1 where t: "transact p s = (result, s1)" by fastforce
  obtain rearmed s2 where w: "wait_for_receiver_rearm p s1 = (rearmed, s2)" by fastforce
  have "length (q (env s1)) \<le> Suc (length (q (env s)))" using transact_adds [OF assms, of s] t by simp
  moreover have "q (env s2) = q (env s1)" using rearm_queue [OF assms, of s1] w by simp
  ultimately show ?case using Suc.IH [of s2] by (simp add: t w)
qed simp

lemma spi_turn_adds:
  assumes "queue_ok p q"
  shows "length (q (env (bridge_task_turn p s))) \<le> length (q (env s)) + 8"
  using drain_adds [OF assms, of 8 "s\<lparr> env := snd (gpio_ready p (env s)) \<rparr>"]
  by (simp add: bridge_task_turn_def Let_def split_beta queue_ok_frame [OF assms])

definition spi_twice :: "(esp_world, unit) others" where
  "spi_twice n s = (if n < 2 then bridge_task_turn ref_esp s else s)"

lemma spi_twice_outpaced:
  "adds_at_most ew_queue spi_twice (\<lambda>n. if n < 2 then 8 else 0)" "outpaced (\<lambda>n. if n < 2 then 8 else 0)"
  using spi_turn_adds [OF ref_queue_ok]
  by (auto simp: adds_at_most_def spi_twice_def intro!: outpaced_finite [of 2])

lemma spi_tasks_step:
  "tasks_step p config (bridge_task_turn p)" "tasks_step ref_esp config (spi_twice n)"
  by (auto simp: tasks_step_def spi_twice_def intro: gw_spi)

theorem gateway_task_returns_witness:
  "\<exists>e s. gateway_task ref_esp
       (replicate 3 ((\<lparr> sin_addr = 1, sin_port = 2 \<rparr>, True, 1), spi_twice, bridge_task_turn ref_esp))
       (gateway_boot esp_world0) = Some (e, s) \<and>
     balance ew_queue s = balance ew_queue (gateway_boot esp_world0)"
proof -
  let ?turns = "replicate 3 ((\<lparr> sin_addr = 1, sin_port = 2 \<rparr>, True, 1 :: u32), spi_twice, bridge_task_turn ref_esp)"
  have "\<forall>(input, others, afterwards) \<in> set ?turns. \<exists>g. adds_at_most ew_queue others g \<and> outpaced g"
    using spi_twice_outpaced by auto
  from gateway_task_returns [OF ref_queue_ok this, of "gateway_boot esp_world0"] show ?thesis
    using spi_tasks_step ref_udp_whole by auto
qed

text \<open>
  A batch carries the oldest reports, unchanged and in order. While the session is up, a turn
  with reports waiting sends one datagram to the server, which decodes to a REPORT_BATCH of this
  gateway and this boot with the next sequence number and with the first reports of the queue, at
  most eight, as its payload; and exactly these leave the queue.
\<close>

theorem batch_carries_oldest_reports:
  assumes "queue_ok p q" and "udp_recorded p sent" and "server_up s" and "q (env s) \<noteq> []"
    and "\<forall>r \<in> set (q (env s)). length r = 64" and "length (gw_gateway_id s) = 6"
    and "forward_reports p e s = Some s'"
  shows "\<exists>bytes m. sent (env s') = sent (env s) @ [(se_server e, bytes)] \<and>
    sv_gateway_decode bytes (length bytes) = Some m \<and> gm_kind m = SV_GATEWAY_REPORT_BATCH \<and>
    gm_gateway_id m = gw_gateway_id s \<and> gm_boot_id m = gw_boot_id s \<and>
    gm_sequence m = gw_sequence s \<and> gw_sequence s' = gw_sequence s + 1 \<and>
    unat (gm_report_count m) = min 8 (length (q (env s))) \<and>
    take (64 * min 8 (length (q (env s)))) (gm_payload m) = concat (take 8 (q (env s))) \<and>
    q (env s') = drop 8 (q (env s))"
  using assms by (rule forward_batch)

text \<open>Two reports go out in one datagram.\<close>

theorem batch_carries_oldest_reports_witness:
  "\<exists>s' bytes m. forward_reports ref_esp
       \<lparr> se_fixed_server = True, se_server = \<lparr> sin_addr = 7, sin_port = 6970 \<rparr>, se_server_known = True,
         se_last_discover = 0, se_last_hello = 0 \<rparr>
       ((gateway_boot (esp_world0\<lparr> ew_queue := [zeros 64, replicate 64 1] \<rparr>))
         \<lparr> gw_stats := (gw_stats (gateway_boot esp_world0))\<lparr> gs_server_connected := True \<rparr> \<rparr>) = Some s' \<and>
     ew_sent (env s') = [(\<lparr> sin_addr = 7, sin_port = 6970 \<rparr>, bytes)] \<and>
     sv_gateway_decode bytes (length bytes) = Some m \<and>
     take 128 (gm_payload m) = zeros 64 @ replicate 64 1 \<and> ew_queue (env s') = []"
proof -
  let ?s = "(gateway_boot (esp_world0\<lparr> ew_queue := [zeros 64, replicate 64 1] \<rparr>))
         \<lparr> gw_stats := (gw_stats (gateway_boot esp_world0))\<lparr> gs_server_connected := True \<rparr> \<rparr>"
  let ?e = "\<lparr> se_fixed_server = True, se_server = \<lparr> sin_addr = 7, sin_port = 6970 \<rparr>, se_server_known = True,
         se_last_discover = 0, se_last_hello = 0 \<rparr>"
  have s: "server_up ?s" "ew_queue (env ?s) = [zeros 64, replicate 64 1]" "ew_sent (env ?s) = []"
    "length (gw_gateway_id ?s) = 6"
    by (simp_all add: esp_world0_def)
  obtain s' where s': "forward_reports ref_esp ?e ?s = Some s'"
    using forward_ends [OF ref_queue_ok] by blast
  have ne: "ew_queue (env ?s) \<noteq> []" and len: "\<forall>r \<in> set (ew_queue (env ?s)). length r = 64"
    unfolding s(2) by simp_all
  from batch_carries_oldest_reports [OF ref_queue_ok ref_udp_recorded s(1) ne len s(4) s'] s'
  show ?thesis unfolding s(2,3) by simp blast
qed

section \<open>The life of a session\<close>

definition own_message :: "('v, 'x) gateway_state_scheme \<Rightarrow> sv_gateway_message \<Rightarrow> bool" where
  "own_message s m \<longleftrightarrow> gm_gateway_id m = gw_gateway_id s \<and> gm_boot_id m = gw_boot_id s"

lemma receive_control_connected:
  "server_up (snd (receive_control p e s)) \<longrightarrow>
   server_up s \<and> (se_server_known e \<longrightarrow> se_server_known (fst (receive_control p e s))) \<or>
   se_server_known (fst (receive_control p e s))"
  by (auto simp: receive_control_def handle_datagram_def Let_def split_beta receive_error_def
      send_message_frame split: sum.splits option.splits if_splits)

lemma find_server_frame:
  "server_up (snd (find_server p config now r)) = server_up (snd r)"
  "gw_last_ack (snd (find_server p config now r)) = gw_last_ack (snd r)"
  "se_server_known (fst r) \<Longrightarrow> fst (find_server p config now r) = fst r"
  by (auto simp: find_server_def split_beta Let_def send_message_frame)

lemma say_hello_frame:
  "server_up (snd (say_hello p now r)) = server_up (snd r)"
  "gw_last_ack (snd (say_hello p now r)) = gw_last_ack (snd r)"
  "se_server_known (fst (say_hello p now r)) = se_server_known (fst r)"
  by (auto simp: say_hello_def split_beta Let_def send_message_frame)

lemma control_connected:
  assumes "session_control p config e s = (now, e', s')" and "server_up s \<longrightarrow> se_server_known e"
    and "server_up s'"
  shows "se_server_known e' \<and> now - gw_last_ack s' < ACK_TIMEOUT_MS"
proof -
  obtain e1 s1 where r: "receive_control p e s = (e1, s1)" by fastforce
  have 1: "server_up s1 \<longrightarrow> se_server_known e1"
    using receive_control_connected [of p e s] assms(2) r by auto
  let ?r = "say_hello p now (find_server p config now (e1, s1))"
  have t: "check_timeout now ?r = (e', s')" and now: "now = tick_count p (env s1)"
    using assms(1) by (auto simp: session_control_def r Let_def)
  have c: "server_up (snd ?r)" "\<not> ACK_TIMEOUT_MS \<le> now - gw_last_ack (snd ?r)" "(e', s') = ?r"
    using t assms(3) by (auto simp: check_timeout_def split_beta split: if_splits)
  then have "server_up s1" by (simp add: find_server_frame say_hello_frame)
  with 1 have "se_server_known (fst ?r)" by (simp add: find_server_frame say_hello_frame)
  then show ?thesis using c(2,3) by (metis fst_conv not_le snd_conv)
qed

lemma forward_frame:
  assumes "queue_ok p q" and "forward_reports p e s = Some s'"
  shows "server_up s' = server_up s" and "gw_last_ack s' = gw_last_ack s"
    and "\<not> server_up s \<Longrightarrow> q (env s') = [] \<and> gs_reports_sent (gw_stats s') = gs_reports_sent (gw_stats s) \<and>
      gw_sequence s' = gw_sequence s"
proof -
  obtain v where v: "snd (receive_up_to (bridge_spi_receive_report p) 8 s) = s\<lparr> env := v \<rparr>"
    using receive_up_to_frame [of p 8 s] by blast
  obtain w where d: "discard_pending_reports p s =
      Some (count_discarded (of_nat (length (q (env s)))) (s\<lparr> env := w \<rparr>))" "q w = []"
    using discard_ends [OF assms(1)] by blast
  show "server_up s' = server_up s" "gw_last_ack s' = gw_last_ack s"
    "\<not> server_up s \<Longrightarrow> q (env s') = [] \<and> gs_reports_sent (gw_stats s') = gs_reports_sent (gw_stats s) \<and>
      gw_sequence s' = gw_sequence s"
    using assms(2) d by (auto simp: forward_reports_def Let_def split_beta v send_message_frame
        count_discarded_def split: if_splits)
qed

text \<open>
  C35: The session lives by acknowledgements. After a turn the gateway counts as connected only if it
  knows its server and the last acknowledgement is less than 3000 ms old (in the modular arithmetic
  of the tick counter); and a turn that ends unconnected sends no report: the queue is empty then and
  nothing was added to the reports sent.
\<close>

theorem session_needs_acks:
  assumes "queue_ok p q" and "session_turn p config e s = Some (e', s')"
    and "server_up s \<longrightarrow> se_server_known e" and "session_control p config e s = (now, e1, s1)"
  shows "if server_up s'
    then se_server_known e' \<and> now - gw_last_ack s' < ACK_TIMEOUT_MS
    else q (env s') = [] \<and> gs_reports_sent (gw_stats s') = gs_reports_sent (gw_stats s1)"
proof -
  obtain s2 a where s2: "forward_reports p e1 s1 = Some s2" "e' = e1"
    "s' = s2\<lparr> gw_stats := (gw_stats s2)\<lparr> gs_last_ack_age_ms := a \<rparr>, env := delay_ticks p 1 (env s2) \<rparr>"
    using assms(2) by (auto simp: session_turn_def assms(4))
  note f = forward_frame [OF assms(1) s2(1)]
  show ?thesis
  proof (cases "server_up s1")
    case True
    then show ?thesis using control_connected [OF assms(4,3)] f s2 by simp
  next
    case False
    then show ?thesis using f s2 queue_ok_frame(7) [OF assms(1)] by simp
  qed
qed

theorem session_needs_acks_witness:
  "\<exists>e' s'. session_turn ref_esp defaults
       \<lparr> se_fixed_server = False, se_server = \<lparr> sin_addr = 7, sin_port = 6970 \<rparr>, se_server_known = False,
         se_last_discover = 0, se_last_hello = 0 \<rparr>
       (gateway_boot (esp_world0\<lparr> ew_queue := [zeros 64] \<rparr>)) = Some (e', s') \<and> ew_queue (env s') = []"
proof -
  let ?e = "\<lparr> se_fixed_server = False, se_server = \<lparr> sin_addr = 7, sin_port = 6970 \<rparr>, se_server_known = False,
         se_last_discover = 0, se_last_hello = 0 \<rparr>"
  let ?s = "gateway_boot (esp_world0\<lparr> ew_queue := [zeros 64] \<rparr>)"
  have c: "session_control ref_esp defaults ?e ?s = (0, ?e, ?s)"
    by (simp add: session_control_def receive_control_def ref_esp_def find_server_def say_hello_def
        check_timeout_def esp_world0_def)
  obtain e' s' where t: "session_turn ref_esp defaults ?e ?s = Some (e', s')"
    using forward_ends [OF ref_queue_ok, of ?e ?s] by (auto simp: session_turn_def c)
  obtain s2 where s2: "forward_reports ref_esp ?e ?s = Some s2" using forward_ends [OF ref_queue_ok] by blast
  have "server_up s' = server_up s2" using t s2 by (auto simp: session_turn_def c)
  then have "\<not> server_up s'" using forward_frame(1) [OF ref_queue_ok s2] by simp
  with session_needs_acks [OF ref_queue_ok t _ c] t show ?thesis by auto
qed

text \<open>
  C36: Only the gateway's own server controls its session. What a datagram does: the server changes
  only through an OFFER that names this gateway and this boot, and then it is the sender; the
  connection is renewed only through an ACK that names them and comes from the address of the known
  server; anything else, whatever its bytes, changes neither.
\<close>

theorem only_own_server_controls:
  assumes "receive_control p e s = (e', s')"
  shows "(e' = e \<or> (\<exists>source bytes m. fst (udp_receive p (env s)) = Inr (source, bytes) \<and>
       sv_gateway_decode (take 544 bytes) (min (length bytes) 544) = Some m \<and> own_message s m \<and>
       gm_kind m = SV_GATEWAY_OFFER \<and> e' = e\<lparr> se_server := source, se_server_known := True \<rparr>)) \<and>
    (server_up s' = server_up s \<and> gw_last_ack s' = gw_last_ack s \<or>
     (\<exists>source bytes m. fst (udp_receive p (env s)) = Inr (source, bytes) \<and>
       sv_gateway_decode (take 544 bytes) (min (length bytes) 544) = Some m \<and> own_message s m \<and>
       gm_kind m = SV_GATEWAY_ACK \<and> se_server_known e \<and> sin_addr source = sin_addr (se_server e) \<and>
       e' = e \<and> server_up s' \<and> gw_last_ack s' = tick_count p (env s')))"
proof (cases "fst (udp_receive p (env s))")
  case (Inl b)
  then show ?thesis using assms by (auto simp: receive_control_def Let_def split_beta receive_error_def split: if_splits)
next
  case (Inr x)
  obtain source bytes where x: "x = (source, bytes)" by fastforce
  show ?thesis
    using assms
    by (auto simp: receive_control_def Let_def split_beta Inr x handle_datagram_def receive_error_def
        own_message_def min.commute send_message_frame split: option.splits if_splits)
qed

text \<open>Forty zero bytes from anywhere change nothing.\<close>

theorem only_own_server_controls_witness:
  "fst (receive_control ref_esp
       \<lparr> se_fixed_server = False, se_server = \<lparr> sin_addr = 7, sin_port = 6970 \<rparr>, se_server_known = True,
         se_last_discover = 0, se_last_hello = 0 \<rparr>
       (gateway_boot (esp_world0\<lparr> ew_incoming := [(\<lparr> sin_addr = 7, sin_port = 1 \<rparr>, zeros 40)] \<rparr>))) =
     \<lparr> se_fixed_server = False, se_server = \<lparr> sin_addr = 7, sin_port = 6970 \<rparr>, se_server_known = True,
         se_last_discover = 0, se_last_hello = 0 \<rparr>"
proof -
  let ?s = "gateway_boot (esp_world0\<lparr> ew_incoming := [(\<lparr> sin_addr = 7, sin_port = 1 \<rparr>, zeros 40)] \<rparr>)"
  have "fst (udp_receive ref_esp (env ?s)) = Inr (\<lparr> sin_addr = 7, sin_port = 1 \<rparr>, zeros 40)"
    by (simp add: ref_esp_def)
  moreover have "sv_gateway_decode (take 544 (zeros 40)) 40 = None"
    by (simp add: sv_gateway_decode_def gateway_magic_def byte_eval)
  ultimately show ?thesis
    using only_own_server_controls [OF prod.collapse [symmetric], of ref_esp _ ?s] by fastforce
qed

section \<open>Behaviour to know about\<close>

text \<open>
  A configured server is looked up once: when its acknowledgements stop, the session ends but the
  address stays, and the name is not resolved again while the network is up.
\<close>

lemma fixed_server_stays:
  assumes "se_fixed_server e" and "se_server_known e"
  shows "find_server p config now (check_timeout now' (e, s)) =
    (e, snd (check_timeout now' (e, s)))"
  using assms by (simp add: check_timeout_def find_server_def)

text \<open>
  A server that made an OFFER but never acknowledges is kept for ever, since only a session that was
  acknowledged can time out, and a known server stops the discovery.
\<close>

lemma silent_server_stays:
  assumes "se_server_known e" and "\<not> server_up s"
  shows "check_timeout now' (find_server p config now (e, s)) = (e, s)"
  using assms by (simp add: check_timeout_def find_server_def)

text \<open>An OFFER replaces even a configured server.\<close>

lemma offer_replaces_fixed_server:
  assumes "sv_gateway_decode b (length b) = Some m" and "own_message s m" and "gm_kind m = SV_GATEWAY_OFFER"
  shows "fst (handle_datagram p source b (e\<lparr> se_fixed_server := True \<rparr>) s) =
    e\<lparr> se_fixed_server := True, se_server := source, se_server_known := True \<rparr>"
  using assms by (simp add: handle_datagram_def own_message_def)

end
