(* ===== verification/Web_Portal.thy ===== *)
theory Web_Portal
  imports Complex_Main "HOL-Library.Sublist" Gateway_Udp Receiver_Control Id48_Codec
begin

text \<open>
  The HTTP handlers of the setup page, \<open>firmware/esp32c5/main/web_portal.c\<close>. The JSON parser cJSON
  is not part of the repository: it is the argument \<open>parse\<close>, from the text of a body to a value of
  the data type \<open>json\<close>, and a reply is the value the handler builds. \<open>wait\<close> and \<open>locked\<close> are those of
  \<open>bridge_spi_command\<close>. A handler gives the reply it sends and the state.
\<close>

section \<open>JSON and replies\<close>

text \<open>A number is the rational value of the \<open>double\<close>; a string is the text before the first NUL.\<close>

datatype json =
    JNull
  | JBool bool
  | JNumber rat
  | JString string
  | JArray "json list"
  | JObject "(string \<times> json) list"

text \<open>\<open>cJSON_GetObjectItemCaseSensitive\<close>: the first member of that name.\<close>

fun json_item :: "json \<Rightarrow> string \<Rightarrow> json option" where
  "json_item (JObject members) key = map_of members key"
| "json_item _ key = None"

text \<open>The checks \<open>cJSON_IsString\<close>, \<open>cJSON_IsNumber\<close> and \<open>cJSON_IsBool\<close> of an item, with its value.\<close>

fun json_string :: "json option \<Rightarrow> string option" where
  "json_string (Some (JString text)) = Some text"
| "json_string _ = None"

fun json_number :: "json option \<Rightarrow> rat option" where
  "json_number (Some (JNumber x)) = Some x"
| "json_number _ = None"

fun json_bool :: "json option \<Rightarrow> bool option" where
  "json_bool (Some (JBool b)) = Some b"
| "json_bool _ = None"

datatype http_reply =
    Http_Text string
  | Http_Html
  | Http_Json json
  | Http_Error nat string

abbreviation (input) bad_request :: "string \<Rightarrow> http_reply" where "bad_request \<equiv> Http_Error 400"
abbreviation (input) server_error :: "string \<Rightarrow> http_reply" where "server_error \<equiv> Http_Error 500"

text \<open>\<open>printed\<close> says whether the text of the value could be allocated.\<close>

definition json_response :: "bool \<Rightarrow> json \<Rightarrow> http_reply" where
  "json_response printed json = (if \<not> printed then server_error ''JSON allocation failed'' else Http_Json json)"

definition index_handler :: http_reply where
  "index_handler = Http_Html"

section \<open>The body of a request\<close>

text \<open>\<open>remaining\<close> is \<open>content_len - received\<close>.\<close>

function receive_body :: "'v esp_platform \<Rightarrow> nat \<Rightarrow> string \<Rightarrow> 'v \<Rightarrow> string option \<times> 'v" where
  "receive_body p remaining body v =
    (if remaining = 0 then (Some body, v)
     else
      (let (chunk, v) = http_recv p remaining v in
       if chunk = [] then (None, v)
       else receive_body p (remaining - length chunk) (body @ take remaining chunk) v))"
  by pat_completeness auto
termination
  by (relation "measure (\<lambda>(p, remaining, _). remaining)") (auto split: prod.splits)

declare receive_body.simps [simp del]

text \<open>The error replied with, or the value. \<open>allocated\<close> says whether the buffer was.\<close>

definition receive_json ::
    "'v esp_platform \<Rightarrow> (string \<Rightarrow> json option) \<Rightarrow> bool \<Rightarrow> nat \<Rightarrow>
     ('v, 'x) gateway_state_scheme \<Rightarrow> (http_reply + json) \<times> ('v, 'x) gateway_state_scheme" where
  "receive_json p parse allocated content_len s =
    (if content_len = 0 \<or> 1024 < content_len then (Inl (bad_request ''Invalid body length''), s)
     else if \<not> allocated then (Inl (server_error ''Out of memory''), s)
     else
      (let (body, v) = receive_body p content_len [] (env s); s = s\<lparr> env := v \<rparr> in
       case body of
         None \<Rightarrow> (Inl (bad_request ''Incomplete body''), s)
       | Some body \<Rightarrow>
           (case parse body of
              None \<Rightarrow> (Inl (bad_request ''Invalid JSON''), s)
            | Some json \<Rightarrow> (Inr json, s))))"

section \<open>The configuration\<close>

definition country_codes :: string where
  "country_codes =
    ''|01|AT|AU|BE|BG|BR|CA|CH|CN|CY|CZ|DE|DK|EE|ES|FI|FR|GB|GR|HK|HR|HU|IE|IN|IS|IT|JP|KR|LI|LT|LU|LV|MT|MX|NL|NO|NZ|PL|PT|RO|SE|SI|SK|TW|US|''"

text \<open>\<open>strstr\<close>.\<close>

definition supported_country :: "string \<Rightarrow> bool" where
  "supported_country country = sublist [CHR ''|'', country ! 0, country ! 1, CHR ''|''] country_codes"

text \<open>\<open>toupper\<close> of the C locale.\<close>

definition toupper :: "char \<Rightarrow> char" where
  "toupper c = (let n = (of_char c :: nat) in if 97 \<le> n \<and> n \<le> 122 then char_of (n - 32) else c)"

text \<open>A port number, \<open>port->valuedouble\<close>, that is acceptable.\<close>

definition port_ok :: "rat \<Rightarrow> bool" where
  "port_ok x \<longleftrightarrow> 1 \<le> x \<and> x \<le> 65535 \<and> x = of_int \<lfloor>x\<rfloor>"

text \<open>The configuration a request asks for, from the one in use, or the error replied with.\<close>

definition requested_config :: "json \<Rightarrow> app_config \<Rightarrow> http_reply + app_config" where
  "requested_config json config =
    (case (json_string (json_item json ''ssid''), json_string (json_item json ''password''),
           json_string (json_item json ''country''), json_string (json_item json ''server''),
           json_number (json_item json ''serverPort'')) of
       (Some ssid, Some password, Some country, Some server_name, Some port) \<Rightarrow>
         if length ssid = 0 \<or> 32 < length ssid \<or> 64 < length password \<or> length country \<noteq> 2 \<or>
            64 < length server_name \<or> \<not> port_ok port
         then Inl (bad_request ''Invalid configuration value'')
         else
          (let config = config\<lparr> ac_ssid := strlcpy 33 ssid, ac_password := strlcpy 65 password,
                 ac_country := map toupper (strlcpy 3 country) \<rparr> in
           if \<not> supported_country (ac_country config)
           then Inl (bad_request ''Unsupported country code'')
           else Inr (config\<lparr> ac_server := strlcpy 65 server_name,
                   ac_server_port := word_of_int \<lfloor>port\<rfloor>, ac_configured := (ac_ssid config \<noteq> []) \<rparr>))
     | _ \<Rightarrow> Inl (bad_request ''Missing configuration fields''))"

definition config_handler ::
    "'v esp_platform \<Rightarrow> (string \<Rightarrow> json option) \<Rightarrow> bool \<Rightarrow> nat \<Rightarrow>
     ('v, 'x) gateway_state_scheme \<Rightarrow> http_reply \<times> ('v, 'x) gateway_state_scheme" where
  "config_handler p parse allocated content_len s =
    (case receive_json p parse allocated content_len s of
       (Inl reply, s) \<Rightarrow> (reply, s)
     | (Inr json, s) \<Rightarrow>
         (case requested_config json (app_config_get s) of
            Inl reply \<Rightarrow> (reply, s)
          | Inr config \<Rightarrow>
              (let (error, s) = app_config_save p (Some config) s in
               if error \<noteq> ESP_OK then (bad_request ''Invalid or unsaved configuration'', s)
               else (Http_Text ''Saved; rebooting into 5 GHz-only STA mode'',
                 s\<lparr> env := snd (task_create p ''reboot'' (env s)) \<rparr>))))"

section \<open>Commands to the receiver\<close>

definition group_handler ::
    "'v esp_platform \<Rightarrow> (string \<Rightarrow> json option) \<Rightarrow> bool \<Rightarrow> nat \<Rightarrow>
     (('v, 'x) gateway_state_scheme \<Rightarrow> bool \<times> ('v, 'x) gateway_state_scheme) \<Rightarrow> bool \<Rightarrow>
     ('v, 'x) gateway_state_scheme \<Rightarrow> http_reply \<times> ('v, 'x) gateway_state_scheme" where
  "group_handler p parse allocated content_len wait locked s =
    (case receive_json p parse allocated content_len s of
       (Inl reply, s) \<Rightarrow> (reply, s)
     | (Inr json, s) \<Rightarrow>
         (case (json_bool (json_item json ''secondary''), json_string (json_item json ''groupId'')) of
            (Some secondary, Some text) \<Rightarrow>
              (let (parsed, group_id) = sv_id48_parse (Some (zeros 6)) (Some text) in
               if \<not> parsed then (bad_request ''Expected secondary and 12-digit groupId'', s)
               else
                (let command = [SV_CMD_SET_GROUP, if secondary then 1 else 0] @ group_id;
                     (result, _, s) = bridge_spi_command wait locked (Some command) True (Some 64) s in
                 if result \<noteq> ESP_OK then (server_error ''Receiver rejected group'', s)
                 else (Http_Text ''OK'', s)))
          | _ \<Rightarrow> (bad_request ''Expected secondary and 12-digit groupId'', s)))"

definition receiver_action_handler ::
    "(('v, 'x) gateway_state_scheme \<Rightarrow> bool \<times> ('v, 'x) gateway_state_scheme) \<Rightarrow> bool \<Rightarrow> byte \<Rightarrow>
     ('v, 'x) gateway_state_scheme \<Rightarrow> http_reply \<times> ('v, 'x) gateway_state_scheme" where
  "receiver_action_handler wait locked command s =
    (let (result, _, s) = bridge_spi_command wait locked (Some [command]) True (Some 64) s in
     if result \<noteq> ESP_OK then (server_error ''Receiver command failed'', s) else (Http_Text ''OK'', s))"

text \<open>\<open>strtoul\<close> in base 10, for texts that are too short to overflow 32 bits.\<close>

definition strtoul10 :: "string \<Rightarrow> u32" where
  "strtoul10 text =
    (let text = dropWhile (\<lambda>c. c = CHR '' '' \<or> (9 \<le> (of_char c :: nat) \<and> (of_char c :: nat) \<le> 13)) text;
         negative = (text \<noteq> [] \<and> hd text = CHR ''-'');
         text = (if text \<noteq> [] \<and> (hd text = CHR ''-'' \<or> hd text = CHR ''+'') then tl text else text);
         digits = takeWhile (\<lambda>c. 48 \<le> (of_char c :: nat) \<and> (of_char c :: nat) \<le> 57) text;
         value = foldl (\<lambda>n c. n * 10 + of_nat (of_char c - 48)) 0 digits
     in if negative then - value else value)"

text \<open>The bytes of the response seen as the page structure; what is missing is zero.\<close>

definition read_tracker_page :: "byte list \<Rightarrow> sv_receiver_tracker_page_response" where
  "read_tracker_page response =
    (let bytes = response @ zeros (60 - length response) in
     \<lparr> tp_command = bytes ! 0, tp_status = bytes ! 1, tp_page = bytes ! 2,
       tp_entries = map (\<lambda>i. \<lparr> te_id = bytes ! (4 + 7 * i), te_address = bslice (5 + 7 * i) 6 bytes \<rparr>)
         [0..<min 8 (unat (bytes ! 3))] \<rparr>)"

definition json_of_word :: "'a::len word \<Rightarrow> json" where
  "json_of_word w = JNumber (of_nat (unat w))"

text \<open>The text \<open>sv_id48_format\<close> writes, up to its NUL.\<close>

definition id48_text :: "byte list \<Rightarrow> string" where
  "id48_text le = take 12 (sv_id48_format (replicate 13 (CHR 0x00)) le)"

definition trackers_handler ::
    "(('v, 'x) gateway_state_scheme \<Rightarrow> bool \<times> ('v, 'x) gateway_state_scheme) \<Rightarrow> bool \<Rightarrow> bool \<Rightarrow> string \<Rightarrow>
     ('v, 'x) gateway_state_scheme \<Rightarrow> http_reply \<times> ('v, 'x) gateway_state_scheme" where
  "trackers_handler wait locked printed page_text s =
    (let command = [SV_CMD_GET_TRACKER_PAGE, ucast (strtoul10 page_text)];
         (result, response, s) = bridge_spi_command wait locked (Some command) True (Some 64) s in
     case response of
       Some response \<Rightarrow>
         if result \<noteq> ESP_OK \<or> length response < 4 then (server_error ''Receiver query failed'', s)
         else
          (let page = read_tracker_page (take 60 response) in
           (json_response printed (JObject [(''page'', json_of_word (tp_page page)),
              (''trackers'', JArray (map (\<lambda>e. JObject [(''id'', json_of_word (te_id e)),
                 (''address'', JString (id48_text (te_address e)))]) (tp_entries page)))]), s))
     | None \<Rightarrow> (server_error ''Receiver query failed'', s))"

section \<open>The status\<close>

text \<open>The bytes of a response seen as the status structure.\<close>

definition read_status_response :: "byte list \<Rightarrow> sv_receiver_status_response" where
  "read_status_response b = \<lparr> sr_command = b ! 0, sr_status = b ! 1, sr_protocol_version = b ! 2,
     sr_flags = b ! 3, sr_receiver_id = bslice 4 6 b, sr_group_id = bslice 10 6 b,
     sr_stored_trackers = read_le16 (drop 16 b), sr_uptime_ms = read_le32 (drop 18 b),
     sr_rf_received = read_le32 (drop 22 b), sr_rf_crc_errors = read_le32 (drop 26 b),
     sr_report_queue_drops = read_le32 (drop 30 b), sr_spi_crc_errors = read_le32 (drop 34 b) \<rparr>"

definition receiver_json :: "sv_receiver_status_response \<Rightarrow> json" where
  "receiver_json status = JObject
    [(''receiverId'', JString (id48_text (sr_receiver_id status))),
     (''groupId'', JString (id48_text (sr_group_id status))),
     (''primary'', JBool (sr_flags status AND 1 \<noteq> 0)),
     (''pairing'', JBool (sr_flags status AND 2 \<noteq> 0)),
     (''radioEnabled'', JBool (sr_flags status AND 4 \<noteq> 0)),
     (''trackers'', json_of_word (sr_stored_trackers status)),
     (''rfReceived'', json_of_word (sr_rf_received status)),
     (''rfCrcErrors'', json_of_word (sr_rf_crc_errors status)),
     (''queueDrops'', json_of_word (sr_report_queue_drops status)),
     (''spiCrcErrors'', json_of_word (sr_spi_crc_errors status)),
     (''uptimeMs'', json_of_word (sr_uptime_ms status))]"

definition gateway_json :: "('v, 'x) gateway_state_scheme \<Rightarrow> (string \<times> json) list" where
  "gateway_json s =
    (let config = app_config_get s; bridge = bridge_spi_get_stats s; gateway = gateway_udp_get_stats s in
     [(''wifiConnected'', JBool (wifi_manager_is_connected s)),
      (''setupAp'', JBool (wifi_manager_is_setup_ap s)),
      (''setupSsid'', JString (wifi_manager_setup_ssid s)),
      (''stationSsid'', JString (ac_ssid config)),
      (''country'', JString (ac_country config)),
      (''server'', JString (ac_server config)),
      (''serverPort'', json_of_word (ac_server_port config)),
      (''serverConnected'', JBool (gs_server_connected gateway)),
      (''datagramsSent'', json_of_word (gs_datagrams_sent gateway)),
      (''reportsSent'', json_of_word (gs_reports_sent gateway)),
      (''reportsDiscarded'', json_of_word (gs_reports_discarded gateway)),
      (''udpReceiveErrors'', json_of_word (gs_receive_errors gateway)),
      (''lastAckAgeMs'', json_of_word (gs_last_ack_age_ms gateway)),
      (''spiTransfers'', json_of_word (bs_transfers bridge)),
      (''spiTransferErrors'', json_of_word (bs_transfer_errors bridge)),
      (''spiReports'', json_of_word (bs_reports bridge)),
      (''spiDecodeErrors'', json_of_word (bs_decode_errors bridge)),
      (''spiQueueDrops'', json_of_word (bs_queue_drops bridge)),
      (''spiCommandTimeouts'', json_of_word (bs_command_timeouts bridge))])"

definition status_handler ::
    "(('v, 'x) gateway_state_scheme \<Rightarrow> bool \<times> ('v, 'x) gateway_state_scheme) \<Rightarrow> bool \<Rightarrow> bool \<Rightarrow>
     ('v, 'x) gateway_state_scheme \<Rightarrow> http_reply \<times> ('v, 'x) gateway_state_scheme" where
  "status_handler wait locked printed s =
    (let root = gateway_json s;
         (result, response, s) = bridge_spi_command wait locked (Some [SV_CMD_GET_STATUS]) True (Some 64) s;
         root = (case response of
           Some response \<Rightarrow>
             if result = ESP_OK \<and> 38 \<le> length response
             then root @ [(''receiver'', receiver_json (read_status_response response))] else root
         | None \<Rightarrow> root)
     in (json_response printed (JObject root), s))"

section \<open>The start of the portal\<close>

datatype portal_endpoint = Ep_Index | Ep_Status | Ep_Config | Ep_Trackers | Ep_Group | Ep_Action byte

text \<open>URI, whether the method is POST, and handler.\<close>

definition portal_routes :: "(string \<times> bool \<times> portal_endpoint) list" where
  "portal_routes =
    [(''/'', False, Ep_Index), (''/api/status'', False, Ep_Status), (''/api/config'', True, Ep_Config),
     (''/api/trackers'', False, Ep_Trackers), (''/api/receiver/group'', True, Ep_Group),
     (''/api/receiver/pair/start'', True, Ep_Action SV_CMD_START_PAIRING),
     (''/api/receiver/pair/stop'', True, Ep_Action SV_CMD_STOP_PAIRING),
     (''/api/receiver/clear'', True, Ep_Action SV_CMD_CLEAR_TRACKERS),
     (''/api/receiver/reboot'', True, Ep_Action SV_CMD_REBOOT),
     (''/generate_204'', False, Ep_Index), (''/hotspot-detect.html'', False, Ep_Index)]"

primrec register_uris ::
    "'v esp_platform \<Rightarrow> (string \<times> bool \<times> portal_endpoint) list \<Rightarrow> 'v \<Rightarrow> 'v option" where
  "register_uris p [] v = Some v"
| "register_uris p (route # routes) v =
    Option.bind (esp_error_check (http_register p (fst route) (fst (snd route)) v)) (register_uris p routes)"

definition web_portal_init ::
    "'v esp_platform \<Rightarrow> ('v, 'x) gateway_state_scheme \<Rightarrow> (int \<times> ('v, 'x) gateway_state_scheme) option" where
  "web_portal_init p s =
    (let (error, v) = http_start p (env s) in
     if error \<noteq> ESP_OK then Some (error, s\<lparr> env := v \<rparr>)
     else map_option (\<lambda>v. let (created, v) = task_create p ''captive-dns'' v
         in (if created then ESP_OK else ESP_ERR_NO_MEM, s\<lparr> env := v \<rparr>))
       (register_uris p portal_routes v))"

end
