(* ===== verification/Portal_Properties.thy ===== *)
theory Portal_Properties
  imports Web_Portal
begin

text \<open>
  What the setup page guarantees on requests it cannot trust: the configuration stays valid, the
  accepted countries are those of the list, and the structures the receiver sends over SPI are read
  back as they were written.
\<close>

section \<open>Countries\<close>

text \<open>The supported codes, and the text the code keeps them in.\<close>

definition country_list :: "string list" where
  "country_list = [''01'', ''AT'', ''AU'', ''BE'', ''BG'', ''BR'', ''CA'', ''CH'', ''CN'', ''CY'', ''CZ'', ''DE'',
     ''DK'', ''EE'', ''ES'', ''FI'', ''FR'', ''GB'', ''GR'', ''HK'', ''HR'', ''HU'', ''IE'', ''IN'', ''IS'', ''IT'',
     ''JP'', ''KR'', ''LI'', ''LT'', ''LU'', ''LV'', ''MT'', ''MX'', ''NL'', ''NO'', ''NZ'', ''PL'', ''PT'', ''RO'',
     ''SE'', ''SI'', ''SK'', ''TW'', ''US'']"

primrec bar_separated :: "string list \<Rightarrow> string" where
  "bar_separated [] = ''|''"
| "bar_separated (c # cs) = CHR ''|'' # c @ bar_separated cs"

lemma country_codes_list: "country_codes = bar_separated country_list"
  by (simp add: country_codes_def country_list_def)

lemma country_list_plain:
  "\<forall>c \<in> set country_list. \<exists>x y. c = [x, y] \<and> x \<noteq> CHR ''|'' \<and> y \<noteq> CHR ''|''"
  by (simp add: country_list_def)

lemma bar_separated_hd: "\<exists>rest. bar_separated cs = CHR ''|'' # rest"
  by (cases cs) auto

text \<open>A code between bars is one of the list: the bars leave no other alignment.\<close>

lemma bar_separated_search:
  assumes "\<forall>c \<in> set cs. \<exists>x y. c = [x, y] \<and> x \<noteq> CHR ''|'' \<and> y \<noteq> CHR ''|''"
  shows "sublist [CHR ''|'', a, b, CHR ''|''] (bar_separated cs) \<longleftrightarrow> [a, b] \<in> set cs"
  using assms
proof (induction cs)
  case Nil
  then show ?case by (simp add: sublist_Cons_right)
next
  case (Cons c cs)
  then obtain x y where c: "c = [x, y]" "x \<noteq> CHR ''|''" "y \<noteq> CHR ''|''" by auto
  obtain rest where rest: "bar_separated cs = CHR ''|'' # rest" using bar_separated_hd by blast
  have "sublist [CHR ''|'', a, b, CHR ''|''] (bar_separated cs) \<longleftrightarrow> [a, b] \<in> set cs"
    using Cons by simp
  then show ?case
    using c by (auto simp: sublist_Cons_right rest)
qed

text \<open>
  The search for \<open>|XX|\<close> in the list of countries accepts exactly the two-character codes of the
  list: no other pair of characters, bars included, is found across the boundaries of the entries.
\<close>

theorem supported_country_exact:
  "supported_country [a, b] \<longleftrightarrow> [a, b] \<in> set country_list"
  using bar_separated_search [OF country_list_plain]
  by (simp add: supported_country_def country_codes_list)

section \<open>Changing the configuration\<close>

lemma receive_json_config: "cf_current (snd (receive_json p parse allocated n s)) = cf_current s"
  by (simp add: receive_json_def Let_def split_beta split: option.split)

lemma receive_json_error:
  "receive_json p parse allocated n s = (Inl reply, t) \<Longrightarrow> \<exists>code text. reply = Http_Error code text"
  by (auto simp: receive_json_def Let_def split_beta split: if_splits option.splits)

lemma save_config_cases:
  assumes "app_config_save p (Some c) s = (error, s')"
  shows "cf_current s' = (if error = ESP_OK then c else cf_current s) \<and> (error = ESP_OK \<longrightarrow> config_ok c)"
  using assms by (auto simp: app_config_save_def config_ok_def Let_def split_beta split: if_splits)

lemma requested_config_ok:
  assumes "requested_config json c = Inr c'"
  shows "ac_country c' \<in> set country_list \<and> ac_ssid c' \<noteq> [] \<and> ac_configured c'"
proof -
  have c: "supported_country (ac_country c')" "length (ac_country c') = 2" "ac_ssid c' \<noteq> []" "ac_configured c'"
    using assms by (auto simp: requested_config_def Let_def strlcpy_def split: option.splits if_splits)
  then obtain a b where ab: "ac_country c' = [a, b]" by (auto simp: length_Suc_conv numeral_2_eq_2)
  then have "sublist [CHR ''|'', a, b, CHR ''|''] (bar_separated country_list)"
    using c(1) by (simp add: supported_country_def country_codes_list)
  then show ?thesis using bar_separated_search [OF country_list_plain] c(3,4) ab by simp
qed

lemma requested_config_error:
  "requested_config json c = Inl reply \<Longrightarrow> \<exists>code text. reply = Http_Error code text"
  by (auto simp: requested_config_def Let_def split: option.splits if_splits)

text \<open>
  A configuration request is safe whatever it contains. The configuration in use changes only if
  the reply says it was saved, and then it is a valid one for a supported country, with a network
  name, and marked as configured; every other request, malformed, out of range or not written to the
  flash, is answered with an error and leaves it as it was.
\<close>

theorem config_request_safe:
  assumes "config_handler p parse allocated n s = (reply, s')"
  shows "(cf_current s' = cf_current s \<and> (\<exists>code text. reply = Http_Error code text)) \<or>
    (reply = Http_Text ''Saved; rebooting into 5 GHz-only STA mode'' \<and> config_ok (cf_current s') \<and>
     ac_country (cf_current s') \<in> set country_list \<and> ac_ssid (cf_current s') \<noteq> [] \<and>
     ac_configured (cf_current s'))"
proof -
  obtain r t where r: "receive_json p parse allocated n s = (r, t)" by fastforce
  have t: "cf_current t = cf_current s" using receive_json_config [of p parse allocated n s] r by simp
  show ?thesis
  proof (cases r)
    case (Inl e)
    then show ?thesis
      using assms r t receive_json_error [of p parse allocated n s e t] by (simp add: config_handler_def)
  next
    case (Inr json)
    note r = r [unfolded Inr]
    show ?thesis
    proof (cases "requested_config json (app_config_get t)")
      case (Inl e)
      then show ?thesis using assms r t requested_config_error [OF Inl] by (simp add: config_handler_def)
    next
      case (Inr c)
      obtain error u where u: "app_config_save p (Some c) t = (error, u)" by fastforce
      then show ?thesis
        using assms r t Inr save_config_cases [OF u] requested_config_ok [OF Inr]
        by (auto simp: config_handler_def split: if_splits)
    qed
  qed
qed

text \<open>A request with port 0.\<close>

theorem config_request_safe_witness:
  "cf_current (snd (config_handler ref_esp
      (\<lambda>_. Some (JObject [(''ssid'', JString ''home''), (''password'', JString []), (''country'', JString ''de''),
         (''server'', JString []), (''serverPort'', JNumber 0)])) True 2
      (gateway_boot (esp_world0\<lparr> ew_body := ''{}'' \<rparr>)))) = defaults"
proof -
  let ?parse = "\<lambda>_ :: string. Some (JObject [(''ssid'', JString ''home''), (''password'', JString []),
    (''country'', JString ''de''), (''server'', JString []), (''serverPort'', JNumber 0)])"
  let ?s = "gateway_boot (esp_world0\<lparr> ew_body := ''{}'' \<rparr>)"
  obtain reply s' where h: "config_handler ref_esp ?parse True 2 ?s = (reply, s')" by fastforce
  have "fst (config_handler ref_esp ?parse True 2 ?s) = bad_request ''Invalid configuration value''"
    by (simp add: config_handler_def receive_json_def receive_body.simps ref_esp_def requested_config_def
        port_ok_def Let_def)
  then have "reply \<noteq> Http_Text ''Saved; rebooting into 5 GHz-only STA mode''" by (simp add: h)
  then show ?thesis using config_request_safe [OF h] h by auto
qed

section \<open>Structures of the receiver\<close>

lemma read_le16_at:
  "length pre = n \<Longrightarrow> read_le16 (drop n (pre @ le_of_word 2 w @ post)) = w"
  using read_le16_word [of "le_of_word 2 w" post] by simp

lemma read_le32_at:
  "length pre = n \<Longrightarrow> read_le32 (drop n (pre @ le_of_word 4 w @ post)) = w"
  using read_le32_word [of "le_of_word 4 w" post] by simp

lemma drop_front: "length pre = n \<Longrightarrow> drop (n + k) (pre @ xs) = drop k xs"
  by simp

lemma tracker_entries_at:
  assumes "\<forall>e \<in> set es. length (te_address e) = 6" and "i < length es"
  shows "bslice (7 * i) 7 (concat (map (\<lambda>e. te_id e # te_address e) es) @ post) =
    te_id (es ! i) # te_address (es ! i)"
  using assms
proof (induction es arbitrary: i)
  case (Cons e es)
  let ?rest = "concat (map (\<lambda>e. te_id e # te_address e) es) @ post"
  have len: "length (te_id e # te_address e) = 7" using Cons.prems(1) by simp
  show ?case
  proof (cases i)
    case 0
    then show ?thesis using len by (simp add: bslice_def)
  next
    case (Suc j)
    have "drop (7 * i) ((te_id e # te_address e) @ ?rest) = drop (7 * j) ?rest"
      using drop_front [OF len, of "7 * j" ?rest] by (simp only: Suc mult_Suc_right)
    then show ?thesis using Cons.IH [of j] Cons.prems Suc by (simp add: bslice_def)
  qed
qed simp

lemma read_status_bytes:
  assumes "length (sr_receiver_id r) = 6" and "length (sr_group_id r) = 6"
  shows "read_status_response (status_response_bytes r @ post) = r"
proof -
  let ?a = "[sr_command r, sr_status r, sr_protocol_version r, sr_flags r]"
  let ?b = "?a @ sr_receiver_id r @ sr_group_id r"
  let ?c = "?b @ le_of_word 2 (sr_stored_trackers r)"
  let ?d = "?c @ le_of_word 4 (sr_uptime_ms r)" let ?e = "?d @ le_of_word 4 (sr_rf_received r)"
  let ?f = "?e @ le_of_word 4 (sr_rf_crc_errors r)" let ?g = "?f @ le_of_word 4 (sr_report_queue_drops r)"
  let ?bytes = "status_response_bytes r @ post"
  have "read_le16 (drop 16 ?bytes) = sr_stored_trackers r" "read_le32 (drop 18 ?bytes) = sr_uptime_ms r"
    "read_le32 (drop 22 ?bytes) = sr_rf_received r" "read_le32 (drop 26 ?bytes) = sr_rf_crc_errors r"
    "read_le32 (drop 30 ?bytes) = sr_report_queue_drops r" "read_le32 (drop 34 ?bytes) = sr_spi_crc_errors r"
    using assms read_le16_at [of ?b 16 "sr_stored_trackers r"] read_le32_at [of ?c 18 "sr_uptime_ms r"]
      read_le32_at [of ?d 22 "sr_rf_received r"] read_le32_at [of ?e 26 "sr_rf_crc_errors r"]
      read_le32_at [of ?f 30 "sr_report_queue_drops r"] read_le32_at [of ?g 34 "sr_spi_crc_errors r"]
    by (simp_all add: status_response_bytes_def)
  moreover have "bslice 4 6 ?bytes = sr_receiver_id r" "bslice 10 6 ?bytes = sr_group_id r"
    using assms by (simp_all add: bslice_def status_response_bytes_def)
  moreover have "?bytes ! 0 = sr_command r" "?bytes ! 1 = sr_status r" "?bytes ! 2 = sr_protocol_version r"
    "?bytes ! 3 = sr_flags r" by (simp_all add: status_response_bytes_def)
  ultimately show ?thesis unfolding read_status_response_def by (cases r) simp
qed

lemma read_tracker_bytes:
  assumes "length (tp_entries r) \<le> 8" and "\<forall>e \<in> set (tp_entries r). length (te_address e) = 6"
  shows "read_tracker_page (tracker_page_bytes r) = r"
proof -
  let ?es = "concat (map (\<lambda>e. te_id e # te_address e) (tp_entries r))"
  let ?n = "length (tp_entries r)" and ?post = "zeros (56 - length ?es)"
  have bytes: "tracker_page_bytes r =
      [tp_command r, tp_status r, tp_page r, of_nat ?n] @ (?es @ ?post)"
    by (simp add: tracker_page_bytes_def Let_def)
  have n: "unat (of_nat ?n :: byte) = ?n" using assms(1) by (simp add: unat_of_nat)
  have at: "tracker_page_bytes r ! (4 + 7 * i) = te_id (tp_entries r ! i) \<and>
      bslice (5 + 7 * i) 6 (tracker_page_bytes r) = te_address (tp_entries r ! i)" if i: "i < ?n" for i
  proof -
    have "bslice (4 + 7 * i) 7 (tracker_page_bytes r) = bslice (7 * i) 7 (?es @ ?post)"
      unfolding bytes bslice_def by (subst drop_front) simp_all
    then have sl: "take 7 (drop (4 + 7 * i) (tracker_page_bytes r)) = te_id (tp_entries r ! i) # te_address (tp_entries r ! i)"
      using tracker_entries_at [OF assms(2) i] by (simp only: bslice_def)
    then obtain x xs where x: "drop (4 + 7 * i) (tracker_page_bytes r) = x # xs"
      by (cases "drop (4 + 7 * i) (tracker_page_bytes r)") auto
    then have "tracker_page_bytes r ! (4 + 7 * i) = x" by (metis hd_drop_conv_nth drop_all leI list.sel(1) list.distinct(1))
    moreover have "drop (5 + 7 * i) (tracker_page_bytes r) = xs"
      using x by (metis add.assoc add.commute drop_drop drop0 drop_Suc_Cons One_nat_def numeral_Bit1 numeral_One
          numeral_code(2) one_plus_numeral plus_1_eq_Suc semiring_norm(2) semiring_norm(4))
    ultimately show ?thesis using sl x by (simp add: bslice_def)
  qed
  have len: "length (tracker_page_bytes r) = 60" by (rule length_tracker_page [OF assms])
  have entries: "map (\<lambda>i. \<lparr> te_id = tracker_page_bytes r ! (4 + 7 * i), te_address = bslice (5 + 7 * i) 6 (tracker_page_bytes r) \<rparr>)
      [0..<?n] = tp_entries r"
    using at by (intro nth_equalityI) auto
  show ?thesis
    using entries n assms(1) len
    by (simp add: read_tracker_page_def) (simp add: bytes)
qed

text \<open>
  Both sides agree on the structures of the receiver's responses. The status the receiver writes
  into a response is read back field by field by the gateway, whatever follows it in the buffer, and
  so is every page of trackers, of any number of entries up to eight.
\<close>

theorem receiver_structures_read_back:
  assumes "length (sr_receiver_id r) = 6" and "length (sr_group_id r) = 6"
    and "length (tp_entries t) \<le> 8" and "\<forall>e \<in> set (tp_entries t). length (te_address e) = 6"
  shows "read_status_response (status_response_bytes r @ post) = r \<and>
    read_tracker_page (tracker_page_bytes t) = t"
  using read_status_bytes [OF assms(1,2)] read_tracker_bytes [OF assms(3,4)] by blast

theorem receiver_structures_read_back_witness:
  "read_tracker_page (tracker_page_bytes \<lparr> tp_command = SV_CMD_GET_TRACKER_PAGE, tp_status = SV_STATUS_OK,
      tp_page = 1, tp_entries = [\<lparr> te_id = 9, te_address = [1, 2, 3, 4, 5, 6] \<rparr>] \<rparr>) =
    \<lparr> tp_command = SV_CMD_GET_TRACKER_PAGE, tp_status = SV_STATUS_OK,
      tp_page = 1, tp_entries = [\<lparr> te_id = 9, te_address = [1, 2, 3, 4, 5, 6] \<rparr>] \<rparr>"
  using receiver_structures_read_back [of "\<lparr> sr_command = 1, sr_status = 0, sr_protocol_version = 1, sr_flags = 0,
      sr_receiver_id = zeros 6, sr_group_id = zeros 6, sr_stored_trackers = 0, sr_uptime_ms = 0, sr_rf_received = 0,
      sr_rf_crc_errors = 0, sr_report_queue_drops = 0, sr_spi_crc_errors = 0 \<rparr>"
      "\<lparr> tp_command = SV_CMD_GET_TRACKER_PAGE, tp_status = SV_STATUS_OK,
      tp_page = 1, tp_entries = [\<lparr> te_id = 9, te_address = [1, 2, 3, 4, 5, 6] \<rparr>] \<rparr>" "[]"]
  by simp

section \<open>The group of the receiver\<close>

lemma id48_parse_loop_length: "length (snd (id48_parse_loop index le entered)) = length le"
proof (induction index le entered rule: id48_parse_loop.induct)
  case (1 i le cs)
  then show ?case by (subst id48_parse_loop.simps) (auto simp: Let_def)
qed

lemma id48_parse_length: "length old = 6 \<Longrightarrow> length (snd (sv_id48_parse (Some old) (Some entered))) = 6"
  by (simp add: sv_id48_parse_def id48_parse_loop_length)

lemma group_payload:
  assumes "take 8 payload = [SV_CMD_SET_GROUP, x] @ le" and "length le = 6"
  shows "payload ! 0 = SV_CMD_SET_GROUP" and "payload ! 1 = x" and "bslice 2 6 payload = le"
proof -
  have "payload = take 8 payload @ drop 8 payload" by simp
  then have p: "payload = SV_CMD_SET_GROUP # x # le @ drop 8 payload" using assms(1) by simp
  show "payload ! 0 = SV_CMD_SET_GROUP" by (subst p) simp
  show "payload ! 1 = x" by (subst p) simp
  show "bslice 2 6 payload = le" by (subst p) (simp add: bslice_def assms(2))
qed

text \<open>
  The group a user enters is the group the receiver gets. A request with a role and twelve digits
  makes the portal send one command, and its reply is whether that succeeded; a message that carries
  the bytes of this command makes the receiver call \<open>rf_receiver_set_group\<close> with the role that was
  asked for and with the number whose hexadecimal text, in lower case, is what was entered, and answer
  with its result.
\<close>

theorem group_request_reaches_receiver:
  assumes request: "receive_json pe parse allocated len s = (Inr json, s1)"
      "json_bool (json_item json ''secondary'') = Some secondary"
      "json_string (json_item json ''groupId'') = Some entered"
      "sv_id48_parse (Some (zeros 6)) (Some entered) = (True, le)"
    and command: "bridge_spi_command wait locked
      (Some ([SV_CMD_SET_GROUP, if secondary then 1 else 0] @ le)) True (Some 64) s1 = (result, response, s2)"
    and carried: "bm_payload_length m = 8"
      "take 8 (bm_payload m) = [SV_CMD_SET_GROUP, if secondary then 1 else 0] @ le"
  shows "group_handler pe parse allocated len wait locked s =
      (if result = ESP_OK then Http_Text ''OK'' else Http_Error 500 ''Receiver rejected group'', s2) \<and>
    execute p m n = respond SV_CMD_SET_GROUP
      (bm_zero\<lparr> bm_kind := SV_BRIDGE_COMMAND_RESPONSE, bm_request_id := bm_request_id m \<rparr>)
      (rf_receiver_set_group p secondary (word_of_le le) n) \<and>
    id48_text (le_of_word 6 (word_of_le le :: u64)) = map hex_lower entered"
proof -
  have old: "length (zeros 6) = 6" by simp
  have le: "length le = 6" using id48_parse_length [OF old, of entered] request(4) by simp
  note pay = group_payload [OF carried(2) le]
  have again: "le_of_word 6 (word_of_le le :: u64) = le"
    using le_of_word_of_le [of le, where 'a = 64] le by simp
  have digits: "length entered = 12" "sv_id48_format (replicate 13 (CHR 0x00)) le = map hex_lower entered @ [CHR 0x00]"
    using id48_parse_accepts(1) [OF old, of entered] id48_parse_accepts(2) [OF old, of entered "replicate 13 (CHR 0x00)"]
      request(4) by simp_all
  have "group_handler pe parse allocated len wait locked s =
      (if result = ESP_OK then Http_Text ''OK'' else Http_Error 500 ''Receiver rejected group'', s2)"
    using command by (simp add: group_handler_def request Let_def)
  then show ?thesis
    using carried(1) pay again digits by (simp add: execute_def id48_text_def)
qed

text \<open>A request for a group whose command is not answered in time.\<close>

theorem group_request_reaches_receiver_witness:
  "fst (group_handler ref_esp (\<lambda>body. Some (JObject [(''secondary'', JBool True), (''groupId'', JString ''A5046FE8A5F5'')]))
      True 1 (\<lambda>s. (False, s)) True (gateway_boot (esp_world0\<lparr> ew_body := ''x'' \<rparr>))) =
     Http_Error 500 ''Receiver rejected group'' \<and>
   id48_text (le_of_word 6 (word_of_le [0xf5, 0xa5, 0xe8, 0x6f, 0x04, 0xa5] :: u64)) = ''a5046fe8a5f5''"
proof -
  let ?le = "[0xf5, 0xa5, 0xe8, 0x6f, 0x04, 0xa5] :: byte list"
  let ?m = "bm_zero\<lparr> bm_payload_length := 8, bm_payload := [SV_CMD_SET_GROUP, 1] @ ?le @ zeros 56 \<rparr>"
  let ?json = "JObject [(''secondary'', JBool True), (''groupId'', JString ''A5046FE8A5F5'')]"
  let ?s = "gateway_boot (esp_world0\<lparr> ew_body := ''x'' \<rparr>)"
  have parsed: "sv_id48_parse (Some (zeros 6)) (Some ''A5046FE8A5F5'') = (True, ?le)"
    by (simp add: sv_id48_parse_def id48_parse_loop.simps hex_value_def numeral_eq_Suc)
  obtain s1 where json: "receive_json ref_esp (\<lambda>body. Some ?json) True 1 ?s = (Inr ?json, s1)"
    by (simp add: receive_json_def receive_body.simps ref_esp_def esp_world0_def)
  obtain result response s2 where c: "bridge_spi_command (\<lambda>s. (False, s)) True
      (Some ([SV_CMD_SET_GROUP, if True then 1 else 0] @ ?le)) True (Some 64) s1 = (result, response, s2)"
    by (metis prod_cases3)
  have "result \<noteq> ESP_OK" using c by (auto simp: bridge_spi_command_def finish_command_def)
  moreover have "map hex_lower ''A5046FE8A5F5'' = ''a5046fe8a5f5''" by code_simp
  ultimately show ?thesis
    using group_request_reaches_receiver [OF json _ _ parsed c, of ?m ref_platform] by simp
qed

end
