(* ===== verification/Status_Metrics.thy ===== *)
theory Status_Metrics
  imports Portal_Properties
begin

text \<open>
  The health log of the gateway, \<open>firmware/esp32c5/main/status_metrics.c\<close>, and the start of the
  firmware, \<open>app_main.c\<close>. What a turn logs is a value, \<open>status_log\<close>; the layout of its text is not
  modelled.
\<close>

abbreviation (input) LINK_RETRY_INTERVAL_MS :: u32 where "LINK_RETRY_INTERVAL_MS \<equiv> 2000"
abbreviation (input) HEALTHY_LOG_INTERVAL_MS :: u32 where "HEALTHY_LOG_INTERVAL_MS \<equiv> 30000"
abbreviation (input) SV_RECEIVER_CONTROL_VERSION :: byte where "SV_RECEIVER_CONTROL_VERSION \<equiv> 1"

text \<open>\<open>wait\<close> and \<open>locked\<close> are those of the command; the structure has 38 bytes.\<close>

definition query_receiver ::
    "(('v, 'x) gateway_state_scheme \<Rightarrow> bool \<times> ('v, 'x) gateway_state_scheme) \<Rightarrow> bool \<Rightarrow>
     ('v, 'x) gateway_state_scheme \<Rightarrow> sv_receiver_status_response option \<times> ('v, 'x) gateway_state_scheme" where
  "query_receiver wait locked s =
    (let (result, response, s) = bridge_spi_command wait locked (Some [SV_CMD_GET_STATUS]) True (Some 64) s in
     case response of
       None \<Rightarrow> (None, s)
     | Some response \<Rightarrow>
         if result \<noteq> ESP_OK \<or> length response < 38 then (None, s)
         else
          (let status = read_status_response response in
           (if sr_command status = SV_CMD_GET_STATUS \<and> sr_status status = SV_STATUS_OK \<and>
               sr_protocol_version status = SV_RECEIVER_CONTROL_VERSION
            then Some status else None, s)))"

datatype status_log =
    Link_Established "byte list" byte
  | Health bridge_stats sv_receiver_status_response bool bool gateway_udp_stats
  | Receiver_Unavailable bridge_stats

text \<open>One turn of \<open>status_task\<close>, from the loop's \<open>link_was_healthy\<close> to the next one.\<close>

definition status_turn ::
    "'v esp_platform \<Rightarrow> (('v, 'x) gateway_state_scheme \<Rightarrow> bool \<times> ('v, 'x) gateway_state_scheme) \<Rightarrow> bool \<Rightarrow>
     bool \<Rightarrow> ('v, 'x) gateway_state_scheme \<Rightarrow> status_log list \<times> bool \<times> ('v, 'x) gateway_state_scheme" where
  "status_turn p wait locked link_was_healthy s =
    (let (receiver, s) = query_receiver wait locked s;
         bridge = bridge_spi_get_stats s; gateway = gateway_udp_get_stats s;
         log = (case receiver of
            Some receiver \<Rightarrow>
              (if \<not> link_was_healthy
               then [Link_Established (sr_receiver_id receiver) (sr_protocol_version receiver)] else []) @
              [Health bridge receiver (wifi_manager_is_connected s) (wifi_manager_is_setup_ap s) gateway]
          | None \<Rightarrow> [Receiver_Unavailable bridge]);
         link_healthy = (receiver \<noteq> None)
     in (log, link_healthy, s\<lparr> env := delay_ticks p
           (if link_healthy then HEALTHY_LOG_INTERVAL_MS else LINK_RETRY_INTERVAL_MS) (env s) \<rparr>))"

definition status_metrics_init ::
    "'v esp_platform \<Rightarrow> ('v, 'x) gateway_state_scheme \<Rightarrow> int \<times> ('v, 'x) gateway_state_scheme" where
  "status_metrics_init p s =
    (let (created, v) = task_create p ''status'' (env s)
     in (if created then ESP_OK else ESP_ERR_NO_MEM, s\<lparr> env := v \<rparr>))"

section \<open>The start of the gateway (app_main.c)\<close>

text \<open>Every component is started, each under \<open>ESP_ERROR_CHECK\<close>; \<open>None\<close> is an abort.\<close>

definition app_main ::
    "'v esp_platform \<Rightarrow> bool \<Rightarrow> ('v, 'x) gateway_state_scheme \<Rightarrow> ('v, 'x) gateway_state_scheme option" where
  "app_main p created s =
    Option.bind (Option.bind (app_config_init p s) esp_error_check) (\<lambda>s.
    Option.bind (esp_error_check (bridge_spi_init p s)) (\<lambda>s.
    Option.bind (Option.bind (wifi_manager_init p created s) esp_error_check) (\<lambda>s.
    Option.bind (esp_error_check (gateway_udp_init p s)) (\<lambda>s.
    Option.bind (Option.bind (web_portal_init p s) esp_error_check) (\<lambda>s.
    esp_error_check (status_metrics_init p s))))))"

section \<open>What the log tells\<close>

text \<open>
  The health log tells the state of the receiver. When the command is answered with the status the
  receiver writes, the turn logs that very status with the counters of the gateway, announces the link
  exactly if it was down before, counts it as healthy and pauses for 30 s; when the command fails, it
  logs the receiver as unavailable, counts the link as down and tries again after 2 s.
\<close>

theorem health_log_tells_receiver:
  assumes "length (sr_receiver_id r) = 6" and "length (sr_group_id r) = 6"
    and "sr_command r = SV_CMD_GET_STATUS" and "sr_status r = SV_STATUS_OK" and "sr_protocol_version r = 1"
    and "bridge_spi_command wait locked (Some [SV_CMD_GET_STATUS]) True (Some 64) s = (result, response, t)"
  shows "(result = ESP_OK \<and> response = Some (status_response_bytes r) \<longrightarrow>
      status_turn p wait locked healthy s =
        ((if healthy then [] else [Link_Established (sr_receiver_id r) 1]) @
          [Health (eb_stats t) r (wifi_manager_is_connected t) (wifi_manager_is_setup_ap t) (gw_stats t)],
         True, t\<lparr> env := delay_ticks p 30000 (env t) \<rparr>)) \<and>
    (result \<noteq> ESP_OK \<longrightarrow> status_turn p wait locked healthy s =
        ([Receiver_Unavailable (eb_stats t)], False, t\<lparr> env := delay_ticks p 2000 (env t) \<rparr>))"
  using assms read_status_bytes [OF assms(1,2), of "[]"] length_status_response [OF assms(1,2)]
  by (auto simp: status_turn_def query_receiver_def Let_def bridge_spi_get_stats_def
      gateway_udp_get_stats_def split: option.split)

text \<open>A gateway whose receiver does not answer.\<close>

theorem health_log_tells_receiver_witness:
  "fst (status_turn ref_esp (\<lambda>s. (False, s)) True True (gateway_boot esp_world0)) =
     [Receiver_Unavailable ((eb_stats (gateway_boot esp_world0))\<lparr> bs_command_timeouts := 1 \<rparr>)]"
proof -
  let ?r = "\<lparr> sr_command = SV_CMD_GET_STATUS, sr_status = SV_STATUS_OK, sr_protocol_version = 1, sr_flags = 0,
      sr_receiver_id = zeros 6, sr_group_id = zeros 6, sr_stored_trackers = 0, sr_uptime_ms = 0, sr_rf_received = 0,
      sr_rf_crc_errors = 0, sr_report_queue_drops = 0, sr_spi_crc_errors = 0 \<rparr>"
  let ?s = "gateway_boot esp_world0"
  obtain result response t where
    c: "bridge_spi_command (\<lambda>s. (False, s)) True (Some [SV_CMD_GET_STATUS]) True (Some 64) ?s = (result, response, t)"
    by (metis prod_cases3)
  have "result = ESP_ERR_TIMEOUT" "eb_stats t = (eb_stats ?s)\<lparr> bs_command_timeouts := 1 \<rparr>"
    using c by (auto simp: bridge_spi_command_def finish_command_def start_command_def Let_def count_stat_def
        gateway_boot_def wifi_state.extend_def wifi_boot_def app_state.extend_def app_boot_def esp_state.extend_def
        esp_boot_def)
  then show ?thesis
    using health_log_tells_receiver [OF _ _ _ _ _ c, of ?r ref_esp True] by simp
qed

end
