(* ===== verification/Gateway_System.thy ===== *)
theory Gateway_System
  imports Gateway_Session Status_Metrics
begin

text \<open>
  The gateway as a whole: what \<open>app_main\<close> starts and what every task keeps. The invariant
  \<open>gateway_ok\<close> holds what the other theorems about the gateway assume of its state.
\<close>

section \<open>Invariant\<close>

definition gateway_ok ::
    "('v \<Rightarrow> byte list list) \<Rightarrow> gateway_session option \<times> ('v, 'x) gateway_state_scheme \<Rightarrow> bool" where
  "gateway_ok q es \<longleftrightarrow>
    command_ok (eb_command (snd es)) \<and> config_ok (cf_current (snd es)) \<and>
    length (gw_gateway_id (snd es)) = 6 \<and>
    length (q (env (snd es))) \<le> 128 \<and> (\<forall>r \<in> set (q (env (snd es))). length r = 64) \<and>
    (\<forall>e. fst es = Some e \<longrightarrow> server_up (snd es) \<longrightarrow> se_server_known e)"

text \<open>Documented behaviour of the SPI driver: a transfer fills the 80 bytes of the receive buffer.\<close>

definition spi_whole :: "'v esp_platform \<Rightarrow> bool" where
  "spi_whole p \<longleftrightarrow> (\<forall>tx v. length (fst (snd (spi_transmit p tx v))) = 80)"

text \<open>The fields the UDP task leaves alone, and queues from which reports were only taken.\<close>

definition udp_keeps ::
    "('v \<Rightarrow> byte list list) \<Rightarrow> ('v, 'x) gateway_state_scheme \<Rightarrow> ('v, 'x) gateway_state_scheme \<Rightarrow> bool" where
  "udp_keeps q s s' \<longleftrightarrow> eb_command s' = eb_command s \<and> cf_current s' = cf_current s \<and>
     gw_gateway_id s' = gw_gateway_id s \<and> (\<exists>n. q (env s') = drop n (q (env s)))"

lemma udp_keeps_trans: "udp_keeps q s t \<Longrightarrow> udp_keeps q t u \<Longrightarrow> udp_keeps q s u"
  by (auto simp: udp_keeps_def)

lemma udp_keeps_same:
  "eb_command s' = eb_command s \<Longrightarrow> cf_current s' = cf_current s \<Longrightarrow> gw_gateway_id s' = gw_gateway_id s \<Longrightarrow>
   q (env s') = q (env s) \<Longrightarrow> udp_keeps q s s'"
  by (auto simp: udp_keeps_def intro: exI [of _ 0])

lemma gateway_ok_udp:
  assumes "gateway_ok q (e, s)" and "udp_keeps q s s'"
    and "\<forall>x. e' = Some x \<longrightarrow> server_up s' \<longrightarrow> se_server_known x"
  shows "gateway_ok q (e', s')"
  using assms by (auto simp: gateway_ok_def udp_keeps_def) (meson in_set_dropD)

section \<open>The UDP task\<close>

lemma keeps_message: "queue_ok p q \<Longrightarrow> udp_keeps q s (snd (send_message p d k r c s))"
  by (rule udp_keeps_same)
    (simp_all add: send_message_queue, simp_all add: send_message_def Let_def split_beta split: option.split)

lemma keeps_datagram:
  assumes "queue_ok p q"
  shows "udp_keeps q s (snd (handle_datagram p source b e s))"
  using keeps_message [OF assms]
  by (auto simp: handle_datagram_def receive_error_def intro: udp_keeps_same split: option.split)

lemma keeps_receive:
  assumes "queue_ok p q"
  shows "udp_keeps q s (snd (receive_control p e s))"
proof -
  obtain x v where x: "udp_receive p (env s) = (x, v)" by fastforce
  then have v: "udp_keeps q s (s\<lparr> env := v \<rparr>)"
    using queue_ok_frame(2) [OF assms, of "env s"] by (intro udp_keeps_same) simp_all
  show ?thesis
  proof (cases x)
    case (Inl b)
    with v show ?thesis by (simp add: receive_control_def x receive_error_def udp_keeps_def Let_def)
  next
    case (Inr m)
    obtain source bytes where m: "m = (source, bytes)" by fastforce
    show ?thesis
      using udp_keeps_trans [OF v keeps_datagram [OF assms]] by (simp add: receive_control_def x Inr m)
  qed
qed

lemma resolve_queue:
  "queue_ok p q \<Longrightarrow> q (snd (snd (resolve_server p config v))) = q v"
  using queue_ok_frame(3) [of p q "ac_server config" v]
  by (cases "resolve_host p (ac_server config) v") (simp add: resolve_server_def Let_def split: option.split)

lemma keeps_find:
  assumes "queue_ok p q"
  shows "udp_keeps q (snd r) (snd (find_server p config now r))"
proof -
  have "udp_keeps q s (s\<lparr> env := snd (snd (resolve_server p config (env s))) \<rparr>)"
    for s :: "('a, 'b) gateway_state_scheme"
    by (rule udp_keeps_same) (simp_all add: resolve_queue [OF assms])
  then show ?thesis
    using keeps_message [OF assms, of "snd r"] udp_keeps_same [of "snd r" "snd r" q]
    by (simp add: find_server_def Let_def split_beta)
qed

lemma keeps_control:
  assumes "queue_ok p q"
  shows "udp_keeps q s (snd (snd (session_control p config e s)))"
proof -
  obtain e1 s1 where s1: "receive_control p e s = (e1, s1)" by fastforce
  define now where "now = tick_count p (env s1)"
  obtain e2 s2 where s2: "find_server p config now (e1, s1) = (e2, s2)" by fastforce
  obtain e3 s3 where s3: "say_hello p now (e2, s2) = (e3, s3)" by fastforce
  have "udp_keeps q s s1" using keeps_receive [OF assms, of s e] s1 by simp
  moreover have "udp_keeps q s1 s2" using keeps_find [OF assms, of "(e1, s1)" config now] s2 by simp
  moreover have "udp_keeps q s2 s3"
    using keeps_message [OF assms, of s2 "se_server e2" 3 "[]" 0] udp_keeps_same [of s2 s2 q] s3
    by (auto simp: say_hello_def split: if_splits)
  moreover have "udp_keeps q s3 (snd (check_timeout now (e3, s3)))"
    by (auto simp: check_timeout_def intro: udp_keeps_same)
  ultimately have "udp_keeps q s (snd (check_timeout now (e3, s3)))" by (meson udp_keeps_trans)
  then show ?thesis by (simp add: session_control_def s1 Let_def now_def [symmetric] s2 s3)
qed

lemma keeps_discard:
  assumes "queue_ok p q" and "discard_pending_reports p s = Some s'"
  shows "udp_keeps q s s'"
  using discard_ends [OF assms(1), of s] assms(2)
  by (auto simp: udp_keeps_def count_discarded_def intro!: exI [of _ "length (q (env s))"])

lemma keeps_forward:
  assumes "queue_ok p q" and "forward_reports p e s = Some s'"
  shows "udp_keeps q s s'"
proof (cases "server_up s")
  case True
  obtain rs t where r: "receive_up_to (bridge_spi_receive_report p) 8 s = (rs, t)" by fastforce
  obtain v where v: "t = s\<lparr> env := v \<rparr>" using receive_up_to_frame [of p 8 s] r by auto
  have "q v = drop 8 (q (env s))"
    using fifo_source.up_to_contents [OF report_source [OF assms(1)] TrueI, where s = s and n = 8] r v by simp
  then have t: "udp_keeps q s t" by (auto simp: udp_keeps_def v)
  have "udp_keeps q s (snd (send_message p (se_server e) 5 (concat rs) (of_nat (length rs)) t))"
    using udp_keeps_trans [OF t keeps_message [OF assms(1)]] .
  then show ?thesis
    using assms(2) True t
    by (auto simp: forward_reports_def r Let_def split_beta udp_keeps_def count_discarded_def split: if_splits)
next
  case False
  then show ?thesis using assms keeps_discard by (simp add: forward_reports_def)
qed

lemma keeps_turn:
  assumes "queue_ok p q" and "session_turn p config e s = Some (e', s')"
  shows "udp_keeps q s s'"
proof -
  obtain now e1 s1 where c: "session_control p config e s = (now, e1, s1)" by (metis prod_cases3)
  obtain s2 a where s2: "forward_reports p e1 s1 = Some s2"
    "s' = s2\<lparr> gw_stats := (gw_stats s2)\<lparr> gs_last_ack_age_ms := a \<rparr>, env := delay_ticks p 1 (env s2) \<rparr>"
    using assms(2) by (auto simp: session_turn_def c)
  have "udp_keeps q s s2"
    using udp_keeps_trans keeps_control [OF assms(1), of s config e] keeps_forward [OF assms(1) s2(1)] c
    by fastforce
  then show ?thesis by (simp add: s2(2) udp_keeps_def queue_ok_frame [OF assms(1)])
qed

lemma turn_server_known:
  assumes "queue_ok p q" and "session_turn p config e s = Some (e', s')"
    and "server_up s \<longrightarrow> se_server_known e"
  shows "server_up s' \<longrightarrow> se_server_known e'"
proof -
  obtain now e1 s1 where c: "session_control p config e s = (now, e1, s1)" by (metis prod_cases3)
  then obtain s2 a where s2: "forward_reports p e1 s1 = Some s2" "e' = e1"
    "s' = s2\<lparr> gw_stats := (gw_stats s2)\<lparr> gs_last_ack_age_ms := a \<rparr>, env := delay_ticks p 1 (env s2) \<rparr>"
    using assms(2) by (auto simp: session_turn_def)
  then show ?thesis
    using control_connected [OF c assms(3)] forward_frame(1) [OF assms(1) s2(1)] by simp
qed

section \<open>The SPI task\<close>

definition spi_keeps ::
    "('v \<Rightarrow> byte list list) \<Rightarrow> ('v, 'x) gateway_state_scheme \<Rightarrow> ('v, 'x) gateway_state_scheme \<Rightarrow> bool" where
  "spi_keeps q s s' \<longleftrightarrow> cf_current s' = cf_current s \<and> gw_gateway_id s' = gw_gateway_id s \<and>
     gw_stats s' = gw_stats s \<and>
     (command_ok (eb_command s) \<longrightarrow> command_ok (eb_command s')) \<and>
     (length (q (env s)) \<le> 128 \<and> (\<forall>r \<in> set (q (env s)). length r = 64) \<longrightarrow>
      length (q (env s')) \<le> 128 \<and> (\<forall>r \<in> set (q (env s')). length r = 64))"

lemma spi_keeps_trans: "spi_keeps q s t \<Longrightarrow> spi_keeps q t u \<Longrightarrow> spi_keeps q s u"
  unfolding spi_keeps_def by (intro conjI impI) (elim conjE, blast | metis)+

lemma spi_keeps_env: "q v = q (env s) \<Longrightarrow> spi_keeps q s (s\<lparr> env := v \<rparr>)"
  by (simp add: spi_keeps_def)

lemma gateway_ok_spi: "gateway_ok q (e, s) \<Longrightarrow> spi_keeps q s s' \<Longrightarrow> gateway_ok q (e, s')"
  by (auto simp: gateway_ok_def spi_keeps_def)

lemma prepare_frame:
  "cf_current (snd (snd (prepare_command p m s))) = cf_current s"
  "gw_gateway_id (snd (snd (prepare_command p m t))) = gw_gateway_id t"
  "gw_stats (snd (snd (prepare_command p m t))) = gw_stats t"
  "env (snd (snd (prepare_command p m s))) = env s"
  by (simp_all add: prepare_command_def Let_def)

lemma keeps_outgoing: "spi_keeps q s (snd (outgoing_frame p s))"
proof -
  have "snd (outgoing_frame p s) = snd (snd (prepare_command p
      (bm_zero\<lparr> bm_sequence := eb_tx_sequence s \<rparr>) (s\<lparr> eb_tx_sequence := eb_tx_sequence s + 1 \<rparr>)))"
    by (simp add: outgoing_frame_def Let_def split_beta)
  then show ?thesis using command_ok_outgoing [of s p] by (simp add: spi_keeps_def prepare_frame)
qed

lemma keeps_receive_frame:
  assumes "queue_ok p q" and "length rx = 80"
  shows "spi_keeps q s (snd (receive_frame p rx s))"
proof -
  have pay: "length (bm_payload m) = 64" if "sv_bridge_decode rx = Some m" for m
    using bridge_decode_props [OF that assms(2)] by (simp add: bm_wf_def)
  have "cf_current (snd (receive_frame p rx s)) = cf_current s"
    "gw_gateway_id (snd (receive_frame p rx s)) = gw_gateway_id s"
    "gw_stats (snd (receive_frame p rx s)) = gw_stats s"
    by (simp_all add: receive_frame_def Let_def split_beta count_stat_def accept_response_def
        split: option.split)
  moreover have "q (env (snd (receive_frame p rx s))) \<in> {q (env s)} \<union>
      {q (env s) @ [r] | r. length r = 64 \<and> length (q (env s)) < 128}"
    using queue_ok_send [OF assms(1)] pay
    by (cases "sv_bridge_decode rx")
      (auto simp: receive_frame_def Let_def split_beta)
  ultimately show ?thesis
    using command_ok_receive [OF _ assms(2), of s p] by (auto simp: spi_keeps_def)
qed

lemma keeps_transact:
  assumes "queue_ok p q" and "spi_whole p"
  shows "spi_keeps q s (snd (transact p s))"
proof -
  obtain tx t where t: "outgoing_frame p s = (tx, t)" by fastforce
  obtain result rx v where x: "spi_transmit p tx (delay_us p 2 (env t)) = (result, rx, v)" by (metis prod_cases3)
  let ?t = "t\<lparr> env := delay_us p 2 v \<rparr>"
  have rx: "length rx = 80" using assms(2) x unfolding spi_whole_def by (metis fst_conv snd_conv)
  have "spi_keeps q s t" using keeps_outgoing [of q s p] t by simp
  moreover have "spi_keeps q t ?t"
    using queue_ok_frame(4) [OF assms(1), of tx "delay_us p 2 (env t)"] x
    by (intro spi_keeps_env) (simp add: queue_ok_frame [OF assms(1)])
  moreover have "spi_keeps q ?t (snd (transact p s))"
    using keeps_receive_frame [OF assms(1) rx, of ?t]
    by (simp add: transact_def t x Let_def) (simp add: spi_keeps_def count_stat_def)
  ultimately show ?thesis by (meson spi_keeps_trans)
qed

lemma keeps_drain:
  assumes "queue_ok p q" and "spi_whole p"
  shows "spi_keeps q s (drain_receiver p n s)"
proof (induction n arbitrary: s)
  case 0
  then show ?case by (simp add: spi_keeps_def)
next
  case (Suc n)
  obtain r s1 where t: "transact p s = (r, s1)" by fastforce
  obtain b s2 where w: "wait_for_receiver_rearm p s1 = (b, s2)" by fastforce
  have 1: "spi_keeps q s s1" using keeps_transact [OF assms, of s] t by simp
  have "spi_keeps q s1 (snd (wait_for_receiver_rearm p s1))"
    by (auto simp: wait_for_receiver_rearm_def Let_def split_beta wait_level_queue [OF assms(1)]
        intro: spi_keeps_env)
  then have 2: "spi_keeps q s s2" using spi_keeps_trans [OF 1] w by simp
  show ?case using 1 2 spi_keeps_trans [OF 2 Suc.IH] by (simp add: t w)
qed

lemma keeps_spi_turn:
  assumes "queue_ok p q" and "spi_whole p"
  shows "spi_keeps q s (bridge_task_turn p s)"
proof -
  obtain b v where b: "gpio_ready p (env s) = (b, v)" by fastforce
  let ?s = "if b then drain_receiver p 8 (s\<lparr> env := v \<rparr>) else s\<lparr> env := v \<rparr>"
  have v: "spi_keeps q s (s\<lparr> env := v \<rparr>)"
    using queue_ok_frame(5) [OF assms(1), of "env s"] b by (intro spi_keeps_env) simp
  then have "spi_keeps q s ?s"
    using spi_keeps_trans [OF v keeps_drain [OF assms]] by simp
  moreover have "spi_keeps q ?s (bridge_task_turn p s)"
    unfolding bridge_task_turn_def b Let_def prod.case
    by (intro spi_keeps_env) (simp only: queue_ok_frame [OF assms(1)])
  ultimately show ?thesis by (rule spi_keeps_trans)
qed

section \<open>The steps\<close>

lemma gateway_ok_command_end:
  "gateway_ok q (e, s) \<Longrightarrow> gateway_ok q (e, snd (snd (finish_command taken capacity s)))"
  by (simp add: gateway_ok_def finish_command_def Let_def count_stat_def command_ok_def)

lemma gateway_ok_save:
  assumes "queue_ok p q" and "gateway_ok q (e, s)"
  shows "gateway_ok q (e, snd (app_config_save p c s))"
proof -
  have "eb_command (snd (app_config_save p c s)) = eb_command s"
    "gw_gateway_id (snd (app_config_save p c s)) = gw_gateway_id s"
    "gw_stats (snd (app_config_save p c s)) = gw_stats s"
    "q (env (snd (app_config_save p c s))) = q (env s)"
    by (simp_all add: app_config_save_def Let_def split_beta and_then_queue
        queue_ok_frame [OF assms(1)] write_config_queue [OF assms(1)] split: option.split)
  then show ?thesis
    using assms(2) config_ok_save [of s p c] by (simp add: gateway_ok_def)
qed

lemma gateway_ok_step:
  assumes ok: "queue_ok p q" "spi_whole p" and "gateway_step p config es es'" and "gateway_ok q es"
  shows "gateway_ok q es'"
  using assms(3)
proof (cases rule: gateway_step.cases)
  case (gw_offline s waited s')
  then obtain t where t: "discard_pending_reports p s = Some t" "s' = t\<lparr> env := delay_ticks p waited (env t) \<rparr>"
    by (auto simp: offline_turn_def)
  have "udp_keeps q s s'"
    using keeps_discard [OF ok(1) t(1)] by (simp add: t(2) udp_keeps_def queue_ok_frame [OF ok(1)])
  then show ?thesis using gw_offline assms(4) by (auto intro: gateway_ok_udp)
next
  case (gw_start s junk opened e s')
  have s': "s' = snd (start_session p config junk opened s)" using gw_start by simp
  have "udp_keeps q s s'"
    unfolding s' by (rule udp_keeps_same) (simp_all add: start_session_def Let_def split_beta
        queue_ok_frame [OF ok(1)] resolve_queue [OF ok(1)])
  moreover have "server_up s' \<longrightarrow> e = None"
    using gw_start by (auto simp: start_session_def Let_def split_beta split: if_splits)
  ultimately show ?thesis using gw_start assms(4) by (auto intro: gateway_ok_udp)
next
  case (gw_turn s e e' s')
  then have "server_up s \<longrightarrow> se_server_known e" using assms(4) by (simp add: gateway_ok_def)
  then have "gateway_ok q (Some e', s')"
    using gateway_ok_udp [OF _ keeps_turn [OF ok(1) gw_turn(4)], of "Some e"]
      turn_server_known [OF ok(1) gw_turn(4)] gw_turn assms(4) by simp
  then show ?thesis by (simp add: gw_turn)
next
  case (gw_close s e)
  then show ?thesis using assms(4) by (simp add: gateway_ok_def)
next
  case (gw_spi e s)
  then show ?thesis using gateway_ok_spi keeps_spi_turn [OF ok] assms(4) by blast
next
  case (gw_wifi e s event)
  have "spi_keeps q s (event_handler p event s)"
    by (simp add: event_handler_def Let_def spi_keeps_def queue_ok_frame [OF ok(1)] split: wifi_event.split)
  then show ?thesis using gateway_ok_spi gw_wifi assms(4) by blast
next
  case (gw_command request e s)
  then show ?thesis
    using assms(4) command_ok_start [of s request]
    by (simp add: gateway_ok_def) (simp add: start_command_def Let_def)
next
  case (gw_command_end taken s capacity result response s' e)
  then show ?thesis using gateway_ok_command_end [of q e s taken capacity] assms(4) by simp
next
  case (gw_save c s error s' e)
  then show ?thesis using gateway_ok_save [OF ok(1), of e s c] assms(4) by simp
qed

section \<open>The start\<close>

text \<open>
  Documented behaviour of what is called only at the start: a new queue is empty, the other calls
  have nothing to do with it, and a MAC address has six bytes.
\<close>

definition startup_ok :: "'v esp_platform \<Rightarrow> ('v \<Rightarrow> byte list list) \<Rightarrow> bool" where
  "startup_ok p q \<longleftrightarrow>
    (\<forall>n v. q (snd (queue_create p n v)) = []) \<and>
    (\<forall>v. q (snd (semaphore_create p v)) = q v) \<and>
    (\<forall>op v. q (snd (hw_call p op v)) = q v) \<and>
    (\<forall>t v. q (snd (task_create p t v)) = q v) \<and>
    (\<forall>m v. q (snd (create_netif p m v)) = q v) \<and>
    (\<forall>v. q (snd (random_u32 p v)) = q v) \<and>
    (\<forall>v. q (snd (http_start p v)) = q v) \<and>
    (\<forall>u b v. q (snd (http_register p u b v)) = q v) \<and>
    (\<forall>m v. length (snd (read_mac p m v)) = 6)"

lemma startup_ok_frame:
  assumes "startup_ok p q"
  shows "q (snd (queue_create p n v)) = []" and "q (snd (semaphore_create p v)) = q v"
    and "q (snd (hw_call p op v)) = q v" and "q (snd (task_create p t v)) = q v"
    and "q (snd (create_netif p m v)) = q v" and "q (snd (random_u32 p v)) = q v"
    and "q (snd (http_start p v)) = q v" and "q (snd (http_register p u b v)) = q v"
    and "length (snd (read_mac p m v)) = 6"
  using assms by (simp_all add: startup_ok_def)

lemma error_check_Some: "esp_error_check r = Some v \<longleftrightarrow> fst r = 0 \<and> snd r = v"
  by (auto simp: esp_error_check_def)

lemma checked_calls_queue:
  "queue_ok p q \<Longrightarrow> checked_calls p ops v = Some v' \<Longrightarrow> q v' = q v"
  by (induction ops arbitrary: v)
    (auto simp: bind_eq_Some_conv error_check_Some queue_ok_frame)

lemma register_uris_queue:
  "startup_ok p q \<Longrightarrow> register_uris p routes v = Some v' \<Longrightarrow> q v' = q v"
  by (induction routes arbitrary: v)
    (auto simp: bind_eq_Some_conv error_check_Some startup_ok_frame)

text \<open>What the initialisations after the configuration leave as it is.\<close>

definition init_keeps ::
    "('v \<Rightarrow> byte list list) \<Rightarrow> ('v, 'x) gateway_state_scheme \<Rightarrow> ('v, 'x) gateway_state_scheme \<Rightarrow> bool" where
  "init_keeps q s s' \<longleftrightarrow> eb_command s' = eb_command s \<and> cf_current s' = cf_current s \<and>
     eb_stats s' = eb_stats s \<and> gw_stats s' = gw_stats s \<and> q (env s') = q (env s)"

lemma bridge_init:
  assumes "startup_ok p q"
  shows "q (env (snd (bridge_spi_init p s))) = []"
    and "\<exists>v. snd (bridge_spi_init p s) = s\<lparr> env := v \<rparr>"
  by (auto simp: bridge_spi_init_def Let_def split_beta and_then_queue startup_ok_frame [OF assms])

lemma wifi_init:
  assumes "queue_ok p q" and "startup_ok p q" and "wifi_manager_init p created s = Some (r, s')"
  shows "init_keeps q s s' \<and> gw_gateway_id s' = gw_gateway_id s"
  using assms(3)
  by (auto simp: wifi_manager_init_def Let_def split_beta bind_eq_Some_conv init_keeps_def
      startup_ok_frame [OF assms(2)] simp del: checked_calls.simps
      dest!: checked_calls_queue [OF assms(1)] split: if_splits)

lemma udp_init:
  assumes "startup_ok p q" and "gateway_udp_init p s = (0, s')"
  shows "init_keeps q s s' \<and> length (gw_gateway_id s') = 6"
  using assms(2)
  by (auto simp: gateway_udp_init_def Let_def split_beta init_keeps_def
      startup_ok_frame [OF assms(1)] split: if_splits)

lemma portal_init:
  assumes "startup_ok p q" and "web_portal_init p s = Some (r, s')"
  shows "init_keeps q s s' \<and> gw_gateway_id s' = gw_gateway_id s"
  using assms(2)
  by (auto simp: web_portal_init_def Let_def split_beta init_keeps_def
      startup_ok_frame [OF assms(1)] dest!: register_uris_queue [OF assms(1)] split: if_splits)

lemma metrics_init:
  "startup_ok p q \<Longrightarrow> init_keeps q s (snd (status_metrics_init p s)) \<and>
   gw_gateway_id (snd (status_metrics_init p s)) = gw_gateway_id s"
  by (simp add: status_metrics_init_def split_beta Let_def init_keeps_def startup_ok_frame)

lemma config_init_frame:
  assumes "app_config_init p s = Some (r, s')"
  shows "eb_command s' = eb_command s" and "eb_stats s' = eb_stats s" and "gw_stats s' = gw_stats s"
  using assms
  by (auto simp: app_config_init_def Let_def split_beta bind_eq_Some_conv migrate_config_def split: if_splits)

lemma app_main_ok:
  assumes ok: "flash_ok p view" "queue_ok p q" "startup_ok p q" and "app_main p created s = Some s'"
    and "command_ok (eb_command s)"
  shows "gateway_ok q (None, s') \<and> q (env s') = [] \<and> eb_stats s' = eb_stats s \<and> gw_stats s' = gw_stats s"
proof -
  obtain s1 s2 s3 s4 s5 where
    1: "app_config_init p s = Some (0, s1)" and 2: "bridge_spi_init p s1 = (0, s2)" and
    3: "wifi_manager_init p created s2 = Some (0, s3)" and 4: "gateway_udp_init p s3 = (0, s4)" and
    5: "web_portal_init p s4 = Some (0, s5)" and 6: "status_metrics_init p s5 = (0, s')"
    using assms(4) by (auto simp: app_main_def bind_eq_Some_conv error_check_Some prod_eq_iff)
  obtain v where s2: "s2 = s1\<lparr> env := v \<rparr>" "q (env s2) = []"
    using bridge_init [OF ok(3), of s1] 2 by auto
  have s1: "config_ok (cf_current s1)" using config_ok_init [OF ok(1) 1] .
  have "init_keeps q s2 s3" using wifi_init [OF ok(2,3) 3] by simp
  moreover have "init_keeps q s3 s4" "length (gw_gateway_id s4) = 6" using udp_init [OF ok(3) 4] by simp_all
  moreover have "init_keeps q s4 s5" "gw_gateway_id s5 = gw_gateway_id s4" using portal_init [OF ok(3) 5] by simp_all
  moreover have "init_keeps q s5 s'" "gw_gateway_id s' = gw_gateway_id s5"
    using metrics_init [OF ok(3), of s5] 6 by simp_all
  ultimately show ?thesis
    using s1 s2 config_init_frame [OF 1] assms(5) by (simp add: gateway_ok_def init_keeps_def)
qed

text \<open>
  C9: The gateway is consistent in every state it reaches after a start, whatever its tasks do and in
  whatever order. The command slot is well formed (at most three attempts, lengths within its
  buffers); the configuration fits its arrays and names a country and a port; the gateway has an id of six bytes; the
  queue holds at most 128 reports of 64 bytes; and while the server is connected its address is known.
\<close>

theorem gateway_stays_consistent:
  assumes "flash_ok p view" and "queue_ok p q" and "startup_ok p q" and "spi_whole p"
    and "app_main p created (gateway_boot v) = Some s0"
    and "(gateway_step p config)\<^sup>*\<^sup>* (None, s0) (e, s)"
  shows "length (cm_payload (eb_command s)) = 64 \<and> unat (cm_payload_length (eb_command s)) \<le> 64 \<and>
    unat (cm_response_length (eb_command s)) \<le> 64 \<and> unat (cm_attempts (eb_command s)) \<le> 3 \<and>
    length (ac_ssid (cf_current s)) \<le> 32 \<and> length (ac_country (cf_current s)) = 2 \<and>
    ac_server_port (cf_current s) \<noteq> 0 \<and> length (gw_gateway_id s) = 6 \<and>
    length (q (env s)) \<le> 128 \<and> (\<forall>r \<in> set (q (env s)). length r = 64) \<and>
    (\<forall>x. e = Some x \<longrightarrow> gs_server_connected (gw_stats s) \<longrightarrow> se_server_known x)"
proof -
  have "gateway_ok q (None, s0)"
    using app_main_ok [OF assms(1-3,5)] command_ok_boot [of v]
    by (simp add: gateway_boot_def wifi_state.extend_def wifi_boot_def app_state.extend_def
      app_boot_def esp_state.extend_def esp_boot_def command_ok_def)
  with assms(6) have "gateway_ok q (e, s)"
    by (induction rule: rtranclp_induct) (auto dest: gateway_ok_step [OF assms(2,4)])
  then show ?thesis by (simp add: gateway_ok_def command_ok_def config_ok_def)
qed

lemma ref_startup_ok: "startup_ok ref_esp ew_queue"
  by (simp add: startup_ok_def ref_esp_def)

lemma ref_spi_whole: "spi_whole ref_esp"
  by (auto simp: spi_whole_def ref_esp_def min_def split: list.split)

lemma ref_app_main:
  "\<exists>s0. app_main ref_esp True (gateway_boot esp_world0) = Some s0 \<and> gw_gateway_id s0 = [1, 2, 3, 4, 5, 6]"
  by (simp add: app_main_def app_config_init_def init_flash_def bridge_spi_init_def wifi_manager_init_def
      gateway_udp_init_def web_portal_init_def status_metrics_init_def portal_routes_def migrate_config_def
      esp_error_check_def app_config_get_def load_config_def read_string_def ref_esp_def Let_def esp_world0_def)

text \<open>A gateway that starts, is given a command by its portal and exchanges frames.\<close>

theorem gateway_stays_consistent_witness:
  "\<exists>s0. app_main ref_esp True (gateway_boot esp_world0) = Some s0 \<and>
     length (gw_gateway_id (bridge_task_turn ref_esp (start_command [1] s0))) = 6 \<and>
     unat (cm_attempts (eb_command (bridge_task_turn ref_esp (start_command [1] s0)))) \<le> 3"
proof -
  obtain s0 where s0: "app_main ref_esp True (gateway_boot esp_world0) = Some s0"
    using ref_app_main by blast
  have "gateway_step ref_esp defaults (None, s0) (None, start_command [1] s0)"
    by (rule gw_command) simp_all
  moreover have "gateway_step ref_esp defaults (None, start_command [1] s0)
      (None, bridge_task_turn ref_esp (start_command [1] s0))"
    by (rule gw_spi)
  ultimately have "(gateway_step ref_esp defaults)\<^sup>*\<^sup>* (None, s0) (None, bridge_task_turn ref_esp (start_command [1] s0))"
    by (meson converse_rtranclp_into_rtranclp r_into_rtranclp)
  from gateway_stays_consistent [OF ref_flash_ok ref_queue_ok ref_startup_ok ref_spi_whole s0 this] s0
  show ?thesis by blast
qed

end
