(* ===== verification/Captive_Dns.thy ===== *)
theory Captive_Dns
  imports Smol_Prelude "HOL-Library.While_Combinator"
begin

text \<open>
  The captive DNS server of the setup access point, \<open>dns_task\<close> of
  \<open>firmware/esp32c5/main/web_portal.c\<close>: every question is answered with 192.168.4.1. The
  512-byte buffer lives across packets; a write past its end is the outcome \<open>Dns_Overrun\<close>.
\<close>

section \<open>One packet\<close>

abbreviation (input) DNS_PACKET_SIZE :: nat where "DNS_PACKET_SIZE \<equiv> 512"

datatype dns_outcome = Dns_Ignored | Dns_Answer "byte list" | Dns_Overrun

definition dns_answer_record :: "byte list" where
  "dns_answer_record = [0xc0, 0x0c, 0, 1, 0, 1, 0, 0, 0, 30, 0, 4, 192, 168, 4, 1]"

text \<open>The loop over the labels of the name, from byte 12 on; it is \<open>None\<close> if it does not end.\<close>

definition dns_name_end :: "byte list \<Rightarrow> nat \<Rightarrow> nat option" where
  "dns_name_end packet len =
    while_option (\<lambda>cursor. cursor < len \<and> packet ! cursor \<noteq> 0)
      (\<lambda>cursor. cursor + (unat (packet ! cursor) + 1)) 12"

text \<open>
  One turn of the loop: \<open>recvfrom\<close> returned \<open>len\<close> (negative on an error) and put \<open>bytes\<close> at the
  front of the buffer. The outcome and the buffer afterwards, or \<open>None\<close> if the turn does not end.
\<close>

definition dns_turn :: "int \<Rightarrow> byte list \<Rightarrow> byte list \<Rightarrow> (dns_outcome \<times> byte list) option" where
  "dns_turn len bytes packet =
    (let packet = blit 0 bytes packet in
     if len < 17 \<or> packet ! 4 \<noteq> 0 \<or> packet ! 5 \<noteq> 1 then Some (Dns_Ignored, packet)
     else map_option (\<lambda>cursor.
       if nat len < cursor + 5 \<or> DNS_PACKET_SIZE < cursor + 16 then (Dns_Ignored, packet)
       else
        (let cursor = cursor + 5;
             packet = packet[2 := 0x81, 3 := 0x80, 6 := 0, 7 := 1] in
         if DNS_PACKET_SIZE < cursor + length dns_answer_record then (Dns_Overrun, packet)
         else
          (let packet = blit cursor dns_answer_record packet
           in (Dns_Answer (take (cursor + length dns_answer_record) packet), packet))))
       (dns_name_end packet (nat len)))"

section \<open>The task\<close>

text \<open>
  The loop over what \<open>recvfrom\<close> returns while the setup access point is up; the waiting in it, which
  has no limit, is not modelled. The list ends with \<open>Dns_Overrun\<close> at a write past the buffer, since
  nothing is known about the program behind it: \<open>Some\<close> of a list that ends so does not say that the
  task goes on or returns. \<open>None\<close> is a turn whose scan does not end. The task does nothing when its
  socket cannot be opened or bound.
\<close>

primrec dns_serve :: "(int \<times> byte list) list \<Rightarrow> byte list \<Rightarrow> dns_outcome list option" where
  "dns_serve [] packet = Some []"
| "dns_serve (r # received) packet =
    (case dns_turn (fst r) (snd r) packet of
       None \<Rightarrow> None
     | Some (outcome, packet) \<Rightarrow>
         if outcome = Dns_Overrun then Some [Dns_Overrun]
         else map_option (\<lambda>outcomes. outcome # outcomes) (dns_serve received packet))"

definition dns_task ::
    "bool \<Rightarrow> bool \<Rightarrow> (int \<times> byte list) list \<Rightarrow> byte list \<Rightarrow> dns_outcome list option" where
  "dns_task opened bound received packet =
    (if \<not> opened \<or> \<not> bound then Some [] else dns_serve received packet)"

section \<open>The scan\<close>

text \<open>
  The scan of the name always ends, whatever the packet holds: each step moves the cursor
  forward, the scan stops at a zero byte or behind the packet, and never more than 255 bytes behind
  it; so a turn of the DNS task always ends.
\<close>

theorem dns_scan_terminates:
  "(\<exists>cursor. dns_name_end packet n = Some cursor \<and> 12 \<le> cursor \<and> cursor \<le> max 12 (n + 255) \<and>
     (n \<le> cursor \<or> packet ! cursor = 0)) \<and>
   dns_turn len bytes buffer \<noteq> None"
proof -
  let ?b = "\<lambda>packet n cursor. cursor < n \<and> packet ! cursor \<noteq> (0 :: byte)"
  let ?c = "\<lambda>packet cursor. cursor + (unat (packet ! cursor :: byte) + 1)"
  have ends: "\<exists>cursor. dns_name_end packet n = Some cursor" for packet n
    using measure_while_option_Some [of "\<lambda>_. True" "?b packet n" "?c packet" "\<lambda>cursor. n - cursor" 12]
    by (simp add: dns_name_end_def diff_less_mono2)
  then obtain cursor where c: "dns_name_end packet n = Some cursor" by blast
  have step: "?c packet i \<le> n + 255" if "i < n" for i
    using that unsigned_less [of "packet ! i", where 'a = nat] by simp
  have "12 \<le> cursor \<and> cursor \<le> max 12 (n + 255)"
  proof (rule while_option_rule [where P = "\<lambda>i. 12 \<le> i \<and> i \<le> max 12 (n + 255)", OF _ c [unfolded dns_name_end_def]])
    fix i
    assume i: "12 \<le> i \<and> i \<le> max 12 (n + 255)" and "?b packet n i"
    then have "?c packet i \<le> n + 255" using step by blast
    then show "12 \<le> ?c packet i \<and> ?c packet i \<le> max 12 (n + 255)"
      using i by (metis le_max_iff_disj trans_le_add1)
  qed simp
  moreover have "\<not> ?b packet n cursor"
    using c unfolding dns_name_end_def by (rule while_option_stop)
  moreover have "dns_turn len bytes buffer \<noteq> None"
  proof -
    obtain i where "dns_name_end (blit 0 bytes buffer) (nat len) = Some i" using ends by blast
    then show ?thesis by (simp add: dns_turn_def Let_def)
  qed
  ultimately show ?thesis using c by (metis not_less)
qed

section \<open>Questions\<close>

definition dns_name :: "byte list list \<Rightarrow> byte list" where
  "dns_name labels = concat (map (\<lambda>l. of_nat (length l) # l) labels)"

text \<open>A query for one name: header, labels, the terminator, type and class.\<close>

definition dns_query :: "byte list \<Rightarrow> byte list list \<Rightarrow> byte list \<Rightarrow> byte list" where
  "dns_query header labels question = header @ dns_name labels @ [0] @ question"

lemma dns_scan_labels:
  assumes "\<forall>l \<in> set labels. 0 < length l \<and> length l < 256"
    and "length pre + length (dns_name labels) < len"
  shows "while_option (\<lambda>cursor. cursor < len \<and> (pre @ dns_name labels @ 0 # post) ! cursor \<noteq> (0 :: byte))
      (\<lambda>cursor. cursor + (unat ((pre @ dns_name labels @ 0 # post) ! cursor) + 1)) (length pre) =
    Some (length pre + length (dns_name labels))"
  using assms
proof (induction labels arbitrary: pre)
  case Nil
  then show ?case by (subst while_option_unfold) (simp add: dns_name_def)
next
  case (Cons l labels)
  let ?n = "of_nat (length l) :: byte"
  have n: "unat ?n = length l" using Cons.prems(1) by (simp add: unat_of_nat)
  then have n0: "?n \<noteq> 0" using Cons.prems(1) by (metis list.set_intros(1) not_less_zero unat_0)
  have packet: "pre @ dns_name (l # labels) @ 0 # post = (pre @ ?n # l) @ dns_name labels @ 0 # post"
    by (simp add: dns_name_def)
  have at: "((pre @ ?n # l) @ dns_name labels @ 0 # post) ! length pre = ?n" by simp
  show ?case
    unfolding packet
    using Cons.IH [of "pre @ ?n # l"] Cons.prems
    by (subst while_option_unfold) (simp add: at n n0 dns_name_def algebra_simps)
qed

lemma dns_turn_query:
  assumes "length header = 12" and "header ! 4 = 0" and "header ! 5 = 1" and "length question = 4"
    and "\<forall>l \<in> set labels. 0 < length l \<and> length l < 256" and "length buffer = 512"
    and "n = length (dns_name labels)" and "n + 17 + length extra \<le> 512"
  shows "map_option fst (dns_turn (int (n + 17 + length extra))
      (dns_query header labels question @ extra) buffer) =
    Some (if 484 < n then Dns_Ignored
      else if 480 \<le> n then Dns_Overrun
      else Dns_Answer (header[2 := 0x81, 3 := 0x80, 6 := 0, 7 := 1] @ dns_name labels @ [0] @ question @
             dns_answer_record))"
proof -
  let ?q = "dns_query header labels question @ extra" and ?len = "n + 17 + length extra"
  let ?post = "question @ extra @ drop ?len buffer"
  have len: "length ?q = ?len" using assms by (simp add: dns_query_def)
  have packet: "blit 0 ?q buffer = header @ dns_name labels @ 0 # ?post"
    unfolding blit_def len by (simp add: dns_query_def)
  have scan: "dns_name_end (header @ dns_name labels @ 0 # ?post) ?len = Some (12 + n)"
    using dns_scan_labels [OF assms(5), of header ?len ?post] assms(1,7)
    by (simp add: dns_name_end_def)
  have flags: "(header @ dns_name labels @ 0 # ?post)[2 := 0x81, 3 := 0x80, 6 := 0, 7 := 1] =
      header[2 := 0x81, 3 := 0x80, 6 := 0, 7 := 1] @ dns_name labels @ 0 # ?post"
    using assms(1) by (simp add: list_update_append)
  have rec: "length dns_answer_record = 16" by (simp add: dns_answer_record_def)
  have fields: "(header @ dns_name labels @ 0 # ?post) ! 4 = 0" "(header @ dns_name labels @ 0 # ?post) ! 5 = 1"
    using assms(1-3) by (simp_all add: nth_append)
  have "12 + n = length (header[2 := 0x81, 3 := 0x80, 6 := 0, 7 := 1] @ dns_name labels)"
    using assms(1,7) by simp
  then have reply: "take (33 + n) (blit (17 + n) dns_answer_record
      (header[2 := 0x81, 3 := 0x80, 6 := 0, 7 := 1] @ dns_name labels @ 0 # ?post)) =
      header[2 := 0x81, 3 := 0x80, 6 := 0, 7 := 1] @ dns_name labels @ [0] @ question @ dns_answer_record"
    using assms(1,4,7) rec by (simp add: blit_def)
  have short: "\<not> int ?len < 17" by simp
  show ?thesis
    using assms(8) unfolding dns_turn_def packet Let_def nat_int scan option.map flags rec
    by (simp add: fields reply add.assoc flip: add.assoc)
qed

text \<open>A name of two labels of 239 bytes makes the code write behind its buffer.\<close>

lemma dns_overrun_reachable:
  "map_option fst (dns_turn 497 (dns_query [1, 2, 1, 0, 0, 1, 0, 0, 0, 0, 0, 0]
      [replicate 239 1, replicate 239 1] [0, 1, 0, 1]) (zeros 512)) = Some Dns_Overrun"
  using dns_turn_query [of "[1, 2, 1, 0, 0, 1, 0, 0, 0, 0, 0, 0]" "[0, 1, 0, 1]"
      "[replicate 239 1, replicate 239 1]" "zeros 512" 480 "[]"]
  by (simp add: dns_name_def)

section \<open>A conversation\<close>

text \<open>
  What \<open>recvfrom\<close> gives: an error, or the length and the bytes of a datagram cut to the buffer. The
  outcome of a datagram alone is that of a turn with a cleared buffer; it does not depend on what
  the buffer still holds of the datagrams before, since every byte the code looks at is its own.
\<close>

definition dns_received :: "int \<times> byte list \<Rightarrow> bool" where
  "dns_received r \<longleftrightarrow> length (snd r) \<le> 512 \<and> (fst r < 0 \<or> fst r = int (length (snd r)))"

definition dns_alone :: "int \<times> byte list \<Rightarrow> dns_outcome" where
  "dns_alone r = fst (the (dns_turn (fst r) (snd r) (zeros 512)))"

lemma length_blit_fits: "i + length xs \<le> length buffer \<Longrightarrow> length (blit i xs buffer) = length buffer"
  by (simp add: blit_def)

lemma dns_turn_buffer:
  assumes "dns_turn len bytes buffer = Some (outcome, buffer')" and "length bytes \<le> 512" and "length buffer = 512"
  shows "length buffer' = 512"
  using assms by (auto simp: dns_turn_def Let_def length_blit_fits dns_answer_record_def split: if_splits)

lemma dns_scan_cong:
  assumes "\<forall>i < len. p ! i = q ! i"
  shows "while_option (\<lambda>i. i < len \<and> p ! i \<noteq> (0 :: byte)) (\<lambda>i. i + (unat (p ! i) + 1)) i =
    while_option (\<lambda>i. i < len \<and> q ! i \<noteq> 0) (\<lambda>i. i + (unat (q ! i) + 1)) i"
proof (induction "len - i" arbitrary: i rule: less_induct)
  case less
  show ?case
  proof (cases "i < len \<and> p ! i \<noteq> 0")
    case True
    then have "len - (i + (unat (p ! i) + 1)) < len - i" by linarith
    from less [OF this] True assms show ?thesis
      by (subst (1 2) while_option_unfold) simp
  next
    case False
    then have "\<not> (i < len \<and> q ! i \<noteq> 0)" using assms by auto
    with False show ?thesis by (simp add: while_option_unfold)
  qed
qed

lemma blit_front: "i < length xs \<Longrightarrow> blit 0 xs buffer ! i = xs ! i"
  by (simp add: blit_def nth_append)

lemma map_fst_the: "map_option fst t = Some x \<Longrightarrow> fst (the t) = x"
  by (cases t) simp_all

lemma take_blit:
  "i \<le> length buffer \<Longrightarrow> take (i + length xs) (blit i xs buffer) = take i buffer @ xs"
  by (simp add: blit_def)

lemma dns_turn_alone:
  assumes "dns_received r" and "length buffer = 512"
  shows "\<exists>buffer'. dns_turn (fst r) (snd r) buffer = Some (dns_alone r, buffer') \<and> length buffer' = 512"
proof -
  obtain len bytes where r: "r = (len, bytes)" by fastforce
  let ?p = "blit 0 bytes buffer" and ?z = "blit 0 bytes (zeros 512)"
  have "map_option fst (dns_turn len bytes buffer) = map_option fst (dns_turn len bytes (zeros 512))"
  proof (cases "len < 17")
    case True
    then show ?thesis by (simp add: dns_turn_def)
  next
    case False
    then have len: "len = int (length bytes)" "length bytes \<le> 512" "17 \<le> length bytes"
      using assms(1) by (auto simp: dns_received_def r)
    have same: "?p ! i = bytes ! i" "?z ! i = bytes ! i" if "i < length bytes" for i
      using that by (simp_all add: blit_front)
    have scan: "dns_name_end ?p (length bytes) = dns_name_end ?z (length bytes)"
      unfolding dns_name_end_def by (rule dns_scan_cong) (simp add: same)
    have rec: "length dns_answer_record = 16" by (simp add: dns_answer_record_def)
    have answer: "take (cursor + 5 + 16) (blit (cursor + 5) dns_answer_record
        (?p[2 := 0x81, 3 := 0x80, 6 := 0, 7 := 1])) =
      take (cursor + 5 + 16) (blit (cursor + 5) dns_answer_record (?z[2 := 0x81, 3 := 0x80, 6 := 0, 7 := 1]))"
      if "cursor + 5 \<le> length bytes" for cursor
    proof -
      have "take (cursor + 5) ?p = take (cursor + 5) ?z"
        using that by (simp add: blit_def)
      then have "take (cursor + 5) (?p[2 := 0x81, 3 := 0x80, 6 := 0, 7 := 1]) =
          take (cursor + 5) (?z[2 := 0x81, 3 := 0x80, 6 := 0, 7 := 1])"
        by (simp only: take_update_swap)
      then show ?thesis
        using take_blit [of "cursor + 5" "?p[2 := 0x81, 3 := 0x80, 6 := 0, 7 := 1]" dns_answer_record]
          take_blit [of "cursor + 5" "?z[2 := 0x81, 3 := 0x80, 6 := 0, 7 := 1]" dns_answer_record]
          that len(2) assms(2) by (simp add: rec length_blit_fits)
    qed
    show ?thesis
      using len same answer unfolding dns_turn_def Let_def len(1) nat_int scan
      by (cases "dns_name_end ?z (length bytes)") (auto simp: dns_answer_record_def)
  qed
  moreover obtain outcome buffer' where t: "dns_turn len bytes buffer = Some (outcome, buffer')"
    using dns_scan_terminates [of buffer 0 len bytes buffer] by auto
  ultimately have "map_option fst (dns_turn len bytes (zeros 512)) = Some outcome" by simp
  then have "dns_alone r = outcome" by (simp add: dns_alone_def r map_fst_the)
  then show ?thesis
    using t dns_turn_buffer [OF t _ assms(2)] assms(1) by (simp add: r dns_received_def)
qed

text \<open>The outcomes up to the first write behind the buffer, with which the list ends.\<close>

fun until_overrun :: "dns_outcome list \<Rightarrow> dns_outcome list" where
  "until_overrun [] = []"
| "until_overrun (x # xs) = (if x = Dns_Overrun then [Dns_Overrun] else x # until_overrun xs)"

lemma dns_serve_alone:
  assumes "\<forall>r \<in> set received. dns_received r" and "length buffer = 512"
  shows "dns_serve received buffer = Some (until_overrun (map dns_alone received))"
  using assms
proof (induction received arbitrary: buffer)
  case (Cons r received)
  then obtain buffer' where "dns_turn (fst r) (snd r) buffer = Some (dns_alone r, buffer')" "length buffer' = 512"
    using dns_turn_alone by (metis list.set_intros(1))
  then show ?case using Cons by simp
qed simp

text \<open>Only a datagram of 497 bytes or more can make the code write behind its buffer.\<close>

lemma dns_overrun_long:
  assumes "dns_received r" and "dns_alone r = Dns_Overrun"
  shows "497 \<le> length (snd r)"
proof -
  obtain b where "dns_turn (fst r) (snd r) (zeros 512) = Some (Dns_Overrun, b)"
    using dns_turn_alone [OF assms(1), of "zeros 512"] assms(2) by auto
  then show ?thesis
    using assms(1)
    by (auto simp: dns_turn_def Let_def dns_received_def dns_answer_record_def split: if_splits)
qed

text \<open>A question for one name, whatever follows it in the datagram, such as an EDNS record.\<close>

definition dns_question :: "byte list \<Rightarrow> byte list list \<Rightarrow> byte list \<Rightarrow> byte list \<Rightarrow> bool" where
  "dns_question header labels question extra \<longleftrightarrow>
     length header = 12 \<and> header ! 4 = 0 \<and> header ! 5 = 1 \<and> length question = 4 \<and>
     (\<forall>l \<in> set labels. 0 < length l \<and> length l < 256) \<and>
     length (dns_query header labels question @ extra) \<le> 512"

definition dns_datagram :: "byte list \<Rightarrow> int \<times> byte list" where
  "dns_datagram bytes = (int (length bytes), bytes)"

lemma dns_alone_question:
  assumes "dns_question header labels question extra"
  shows "dns_alone (dns_datagram (dns_query header labels question @ extra)) =
    (if 484 < length (dns_name labels) then Dns_Ignored
     else if 480 \<le> length (dns_name labels) then Dns_Overrun
     else Dns_Answer (header[2 := 0x81, 3 := 0x80, 6 := 0, 7 := 1] @ dns_name labels @ [0] @ question @
       dns_answer_record))"
proof -
  let ?n = "length (dns_name labels)"
  have q: "length header = 12" "header ! 4 = 0" "header ! 5 = 1" "length question = 4"
    "\<forall>l \<in> set labels. 0 < length l \<and> length l < 256" "?n + 17 + length extra \<le> 512"
    using assms by (simp_all add: dns_question_def dns_query_def)
  let ?bytes = "dns_query header labels question @ extra"
  have len: "length ?bytes = ?n + 17 + length extra"
    using q by (simp add: dns_query_def)
  show ?thesis
    unfolding dns_alone_def dns_datagram_def fst_conv snd_conv len
    by (rule map_fst_the, rule dns_turn_query [OF q(1-5) _ refl q(6)]) simp
qed

text \<open>
  C40: Every datagram is handled on its own. Whatever the captive DNS receives, and whatever its
  buffer holds, the outcomes are those each datagram has alone, in order, up to the first datagram
  that makes the code write behind its 512-byte buffer, where the list ends with
  \<open>Dns_Overrun\<close> and nothing is known about what follows; only datagrams of 497 bytes or more can do
  that. A question for one name of \<open>n\<close> bytes (labels with their length bytes), whatever follows it in
  the datagram, is answered, when \<open>n < 480\<close>, with its own header marked as a response with one
  answer, the name and the question, and one A record that points to the name and holds
  192.168.4.1; what followed is gone from the reply. For \<open>n\<close> from 480 to 484 the code overruns its
  buffer; more than 484 bytes are ignored.
\<close>

theorem captive_dns_serves:
  assumes "\<forall>r \<in> set received. dns_received r" and "length buffer = 512"
  shows "dns_task True True received buffer = Some (until_overrun (map dns_alone received)) \<and>
    (\<forall>r \<in> set received. dns_alone r = Dns_Overrun \<longrightarrow> 497 \<le> length (snd r)) \<and>
    (\<forall>header labels question extra. dns_question header labels question extra \<longrightarrow>
      dns_alone (dns_datagram (dns_query header labels question @ extra)) =
        (if 484 < length (dns_name labels) then Dns_Ignored
         else if 480 \<le> length (dns_name labels) then Dns_Overrun
         else Dns_Answer (header[2 := 0x81, 3 := 0x80, 6 := 0, 7 := 1] @ dns_name labels @ [0] @
           question @ dns_answer_record)))"
  using dns_serve_alone [OF assms] dns_overrun_long assms(1) dns_alone_question by (simp add: dns_task_def)

text \<open>
  Questions for the names \<open>a.b\<close>, with an EDNS record, and \<open>c\<close>, and a failed receive between them.
\<close>

lemma demo_questions:
  "dns_question [1, 2, 1, 0, 0, 1, 0, 0, 0, 0, 0, 1] [[0x61], [0x62]] [0, 1, 0, 1] [0, 0, 41, 4, 208, 0, 0, 0, 0, 0, 0]"
  "dns_question [3, 4, 1, 0, 0, 1, 0, 0, 0, 0, 0, 0] [[0x63]] [0, 1, 0, 1] []"
  by (simp_all add: dns_question_def dns_query_def dns_name_def)

theorem captive_dns_serves_witness:
  "dns_task True True
      [(32, [1, 2, 1, 0, 0, 1, 0, 0, 0, 0, 0, 1, 1, 0x61, 1, 0x62, 0, 0, 1, 0, 1, 0, 0, 41, 4, 208, 0, 0, 0, 0, 0, 0]),
       (-1, []), (19, [3, 4, 1, 0, 0, 1, 0, 0, 0, 0, 0, 0, 1, 0x63, 0, 0, 1, 0, 1])] (zeros 512) =
     Some [Dns_Answer ([1, 2, 0x81, 0x80, 0, 1, 0, 1, 0, 0, 0, 1, 1, 0x61, 1, 0x62, 0, 0, 1, 0, 1] @ dns_answer_record),
       Dns_Ignored,
       Dns_Answer ([3, 4, 0x81, 0x80, 0, 1, 0, 1, 0, 0, 0, 0, 1, 0x63, 0, 0, 1, 0, 1] @ dns_answer_record)]"
proof -
  let ?q1 = "[1, 2, 1, 0, 0, 1, 0, 0, 0, 0, 0, 1, 1, 0x61, 1, 0x62, 0, 0, 1, 0, 1, 0, 0, 41, 4, 208, 0, 0, 0, 0, 0, 0]"
  let ?q2 = "[3, 4, 1, 0, 0, 1, 0, 0, 0, 0, 0, 0, 1, 0x63, 0, 0, 1, 0, 1]"
  have "dns_alone (32, ?q1) = Dns_Answer ([1, 2, 0x81, 0x80, 0, 1, 0, 1, 0, 0, 0, 1, 1, 0x61, 1, 0x62,
      0, 0, 1, 0, 1] @ dns_answer_record)"
    using dns_alone_question [OF demo_questions(1)] by (simp add: dns_datagram_def dns_query_def dns_name_def)
  moreover have "dns_alone (19, ?q2) = Dns_Answer ([3, 4, 0x81, 0x80, 0, 1, 0, 1, 0, 0, 0, 0, 1, 0x63,
      0, 0, 1, 0, 1] @ dns_answer_record)"
    using dns_alone_question [OF demo_questions(2)] by (simp add: dns_datagram_def dns_query_def dns_name_def)
  moreover have "dns_alone (-1, []) = Dns_Ignored" by (simp add: dns_alone_def dns_turn_def)
  moreover have "\<forall>r \<in> set [(32, ?q1), (-1, []), (19, ?q2)]. dns_received r" by (simp add: dns_received_def)
  ultimately show ?thesis
    using captive_dns_serves [of "[(32, ?q1), (-1, []), (19, ?q2)]" "zeros 512"] by simp
qed

text \<open>
  A query with a record behind the question, as EDNS clients send it, gets a reply whose header still
  announces that record while the reply ends with the answer.
\<close>

lemma edns_record_missing:
  assumes "dns_question header labels question extra" and "length (dns_name labels) < 480"
  shows "\<exists>reply. dns_alone (dns_datagram (dns_query header labels question @ extra)) = Dns_Answer reply \<and>
    reply ! 10 = header ! 10 \<and> reply ! 11 = header ! 11 \<and>
    length reply = length (dns_query header labels question) + length dns_answer_record"
proof -
  have "length header = 12" using assms(1) by (simp add: dns_question_def)
  then show ?thesis
    using dns_alone_question [OF assms(1)] assms(2) by (simp add: nth_append dns_query_def)
qed

end
