(* ===== verification/Host_Report.thy ===== *)
theory Host_Report
  imports Report_Packing
begin

text \<open>
  The host's reader of receiver reports, \<open>bridge/src/report.rs\<close>: the same 64-byte layout that
  \<open>report_builder.c\<close> writes, in the bridge program's own types. A Rust \<open>Result\<close> is a sum whose
  left side is the error, a \<open>usize\<close> is a \<open>nat\<close>. A record that is read always has 16 bytes, which
  is what keeps the \<open>expect\<close> of the source from panicking.
\<close>

section \<open>Data (report.rs)\<close>

abbreviation (input) RECORD_SIZE :: nat where "RECORD_SIZE \<equiv> 16"
abbreviation (input) REPORT_SIZE :: nat where "REPORT_SIZE \<equiv> 64"
abbreviation (input) META_SEQUENCE_VALID :: byte where "META_SEQUENCE_VALID \<equiv> 1"
abbreviation (input) META_RF_V2 :: byte where "META_RF_V2 \<equiv> 2"
abbreviation (input) META_CRC_VALID :: byte where "META_CRC_VALID \<equiv> 4"

record record_metadata =
  rm_sequence :: byte
  rm_rssi :: byte
  rm_flags :: byte

record report_record =
  rr_data :: "byte list"
  rr_metadata :: "record_metadata option"

datatype decode_error = UnalignedLength nat | InvalidMetadataCount byte

definition sequence_valid :: "record_metadata \<Rightarrow> bool" where
  "sequence_valid m \<longleftrightarrow> rm_flags m AND META_SEQUENCE_VALID \<noteq> 0"

definition rf_v2 :: "record_metadata \<Rightarrow> bool" where
  "rf_v2 m \<longleftrightarrow> rm_flags m AND META_RF_V2 \<noteq> 0"

definition host_crc_valid :: "record_metadata \<Rightarrow> bool" where
  "host_crc_valid m \<longleftrightarrow> rm_flags m AND META_CRC_VALID \<noteq> 0"

section \<open>Decoding\<close>

definition has_metadata_signature :: "byte list \<Rightarrow> bool" where
  "has_metadata_signature data \<longleftrightarrow> data ! 0 = 250 \<and> data ! 1 = 255 \<and> data ! 2 = 0xd6 \<and>
     data ! 3 = 1 \<and> data ! 15 = 0x6d"

text \<open>The record of one slot, without metadata and with the triple at \<open>meta_offset\<close>.\<close>

definition bare_record :: "byte list \<Rightarrow> nat \<Rightarrow> report_record" where
  "bare_record input offset = \<lparr> rr_data = bslice offset RECORD_SIZE input, rr_metadata = None \<rparr>"

definition slot_record :: "byte list \<Rightarrow> nat \<Rightarrow> nat \<Rightarrow> report_record" where
  "slot_record input offset meta_offset = \<lparr> rr_data = bslice offset RECORD_SIZE input,
     rr_metadata = Some \<lparr> rm_sequence = input ! meta_offset, rm_rssi = input ! (meta_offset + 1),
       rm_flags = input ! (meta_offset + 2) \<rparr> \<rparr>"

text \<open>The loop over whole reports, which stops at the offset it returns, and the loop over the rest.\<close>

function decode_whole ::
    "byte list \<Rightarrow> nat \<Rightarrow> report_record list \<Rightarrow> decode_error + nat \<times> report_record list" where
  "decode_whole input off records =
    (if off + REPORT_SIZE \<le> length input then
       (let meta = off + RECORD_SIZE * 3 in
        if has_metadata_signature (bslice meta RECORD_SIZE input) then
          (let n = input ! (meta + 4) in
           if 3 < n then Inl (InvalidMetadataCount n)
           else decode_whole input (off + REPORT_SIZE) (records @
             map (\<lambda>slot. slot_record input (off + slot * RECORD_SIZE) (meta + 5 + slot * 3)) [0..<3]))
        else decode_whole input (off + REPORT_SIZE) (records @
             map (\<lambda>slot. bare_record input (off + slot * RECORD_SIZE)) [0..<4]))
     else Inr (off, records))"
  by pat_completeness auto
termination by (relation "measure (\<lambda>(input, off, _). length input - off)") auto

function decode_rest :: "byte list \<Rightarrow> nat \<Rightarrow> report_record list \<Rightarrow> report_record list" where
  "decode_rest input off records =
    (if off + RECORD_SIZE \<le> length input
     then decode_rest input (off + RECORD_SIZE) (records @ [bare_record input off])
     else records)"
  by pat_completeness auto
termination by (relation "measure (\<lambda>(input, off, _). length input - off)") auto

declare decode_whole.simps [simp del] decode_rest.simps [simp del]

definition decode_reports :: "byte list \<Rightarrow> decode_error + report_record list" where
  "decode_reports input =
    (if length input mod RECORD_SIZE \<noteq> 0 then Inl (UnalignedLength (length input))
     else (case decode_whole input 0 [] of
             Inl e \<Rightarrow> Inl e
           | Inr (off, records) \<Rightarrow> Inr (decode_rest input off records)))"

definition registration_address :: "byte list \<Rightarrow> u64 option" where
  "registration_address data =
    (if data ! 0 \<noteq> 255 then None
     else (let address = foldl (\<lambda>a (index, b). a OR push_bit (index * 8) (ucast b)) 0
                 (enumerate 0 (bslice 2 6 data)) in
           if address \<noteq> 0 then Some address else None))"

section \<open>Records read\<close>

text \<open>The address loop reads a little-endian integer.\<close>

lemma address_loop:
  "foldl (\<lambda>a (index, b). a OR push_bit (index * 8) (ucast b)) (a :: u64) (enumerate n bs) =
   a OR push_bit (n * 8) (word_of_le bs)"
proof (induction bs arbitrary: a n)
  case (Cons b bs)
  have "push_bit (Suc n * 8) (word_of_le bs :: u64) = push_bit (n * 8) (push_bit 8 (word_of_le bs))"
    by (simp add: push_bit_push_bit add.commute)
  then show ?case by (simp add: Cons push_bit_or or.assoc)
qed simp

lemma registration_address_eq:
  "registration_address data =
    (if data ! 0 = 255 \<and> (word_of_le (bslice 2 6 data) :: u64) \<noteq> 0
     then Some (word_of_le (bslice 2 6 data)) else None)"
  by (simp add: registration_address_def address_loop)

text \<open>A registration of the receiver gives the host its tracker's address.\<close>

lemma word_of_le_address: "a \<le> ADDRESS_MASK \<Longrightarrow> word_of_le (le_of_word 6 a) = (a :: u64)"
proof -
  assume "a \<le> ADDRESS_MASK"
  then have "unat a < 2 ^ 48" by (simp add: word_le_nat_alt)
  then show ?thesis
    by (simp add: word_of_le_of_word word_eq_iff_unsigned [where 'a = nat] unsigned_take_bit_eq
        take_bit_nat_eq_self_iff)
qed

lemma registration_read:
  assumes "a \<noteq> 0" and "a \<le> ADDRESS_MASK"
  shows "registration_address (registration_record tid a) = Some a"
    and "registration_record tid a ! 1 = of_nat tid"
proof -
  have "bslice 2 6 (registration_record tid a) = le_of_word 6 a"
    by (simp add: registration_record_def bslice_def)
  then show "registration_address (registration_record tid a) = Some a"
    and "registration_record tid a ! 1 = of_nat tid"
    using assms by (simp_all add: registration_address_eq word_of_le_address)
      (simp_all add: registration_record_def)
qed

text \<open>Every record read has its 16 bytes, from the input.\<close>

definition records_sized :: "report_record list \<Rightarrow> bool" where
  "records_sized rs \<longleftrightarrow> (\<forall>r \<in> set rs. length (rr_data r) = RECORD_SIZE)"

lemma records_sized_append [simp]: "records_sized (xs @ ys) \<longleftrightarrow> records_sized xs \<and> records_sized ys"
  by (auto simp: records_sized_def)

lemma decode_rest_sized:
  "records_sized rs \<Longrightarrow> records_sized (decode_rest input off rs) \<and>
    length (decode_rest input off rs) = length rs + (length input - off) div 16"
proof (induction input off rs rule: decode_rest.induct)
  case (1 input off rs)
  show ?case
  proof (cases "off + 16 \<le> length input")
    case True
    have "(length input - off) div 16 = Suc ((length input - (off + 16)) div 16)"
      using True div_if [of 16 "length input - off"] by simp
    then show ?thesis
      using 1 True by (subst (1 2) decode_rest.simps)
        (simp add: records_sized_def bare_record_def length_bslice)
  next
    case False
    then show ?thesis using 1(2) by (subst (1 2) decode_rest.simps) simp
  qed
qed

text \<open>A report of three slots with their triples.\<close>

definition triple_meta :: "byte list \<Rightarrow> record_metadata" where
  "triple_meta t = \<lparr> rm_sequence = t ! 0, rm_rssi = t ! 1, rm_flags = t ! 2 \<rparr>"

definition meta_record :: "byte list \<Rightarrow> byte list \<Rightarrow> report_record" where
  "meta_record d t = \<lparr> rr_data = d, rr_metadata = Some (triple_meta t) \<rparr>"

lemma decode_layout:
  assumes "length slots = 3" and "\<forall>d \<in> set slots. length d = 16"
    and "length triples = 3" and "\<forall>t \<in> set triples. length t = 3" and "n \<le> 3"
  shows "decode_reports (concat slots @ [250, 255, 0xd6, 1, n] @ (concat triples @ [0]) @ [0x6d]) =
    Inr (map2 meta_record slots triples)"
proof -
  obtain a b c where abc: "slots = [a, b, c]" "length a = 16" "length b = 16" "length c = 16"
    using assms(1,2) by (auto simp: length_Suc_conv numeral_3_eq_3)
  obtain x y z where "triples = [x, y, z]" "length x = 3" "length y = 3" "length z = 3"
    using assms(3,4) by (auto simp: length_Suc_conv numeral_3_eq_3)
  then obtain x0 x1 x2 y0 y1 y2 z0 z1 z2 where
    xyz: "triples = [[x0, x1, x2], [y0, y1, y2], [z0, z1, z2]]"
    by (auto simp: length_Suc_conv numeral_3_eq_3)
  let ?m = "[250, 255, 0xd6, 1, n, x0, x1, x2, y0, y1, y2, z0, z1, z2, 0, 0x6d]"
  let ?i = "a @ b @ c @ ?m"
  have i: "concat slots @ [250, 255, 0xd6, 1, n] @ (concat triples @ [0]) @ [0x6d] = ?i"
    by (simp add: abc xyz)
  have len: "length ?i = 64" using abc by simp
  have sl: "bslice 48 16 ?i = ?m" "bslice 0 16 ?i = a" "bslice 16 16 ?i = b" "bslice 32 16 ?i = c"
    using abc by (simp_all add: bslice_def)
  have nt: "?i ! (48 + k) = ?m ! k" for k using abc by (simp add: nth_append)
  have at: "?i ! 52 = n" "?i ! 53 = x0" "?i ! 54 = x1" "?i ! 55 = x2" "?i ! 56 = y0" "?i ! 57 = y1"
    "?i ! 58 = y2" "?i ! 59 = z0" "?i ! 60 = z1" "?i ! 61 = z2"
    using nt [of 4] nt [of 5] nt [of 6] nt [of 7] nt [of 8] nt [of 9] nt [of 10] nt [of 11]
      nt [of 12] nt [of 13] by simp_all
  have sig: "has_metadata_signature (bslice 48 16 ?i)"
    unfolding sl(1) by (simp add: has_metadata_signature_def)
  have n: "\<not> 3 < n" using assms(5) by simp
  define i where "i = ?i"
  note facts = len sl at sig
  have whole: "decode_whole i 0 [] = Inr (64, map2 meta_record slots triples)"
    using facts [folded i_def] n
    by (subst decode_whole.simps, subst decode_whole.simps)
      (simp add: slot_record_def meta_record_def triple_meta_def abc(1) xyz upt_rec)
  show ?thesis
    unfolding i using whole len unfolding decode_reports_def i_def
    by (simp add: decode_rest.simps [of _ 64])
qed

text \<open>What the host should read of a report with these records and registrations.\<close>

definition host_record :: "sv_smol_record \<Rightarrow> report_record" where
  "host_record r = meta_record (sr_data r) (record_triple r)"

definition host_records :: "sv_smol_record list \<Rightarrow> byte list list \<Rightarrow> report_record list" where
  "host_records recs regs = map host_record recs @
     map (\<lambda>d. meta_record d (zeros 3)) (regs @ replicate (3 - length recs - length regs) (zeros 16))"

lemma zeros_concat: "zeros (k * n) = concat (replicate k (zeros n))"
  by (induction k) (simp_all add: replicate_add)

lemma report_bytes_read:
  assumes "\<forall>r \<in> set recs. record_ok r" and "\<forall>r \<in> set regs. length r = 16"
    and "length recs + length regs \<le> 3"
  shows "decode_reports (report_bytes recs regs) = Inr (host_records recs regs)"
proof -
  let ?k = "3 - length recs - length regs"
  let ?slots = "map sr_data recs @ regs @ replicate ?k (zeros 16)"
  let ?triples = "map record_triple recs @ replicate (3 - length recs) (zeros 3)"
  have "length (concat (map sr_data recs) @ concat regs) = (length recs + length regs) * 16"
    using length_records [OF assms(1)] length_concat_const [OF assms(2)] by simp
  moreover have "48 - (length recs + length regs) * 16 = ?k * 16" using assms(3) by simp
  ultimately have a: "pad 48 (concat (map sr_data recs) @ concat regs) = concat ?slots"
    by (simp add: pad_def zeros_concat)
  have "10 - length recs * 3 = (3 - length recs) * 3 + 1" using assms(3) by simp
  then have b: "pad 10 (concat (map record_triple recs)) = concat ?triples @ [0]"
    using replicate_add [of "(3 - length recs) * 3" 1 "0 :: byte"]
    by (simp only: pad_def length_triples zeros_concat) (simp add: zeros_concat)
  have n: "of_nat (length (filter is_sensor recs)) \<le> (3 :: byte)"
  proof -
    have "length (filter is_sensor recs) \<le> 3" using assms(3) length_filter_le [of is_sensor recs] by linarith
    then show ?thesis by (simp add: word_le_nat_alt unat_of_nat take_bit_nat_eq_self_iff)
  qed
  have "\<forall>d \<in> set ?slots. length d = 16" using assms(1,2) by (auto simp: record_ok_def)
  moreover have "length ?slots = 3" "length ?triples = 3" "\<forall>t \<in> set ?triples. length t = 3"
    using assms(3) by auto
  moreover have "map2 meta_record ?slots ?triples = host_records recs regs"
  proof -
    have "map2 meta_record (map sr_data recs) (map record_triple recs) = map host_record recs"
      by (induction recs) (simp_all add: host_record_def)
    moreover have "map2 meta_record ds (replicate (length ds) t) = map (\<lambda>d. meta_record d t) ds" for ds t
      by (induction ds) simp_all
    from this [of "regs @ replicate ?k (zeros 16)"]
    have "map2 meta_record (regs @ replicate ?k (zeros 16)) (replicate (3 - length recs) (zeros 3)) =
      map (\<lambda>d. meta_record d (zeros 3)) (regs @ replicate ?k (zeros 16))"
      using assms(3) by simp
    ultimately show ?thesis by (simp add: host_records_def)
  qed
  ultimately show ?thesis
    using decode_layout [of ?slots ?triples] n by (simp only: report_bytes_def a b)
qed

section \<open>Any input\<close>

text \<open>Where the loop over whole reports gives up, and that it reads whole records.\<close>

definition bad_report :: "byte list \<Rightarrow> nat \<Rightarrow> bool" where
  "bad_report input off \<longleftrightarrow> off + REPORT_SIZE \<le> length input \<and>
     has_metadata_signature (bslice (off + 48) RECORD_SIZE input) \<and> 3 < input ! (off + 52)"

definition report_slots :: "byte list \<Rightarrow> nat \<Rightarrow> report_record list" where
  "report_slots input off =
    (if has_metadata_signature (bslice (off + 48) RECORD_SIZE input)
     then map (\<lambda>slot. slot_record input (off + slot * 16) (off + 53 + slot * 3)) [0..<3]
     else map (\<lambda>slot. bare_record input (off + slot * 16)) [0..<4])"

lemma decode_whole_step:
  "decode_whole input off rs =
    (if off + 64 \<le> length input then
       (if bad_report input off then Inl (InvalidMetadataCount (input ! (off + 52)))
        else decode_whole input (off + 64) (rs @ report_slots input off))
     else Inr (off, rs))"
  by (subst decode_whole.simps)
    (simp add: bad_report_def report_slots_def Let_def add.assoc add.commute [of _ off] add.left_commute [of _ off])

lemma report_slots_sized: "off + 64 \<le> length input \<Longrightarrow> records_sized (report_slots input off)"
  by (auto simp: report_slots_def records_sized_def slot_record_def bare_record_def length_bslice)

lemma decode_whole_cases:
  assumes "records_sized rs"
  shows "case decode_whole input off rs of
      Inl e \<Rightarrow> (\<exists>k. bad_report input (off + k * 64) \<and> e = InvalidMetadataCount (input ! (off + k * 64 + 52)))
    | Inr (off', rs') \<Rightarrow> records_sized rs' \<and> (\<forall>k. \<not> bad_report input (off + k * 64))"
  using assms
proof (induction "length input - off" arbitrary: off rs rule: less_induct)
  case less
  consider "\<not> off + 64 \<le> length input" | "off + 64 \<le> length input" "bad_report input off"
    | "off + 64 \<le> length input" "\<not> bad_report input off" by blast
  then show ?case
  proof cases
    case 1
    then show ?thesis using less.prems by (subst decode_whole_step) (simp add: bad_report_def)
  next
    case 2
    then show ?thesis by (subst decode_whole_step) (auto intro!: exI [of _ 0])
  next
    case 3
    let ?next = "decode_whole input (off + 64) (rs @ report_slots input off)"
    have step: "decode_whole input off rs = ?next" using 3 by (subst decode_whole_step) simp
    have "off + k * 64 = (if k = 0 then off else off + 64 + (k - 1) * 64)" for k
      by (cases k) simp_all
    then have all: "(\<forall>k. \<not> bad_report input (off + k * 64)) \<longleftrightarrow> (\<forall>k. \<not> bad_report input (off + 64 + k * 64))"
      using 3(2) by (metis (no_types, lifting) add.assoc mult_Suc)
    have some: "\<exists>k. bad_report input (off + k * 64) \<and> e = InvalidMetadataCount (input ! (off + k * 64 + 52))"
      if "bad_report input (off + 64 + k * 64)" "e = InvalidMetadataCount (input ! (off + 64 + k * 64 + 52))" for k e
      using that by (intro exI [of _ "Suc k"]) (simp add: add.assoc)
    have "length input - (off + 64) < length input - off" using 3(1) by simp
    note ih = less.hyps [OF this, of "rs @ report_slots input off"]
    show ?thesis unfolding step
      using ih less.prems report_slots_sized [OF 3(1)] all some
      by (cases ?next) (auto split: prod.splits)
  qed
qed

text \<open>
  The host's decoder is total: whatever the input, it returns an error that says what is wrong
  with it, or records of 16 bytes each. The error is the length when that is no multiple of 16, and
  otherwise the count of a report whose metadata announces more than three sensor records; inputs
  with neither fault are always read.
\<close>

theorem host_decode_total:
  "case decode_reports input of
     Inl (UnalignedLength n) \<Rightarrow> n = length input \<and> n mod RECORD_SIZE \<noteq> 0
   | Inl (InvalidMetadataCount n) \<Rightarrow> length input mod RECORD_SIZE = 0 \<and>
       (\<exists>k. bad_report input (k * REPORT_SIZE) \<and> n = input ! (k * REPORT_SIZE + 52))
   | Inr rs \<Rightarrow> records_sized rs \<and> length input mod RECORD_SIZE = 0 \<and>
       (\<nexists>k. bad_report input (k * REPORT_SIZE))"
proof (cases "length input mod 16 = 0")
  case True
  have "records_sized []" by (simp add: records_sized_def)
  note cases = decode_whole_cases [OF this, of input 0]
  show ?thesis
    using True cases decode_rest_sized
    by (cases "decode_whole input 0 []") (auto simp: decode_reports_def)
qed (simp add: decode_reports_def)

text \<open>
  C8: The host reads what the receiver writes. The bytes of a report with given data records and
  registrations (\<open>report_bytes\<close>, which are what \<open>report_builder_next\<close> writes, by
  \<open>report_next_refines\<close>) decode to exactly these records in order, each data record with its
  sequence number, signal strength and flags, and then zero records for the slots left over.
\<close>

theorem host_reads_report:
  assumes "\<forall>r \<in> set recs. record_ok r" and "\<forall>r \<in> set regs. length r = 16"
    and "length recs + length regs \<le> 3"
  shows "decode_reports (report_bytes recs regs) = Inr (host_records recs regs)"
  using assms by (rule report_bytes_read)

theorem host_reads_report_witness:
  "decode_reports (report_bytes [make_record ((zeros 16)[1 := 3]) 5 1 4] [registration_record 3 7]) =
    Inr (host_records [make_record ((zeros 16)[1 := 3]) 5 1 4] [registration_record 3 7])"
  by (rule host_reads_report) (simp_all add: make_record_def record_ok_def)

end
