(* ===== verification/Serial_Gate.thy ===== *)
theory Serial_Gate
  imports Smol_Prelude
begin

text \<open>
  Gates over sequence numbers that wrap round. Both gates of the host bridge, \<open>gateway.rs\<close> for the
  report batches of a gateway and \<open>dedup.rs\<close> for the packets of a tracker, compare the sequence
  field of a message with that of the last one accepted, modulo the width of the field. Against the
  true, unbounded numbers of the messages such a gate accepts exactly the new maxima, as long as
  messages are not further apart than half the range. That is the contract \<open>serial_gate\<close>.
\<close>

section \<open>Serial number arithmetic\<close>

text \<open>The difference of two truncated numbers that are less than half the range apart.\<close>

lemma serial_diff:
  fixes H :: nat
  defines "H \<equiv> 2 ^ (LENGTH('a) - 1)"
  assumes "k < n + H" and "n \<le> k + H"
  shows "0 < unat (of_nat k - of_nat n :: 'a::len word) \<and> unat (of_nat k - of_nat n :: 'a word) < H \<longleftrightarrow> n < k"
    and "n < k \<Longrightarrow> unat (of_nat k - of_nat n :: 'a word) = k - n"
    and "unat (of_nat k - of_nat n :: 'a word) = 0 \<longleftrightarrow> k = n"
proof -
  have H: "2 * H = 2 ^ LENGTH('a)" "0 < H"
    by (simp_all add: H_def flip: power_Suc)
  show newer: "unat (of_nat k - of_nat n :: 'a word) = k - n" if "n < k"
  proof -
    have "of_nat k - of_nat n = (of_nat (k - n) :: 'a word)" using that by simp
    moreover have "k - n < 2 ^ LENGTH('a)" using assms(2) H by linarith
    ultimately show ?thesis by (simp add: unat_of_nat take_bit_nat_eq_self_iff)
  qed
  have older: "unat (of_nat k - of_nat n :: 'a word) = 2 * H - (n - k)" if "k < n"
  proof -
    have d: "0 < n - k" "n - k \<le> H" using that assms(3) by simp_all
    have "of_nat k - of_nat n = (of_nat (2 * H - (n - k)) :: 'a word)"
    proof -
      have "of_nat (2 * H) = (0 :: 'a word)" unfolding H(1) by simp
      moreover have "of_nat (2 * H - (n - k)) = of_nat (2 * H) - (of_nat (n - k) :: 'a word)"
        using d by (intro of_nat_diff) simp
      ultimately show ?thesis using that by simp
    qed
    moreover have "2 * H - (n - k) < 2 ^ LENGTH('a)" using d H by linarith
    ultimately show ?thesis by (simp add: unat_of_nat take_bit_nat_eq_self_iff)
  qed
  show "unat (of_nat k - of_nat n :: 'a word) = 0 \<longleftrightarrow> k = n"
    using newer older assms(2,3) H by (cases k n rule: linorder_cases) auto
  show "0 < unat (of_nat k - of_nat n :: 'a word) \<and> unat (of_nat k - of_nat n :: 'a word) < H \<longleftrightarrow> n < k"
    using newer older assms(2,3) H by (cases k n rule: linorder_cases) auto
qed

section \<open>Runs of a gate\<close>

text \<open>The messages a gate lets through, and the new maxima of a list of numbers.\<close>

primrec passed :: "('s \<Rightarrow> 'm \<Rightarrow> bool \<times> 's) \<Rightarrow> 's \<Rightarrow> 'm list \<Rightarrow> 'm list" where
  "passed step s [] = []"
| "passed step s (m # ms) =
    (let (ok, s') = step s m in (if ok then [m] else []) @ passed step s' ms)"

lemma passed_append: "passed step s (xs @ ys) = passed step s xs @ passed step (foldl (\<lambda>s m. snd (step s m)) s xs) ys"
  by (induction xs arbitrary: s) (simp_all add: split_beta)

primrec maxima :: "nat \<Rightarrow> nat list \<Rightarrow> nat list" where
  "maxima n [] = []"
| "maxima n (k # ks) = (if n < k then k # maxima k ks else maxima n ks)"

lemma maxima_sorted: "sorted_wrt (<) (n # maxima n ks)"
proof (induction ks arbitrary: n)
  case (Cons k ks)
  show ?case
  proof (cases "n < k")
    case True
    then have "\<forall>x \<in> set (maxima k ks). n < x"
      using Cons.IH [of k] by (auto intro: less_trans [OF True])
    then show ?thesis using Cons.IH [of k] True by simp
  qed (use Cons.IH [of n] in simp)
qed simp

lemma maxima_distinct: "distinct (maxima n ks)"
  using maxima_sorted [of n ks] strict_sorted_iff [of "maxima n ks"] by simp

lemma maxima_subset: "set (maxima n ks) \<subseteq> set ks"
  by (induction ks arbitrary: n) auto

lemma maxima_last: "last (n # maxima n ks) = Max (set (n # ks))"
proof (induction ks arbitrary: n)
  case (Cons k ks)
  have "Max (set (n # k # ks)) = max n (Max (set (k # ks)))" by simp
  moreover have "max n (Max (set (k # ks))) = Max (set (max n k # ks))"
    by (cases ks) (simp_all add: max.assoc)
  moreover have "last (n # maxima n (k # ks)) = last (max n k # maxima (max n k) ks)" by simp
  ultimately show ?case using Cons.IH [of "max n k"] by (simp only:)
qed simp

locale serial_gate =
  fixes step :: "'s \<Rightarrow> 'm \<Rightarrow> bool \<times> 's"
    and mine :: "'m \<Rightarrow> bool"
    and number :: "'m \<Rightarrow> nat"
    and at :: "'s \<Rightarrow> nat \<Rightarrow> bool"
    and live :: "'s \<Rightarrow> nat \<Rightarrow> 'm \<Rightarrow> bool"
  assumes newer: "at s n \<Longrightarrow> mine m \<Longrightarrow> live s n m \<Longrightarrow> fst (step s m) \<longleftrightarrow> n < number m"
    and moved: "at s n \<Longrightarrow> mine m \<Longrightarrow> live s n m \<Longrightarrow> at (snd (step s m)) (max n (number m))"
    and other: "at s n \<Longrightarrow> \<not> mine m \<Longrightarrow> at (snd (step s m)) n"
begin

text \<open>Every message of the gate's own stream is live when it arrives.\<close>

primrec all_live :: "'s \<Rightarrow> nat \<Rightarrow> 'm list \<Rightarrow> bool" where
  "all_live s n [] = True"
| "all_live s n (m # ms) = ((mine m \<longrightarrow> live s n m) \<and>
     all_live (snd (step s m)) (if mine m then max n (number m) else n) ms)"

text \<open>What passes of the stream is its new maxima.\<close>

lemma passed_maxima:
  assumes "at s n" and "all_live s n ms"
  shows "map number (filter mine (passed step s ms)) = maxima n (map number (filter mine ms))"
  using assms
proof (induction ms arbitrary: s n)
  case (Cons m ms)
  obtain ok s' where st: "step s m = (ok, s')" by fastforce
  show ?case
  proof (cases "mine m")
    case True
    then have "ok \<longleftrightarrow> n < number m" "at s' (max n (number m))"
      using newer [of s n m] moved [of s n m] Cons.prems st by simp_all
    then show ?thesis
      using Cons.IH [of s' "max n (number m)"] Cons.prems(2) True st by (auto simp: max_def)
  next
    case False
    then show ?thesis
      using Cons.IH [of s' n] Cons.prems other [of s n m] st by simp
  qed
qed simp

text \<open>So the messages that pass are in order, and none passes twice.\<close>

lemma passed_sorted:
  assumes "at s n" and "all_live s n ms"
  shows "sorted_wrt (<) (map number (filter mine (passed step s ms)))"
    and "inj_on number (set (filter mine (passed step s ms)))"
    and "distinct (filter mine (passed step s ms))"
proof -
  note eq = passed_maxima [OF assms]
  show "sorted_wrt (<) (map number (filter mine (passed step s ms)))"
    unfolding eq using maxima_sorted [of n] by simp
  have "distinct (map number (filter mine (passed step s ms)))"
    unfolding eq by (rule maxima_distinct)
  then show "inj_on number (set (filter mine (passed step s ms)))"
    and "distinct (filter mine (passed step s ms))"
    by (simp_all add: distinct_map)
qed

end

text \<open>
  A gate that has no number yet, because it has not met the sender or has given up on it, takes the
  first one it is offered. From there on it is the gate above.
\<close>

fun new_numbers :: "nat list \<Rightarrow> nat list" where
  "new_numbers [] = []"
| "new_numbers (n # ns) = n # maxima n ns"

lemma new_numbers_sorted: "sorted_wrt (<) (new_numbers ns)"
  using maxima_sorted by (cases ns) auto

lemma new_numbers_hd: "hd (new_numbers ns) = hd ns"
  by (cases ns) simp_all

lemma new_numbers_Nil [simp]: "new_numbers ns = [] \<longleftrightarrow> ns = []"
  by (cases ns) simp_all

lemma new_numbers_last: "ns \<noteq> [] \<Longrightarrow> last (new_numbers ns) = Max (set ns)"
  using maxima_last by (cases ns) auto

locale starting_gate = serial_gate step mine number at live
  for step :: "'s \<Rightarrow> 'm \<Rightarrow> bool \<times> 's" and mine :: "'m \<Rightarrow> bool" and number :: "'m \<Rightarrow> nat"
    and at :: "'s \<Rightarrow> nat \<Rightarrow> bool" and live :: "'s \<Rightarrow> nat \<Rightarrow> 'm \<Rightarrow> bool" +
  fixes idle :: "'s \<Rightarrow> bool" and enters :: "'m \<Rightarrow> bool"
  assumes first: "idle s \<Longrightarrow> mine m \<Longrightarrow> enters m \<Longrightarrow> fst (step s m) \<and> at (snd (step s m)) (number m)"
    and idle_other: "idle s \<Longrightarrow> \<not> mine m \<Longrightarrow> idle (snd (step s m))"
begin

primrec start_live :: "'s \<Rightarrow> 'm list \<Rightarrow> bool" where
  "start_live s [] = True"
| "start_live s (m # ms) = (if mine m then enters m \<and> all_live (snd (step s m)) (number m) ms
     else start_live (snd (step s m)) ms)"

lemma passed_new:
  assumes "idle s" and "start_live s ms"
  shows "map number (filter mine (passed step s ms)) = new_numbers (map number (filter mine ms))"
  using assms
proof (induction ms arbitrary: s)
  case (Cons m ms)
  obtain ok s' where st: "step s m = (ok, s')" by fastforce
  show ?case
  proof (cases "mine m")
    case True
    then have "ok" "at s' (number m)" "all_live s' (number m) ms"
      using first [OF Cons.prems(1) True] Cons.prems(2) st by simp_all
    then show ?thesis using passed_maxima [of s' "number m" ms] st True by simp
  next
    case False
    then show ?thesis using Cons idle_other [OF Cons.prems(1) False] st by simp
  qed
qed simp

end

end
