(* ===== verification/Host_Gateway.thy ===== *)
theory Host_Gateway
  imports Gateway_Protocol Host_Report Serial_Gate
begin

text \<open>
  The host's side of the gateway protocol, \<open>bridge/src/gateway.rs\<close>: a second implementation, in
  Rust, of the datagrams of \<open>gateway_protocol.c\<close>, and the gate that refuses repeated and reordered
  report batches. A \<open>[u8; 64]\<close> is a byte list of that length, \<open>HashMap\<close> and \<open>HashSet\<close> are a map and
  a set. An \<open>assert!\<close> that fails is \<open>None\<close>.
\<close>

section \<open>Messages (gateway.rs)\<close>

abbreviation (input) HOST_VERSION :: byte where "HOST_VERSION \<equiv> 1"
abbreviation (input) HEADER_SIZE :: "'a::numeral" where "HEADER_SIZE \<equiv> 28"
abbreviation (input) MAX_REPORTS :: "'a::numeral" where "MAX_REPORTS \<equiv> 8"
abbreviation (input) MAX_DATAGRAM_SIZE :: nat where "MAX_DATAGRAM_SIZE \<equiv> 544"

datatype gateway_kind = Discover | Offer | Hello | Ack | ReportBatch

record gateway_message =
  hm_kind :: gateway_kind
  hm_flags :: byte
  hm_gateway_id :: u64
  hm_boot_id :: u32
  hm_sequence :: u32
  hm_reports :: "byte list list"

datatype gateway_decode_error = TooShort | TooLong | WrongMagic | UnsupportedVersion byte
  | UnknownKind byte | InvalidReportCount byte | InvalidLength | InvalidCrc

definition host_magic :: "byte list" where
  "host_magic = map of_char ''SVW1''"

text \<open>\<open>kind as u8\<close> and \<open>GatewayKind::try_from\<close>.\<close>

fun kind_code :: "gateway_kind \<Rightarrow> byte" where
  "kind_code Discover = 1"
| "kind_code Offer = 2"
| "kind_code Hello = 3"
| "kind_code Ack = 4"
| "kind_code ReportBatch = 5"

definition try_from :: "byte \<Rightarrow> gateway_decode_error + gateway_kind" where
  "try_from b = (if b = 1 then Inr Discover else if b = 2 then Inr Offer else if b = 3 then Inr Hello
     else if b = 4 then Inr Ack else if b = 5 then Inr ReportBatch else Inl (UnknownKind b))"

section \<open>Helpers\<close>

definition read_u16_le :: "byte list \<Rightarrow> nat \<Rightarrow> u16" where
  "read_u16_le input offset = word_of_le (bslice offset 2 input)"

definition read_u32_le :: "byte list \<Rightarrow> nat \<Rightarrow> u32" where
  "read_u32_le input offset = word_of_le (bslice offset 4 input)"

definition write_u16_le :: "byte list \<Rightarrow> nat \<Rightarrow> u16 \<Rightarrow> byte list" where
  "write_u16_le output offset v = blit offset (le_of_word 2 v) output"

definition write_u32_le :: "byte list \<Rightarrow> nat \<Rightarrow> u32 \<Rightarrow> byte list" where
  "write_u32_le output offset v = blit offset (le_of_word 4 v) output"

definition crc32_ieee :: "byte list \<Rightarrow> u32" where
  "crc32_ieee input = NOT (foldl (\<lambda>crc b.
     ((\<lambda>crc. drop_bit 1 crc XOR (0xedb88320 AND (0 - (crc AND 1)))) ^^ 8) (crc XOR ucast b))
     0xffffffff input)"

definition has_magic :: "byte list \<Rightarrow> bool" where
  "has_magic input \<longleftrightarrow> take (length host_magic) input = host_magic"

section \<open>Decoder and encoder\<close>

definition host_decode :: "byte list \<Rightarrow> gateway_decode_error + gateway_message" where
  "host_decode input =
    (if length input < HEADER_SIZE + 4 then Inl TooShort
     else if MAX_DATAGRAM_SIZE < length input then Inl TooLong
     else if \<not> has_magic input then Inl WrongMagic
     else if input ! 4 \<noteq> HOST_VERSION then Inl (UnsupportedVersion (input ! 4))
     else case try_from (input ! 5) of
       Inl e \<Rightarrow> Inl e
     | Inr kind \<Rightarrow>
        (let report_count = unat (input ! 7) in
         if MAX_REPORTS < report_count then Inl (InvalidReportCount (input ! 7))
         else
          (let payload_length = unat (read_u16_le input 24) in
           if read_u16_le input 26 \<noteq> HEADER_SIZE \<or> payload_length \<noteq> report_count * REPORT_SIZE \<or>
              length input \<noteq> HEADER_SIZE + payload_length + 4 \<or>
              (kind \<noteq> ReportBatch \<and> report_count \<noteq> 0)
           then Inl InvalidLength
           else if crc32_ieee (take (length input - 4) input) \<noteq> read_u32_le input (length input - 4)
           then Inl InvalidCrc
           else Inr \<lparr> hm_kind = kind, hm_flags = input ! 6,
             hm_gateway_id = foldl (\<lambda>a (index, b). a OR push_bit (index * 8) (ucast b)) 0
               (enumerate 0 (bslice 8 6 input)),
             hm_boot_id = read_u32_le input 16, hm_sequence = read_u32_le input 20,
             hm_reports = map (\<lambda>index. bslice (HEADER_SIZE + index * REPORT_SIZE) REPORT_SIZE input)
               [0..<report_count] \<rparr>)))"

text \<open>The loop that copies the reports, from \<open>index\<close> on.\<close>

primrec copy_reports :: "byte list list \<Rightarrow> nat \<Rightarrow> byte list \<Rightarrow> byte list" where
  "copy_reports [] index output = output"
| "copy_reports (r # rs) index output =
    copy_reports rs (index + 1) (blit (HEADER_SIZE + index * REPORT_SIZE) r output)"

definition host_encode :: "gateway_message \<Rightarrow> byte list option" where
  "host_encode m =
    (if \<not> length (hm_reports m) \<le> MAX_REPORTS then None
     else if \<not> (hm_kind m = ReportBatch \<or> hm_reports m = []) then None
     else
      (let payload_length = length (hm_reports m) * REPORT_SIZE;
           output = zeros (HEADER_SIZE + payload_length + 4);
           output = blit 0 host_magic output;
           output = output[4 := HOST_VERSION];
           output = output[5 := kind_code (hm_kind m)];
           output = output[6 := hm_flags m];
           output = output[7 := of_nat (length (hm_reports m))];
           output = foldl (\<lambda>output index. output[8 + index := ucast (drop_bit (index * 8) (hm_gateway_id m))])
             output [0..<6];
           output = write_u32_le output 16 (hm_boot_id m);
           output = write_u32_le output 20 (hm_sequence m);
           output = write_u16_le output 24 (of_nat payload_length);
           output = write_u16_le output 26 HEADER_SIZE;
           output = copy_reports (hm_reports m) 0 output;
           crc_offset = length output - 4
       in Some (write_u32_le output crc_offset (crc32_ieee (take crc_offset output)))))"

definition control_reply :: "gateway_message \<Rightarrow> gateway_kind \<Rightarrow> u32 \<Rightarrow> byte list option" where
  "control_reply request kind sequence = host_encode \<lparr> hm_kind = kind, hm_flags = 0,
     hm_gateway_id = hm_gateway_id request, hm_boot_id = hm_boot_id request,
     hm_sequence = sequence, hm_reports = [] \<rparr>"

section \<open>The helpers against those of the firmware\<close>

lemma host_magic_eq: "host_magic = gateway_magic"
  by (simp add: host_magic_def gateway_magic_def)

lemma crc32_ieee_eq: "crc32_ieee input = sv_crc32_ieee input (length input)"
proof -
  have "(\<lambda>crc. drop_bit 1 crc XOR (0xedb88320 AND (0 - (crc AND 1)))) = crc32_bit"
    by (simp add: fun_eq_iff crc32_bit_def Let_def)
  then show ?thesis by (simp add: crc32_ieee_def sv_crc32_ieee_eval crc32_byte_def [abs_def])
qed

lemma crc32_ieee_take: "n \<le> length input \<Longrightarrow> crc32_ieee (take n input) = sv_crc32_ieee input n"
  by (simp add: crc32_ieee_eq sv_crc32_ieee_def)

lemma read_u_eq:
  "off + 2 \<le> length input \<Longrightarrow> read_u16_le input off = read_le16 (drop off input)"
  "off + 4 \<le> length input \<Longrightarrow> read_u32_le input off = read_le32 (drop off input)"
  using le16_bslice [of off input] le32_bslice [of off input]
  by (auto simp: read_u16_le_def read_u32_le_def simp flip: le16_bslice le32_bslice)

lemma kind_range: "1 \<le> b \<and> b \<le> 5 \<longleftrightarrow> b = 1 \<or> b = 2 \<or> b = 3 \<or> b = 4 \<or> b = (5 :: byte)"
  by (auto simp: word_le_nat_alt word_eq_iff_unsigned [where 'a = nat])

lemma try_from_code:
  "try_from (kind_code k) = Inr k"
  "try_from b = Inr k \<Longrightarrow> b = kind_code k"
  "(\<exists>k. try_from b = Inr k) \<longleftrightarrow> 1 \<le> b \<and> b \<le> 5"
  subgoal by (cases k) (simp_all add: try_from_def)
  subgoal by (auto simp: try_from_def split: if_splits)
  subgoal by (auto simp: kind_range try_from_def)
  done

section \<open>Both decoders\<close>

text \<open>The message as the firmware's structure.\<close>

definition device_view :: "gateway_message \<Rightarrow> sv_gateway_message" where
  "device_view m = \<lparr> gm_kind = kind_code (hm_kind m), gm_flags = hm_flags m,
     gm_report_count = of_nat (length (hm_reports m)), gm_gateway_id = le_of_word 6 (hm_gateway_id m),
     gm_boot_id = hm_boot_id m, gm_sequence = hm_sequence m,
     gm_payload_length = of_nat (length (hm_reports m) * REPORT_SIZE),
     gm_payload = pad 512 (concat (hm_reports m)) \<rparr>"

text \<open>What both accept.\<close>

definition datagram_ok :: "byte list \<Rightarrow> bool" where
  "datagram_ok input \<longleftrightarrow> take 4 input = gateway_magic \<and> input ! 4 = 1 \<and> 1 \<le> input ! 5 \<and>
     input ! 5 \<le> 5 \<and> unat (input ! 7) \<le> 8 \<and> read_le16 (drop 26 input) = 28 \<and>
     unat (read_le16 (drop 24 input)) = unat (input ! 7) * 64 \<and>
     length input = 32 + unat (input ! 7) * 64 \<and> (input ! 5 = 5 \<or> input ! 7 = 0) \<and>
     sv_crc32_ieee input (length input - 4) = read_le32 (drop (length input - 4) input)"

lemma device_decode_ok: "sv_gateway_decode input (length input) \<noteq> None \<longleftrightarrow> datagram_ok input"
proof
  assume "sv_gateway_decode input (length input) \<noteq> None"
  then obtain m where m: "sv_gateway_decode input (length input) = Some m" by blast
  note shape = gateway_decode_shape [OF m]
  have n: "unat (read_le16 (drop 24 input)) = unat (input ! 7) * 64"
    using shape(11) by (cases "input ! 5 = 5") simp_all
  have "unat (input ! 7) \<le> 8" using shape(6) by (simp add: word_le_nat_alt)
  moreover have "input ! 5 = 5 \<or> input ! 7 = 0" using shape(11) by metis
  moreover have "length input - 4 = 28 + unat (read_le16 (drop 24 input))"
    "length input = 32 + unat (input ! 7) * 64" using shape(9) n by simp_all
  ultimately show "datagram_ok input"
    using shape(2-5,7,10) n unfolding datagram_ok_def by metis
next
  assume ok: "datagram_ok input"
  let ?n = "unat (read_le16 (drop 24 input))"
  have n: "?n = unat (input ! 7) * 64" "length input = 28 + ?n + 4" "?n \<le> 512"
    using ok by (auto simp: datagram_ok_def)
  have parts: "take 4 input = gateway_magic" "input ! 4 = 1" "\<not> input ! 5 < 1" "\<not> 5 < input ! 5"
    "read_le16 (drop 26 input) = 28" "input ! 5 = 5 \<or> input ! 7 = 0"
    "sv_crc32_ieee input (length input - 4) = read_le32 (drop (length input - 4) input)"
    using ok unfolding datagram_ok_def not_less by blast+
  have eight: "unat (input ! 7) \<le> 8" using ok unfolding datagram_ok_def by blast
  have bounds: "\<not> 512 < read_le16 (drop 24 input)" "\<not> 8 < input ! 7" "\<not> length input < 28 + 4"
    subgoal using n(3) by (simp add: word_less_nat_alt)
    subgoal using eight by (simp add: word_less_nat_alt)
    subgoal using n(2) by linarith
    done
  have zero: "input ! 7 = 0 \<Longrightarrow> read_le16 (drop 24 input) = 0" using n(1) by (simp add: unat_eq_0)
  have "length input - 4 = 28 + ?n" using n(2) by linarith
  then have crc: "read_le32 (drop (28 + ?n) input) = sv_crc32_ieee input (28 + ?n)" using parts(7) by simp
  have first: "\<not> (length input < 28 + 4 \<or> take 4 input \<noteq> gateway_magic \<or> input ! 4 \<noteq> 1 \<or> input ! 5 < 1 \<or>
      5 < input ! 5 \<or> 8 < input ! 7 \<or> read_le16 (drop 26 input) \<noteq> 28)"
    using parts bounds by blast
  have second: "\<not> (512 < read_le16 (drop 24 input) \<or> length input \<noteq> 28 + ?n + 4 \<or>
      read_le32 (drop (28 + ?n) input) \<noteq> sv_crc32_ieee input (28 + ?n) \<or>
      (input ! 5 = 5 \<and> ?n \<noteq> unat (input ! 7) * 64) \<or>
      (input ! 5 \<noteq> 5 \<and> (read_le16 (drop 24 input) \<noteq> 0 \<or> input ! 7 \<noteq> 0)))"
    using parts(6) bounds(1) zero crc n(1,2) by blast
  show "sv_gateway_decode input (length input) \<noteq> None"
    unfolding sv_gateway_decode_def Let_def if_not_P [OF first] if_not_P [OF second] by simp
qed

lemma ex_Inr_if: "(\<exists>m. (if c then Inl e else x) = Inr m) \<longleftrightarrow> \<not> c \<and> (\<exists>m. x = Inr m)"
  by simp

lemma host_decode_ok: "(\<exists>m. host_decode input = Inr m) \<longleftrightarrow> datagram_ok input"
proof (cases "length input < 32")
  case True
  then show ?thesis by (simp add: host_decode_def datagram_ok_def)
next
  case False
  then have read: "read_u16_le input 24 = read_le16 (drop 24 input)"
    "read_u16_le input 26 = read_le16 (drop 26 input)"
    "read_u32_le input (length input - 4) = read_le32 (drop (length input - 4) input)"
    "crc32_ieee (take (length input - 4) input) = sv_crc32_ieee input (length input - 4)"
    by (simp_all add: read_u_eq crc32_ieee_take)
  have batch: "try_from (input ! 5) = Inr k \<Longrightarrow> k = ReportBatch \<longleftrightarrow> input ! 5 = 5" for k
    using try_from_code(2) [of "input ! 5" k] by (cases k) simp_all
  have size: "unat (input ! 7) \<le> 8 \<Longrightarrow> length input = 28 + unat (input ! 7) * 64 + 4 \<Longrightarrow> \<not> 544 < length input"
    by simp
  show ?thesis
  proof (cases "try_from (input ! 5)")
    case (Inl e)
    then have "\<not> (1 \<le> input ! 5 \<and> input ! 5 \<le> 5)" using try_from_code(3) [of "input ! 5"] by auto
    then show ?thesis using Inl by (auto simp: host_decode_def datagram_ok_def)
  next
    case (Inr k)
    then have "1 \<le> input ! 5" "input ! 5 \<le> 5" using try_from_code(3) [of "input ! 5"] by auto
    note range = this
    have numeral_32: "(28 :: nat) + 4 = 32" by simp
    have "(\<exists>m. host_decode input = Inr m) \<longleftrightarrow> \<not> 544 < length input \<and> take 4 input = gateway_magic \<and>
        input ! 4 = 1 \<and> \<not> 8 < unat (input ! 7) \<and>
        \<not> (read_le16 (drop 26 input) \<noteq> 28 \<or> unat (read_le16 (drop 24 input)) \<noteq> unat (input ! 7) * 64 \<or>
          length input \<noteq> 28 + unat (read_le16 (drop 24 input)) + 4 \<or> (input ! 5 \<noteq> 5 \<and> unat (input ! 7) \<noteq> 0)) \<and>
        sv_crc32_ieee input (length input - 4) = read_le32 (drop (length input - 4) input)"
      using False unfolding numeral_32 [symmetric]
      by (simp only: host_decode_def Inr sum.case Let_def ex_Inr_if read has_magic_def host_magic_eq batch [OF Inr]
          length_gateway_magic if_True if_False not_not not_False_eq_True de_Morgan_conj) blast
    also have "\<dots> \<longleftrightarrow> datagram_ok input"
      unfolding datagram_ok_def using range size by (auto simp: unat_eq_0 simp del: drop_all drop_eq_Nil drop_eq_Nil2)
    finally show ?thesis .
  qed
qed

text \<open>What they make of it.\<close>

lemma bslice_append: "bslice off m input @ bslice (off + m) n input = bslice off (m + n) input"
  by (simp add: bslice_def take_add add.commute)

lemma concat_reports:
  "concat (map (\<lambda>index. bslice (off + index * 64) 64 input) [0..<n]) = bslice off (n * 64) input"
proof (induction n)
  case (Suc n)
  then show ?case
    using bslice_append [of off "n * 64" input 64] by (simp add: add.commute)
qed (simp add: bslice_def)

lemma decoders_agree:
  "sv_gateway_decode input (length input) =
    (case host_decode input of Inl e \<Rightarrow> None | Inr m \<Rightarrow> Some (device_view m))"
proof (cases "datagram_ok input")
  case False
  then show ?thesis
    using device_decode_ok [of input] host_decode_ok [of input] by (cases "host_decode input") auto
next
  case True
  obtain m where m: "sv_gateway_decode input (length input) = Some m"
    using True device_decode_ok [of input] by blast
  obtain h where h: "host_decode input = Inr h" using True host_decode_ok [of input] by blast
  note shape = gateway_decode_shape(1) [OF m]
  have len: "32 \<le> length input" using True by (simp add: datagram_ok_def)
  obtain k where k: "try_from (input ! 5) = Inr k"
    using True try_from_code(3) [of "input ! 5"] by (auto simp: datagram_ok_def)
  let ?c = "unat (input ! 7)"
  have hh: "h = \<lparr> hm_kind = k, hm_flags = input ! 6, hm_gateway_id = word_of_le (bslice 8 6 input),
      hm_boot_id = read_le32 (drop 16 input), hm_sequence = read_le32 (drop 20 input),
      hm_reports = map (\<lambda>index. bslice (28 + index * 64) 64 input) [0..<?c] \<rparr>"
    using h len k
    by (auto simp: host_decode_def Let_def address_loop read_u_eq split: if_splits simp del: drop_all)
  have c: "length input = 32 + ?c * 64" "?c \<le> 8" "unat (read_le16 (drop 24 input)) = ?c * 64"
    using True unfolding datagram_ok_def by blast+
  have id: "le_of_word 6 (word_of_le (bslice 8 6 input) :: u64) = bslice 8 6 input"
    using le_of_word_of_le [of "bslice 8 6 input", where 'a = 64] len by (simp add: length_bslice)
  have pl: "of_nat (?c * 64) = read_le16 (drop 24 input)"
    using arg_cong [OF c(3), of "of_nat :: nat \<Rightarrow> u16"] by (simp del: of_nat_mult)
  have pay: "pad 512 (bslice 28 (?c * 64) input) = blit 0 (bslice 28 (?c * 64) input) (zeros 512)"
    using c(1,2) by (simp add: pad_def blit_def length_bslice)
  have "m = device_view h"
    by (simp add: shape hh device_view_def c(3) id pl pay concat_reports
        try_from_code(2) [OF k, symmetric] del: of_nat_mult)
  then show ?thesis using m h by simp
qed

section \<open>Both encoders\<close>

definition hm_wf :: "gateway_message \<Rightarrow> bool" where
  "hm_wf m \<longleftrightarrow> (\<forall>r \<in> set (hm_reports m). length r = REPORT_SIZE)"

definition hm_valid :: "gateway_message \<Rightarrow> bool" where
  "hm_valid m \<longleftrightarrow> length (hm_reports m) \<le> MAX_REPORTS \<and> (hm_kind m = ReportBatch \<or> hm_reports m = [])"

lemma kind_code_batch [simp]: "kind_code k = 5 \<longleftrightarrow> k = ReportBatch"
  by (cases k) simp_all

lemma kind_code_range: "1 \<le> kind_code k \<and> kind_code k \<le> 5"
  by (cases k) simp_all

lemma of_nat_small: "n \<le> 8 \<Longrightarrow> unat (of_nat n :: byte) = n" "n \<le> 512 \<Longrightarrow> unat (of_nat n :: u16) = n"
  by (simp_all add: unat_of_nat take_bit_nat_eq_self_iff)

lemma length_reports: "hm_wf m \<Longrightarrow> length (concat (hm_reports m)) = length (hm_reports m) * 64"
  unfolding hm_wf_def by (rule length_concat_const)

lemma device_view_ok:
  assumes "hm_wf m" and "length (hm_reports m) \<le> 8"
  shows "gm_wf (device_view m)" and "gm_valid (device_view m) \<longleftrightarrow> hm_valid m"
    and "gm_data (device_view m) = concat (hm_reports m)"
    and "unat (gm_payload_length (device_view m)) = length (hm_reports m) * 64"
    and "gm_normal (device_view m) = device_view m"
proof -
  let ?n = "length (hm_reports m)"
  have n: "unat (of_nat ?n :: byte) = ?n" "unat (of_nat (?n * 64) :: u16) = ?n * 64"
    using assms(2) of_nat_small [of ?n] of_nat_small [of "?n * 64"] by simp_all
  note len = length_reports [OF assms(1)]
  show "gm_wf (device_view m)" using len assms(2) by (simp add: gm_wf_def device_view_def pad_def)
  have "(of_nat ?n :: byte) = 0 \<longleftrightarrow> hm_reports m = []" using n(1) by (metis length_0_conv unat_eq_0)
  moreover have "(of_nat (?n * 64) :: u16) = 0 \<longleftrightarrow> hm_reports m = []"
    using n(2) by (metis length_0_conv mult_is_0 unat_eq_0 zero_neq_numeral)
  moreover have "(of_nat ?n :: byte) \<le> 8" using n(1) assms(2) by (simp add: word_le_nat_alt)
  ultimately show "gm_valid (device_view m) \<longleftrightarrow> hm_valid m"
    using kind_code_range [of "hm_kind m"] n assms(2)
    by (simp add: gm_valid_def hm_valid_def device_view_def del: of_nat_mult)
  show data: "gm_data (device_view m) = concat (hm_reports m)"
    using n(2) len by (simp add: gm_data_def device_view_def pad_def del: of_nat_mult)
  show u: "unat (gm_payload_length (device_view m)) = ?n * 64"
    using n(2) by (simp add: device_view_def del: of_nat_mult)
  show "gm_normal (device_view m) = device_view m"
    unfolding gm_normal_def u data using len
    by (simp add: device_view_def pad_def)
qed

lemma write_u_filled:
  "length pre = off \<Longrightarrow> 2 \<le> n \<Longrightarrow> write_u16_le (filled pre n) off v = filled (pre @ le_of_word 2 v) (n - 2)"
  "length pre = off \<Longrightarrow> 4 \<le> n \<Longrightarrow> write_u32_le (filled pre n) off w = filled (pre @ le_of_word 4 w) (n - 4)"
  by (simp_all add: write_u16_le_def write_u32_le_def buffer_simps)

lemma write_u32_reserved:
  assumes "length pre + 2 = off" and "6 \<le> n"
  shows "write_u32_le (filled pre n) off v = filled (pre @ 0 # 0 # le_of_word 4 v) (n - 6)"
  using assms filled_skip [of 2 n pre] write_u_filled(2) [of "pre @ zeros 2" off "n - 2" v]
  by (simp add: zeros_numeral)

lemma copy_reports_filled:
  assumes "\<forall>r \<in> set rs. length r = 64" and "length pre = 28 + i * 64" and "length rs * 64 \<le> n"
  shows "copy_reports rs i (filled pre n) = filled (pre @ concat rs) (n - length rs * 64)"
  using assms
proof (induction rs arbitrary: i pre n)
  case (Cons r rs)
  then show ?case
    using Cons.IH [of "pre @ r" "Suc i" "n - 64"] by (simp add: buffer_simps)
qed simp

lemma write_id_filled:
  assumes "length pre = 8" and "6 \<le> n"
  shows "foldl (\<lambda>output index. output[8 + index := ucast (drop_bit (index * 8) (v :: u64))]) (filled pre n) [0..<6] =
    filled (pre @ le_of_word 6 v) (n - 6)"
proof -
  obtain k where "n = 6 + k" using assms(2) le_Suc_ex by blast
  then show ?thesis
    using assms(1) by (simp add: upt_rec update_filled byte_eval drop_bit_drop_bit)
qed

lemma host_encode_body:
  assumes "hm_wf m" and "hm_valid m"
  shows "host_encode m = Some (gateway_body (device_view m) @
    le_of_word 4 (crc32_ieee (gateway_body (device_view m))))"
proof -
  let ?n = "length (hm_reports m)"
  have n: "?n \<le> 8" using assms(2) by (simp add: hm_valid_def)
  note view = device_view_ok [OF assms(1) n]
  have hs: "le_of_word 2 (28 :: u16) = [28, 0]" by (simp add: byte_eval)
  have sized: "\<forall>r \<in> set (hm_reports m). length r = 64" using assms(1) by (simp add: hm_wf_def)
  let ?pre = "gateway_magic @ [1, kind_code (hm_kind m), hm_flags m, of_nat ?n] @ le_of_word 6 (hm_gateway_id m) @
    [0, 0] @ le_of_word 4 (hm_boot_id m) @ le_of_word 4 (hm_sequence m) @ le_of_word 2 (of_nat (?n * 64) :: u16) @ [28, 0]"
  have body: "gateway_body (device_view m) = ?pre @ concat (hm_reports m)"
    by (simp add: gateway_body_def view(3)) (simp add: device_view_def)
  have copy: "copy_reports (hm_reports m) 0 (filled ?pre (4 + ?n * 64)) = filled (gateway_body (device_view m)) 4"
    using copy_reports_filled [OF sized, of ?pre 0 "4 + ?n * 64"] by (simp add: body)
  have len: "length (gateway_body (device_view m)) = 28 + ?n * 64"
    using length_reports [OF assms(1)] by (simp add: body)
  have "host_encode m = Some (let output = copy_reports (hm_reports m) 0 (filled ?pre (4 + ?n * 64)); crc_offset = length output - 4
      in write_u32_le output crc_offset (crc32_ieee (take crc_offset output)))"
    using assms(2)
    by (simp add: host_encode_def hm_valid_def Let_def filled_start buffer_simps host_magic_eq write_id_filled
        write_u32_reserved write_u_filled hs del: of_nat_mult)
  also have "\<dots> = Some (gateway_body (device_view m) @ le_of_word 4 (crc32_ieee (gateway_body (device_view m))))"
    unfolding copy Let_def using len
    by (simp add: buffer_simps write_u_filled) (simp add: filled_def)
  finally show ?thesis .
qed

lemma host_encode_refuses: "\<not> hm_valid m \<Longrightarrow> host_encode m = None"
  by (auto simp: host_encode_def hm_valid_def)

lemma encoders_agree:
  assumes "hm_wf m"
  shows "host_encode m = (if length (hm_reports m) \<le> MAX_REPORTS then sv_gateway_encode (device_view m) else None)"
proof (cases "hm_valid m")
  case True
  then have n: "length (hm_reports m) \<le> 8" by (simp add: hm_valid_def)
  note view = device_view_ok [OF assms n]
  have "length (gateway_body (device_view m)) = 28 + unat (gm_payload_length (device_view m))"
    using length_gateway_body [OF view(1)] view(2) True by simp
  then show ?thesis
    using host_encode_body [OF assms True] sv_gateway_encode_body [OF view(1)] view(2) True n
    by (simp add: crc32_ieee_eq)
next
  case False
  then show ?thesis
    using host_encode_refuses [OF False] device_view_ok(2) [OF assms] sv_gateway_encode_refuses by auto
qed

section \<open>Round trip\<close>

lemma device_view_inj:
  assumes "device_view m = device_view m'" and "hm_wf m" and "hm_wf m'"
    and "length (hm_reports m) \<le> 8" and "length (hm_reports m') \<le> 8"
    and "hm_gateway_id m \<le> ADDRESS_MASK" and "hm_gateway_id m' \<le> ADDRESS_MASK"
  shows "m = m'"
proof -
  have kind: "hm_kind m = hm_kind m'"
    using assms(1) try_from_code(1) by (metis device_view_def sum.inject(2) sv_gateway_message.select_convs(1))
  have id: "hm_gateway_id m = hm_gateway_id m'"
    using assms(1) word_of_le_address [OF assms(6)] word_of_le_address [OF assms(7)]
    by (metis device_view_def sv_gateway_message.select_convs(4))
  have reports: "concat (hm_reports m) = concat (hm_reports m')"
    using device_view_ok(3) [OF assms(2,4)] device_view_ok(3) [OF assms(3,5)] assms(1) by simp
  have len: "length (hm_reports m) = length (hm_reports m')"
    using length_reports [OF assms(2)] length_reports [OF assms(3)] reports by simp
  have "\<forall>(x, y) \<in> set (zip (hm_reports m) (hm_reports m')). length x = length y"
    using assms(2,3) by (auto simp: hm_wf_def in_set_zip)
  then have "hm_reports m = hm_reports m'"
    using concat_injective [OF reports len] by blast
  moreover have "hm_flags m = hm_flags m'" "hm_boot_id m = hm_boot_id m'" "hm_sequence m = hm_sequence m'"
    using assms(1) by (simp_all add: device_view_def)
  ultimately show ?thesis using kind id by (cases m; cases m') simp
qed

lemma word_of_le_address_bound: "length bs = 6 \<Longrightarrow> (word_of_le bs :: u64) \<le> ADDRESS_MASK"
proof -
  assume "length bs = 6"
  then have "take_bit 48 (word_of_le bs :: u64) = word_of_le bs"
    by (intro bit_word_eqI) (auto simp: bit_simps dest: bit_word_of_le_bound)
  then have "word_of_le bs AND ADDRESS_MASK = (word_of_le bs :: u64)"
    by (simp add: take_bit_eq_mask mask_eq_exp_minus_1 numeral_eq_Suc)
  then show ?thesis using word_and_le1 by metis
qed

text \<open>Every message decoded is one that can be encoded, with an id of 48 bits.\<close>

lemma host_decode_wf:
  assumes "host_decode input = Inr m"
  shows "hm_wf m" and "hm_valid m" and "hm_gateway_id m \<le> ADDRESS_MASK"
    and "sv_gateway_decode input (length input) = Some (device_view m)"
proof -
  show dec: "sv_gateway_decode input (length input) = Some (device_view m)"
    using decoders_agree [of input] assms by simp
  have len: "length input = 32 + unat (input ! 7) * 64" "unat (input ! 7) \<le> 8"
    using host_decode_ok [of input] assms unfolding datagram_ok_def by blast+
  have reports: "hm_reports m = map (\<lambda>index. bslice (28 + index * 64) 64 input) [0..<unat (input ! 7)]"
    and id: "hm_gateway_id m = word_of_le (bslice 8 6 input)"
    using assms by (auto simp: host_decode_def Let_def address_loop split: if_splits sum.splits)
  show wf: "hm_wf m"
    unfolding hm_wf_def reports using len(1) by (auto simp: length_bslice)
  have "length (hm_reports m) \<le> 8" using reports len(2) by simp
  then show "hm_valid m"
    using device_view_ok(2) [OF wf] gateway_decode_props(2) [OF dec] by blast
  show "hm_gateway_id m \<le> ADDRESS_MASK"
    unfolding id by (rule word_of_le_address_bound) (use len in \<open>simp add: length_bslice\<close>)
qed

lemma host_roundtrip:
  assumes "hm_wf m" and "hm_valid m" and "hm_gateway_id m \<le> ADDRESS_MASK"
  shows "\<exists>bytes. host_encode m = Some bytes \<and> length bytes = 32 + 64 * length (hm_reports m) \<and>
    host_decode bytes = Inr m"
proof -
  have n: "length (hm_reports m) \<le> 8" using assms(2) by (simp add: hm_valid_def)
  note view = device_view_ok [OF assms(1) n]
  have gv: "gm_valid (device_view m)" using view(2) assms(2) by simp
  obtain bytes where b: "sv_gateway_encode (device_view m) = Some bytes"
    using sv_gateway_encode_body [OF view(1) gv] by blast
  have dec: "sv_gateway_decode bytes (length bytes) = Some (device_view m)"
    using gateway_roundtrip(2) [OF view(1) gv b] view(5) by simp
  then obtain m' where m': "host_decode bytes = Inr m'" "device_view m = device_view m'"
    using decoders_agree [of bytes] by (auto split: sum.splits)
  note wf = host_decode_wf [OF m'(1)]
  have "m = m'"
    using device_view_inj [OF m'(2) assms(1) wf(1) n _ assms(3) wf(3)] wf(2) by (simp add: hm_valid_def)
  moreover have "unat (gm_report_count (device_view m)) = length (hm_reports m)"
    using of_nat_small(1) [OF n] by (simp add: device_view_def)
  ultimately show ?thesis
    using b encoders_agree [OF assms(1)] n m'(1) gateway_roundtrip(1) [OF view(1) gv b] by simp
qed

text \<open>The Rust program's codec is a framed format of the same kind.\<close>

interpretation host_datagram: frame_codec host_encode "\<lambda>input. case host_decode input of Inl e \<Rightarrow> None | Inr m \<Rightarrow> Some m"
  "\<lambda>m. hm_wf m \<and> hm_valid m \<and> hm_gateway_id m \<le> ADDRESS_MASK" "\<lambda>m. m"
proof
  fix m
  assume "hm_wf m \<and> hm_valid m \<and> hm_gateway_id m \<le> ADDRESS_MASK"
  then show "\<exists>bytes. host_encode m = Some bytes \<and>
      (case host_decode bytes of Inl e \<Rightarrow> None | Inr m \<Rightarrow> Some m) = Some m"
    using host_roundtrip [of m] by auto
next
  fix input m
  assume "(case host_decode input of Inl e \<Rightarrow> None | Inr m \<Rightarrow> Some m) = Some m"
  then have m: "host_decode input = Inr m" by (auto split: sum.splits)
  then show "(hm_wf m \<and> hm_valid m \<and> hm_gateway_id m \<le> ADDRESS_MASK) \<and> m = m"
    using host_decode_wf by blast
  show "crc32_feed (- 1) input = crc32_residue"
    using gateway_decode_props(4) [OF host_decode_wf(4) [OF m]] .
qed

section \<open>The gate (GatewayDatagramGate)\<close>

record gateway_entry =
  ge_boot_id :: u32
  ge_sequence :: u32
  ge_retired :: "u32 set"

type_synonym datagram_gate = "u64 \<rightharpoonup> gateway_entry"

definition gate_accept :: "datagram_gate \<Rightarrow> gateway_message \<Rightarrow> bool \<times> datagram_gate" where
  "gate_accept gate m =
    (if hm_kind m \<noteq> ReportBatch then (True, gate)
     else case gate (hm_gateway_id m) of
       None \<Rightarrow> (True, gate(hm_gateway_id m \<mapsto>
         \<lparr> ge_boot_id = hm_boot_id m, ge_sequence = hm_sequence m, ge_retired = {} \<rparr>))
     | Some previous \<Rightarrow>
         if ge_boot_id previous \<noteq> hm_boot_id m then
           (if hm_boot_id m \<in> ge_retired previous then (False, gate)
            else (True, gate(hm_gateway_id m \<mapsto>
              \<lparr> ge_boot_id = hm_boot_id m, ge_sequence = hm_sequence m,
                ge_retired = insert (ge_boot_id previous) (ge_retired previous) \<rparr>)))
         else
          (let delta = hm_sequence m - ge_sequence previous in
           if delta = 0 \<or> 0x80000000 \<le> delta then (False, gate)
           else (True, gate(hm_gateway_id m \<mapsto> previous\<lparr> ge_sequence := hm_sequence m \<rparr>))))"

text \<open>A batch of gateway \<open>g\<close>; the gate after batch \<open>n\<close> of boot \<open>b\<close>; what keeps it comparable.\<close>

definition batch_of :: "u64 \<Rightarrow> gateway_message \<Rightarrow> bool" where
  "batch_of g m \<longleftrightarrow> hm_kind m = ReportBatch \<and> hm_gateway_id m = g"

definition gate_at :: "u64 \<Rightarrow> u32 \<Rightarrow> datagram_gate \<Rightarrow> nat \<Rightarrow> bool" where
  "gate_at g b gate n \<longleftrightarrow> (\<exists>e. gate g = Some e \<and> ge_boot_id e = b \<and> ge_sequence e = of_nat n)"

definition numbered_batch :: "u32 \<Rightarrow> (gateway_message \<Rightarrow> nat) \<Rightarrow> nat \<Rightarrow> gateway_message \<Rightarrow> bool" where
  "numbered_batch b number n m \<longleftrightarrow> hm_boot_id m = b \<and> hm_sequence m = of_nat (number m) \<and>
     number m < n + 2 ^ 31 \<and> n \<le> number m + 2 ^ 31"

interpretation batch_gate: serial_gate gate_accept "batch_of g" number "gate_at g b"
    "\<lambda>gate. numbered_batch b number" for g b number
proof
  fix gate n m
  assume a: "gate_at g b gate n" "batch_of g m" "numbered_batch b number n m"
  obtain e where e: "gate g = Some e" "ge_boot_id e = b" "ge_sequence e = of_nat n"
    using a(1) by (auto simp: gate_at_def)
  let ?d = "hm_sequence m - ge_sequence e"
  have d: "?d = of_nat (number m) - of_nat n" using a(3) e by (simp add: numbered_batch_def)
  have close: "number m < n + 2 ^ (LENGTH(32) - 1)" "n \<le> number m + 2 ^ (LENGTH(32) - 1)"
    using a(3) by (simp_all add: numbered_batch_def)
  have iff: "\<not> (?d = 0 \<or> 0x80000000 \<le> ?d) \<longleftrightarrow> n < number m"
    using serial_diff(1) [OF close] by (simp add: d word_le_nat_alt unat_gt_0 not_le)
  have acc: "gate_accept gate m = (if n < number m
      then (True, gate(g \<mapsto> e\<lparr> ge_sequence := hm_sequence m \<rparr>)) else (False, gate))"
    using a(2,3) e iff by (auto simp: gate_accept_def batch_of_def numbered_batch_def Let_def)
  then show "fst (gate_accept gate m) \<longleftrightarrow> n < number m" by simp
  show "gate_at g b (snd (gate_accept gate m)) (max n (number m))"
    using acc a(1,3) e by (auto simp: gate_at_def numbered_batch_def max_def)
next
  fix gate n m
  assume "gate_at g b gate n" "\<not> batch_of g m"
  then show "gate_at g b (snd (gate_accept gate m)) n"
    by (auto simp: gate_accept_def batch_of_def gate_at_def Let_def split: option.splits)
qed

lemma batches_all_live:
  assumes "\<forall>m \<in> set ms. batch_of g m \<longrightarrow> hm_boot_id m = b \<and> hm_sequence m = of_nat (number m)"
    and "\<forall>m \<in> set ms. batch_of g m \<longrightarrow> number m < n + 2 ^ 31 \<and> n \<le> number m + 2 ^ 31"
    and "\<forall>m \<in> set ms. \<forall>m' \<in> set ms. batch_of g m \<and> batch_of g m' \<longrightarrow> number m < number m' + 2 ^ 31"
  shows "batch_gate.all_live g number b gate n ms"
  using assms
proof (induction ms arbitrary: gate n)
  case (Cons m ms)
  let ?n = "if batch_of g m then max n (number m) else n"
  have near: "number m' < ?n + 2 ^ 31 \<and> ?n \<le> number m' + 2 ^ 31" if "m' \<in> set ms" "batch_of g m'" for m'
    using Cons.prems(2,3) that by (fastforce simp: max_def)
  have "batch_gate.all_live g number b (snd (gate_accept gate m)) ?n ms"
    by (rule Cons.IH) (use Cons.prems near in auto)
  moreover have "batch_of g m \<longrightarrow> numbered_batch b number n m"
    using Cons.prems(1,2) by (simp add: numbered_batch_def)
  ultimately show ?case by simp
qed simp

text \<open>The first batch of a boot id that the gate has not retired is accepted.\<close>

definition unretired_boot :: "u64 \<Rightarrow> u32 \<Rightarrow> datagram_gate \<Rightarrow> bool" where
  "unretired_boot g b gate \<longleftrightarrow> (case gate g of None \<Rightarrow> True
     | Some e \<Rightarrow> ge_boot_id e \<noteq> b \<and> b \<notin> ge_retired e)"

interpretation first_batch: starting_gate gate_accept "batch_of g" number "gate_at g b"
    "\<lambda>gate. numbered_batch b number" "unretired_boot g b" "\<lambda>m. hm_boot_id m = b \<and> hm_sequence m = of_nat (number m)"
    for g b number
  by unfold_locales (auto simp: unretired_boot_def batch_of_def gate_accept_def gate_at_def Let_def split: option.splits)

lemma batches_start_live:
  assumes "\<forall>m \<in> set ms. batch_of g m \<longrightarrow> hm_boot_id m = b \<and> hm_sequence m = of_nat (number m)"
    and "\<forall>m \<in> set ms. \<forall>m' \<in> set ms. batch_of g m \<and> batch_of g m' \<longrightarrow> number m < number m' + 2 ^ 31"
  shows "first_batch.start_live g number b gate ms"
  using assms
proof (induction ms arbitrary: gate)
  case (Cons m ms)
  have "batch_gate.all_live g number b (snd (gate_accept gate m)) (number m) ms" if "batch_of g m"
    using Cons.prems that by (intro batches_all_live) (auto intro: less_imp_le)
  then show ?case using Cons by simp
qed simp

text \<open>Boot ids that were left never come back.\<close>

definition gate_after :: "datagram_gate \<Rightarrow> gateway_message list \<Rightarrow> datagram_gate" where
  "gate_after = foldl (\<lambda>gate m. snd (gate_accept gate m))"

definition left_boot :: "u64 \<Rightarrow> u32 \<Rightarrow> datagram_gate \<Rightarrow> bool" where
  "left_boot g b gate \<longleftrightarrow> (\<exists>e. gate g = Some e \<and> ge_boot_id e \<noteq> b \<and> b \<in> ge_retired e)"

definition met_boot :: "u64 \<Rightarrow> u32 \<Rightarrow> datagram_gate \<Rightarrow> bool" where
  "met_boot g b gate \<longleftrightarrow> (\<exists>e. gate g = Some e \<and> (ge_boot_id e = b \<or> b \<in> ge_retired e))"

lemma boot_steps:
  "batch_of g m \<Longrightarrow> fst (gate_accept gate m) \<Longrightarrow> hm_boot_id m = b \<Longrightarrow> met_boot g b (snd (gate_accept gate m))"
  "met_boot g b gate \<Longrightarrow> met_boot g b (snd (gate_accept gate m))"
  "left_boot g b gate \<Longrightarrow> left_boot g b (snd (gate_accept gate m))"
  "met_boot g b gate \<Longrightarrow> batch_of g m \<Longrightarrow> fst (gate_accept gate m) \<Longrightarrow> hm_boot_id m \<noteq> b \<Longrightarrow>
    left_boot g b (snd (gate_accept gate m))"
  "left_boot g b gate \<Longrightarrow> batch_of g m \<Longrightarrow> hm_boot_id m = b \<Longrightarrow> \<not> fst (gate_accept gate m)"
  by (auto simp: met_boot_def left_boot_def batch_of_def gate_accept_def Let_def split: option.splits if_splits)

lemma boot_runs:
  "met_boot g b gate \<Longrightarrow> met_boot g b (gate_after gate ms)"
  "left_boot g b gate \<Longrightarrow> left_boot g b (gate_after gate ms)"
  by (induction ms arbitrary: gate) (simp_all add: gate_after_def boot_steps)

section \<open>Properties\<close>

text \<open>
  C7: The two implementations of the gateway protocol are the same. On every input the decoder of
  the host accepts exactly the datagrams that the decoder of the firmware accepts, and makes the same
  message of them; and every message of whole reports is encoded to the same bytes, or refused, by
  both.
\<close>

theorem gateway_codecs_agree:
  assumes "hm_wf m"
  shows "sv_gateway_decode input (length input) =
      (case host_decode input of Inl e \<Rightarrow> None | Inr h \<Rightarrow> Some (device_view h)) \<and>
    host_encode m = (if length (hm_reports m) \<le> MAX_REPORTS then sv_gateway_encode (device_view m) else None)"
  using decoders_agree encoders_agree [OF assms] by blast

text \<open>The golden HELLO, in the host's terms.\<close>

definition host_hello :: gateway_message where
  "host_hello = \<lparr> hm_kind = Hello, hm_flags = 0, hm_gateway_id = 0x665544332211,
     hm_boot_id = 0x78563412, hm_sequence = 0xffffffff, hm_reports = [] \<rparr>"

lemma host_hello_view: "hm_wf host_hello" "device_view host_hello = golden_hello" "hm_reports host_hello = []"
  by (simp_all add: hm_wf_def host_hello_def device_view_def golden_hello_def pad_def byte_eval)

theorem gateway_codecs_agree_witness:
  "host_encode host_hello = Some golden_hello_bytes \<and>
   (\<exists>h. host_decode golden_hello_bytes = Inr h \<and> device_view h = gm_normal golden_hello)"
  using gateway_codecs_agree [OF host_hello_view(1), of golden_hello_bytes] golden_hello_encode golden_hello_decode
  by (auto simp: host_hello_view(2,3) split: sum.splits)

text \<open>
  What the host encodes it decodes: a message of at most eight whole reports, only batches having
  any, with a 48-bit gateway id.
\<close>

theorem host_message_roundtrip:
  assumes "hm_wf m" and "hm_valid m" and "hm_gateway_id m \<le> ADDRESS_MASK"
  shows "\<exists>bytes. host_encode m = Some bytes \<and> length bytes = 32 + 64 * length (hm_reports m) \<and>
    host_decode bytes = Inr m"
  using assms by (rule host_roundtrip)

theorem host_message_roundtrip_witness: "\<exists>bytes. host_encode host_hello = Some bytes \<and> host_decode bytes = Inr host_hello"
  using host_message_roundtrip [OF host_hello_view(1)] by (auto simp: hm_valid_def host_hello_def)

text \<open>
  C6: Every report batch of a gateway gets through the host's gate at most once and in order. Let
  batches of boot \<open>b\<close> arrive lost, repeated and reordered in any way, mixed with any traffic of other
  gateways, with sequence numbers that wrap round but are never half the range apart. If the gate has
  not left boot \<open>b\<close> before, it lets the first one through, and then exactly the ones with a number
  higher than all before; so the numbers let through only increase.
\<close>

theorem batches_accepted_once:
  assumes "unretired_boot g b gate"
    and "\<forall>m \<in> set ms. batch_of g m \<longrightarrow> hm_boot_id m = b \<and> hm_sequence m = of_nat (number m)"
    and "\<forall>m \<in> set ms. \<forall>m' \<in> set ms. batch_of g m \<and> batch_of g m' \<longrightarrow> number m < number m' + 2 ^ 31"
  shows "map number (filter (batch_of g) (passed gate_accept gate ms)) =
      new_numbers (map number (filter (batch_of g) ms)) \<and>
    sorted_wrt (<) (map number (filter (batch_of g) (passed gate_accept gate ms)))"
  using first_batch.passed_new [OF assms(1) batches_start_live [OF assms(2,3)]] new_numbers_sorted by simp

definition demo_batch :: "u32 \<Rightarrow> u32 \<Rightarrow> gateway_message" where
  "demo_batch b n = \<lparr> hm_kind = ReportBatch, hm_flags = 0, hm_gateway_id = 7, hm_boot_id = b,
     hm_sequence = n, hm_reports = [zeros 64] \<rparr>"

theorem batches_accepted_once_witness:
  "map (\<lambda>m. unat (hm_sequence m)) (filter (batch_of 7) (passed gate_accept Map.empty
     [demo_batch 1 10, demo_batch 1 10, demo_batch 1 9, demo_batch 1 11])) = [10, 11]"
  using batches_accepted_once [of 7 1 Map.empty
      "[demo_batch 1 10, demo_batch 1 10, demo_batch 1 9, demo_batch 1 11]" "\<lambda>m. unat (hm_sequence m)"]
  by (simp add: unretired_boot_def demo_batch_def batch_of_def)

text \<open>
  C31: A gateway that has restarted is not impersonated by its past: once the host has accepted a
  batch of one boot of a gateway and later one of another boot, no batch of the first boot is ever
  accepted again, whatever else arrives.
\<close>

theorem old_boot_never_returns:
  assumes "batch_of g m1" and "fst (gate_accept gate m1)"
    and "batch_of g m2" and "fst (gate_accept (gate_after gate (m1 # ms)) m2)" and "hm_boot_id m2 \<noteq> hm_boot_id m1"
    and "batch_of g m3" and "hm_boot_id m3 = hm_boot_id m1"
  shows "\<not> fst (gate_accept (gate_after gate (m1 # ms @ m2 # ms')) m3)"
proof -
  let ?b = "hm_boot_id m1" and ?gate = "gate_after gate (m1 # ms)"
  have "met_boot g ?b ?gate"
    using boot_runs(1) [OF boot_steps(1) [OF assms(1,2) refl], of ms] by (simp add: gate_after_def)
  then have "left_boot g ?b (gate_after (snd (gate_accept ?gate m2)) ms')"
    using boot_steps(4) [OF _ assms(3,4,5)] boot_runs(2) by blast
  then show ?thesis using boot_steps(5) [OF _ assms(6,7)] by (simp add: gate_after_def)
qed

theorem old_boot_never_returns_witness:
  "\<not> fst (gate_accept (gate_after Map.empty [demo_batch 1 10, demo_batch 2 5]) (demo_batch 1 11))"
  using old_boot_never_returns [of 7 "demo_batch 1 10" Map.empty "demo_batch 2 5" "[]" "demo_batch 1 11" "[]"]
  by (simp add: batch_of_def demo_batch_def gate_accept_def gate_after_def)

end
