(* ===== verification/Host_Hub.thy ===== *)
theory Host_Hub
  imports Host_Report Serial_Gate
begin

text \<open>
  Where the reports of all receivers meet on the host: \<open>bridge/src/dedup.rs\<close>, which lets the first
  copy of a tracker's packet through, and \<open>bridge/src/hub.rs\<close>, which knows the addresses behind the
  local ids of every receiver and counts what happens to the packets. A \<open>HashMap\<close> is a map, times are
  milliseconds in a \<open>u64\<close>. The counters are \<open>u64\<close> too and wrap, as in a release build.
\<close>

section \<open>The sequence gate (dedup.rs)\<close>

datatype sequence_decision = Accepted | Duplicate | Stale

record sequence_result =
  re_decision :: sequence_decision
  re_missing_packets :: byte

record sequence_state =
  sq_sequence :: byte
  sq_received_at_ms :: u64

record sequence_gate =
  sg_reset_after_ms :: u64
  sg_states :: "u64 \<rightharpoonup> sequence_state"

definition sequence_gate_new :: "u64 \<Rightarrow> sequence_gate" where
  "sequence_gate_new reset_after_ms = \<lparr> sg_reset_after_ms = reset_after_ms, sg_states = Map.empty \<rparr>"

definition saturating_sub :: "u64 \<Rightarrow> u64 \<Rightarrow> u64" where
  "saturating_sub a b = (if b \<le> a then a - b else 0)"

definition evaluate :: "sequence_gate \<Rightarrow> u64 \<Rightarrow> byte \<Rightarrow> u64 \<Rightarrow> sequence_result \<times> sequence_gate" where
  "evaluate gate address sequence now =
    (let put = (\<lambda>q. gate\<lparr> sg_states := (sg_states gate)(address \<mapsto>
           \<lparr> sq_sequence = q, sq_received_at_ms = now \<rparr>) \<rparr>) in
     case sg_states gate address of
       None \<Rightarrow> (\<lparr> re_decision = Accepted, re_missing_packets = 0 \<rparr>, put sequence)
     | Some previous \<Rightarrow>
         if sg_reset_after_ms gate \<le> saturating_sub now (sq_received_at_ms previous)
         then (\<lparr> re_decision = Accepted, re_missing_packets = 0 \<rparr>, put sequence)
         else
          (let delta = sequence - sq_sequence previous in
           if delta = 0 then (\<lparr> re_decision = Duplicate, re_missing_packets = 0 \<rparr>, put (sq_sequence previous))
           else if delta \<le> 127 then
             (\<lparr> re_decision = Accepted, re_missing_packets = delta - 1 \<rparr>, put sequence)
           else (\<lparr> re_decision = Stale, re_missing_packets = 0 \<rparr>, put (sq_sequence previous))))"

definition gate_clear :: "sequence_gate \<Rightarrow> u64 \<Rightarrow> sequence_gate" where
  "gate_clear gate address = gate\<lparr> sg_states := (sg_states gate)(address := None) \<rparr>"

section \<open>The hub (hub.rs)\<close>

record source_metrics =
  mt_received :: u64
  mt_accepted :: u64
  mt_duplicates :: u64
  mt_stale :: u64
  mt_crc_errors :: u64
  mt_sequence_missing :: u64

definition metrics_default :: source_metrics where
  "metrics_default = \<lparr> mt_received = 0, mt_accepted = 0, mt_duplicates = 0, mt_stale = 0,
     mt_crc_errors = 0, mt_sequence_missing = 0 \<rparr>"

record accepted_record =
  ar_tracker_address :: u64
  ar_record :: report_record

record receiver_hub =
  hb_sources :: "string \<rightharpoonup> (byte \<rightharpoonup> u64)"
  hb_metrics :: "string \<rightharpoonup> source_metrics"
  hb_sequence_gate :: sequence_gate

definition hub_default :: receiver_hub where
  "hub_default = \<lparr> hb_sources = Map.empty, hb_metrics = Map.empty,
     hb_sequence_gate = sequence_gate_new 250 \<rparr>"

text \<open>The match on the gate's decision, and one turn of the loop over the records.\<close>

definition hub_decide ::
    "u64 \<Rightarrow> report_record \<Rightarrow> sequence_result \<Rightarrow> source_metrics \<Rightarrow> accepted_record list \<times> source_metrics" where
  "hub_decide address record result metrics =
    (case re_decision result of
       Accepted \<Rightarrow> ([\<lparr> ar_tracker_address = address, ar_record = record \<rparr>],
         metrics\<lparr> mt_accepted := mt_accepted metrics + 1,
           mt_sequence_missing := mt_sequence_missing metrics + ucast (re_missing_packets result) \<rparr>)
     | Duplicate \<Rightarrow> ([], metrics\<lparr> mt_duplicates := mt_duplicates metrics + 1 \<rparr>)
     | Stale \<Rightarrow> ([], metrics\<lparr> mt_stale := mt_stale metrics + 1 \<rparr>))"

type_synonym hub_turn = "(byte \<rightharpoonup> u64) \<times> source_metrics \<times> sequence_gate"

definition rf_metadata :: "report_record \<Rightarrow> record_metadata option" where
  "rf_metadata record = (case rr_metadata record of
     Some metadata \<Rightarrow> if rf_v2 metadata then Some metadata else None | None \<Rightarrow> None)"

definition hub_record ::
    "u64 \<Rightarrow> report_record \<Rightarrow> hub_turn \<Rightarrow> accepted_record list \<times> hub_turn" where
  "hub_record now record t =
    (let (local_to_address, metrics, gate) = t; data = rr_data record in
     if list_all (\<lambda>byte. byte = 0) data then ([], t)
     else
      (let local_id = data ! 1 in
       case registration_address data of
         Some address \<Rightarrow> ([], local_to_address(local_id \<mapsto> address), metrics, gate)
       | None \<Rightarrow>
          (case local_to_address local_id of
             None \<Rightarrow> ([], t)
           | Some address \<Rightarrow>
              (case rf_metadata record of
                 None \<Rightarrow> ([\<lparr> ar_tracker_address = address, ar_record = record \<rparr>], t)
               | Some metadata \<Rightarrow>
                  (let metrics = metrics\<lparr> mt_received := mt_received metrics + 1 \<rparr> in
                   if \<not> host_crc_valid metadata \<or> \<not> sequence_valid metadata then
                     ([], local_to_address,
                      if \<not> host_crc_valid metadata then metrics\<lparr> mt_crc_errors := mt_crc_errors metrics + 1 \<rparr>
                      else metrics, gate)
                   else
                    (let (result, gate) = evaluate gate address (rm_sequence metadata) now;
                         (out, metrics) = hub_decide address record result metrics
                     in (out, local_to_address, metrics, gate)))))))"

primrec hub_records ::
    "u64 \<Rightarrow> report_record list \<Rightarrow> hub_turn \<Rightarrow> accepted_record list \<times> hub_turn" where
  "hub_records now [] t = ([], t)"
| "hub_records now (r # rs) t =
    (let (out, t) = hub_record now r t; (outs, t) = hub_records now rs t in (out @ outs, t))"

definition ingest ::
    "string \<Rightarrow> byte list \<Rightarrow> u64 \<Rightarrow> receiver_hub \<Rightarrow> (decode_error + accepted_record list) \<times> receiver_hub" where
  "ingest source_id input now hub =
    (case decode_reports input of
       Inl e \<Rightarrow> (Inl e, hub)
     | Inr records \<Rightarrow>
        (let local_to_address = (case hb_sources hub source_id of None \<Rightarrow> Map.empty | Some l \<Rightarrow> l);
             metrics = (case hb_metrics hub source_id of None \<Rightarrow> metrics_default | Some m \<Rightarrow> m);
             (accepted, local_to_address, metrics, gate) =
               hub_records now records (local_to_address, metrics, hb_sequence_gate hub)
         in (Inr accepted, hub\<lparr> hb_sources := (hb_sources hub)(source_id \<mapsto> local_to_address),
               hb_metrics := (hb_metrics hub)(source_id \<mapsto> metrics), hb_sequence_gate := gate \<rparr>)))"

section \<open>The gate against the packets' numbers\<close>

text \<open>A packet that reaches the gate: its tracker, its sequence field, the time and the record.\<close>

record arrival =
  av_address :: u64
  av_sequence :: byte
  av_time :: u64
  av_record :: report_record

definition gate_step :: "sequence_gate \<Rightarrow> arrival \<Rightarrow> bool \<times> sequence_gate" where
  "gate_step gate v = (let (result, gate) = evaluate gate (av_address v) (av_sequence v) (av_time v)
     in (re_decision result = Accepted, gate))"

text \<open>
  After packet \<open>n\<close> of tracker \<open>a\<close>, heard of last at \<open>t\<close>; \<open>a\<close> not heard of for the reset time before
  \<open>t\<close>; a packet within the window and the reset time.
\<close>

definition sequence_at :: "u64 \<Rightarrow> u64 \<Rightarrow> sequence_gate \<Rightarrow> nat \<Rightarrow> bool" where
  "sequence_at r a gate n \<longleftrightarrow> sg_reset_after_ms gate = r \<and>
     (\<exists>e. sg_states gate a = Some e \<and> sq_sequence e = of_nat n)"

definition heard_at :: "u64 \<Rightarrow> sequence_gate \<Rightarrow> u64" where
  "heard_at a gate = (case sg_states gate a of None \<Rightarrow> 0 | Some e \<Rightarrow> sq_received_at_ms e)"

definition in_window :: "u64 \<Rightarrow> (arrival \<Rightarrow> nat) \<Rightarrow> u64 \<Rightarrow> sequence_gate \<Rightarrow> nat \<Rightarrow> arrival \<Rightarrow> bool" where
  "in_window r number a gate n v \<longleftrightarrow> av_sequence v = of_nat (number v) \<and>
     number v < n + 128 \<and> n \<le> number v + 128 \<and> saturating_sub (av_time v) (heard_at a gate) < r"

definition unheard :: "u64 \<Rightarrow> u64 \<Rightarrow> sequence_gate \<Rightarrow> bool" where
  "unheard r a gate \<longleftrightarrow> sg_reset_after_ms gate = r \<and> sg_states gate a = None"

lemma evaluate_other:
  "b \<noteq> a \<Longrightarrow> sg_states (snd (evaluate gate a q now)) b = sg_states gate b"
  "sg_reset_after_ms (snd (evaluate gate a q now)) = sg_reset_after_ms gate"
  by (simp_all add: evaluate_def Let_def split: option.split)

lemma evaluate_heard: "heard_at a (snd (evaluate gate a q now)) = now"
  by (simp add: heard_at_def evaluate_def Let_def split: option.split)

interpretation packet_gate: starting_gate gate_step "\<lambda>v. av_address v = a" number "sequence_at r a"
    "in_window r number a" "unheard r a" "\<lambda>v. av_sequence v = of_nat (number v)"
    for r a number
proof
  fix gate n and v :: arrival
  assume at: "sequence_at r a gate n" and a: "av_address v = a" and w: "in_window r number a gate n v"
  obtain e where e: "sg_states gate a = Some e" "sq_sequence e = of_nat n" "sg_reset_after_ms gate = r"
    using at by (auto simp: sequence_at_def)
  have close: "number v < n + 2 ^ (LENGTH(8) - 1)" "n \<le> number v + 2 ^ (LENGTH(8) - 1)"
    using w by (simp_all add: in_window_def)
  let ?d = "av_sequence v - sq_sequence e"
  have d: "?d = of_nat (number v) - of_nat n" using w e(2) by (simp add: in_window_def)
  have newer: "?d \<noteq> 0 \<and> ?d \<le> 127 \<longleftrightarrow> n < number v"
    using serial_diff(1) [OF close] by (auto simp add: d word_le_nat_alt unat_gt_0)
  have soon: "\<not> r \<le> saturating_sub (av_time v) (sq_received_at_ms e)"
    using w e(1) by (simp add: in_window_def heard_at_def not_le)
  have step: "gate_step gate v = (n < number v, gate\<lparr> sg_states := (sg_states gate)(a \<mapsto>
      \<lparr> sq_sequence = (if n < number v then av_sequence v else sq_sequence e), sq_received_at_ms = av_time v \<rparr>) \<rparr>)"
    using newer soon e a by (auto simp: gate_step_def evaluate_def Let_def)
  then show "fst (gate_step gate v) \<longleftrightarrow> n < number v" by simp
  show "sequence_at r a (snd (gate_step gate v)) (max n (number v))"
    using step e w by (auto simp: sequence_at_def in_window_def max_def)
next
  fix gate n and v :: arrival
  assume "sequence_at r a gate n" "av_address v \<noteq> a"
  then show "sequence_at r a (snd (gate_step gate v)) n"
    using evaluate_other(1) [of a "av_address v" gate] by (simp add: evaluate_other(2) sequence_at_def gate_step_def split_beta)
next
  fix gate and v :: arrival
  assume "unheard r a gate" "av_address v = a" "av_sequence v = of_nat (number v)"
  then show "fst (gate_step gate v) \<and> sequence_at r a (snd (gate_step gate v)) (number v)"
    by (simp add: unheard_def gate_step_def evaluate_def sequence_at_def Let_def)
next
  fix gate and v :: arrival
  assume "unheard r a gate" "av_address v \<noteq> a"
  then show "unheard r a (snd (gate_step gate v))"
    using evaluate_other(1) [of a "av_address v" gate] by (simp add: evaluate_other(2) unheard_def gate_step_def split_beta)
qed

text \<open>The packets of tracker \<open>a\<close> never pause for the reset time and are within half the range.\<close>

definition unbroken :: "u64 \<Rightarrow> u64 list \<Rightarrow> bool" where
  "unbroken r = successively (\<lambda>t t'. saturating_sub t' t < r)"

definition close_packets :: "u64 \<Rightarrow> (arrival \<Rightarrow> nat) \<Rightarrow> arrival list \<Rightarrow> bool" where
  "close_packets a number vs \<longleftrightarrow>
     (\<forall>v \<in> set vs. av_address v = a \<longrightarrow> av_sequence v = of_nat (number v)) \<and>
     (\<forall>v \<in> set vs. \<forall>v' \<in> set vs. av_address v = a \<and> av_address v' = a \<longrightarrow> number v < number v' + 128)"

abbreviation times_of :: "u64 \<Rightarrow> arrival list \<Rightarrow> u64 list" where
  "times_of a vs \<equiv> map av_time (filter (\<lambda>v. av_address v = a) vs)"

lemma heard_other: "av_address v \<noteq> a \<Longrightarrow> heard_at a (snd (gate_step gate v)) = heard_at a gate"
  using evaluate_other(1) [of a "av_address v"] by (simp add: heard_at_def gate_step_def split_beta)

lemma heard_mine: "av_address v = a \<Longrightarrow> heard_at a (snd (gate_step gate v)) = av_time v"
  using evaluate_heard by (auto simp: gate_step_def split_beta)

lemma packets_all_live:
  assumes "close_packets a number vs" and "unbroken r (heard_at a gate # times_of a vs)"
    and "\<forall>v \<in> set vs. av_address v = a \<longrightarrow> number v < n + 128 \<and> n \<le> number v + 128"
  shows "packet_gate.all_live a number r gate n vs"
  using assms
proof (induction vs arbitrary: gate n)
  case (Cons v vs)
  let ?n = "if av_address v = a then max n (number v) else n"
  have near: "number v' < ?n + 128 \<and> ?n \<le> number v' + 128" if "v' \<in> set vs" "av_address v' = a" for v'
    using Cons.prems(1,3) that by (fastforce simp: close_packets_def max_def)
  have time: "unbroken r (heard_at a (snd (gate_step gate v)) # times_of a vs)"
    using Cons.prems(2) by (cases "av_address v = a") (simp_all add: unbroken_def heard_mine heard_other)
  have close: "close_packets a number vs" using Cons.prems(1) by (simp add: close_packets_def)
  have "packet_gate.all_live a number r (snd (gate_step gate v)) ?n vs"
    by (rule Cons.IH [OF close time]) (use near in simp)
  moreover have "av_address v = a \<longrightarrow> in_window r number a gate n v"
    using Cons.prems by (auto simp: in_window_def close_packets_def unbroken_def)
  ultimately show ?case by simp
qed simp

lemma packets_start_live:
  assumes "close_packets a number vs" and "unbroken r (times_of a vs)"
  shows "packet_gate.start_live a number r gate vs"
  using assms
proof (induction vs arbitrary: gate)
  case (Cons v vs)
  have close: "close_packets a number vs" using Cons.prems(1) by (simp add: close_packets_def)
  have "packet_gate.all_live a number r (snd (gate_step gate v)) (number v) vs" if "av_address v = a"
    using Cons.prems that close
    by (intro packets_all_live) (auto simp: heard_mine close_packets_def intro: less_imp_le)
  then show ?case using Cons.IH [OF close] Cons.prems by (auto simp: close_packets_def unbroken_def)
qed simp

section \<open>The hub's use of the gate\<close>

text \<open>What a record teaches the hub, and the packet it is, if it reaches the gate.\<close>

definition learn :: "(byte \<rightharpoonup> u64) \<Rightarrow> report_record \<Rightarrow> (byte \<rightharpoonup> u64)" where
  "learn local r = (if list_all (\<lambda>b. b = 0) (rr_data r) then local
     else case registration_address (rr_data r) of None \<Rightarrow> local | Some a \<Rightarrow> local(rr_data r ! 1 \<mapsto> a))"

definition arrival_of :: "u64 \<Rightarrow> (byte \<rightharpoonup> u64) \<Rightarrow> report_record \<Rightarrow> arrival list" where
  "arrival_of now local r =
    (if list_all (\<lambda>b. b = 0) (rr_data r) \<or> registration_address (rr_data r) \<noteq> None then []
     else case (local (rr_data r ! 1), rf_metadata r) of
       (Some a, Some m) \<Rightarrow> if host_crc_valid m \<and> sequence_valid m
         then [\<lparr> av_address = a, av_sequence = rm_sequence m, av_time = now, av_record = r \<rparr>] else []
     | _ \<Rightarrow> [])"

primrec arrivals :: "u64 \<Rightarrow> (byte \<rightharpoonup> u64) \<Rightarrow> report_record list \<Rightarrow> arrival list" where
  "arrivals now local [] = []"
| "arrivals now local (r # rs) = arrival_of now local r @ arrivals now (learn local r) rs"

definition accepted_of :: "arrival \<Rightarrow> accepted_record" where
  "accepted_of v = \<lparr> ar_tracker_address = av_address v, ar_record = av_record v \<rparr>"

definition is_rf :: "accepted_record \<Rightarrow> bool" where
  "is_rf r \<longleftrightarrow> rf_metadata (ar_record r) \<noteq> None"

definition gate_run :: "sequence_gate \<Rightarrow> arrival list \<Rightarrow> sequence_gate" where
  "gate_run = foldl (\<lambda>gate v. snd (gate_step gate v))"

lemma hub_record_gate:
  assumes "hub_record now r (local, metrics, gate) = (out, local', metrics', gate')"
  shows "local' = learn local r" and "gate' = gate_run gate (arrival_of now local r)"
    and "filter is_rf out = map accepted_of (passed gate_step gate (arrival_of now local r))"
  using assms
  by (auto simp: hub_record_def learn_def arrival_of_def Let_def gate_run_def gate_step_def hub_decide_def
      accepted_of_def is_rf_def split_beta split: if_splits option.splits sequence_decision.splits prod.splits)

lemma hub_records_gate:
  assumes "hub_records now rs (local, metrics, gate) = (out, local', metrics', gate')"
  shows "local' = foldl learn local rs \<and> gate' = gate_run gate (arrivals now local rs) \<and>
    filter is_rf out = map accepted_of (passed gate_step gate (arrivals now local rs))"
  using assms
proof (induction rs arbitrary: local metrics gate out)
  case (Cons r rs)
  obtain o1 l1 m1 g1 where one: "hub_record now r (local, metrics, gate) = (o1, l1, m1, g1)" by (metis prod_cases4)
  obtain o2 where two: "hub_records now rs (l1, m1, g1) = (o2, local', metrics', gate')" "out = o1 @ o2"
    using Cons.prems one by (auto split: prod.splits)
  show ?case
    using Cons.IH [OF two(1)] hub_record_gate [OF one] two(2)
    by (simp add: passed_append gate_run_def)
qed (simp add: gate_run_def)

section \<open>Deliveries from all receivers\<close>

text \<open>Reports with the source and the time of each, as they come in; a bad report gives nothing.\<close>

type_synonym delivery = "string \<times> byte list \<times> u64"

primrec hub_run :: "delivery list \<Rightarrow> receiver_hub \<Rightarrow> accepted_record list \<times> receiver_hub" where
  "hub_run [] hub = ([], hub)"
| "hub_run (d # ds) hub =
    (let (source, input, now) = d; (result, hub) = ingest source input now hub; (outs, hub) = hub_run ds hub
     in ((case result of Inl e \<Rightarrow> [] | Inr out \<Rightarrow> out) @ outs, hub))"

text \<open>The packets that reach the gate in a run.\<close>

definition known_ids :: "(string \<rightharpoonup> (byte \<rightharpoonup> u64)) \<Rightarrow> string \<Rightarrow> (byte \<rightharpoonup> u64)" where
  "known_ids sources source = (case sources source of None \<Rightarrow> Map.empty | Some l \<Rightarrow> l)"

primrec hub_arrivals :: "(string \<rightharpoonup> (byte \<rightharpoonup> u64)) \<Rightarrow> delivery list \<Rightarrow> arrival list" where
  "hub_arrivals sources [] = []"
| "hub_arrivals sources (d # ds) =
    (let (source, input, now) = d in
     case decode_reports input of
       Inl e \<Rightarrow> hub_arrivals sources ds
     | Inr rs \<Rightarrow> arrivals now (known_ids sources source) rs @
         hub_arrivals (sources(source \<mapsto> foldl learn (known_ids sources source) rs)) ds)"

lemma ingest_gate:
  assumes "ingest source input now hub = (result, hub')"
  shows "case decode_reports input of Inl e \<Rightarrow> result = Inl e \<and> hub' = hub
    | Inr rs \<Rightarrow> (\<exists>out. result = Inr out \<and>
        hb_sources hub' = (hb_sources hub)(source \<mapsto> foldl learn (known_ids (hb_sources hub) source) rs) \<and>
        hb_sequence_gate hub' =
          gate_run (hb_sequence_gate hub) (arrivals now (known_ids (hb_sources hub) source) rs) \<and>
        filter is_rf out = map accepted_of (passed gate_step (hb_sequence_gate hub)
          (arrivals now (known_ids (hb_sources hub) source) rs)))"
proof (cases "decode_reports input")
  case (Inr rs)
  let ?local = "known_ids (hb_sources hub) source"
  let ?metrics = "case hb_metrics hub source of None \<Rightarrow> metrics_default | Some m \<Rightarrow> m"
  obtain out l m g where h: "hub_records now rs (?local, ?metrics, hb_sequence_gate hub) = (out, l, m, g)"
    by (metis prod_cases4)
  show ?thesis
    using assms hub_records_gate [OF h] h Inr
    by (auto simp: ingest_def Let_def known_ids_def split: prod.splits)
qed (use assms in \<open>simp add: ingest_def\<close>)

lemma hub_run_gate:
  "filter is_rf (fst (hub_run ds hub)) =
   map accepted_of (passed gate_step (hb_sequence_gate hub) (hub_arrivals (hb_sources hub) ds))"
proof (induction ds arbitrary: hub)
  case (Cons d ds)
  obtain source input now where d: "d = (source, input, now)" by (metis prod_cases3)
  obtain result hub' where i: "ingest source input now hub = (result, hub')" by fastforce
  note one = ingest_gate [OF i]
  show ?case
  proof (cases "decode_reports input")
    case (Inl e)
    then show ?thesis using one Cons.IH [of hub'] by (simp add: d i split_beta)
  next
    case (Inr rs)
    then show ?thesis
      using one Cons.IH [of hub'] by (auto simp: d i split_beta passed_append gate_run_def simp del: fun_upd_apply)
  qed
qed simp

text \<open>A tracker's packets see only its own entry of the gate.\<close>

lemma evaluate_local:
  assumes "sg_states gate a = sg_states gate' a" and "sg_reset_after_ms gate = sg_reset_after_ms gate'"
  shows "fst (evaluate gate a q now) = fst (evaluate gate' a q now)"
    and "sg_states (snd (evaluate gate a q now)) a = sg_states (snd (evaluate gate' a q now)) a"
  using assms by (simp_all add: evaluate_def Let_def split: option.split)

lemma passed_local:
  assumes "sg_states gate a = sg_states gate' a" and "sg_reset_after_ms gate = sg_reset_after_ms gate'"
  shows "filter (\<lambda>v. av_address v = a) (passed gate_step gate vs) =
    passed gate_step gate' (filter (\<lambda>v. av_address v = a) vs)"
  using assms
proof (induction vs arbitrary: gate gate')
  case (Cons v vs)
  show ?case
  proof (cases "av_address v = a")
    case True
    then show ?thesis
      using Cons.IH [of "snd (gate_step gate v)" "snd (gate_step gate' v)"] Cons.prems
        evaluate_local [OF Cons.prems, of "av_sequence v" "av_time v"]
      by (simp add: gate_step_def split_beta evaluate_other(2))
  next
    case False
    then show ?thesis
      using Cons.IH [of "snd (gate_step gate v)" gate'] Cons.prems
        evaluate_other(1) [of a "av_address v" gate]
      by (simp add: gate_step_def split_beta evaluate_other(2))
  qed
qed simp

section \<open>What is missing\<close>

text \<open>The packets that the gate reports missing in a run of tracker \<open>a\<close>.\<close>

primrec missing_in :: "u64 \<Rightarrow> sequence_gate \<Rightarrow> arrival list \<Rightarrow> nat" where
  "missing_in a gate [] = 0"
| "missing_in a gate (v # vs) =
    (if av_address v = a then unat (re_missing_packets (fst (evaluate gate a (av_sequence v) (av_time v)))) else 0) +
    missing_in a (snd (gate_step gate v)) vs"

lemma evaluate_missing:
  assumes "sequence_at r a gate n" and "av_address v = a" and "in_window r number a gate n v"
  shows "unat (re_missing_packets (fst (evaluate gate a (av_sequence v) (av_time v)))) = number v - Suc n"
proof -
  obtain e where e: "sg_states gate a = Some e" "sq_sequence e = of_nat n" "sg_reset_after_ms gate = r"
    using assms(1) by (auto simp: sequence_at_def)
  have close: "number v < n + 2 ^ (LENGTH(8) - 1)" "n \<le> number v + 2 ^ (LENGTH(8) - 1)"
    using assms(3) by (simp_all add: in_window_def)
  let ?d = "of_nat (number v) - of_nat n :: byte"
  have soon: "\<not> r \<le> saturating_sub (av_time v) (sq_received_at_ms e)"
    using assms(3) e(1) by (simp add: in_window_def heard_at_def not_le)
  have newer: "?d \<noteq> 0 \<and> ?d \<le> 127 \<longleftrightarrow> n < number v"
    using serial_diff(1) [OF close] by (auto simp add: word_le_nat_alt unat_gt_0)
  have "re_missing_packets (fst (evaluate gate a (av_sequence v) (av_time v))) = (if n < number v then ?d - 1 else 0)"
    using newer soon e assms(3) by (auto simp: evaluate_def Let_def in_window_def)
  moreover have "unat (?d - 1) = number v - Suc n" if "n < number v"
  proof -
    have u: "unat ?d = number v - n" by (rule serial_diff(2) [OF close that])
    then have "?d \<noteq> 0" using that by auto
    then show ?thesis using u unat_minus_one [of ?d] by simp
  qed
  ultimately show ?thesis by simp
qed

lemma missing_counts:
  assumes "sequence_at r a gate n" and "packet_gate.all_live a number r gate n vs"
  shows "n + missing_in a gate vs + length (filter (\<lambda>v. av_address v = a) (passed gate_step gate vs)) =
    last (n # maxima n (map number (filter (\<lambda>v. av_address v = a) vs)))"
  using assms
proof (induction vs arbitrary: gate n)
  case (Cons v vs)
  obtain ok gate' where st: "gate_step gate v = (ok, gate')" by fastforce
  show ?case
  proof (cases "av_address v = a")
    case True
    have live: "in_window r number a gate n v" using Cons.prems(2) True by simp
    have "ok \<longleftrightarrow> n < number v" "sequence_at r a gate' (max n (number v))"
      using packet_gate.newer [OF Cons.prems(1) True live] packet_gate.moved [OF Cons.prems(1) True live] st
      by simp_all
    moreover have "packet_gate.all_live a number r gate' (max n (number v)) vs"
      using Cons.prems(2) True st by simp
    ultimately show ?thesis
      using Cons.IH [of gate' "max n (number v)"] evaluate_missing [OF Cons.prems(1) True live] st True
      by (auto simp: max_def not_less split: if_splits)
  next
    case False
    then show ?thesis
      using Cons.IH [of gate' n] Cons.prems packet_gate.other [OF Cons.prems(1) False] st by simp
  qed
qed simp

lemma missing_from_start:
  assumes "unheard r a gate" and "packet_gate.start_live a number r gate vs"
    and "filter (\<lambda>v. av_address v = a) vs \<noteq> []"
  defines "ns \<equiv> map number (filter (\<lambda>v. av_address v = a) vs)"
  shows "hd ns + missing_in a gate vs + length (filter (\<lambda>v. av_address v = a) (passed gate_step gate vs)) =
    Suc (Max (set ns))"
  using assms(1-3) unfolding ns_def
proof (induction vs arbitrary: gate)
  case (Cons v vs)
  obtain ok gate' where st: "gate_step gate v = (ok, gate')" by fastforce
  show ?case
  proof (cases "av_address v = a")
    case True
    have "ok" "sequence_at r a gate' (number v)" "packet_gate.all_live a number r gate' (number v) vs"
      using packet_gate.first [OF Cons.prems(1) True] Cons.prems(2) st True by simp_all
    moreover have "re_missing_packets (fst (evaluate gate a (av_sequence v) (av_time v))) = 0"
      using Cons.prems(1) by (simp add: unheard_def evaluate_def)
    ultimately show ?thesis
      using missing_counts [of r a gate' "number v" number vs] True st maxima_last [of "number v"] by simp
  next
    case False
    then show ?thesis
      using Cons.IH [of gate'] Cons.prems packet_gate.idle_other [OF Cons.prems(1) False] st by simp
  qed
qed simp

section \<open>A tracker that starts again\<close>

text \<open>Consecutive sequence numbers from \<open>q\<close> on.\<close>

definition counts_from :: "byte \<Rightarrow> arrival list \<Rightarrow> bool" where
  "counts_from q vs \<longleftrightarrow> (\<forall>i < length vs. av_sequence (vs ! i) = q + of_nat i)"

lemma counts_from_Cons: "counts_from q (v # vs) \<Longrightarrow> av_sequence v = q \<and> counts_from (q + 1) vs"
  by (simp add: counts_from_def All_less_Suc2 add.assoc)

text \<open>A gate that refuses a packet keeps its number.\<close>

lemma refused_keeps:
  assumes "\<not> fst (gate_step gate v)"
  obtains e where "sg_states gate (av_address v) = Some e"
    and "av_sequence v - sq_sequence e \<noteq> 1"
    and "\<exists>t. sg_states (snd (gate_step gate v)) (av_address v) = Some \<lparr> sq_sequence = sq_sequence e, sq_received_at_ms = t \<rparr>"
proof (cases "sg_states gate (av_address v)")
  case (Some e)
  have d: "av_sequence v - sq_sequence e = 0 \<or> \<not> av_sequence v - sq_sequence e \<le> 127"
    using assms Some by (auto simp: gate_step_def evaluate_def Let_def split: if_splits)
  then have "av_sequence v - sq_sequence e \<noteq> 1" by auto
  moreover have "\<exists>t. sg_states (snd (gate_step gate v)) (av_address v) =
      Some \<lparr> sq_sequence = sq_sequence e, sq_received_at_ms = t \<rparr>"
    using assms Some by (auto simp: gate_step_def evaluate_def Let_def split: if_splits)
  ultimately show ?thesis using that Some by blast
qed (use assms in \<open>simp add: gate_step_def evaluate_def Let_def\<close>)

lemma refused_run:
  assumes "passed gate_step gate vs = []" and "\<forall>v \<in> set vs. av_address v = a" and "counts_from q vs"
    and "sg_states gate a = Some e" and "i < length vs"
  shows "q + of_nat i - sq_sequence e \<noteq> 1"
  using assms
proof (induction vs arbitrary: gate q e i)
  case (Cons v vs)
  have no: "\<not> fst (gate_step gate v)" using Cons.prems(1) by (auto simp: split_beta split: if_splits)
  have v: "av_address v = a" "av_sequence v = q" using Cons.prems(2) counts_from_Cons [OF Cons.prems(3)] by simp_all
  from no obtain e0 where "sg_states gate (av_address v) = Some e0" "av_sequence v - sq_sequence e0 \<noteq> 1"
    "\<exists>t. sg_states (snd (gate_step gate v)) (av_address v) = Some \<lparr> sq_sequence = sq_sequence e0, sq_received_at_ms = t \<rparr>"
    by (rule refused_keeps)
  then obtain t where e: "q - sq_sequence e \<noteq> 1"
    "sg_states (snd (gate_step gate v)) a = Some \<lparr> sq_sequence = sq_sequence e, sq_received_at_ms = t \<rparr>"
    using Cons.prems(4) v by auto
  show ?case
  proof (cases i)
    case 0
    then show ?thesis using e(1) by simp
  next
    case (Suc j)
    have "passed gate_step (snd (gate_step gate v)) vs = []"
      using Cons.prems(1) by (auto simp: split_beta)
    moreover have "\<forall>v \<in> set vs. av_address v = a" "counts_from (q + 1) vs" "j < length vs"
      using Cons.prems counts_from_Cons Suc by auto
    ultimately have "(q + 1) + of_nat j - sq_sequence e \<noteq> 1"
      using Cons.IH [OF _ _ _ e(2)] by simp
    then show ?thesis using Suc by (simp add: add.assoc)
  qed
qed simp

lemma recovery:
  assumes "\<forall>v \<in> set vs. av_address v = a" and "counts_from q vs" and "130 \<le> length vs"
  shows "passed gate_step gate vs \<noteq> []"
proof
  assume none: "passed gate_step gate vs = []"
  obtain v vs' where vs: "vs = v # vs'" using assms(3) by (cases vs) auto
  have no: "\<not> fst (gate_step gate v)" using none vs by (auto simp: split_beta split: if_splits)
  have v: "av_address v = a" "av_sequence v = q" using assms(1,2) vs counts_from_Cons by auto
  from no obtain e where e: "sg_states gate a = Some e" by (rule refused_keeps) (use v in simp)
  have d: "q - sq_sequence e = 0 \<or> \<not> q - sq_sequence e \<le> 127"
    using no e v by (auto simp: gate_step_def evaluate_def Let_def split: if_splits)
  let ?i = "unat (1 - (q - sq_sequence e))"
  have "?i < 130"
  proof (cases "q - sq_sequence e = 0")
    case False
    then have "127 < unat (q - sq_sequence e)" using d by (simp add: word_le_nat_alt)
    moreover have "unat (q - sq_sequence e) < 256"
      using unsigned_less [of "q - sq_sequence e", where 'a = nat] by simp
    moreover have "1 - (q - sq_sequence e) = of_nat (257 - unat (q - sq_sequence e))"
      using calculation by (simp add: of_nat_diff)
    moreover have "unat (of_nat k :: byte) = k" if "k < 256" for k
      using that by (simp add: unat_of_nat take_bit_nat_eq_self_iff)
    ultimately show ?thesis by (simp only:)
  qed simp
  then have "?i < length vs" using assms(3) by linarith
  from refused_run [OF none assms(1,2) e this] show False by simp
qed

section \<open>The counters\<close>

definition settled :: "source_metrics \<Rightarrow> bool" where
  "settled m \<longleftrightarrow> mt_received m = mt_accepted m + mt_duplicates m + mt_stale m + mt_crc_errors m"

definition hub_settled :: "receiver_hub \<Rightarrow> bool" where
  "hub_settled hub \<longleftrightarrow> (\<forall>m \<in> ran (hb_metrics hub). settled m)"

text \<open>A receiver's record whose CRC is valid has a valid sequence number.\<close>

definition honest :: "report_record \<Rightarrow> bool" where
  "honest r \<longleftrightarrow> (case rf_metadata r of None \<Rightarrow> True | Some m \<Rightarrow> host_crc_valid m \<longrightarrow> sequence_valid m)"

lemma hub_record_counts:
  assumes "hub_record now r (local, metrics, gate) = (out, local', metrics', gate')"
  shows "honest r \<Longrightarrow> settled metrics \<Longrightarrow> settled metrics'"
    and "mt_accepted metrics' = mt_accepted metrics + of_nat (length (filter is_rf out))"
  using assms
  by (auto simp: hub_record_def Let_def hub_decide_def settled_def honest_def is_rf_def split_beta
      split: if_splits option.splits sequence_decision.splits)

lemma hub_records_counts:
  assumes "hub_records now rs (local, metrics, gate) = (out, local', metrics', gate')"
  shows "(list_all honest rs \<longrightarrow> settled metrics \<longrightarrow> settled metrics') \<and>
    mt_accepted metrics' = mt_accepted metrics + of_nat (length (filter is_rf out))"
  using assms
proof (induction rs arbitrary: local metrics gate out)
  case (Cons r rs)
  obtain o1 l1 m1 g1 where one: "hub_record now r (local, metrics, gate) = (o1, l1, m1, g1)" by (metis prod_cases4)
  obtain o2 where two: "hub_records now rs (l1, m1, g1) = (o2, local', metrics', gate')" "out = o1 @ o2"
    using Cons.prems one by (auto split: prod.splits)
  show ?case
    using Cons.IH [OF two(1)] hub_record_counts [OF one] two(2) by auto
qed simp

definition metrics_of :: "string \<Rightarrow> receiver_hub \<Rightarrow> source_metrics" where
  "metrics_of source hub = (case hb_metrics hub source of None \<Rightarrow> metrics_default | Some m \<Rightarrow> m)"

lemma ingest_counts:
  assumes "ingest source input now hub = (Inr out, hub')"
  shows "\<exists>rs. decode_reports input = Inr rs \<and> (list_all honest rs \<longrightarrow> hub_settled hub \<longrightarrow> hub_settled hub') \<and>
    mt_accepted (metrics_of source hub') = mt_accepted (metrics_of source hub) + of_nat (length (filter is_rf out)) \<and>
    (\<forall>other. other \<noteq> source \<longrightarrow> hb_metrics hub' other = hb_metrics hub other)"
proof -
  let ?local = "case hb_sources hub source of None \<Rightarrow> Map.empty | Some l \<Rightarrow> l"
  obtain rs where rs: "decode_reports input = Inr rs"
    using assms by (auto simp: ingest_def split: sum.splits)
  obtain o1 l m g where h: "hub_records now rs (?local, metrics_of source hub, hb_sequence_gate hub) = (o1, l, m, g)"
    by (metis prod_cases4)
  have res: "out = o1" "hb_metrics hub' = (hb_metrics hub)(source \<mapsto> m)"
    using assms rs h by (auto simp: ingest_def Let_def metrics_of_def split: prod.splits)
  have "settled (metrics_of source hub)" if "hub_settled hub"
    using that by (auto simp: hub_settled_def metrics_of_def settled_def metrics_default_def ran_def split: option.splits)
  then have "list_all honest rs \<longrightarrow> hub_settled hub \<longrightarrow> hub_settled hub'"
    using hub_records_counts [OF h] by (auto simp: hub_settled_def res(2) ran_def)
  then show ?thesis
    using rs hub_records_counts [OF h] by (auto simp: res metrics_of_def)
qed

section \<open>Two receivers that hear one tracker\<close>

text \<open>
  Two receivers hear a tracker: its packets 255 and 256, copied and out of order, with 258 after
  them. The sequence field wraps, packet 257 is reported missing.
\<close>

definition tracker_report :: "nat \<Rightarrow> byte list" where
  "tracker_report n = report_bytes [\<lparr> sr_data = (zeros 16)[0 := 2, 1 := 5],
     sr_metadata = \<lparr> sm_sequence = of_nat n, sm_rssi = 40, sm_flags = 7 \<rparr> \<rparr>] []"

definition demo_sources :: "string \<rightharpoonup> (byte \<rightharpoonup> u64)" where
  "demo_sources = [''hid'' \<mapsto> [5 \<mapsto> 0x1234], ''wifi'' \<mapsto> [5 \<mapsto> 0x1234]]"

definition demo_hub :: receiver_hub where
  "demo_hub = hub_default\<lparr> hb_sources := demo_sources \<rparr>"

lemma tracker_report_read: "decode_reports (tracker_report n) =
  Inr [\<lparr> rr_data = (zeros 16)[0 := 2, 1 := 5],
     rr_metadata = Some \<lparr> rm_sequence = of_nat n, rm_rssi = 40, rm_flags = 7 \<rparr> \<rparr>,
   meta_record (zeros 16) (zeros 3), meta_record (zeros 16) (zeros 3)]"
  unfolding tracker_report_def
  by (subst report_bytes_read)
    (simp_all add: record_ok_def host_records_def host_record_def meta_record_def triple_meta_def record_triple_def numeral_2_eq_2)

lemma demo_arrival:
  "local 5 = Some 0x1234 \<Longrightarrow> decode_reports (tracker_report n) = Inr rs \<Longrightarrow>
   arrivals t local rs = [\<lparr> av_address = 0x1234, av_sequence = of_nat n, av_time = t,
     av_record = \<lparr> rr_data = (zeros 16)[0 := 2, 1 := 5],
       rr_metadata = Some \<lparr> rm_sequence = of_nat n, rm_rssi = 40, rm_flags = 7 \<rparr> \<rparr> \<rparr>] \<and>
   foldl learn local rs = local"
  by (auto simp: tracker_report_read arrival_of_def learn_def rf_metadata_def rf_v2_def host_crc_valid_def sequence_valid_def
      registration_address_eq meta_record_def zeros_numeral)

definition demo_record :: "nat \<Rightarrow> report_record" where
  "demo_record n = \<lparr> rr_data = (zeros 16)[0 := 2, 1 := 5],
     rr_metadata = Some \<lparr> rm_sequence = of_nat n, rm_rssi = 40, rm_flags = 7 \<rparr> \<rparr>"

definition demo_deliveries :: "delivery list" where
  "demo_deliveries = [(''hid'', tracker_report 255, 1000), (''wifi'', tracker_report 256, 1001),
     (''hid'', tracker_report 256, 1002), (''wifi'', tracker_report 255, 1003), (''hid'', tracker_report 258, 1004)]"

definition demo_number :: "arrival \<Rightarrow> nat" where
  "demo_number v = (if av_sequence v < 128 then 256 else 0) + unat (av_sequence v)"

lemma demo_arrivals:
  "hub_arrivals demo_sources demo_deliveries = map (\<lambda>(n, t). \<lparr> av_address = 0x1234, av_sequence = of_nat n,
     av_time = t, av_record = demo_record n \<rparr>) [(255, 1000), (256, 1001), (256, 1002), (255, 1003), (258, 1004)]"
proof -
  let ?l = "[5 \<mapsto> 0x1234] :: byte \<rightharpoonup> u64"
  have l: "?l 5 = Some 0x1234" by simp
  have known: "known_ids demo_sources ''hid'' = ?l" "known_ids demo_sources ''wifi'' = ?l"
    by (simp_all add: known_ids_def demo_sources_def)
  have keep: "demo_sources(''hid'' \<mapsto> ?l) = demo_sources" "demo_sources(''wifi'' \<mapsto> ?l) = demo_sources"
    by (auto simp: demo_sources_def)
  have step: "hub_arrivals demo_sources ((source, tracker_report n, t) # ds) =
      \<lparr> av_address = 0x1234, av_sequence = of_nat n, av_time = t, av_record = demo_record n \<rparr> # hub_arrivals demo_sources ds"
    if "source = ''hid'' \<or> source = ''wifi''" for source n t ds
  proof -
    obtain rs where rs: "decode_reports (tracker_report n) = Inr rs" using tracker_report_read by blast
    show ?thesis
      using that demo_arrival [of ?l n rs t, OF l rs] known keep
      by (auto simp: rs demo_record_def simp del: fun_upd_apply)
  qed
  show ?thesis by (simp add: demo_deliveries_def step del: hub_arrivals.simps(2))
qed

section \<open>Properties\<close>

lemma first_copies:
  fixes hub :: receiver_hub and ds :: "delivery list" and a :: u64
  defines "vs \<equiv> hub_arrivals (hb_sources hub) ds"
  assumes "unheard r a (hb_sequence_gate hub)" and "close_packets a number vs" and "unbroken r (times_of a vs)"
  shows "\<exists>ps. filter (\<lambda>x. is_rf x \<and> ar_tracker_address x = a) (fst (hub_run ds hub)) = map accepted_of ps \<and>
    map number ps = new_numbers (map number (filter (\<lambda>v. av_address v = a) vs)) \<and>
    sorted_wrt (<) (map number ps) \<and>
    (ps \<noteq> [] \<longrightarrow> missing_in a (hb_sequence_gate hub) vs + length ps =
      Suc (number (last ps)) - number (hd ps))"
proof -
  let ?ps = "filter (\<lambda>v. av_address v = a) (passed gate_step (hb_sequence_gate hub) vs)"
    and ?ns = "map number (filter (\<lambda>v. av_address v = a) vs)"
  note live = packets_start_live [OF assms(3,4)]
  have "filter (\<lambda>x. is_rf x \<and> ar_tracker_address x = a) (fst (hub_run ds hub)) =
      filter (\<lambda>x. ar_tracker_address x = a) (filter is_rf (fst (hub_run ds hub)))"
    by (simp add: conj_commute)
  then have out: "filter (\<lambda>x. is_rf x \<and> ar_tracker_address x = a) (fst (hub_run ds hub)) = map accepted_of ?ps"
    unfolding hub_run_gate vs_def by (simp add: filter_map comp_def accepted_of_def)
  have ps: "map number ?ps = new_numbers ?ns" by (rule packet_gate.passed_new [OF assms(2) live])
  have span: "missing_in a (hb_sequence_gate hub) vs + length ?ps = Suc (number (last ?ps)) - number (hd ?ps)"
    if "?ps \<noteq> []"
  proof -
    have ns: "?ns \<noteq> []" using ps that by (metis map_is_Nil_conv new_numbers_Nil)
    have "number (last ?ps) = Max (set ?ns)" using new_numbers_last [OF ns] ps that by (metis last_map)
    moreover have "number (hd ?ps) = hd ?ns"
      using arg_cong [OF ps, of hd] by (simp only: new_numbers_hd hd_map [OF that])
    ultimately show ?thesis
      using missing_from_start [OF assms(2) live] ns by simp
  qed
  show ?thesis
    using out ps span new_numbers_sorted [of ?ns] by (intro exI [of _ ?ps]) simp
qed

text \<open>
  C5: The first copy of a tracker's packet wins, whichever receivers hear it. Take any deliveries of
  reports from any receivers, in which the packets of tracker \<open>a\<close> are copied, lost and reordered, less
  than half the sequence range apart and without a pause of the reset time, to a hub that has not
  heard of \<open>a\<close>. Of these packets the hub hands on the first and then exactly those newer than all
  before: each number at most once and in order. The packets its sequence gate finds missing (the
  numbers \<open>evaluate\<close> returns with the packets accepted) add up to exactly those between the first
  and the newest that were not handed on.
\<close>

theorem first_copy_wins:
  fixes hub :: receiver_hub and ds :: "delivery list" and a :: u64
  defines "vs \<equiv> hub_arrivals (hb_sources hub) ds"
  assumes "unheard r a (hb_sequence_gate hub)" and "close_packets a number vs" and "unbroken r (times_of a vs)"
  shows "\<exists>ps. filter (\<lambda>x. is_rf x \<and> ar_tracker_address x = a) (fst (hub_run ds hub)) = map accepted_of ps \<and>
    map number ps = new_numbers (map number (filter (\<lambda>v. av_address v = a) vs)) \<and>
    sorted_wrt (<) (map number ps) \<and>
    (ps \<noteq> [] \<longrightarrow> missing_in a (hb_sequence_gate hub) vs + length ps =
      Suc (number (last ps)) - number (hd ps))"
  unfolding vs_def by (rule first_copies [OF assms(2-4) [unfolded vs_def]])

theorem first_copy_wins_witness:
  "\<exists>ps. filter (\<lambda>x. is_rf x \<and> ar_tracker_address x = 0x1234) (fst (hub_run demo_deliveries demo_hub)) =
      map accepted_of ps \<and> map demo_number ps = [255, 256, 258]"
proof -
  note first_copy_wins [of 250 "0x1234" demo_hub demo_number demo_deliveries]
  moreover have "hb_sources demo_hub = demo_sources" "unheard 250 0x1234 (hb_sequence_gate demo_hub)"
    by (simp_all add: demo_hub_def hub_default_def unheard_def sequence_gate_new_def)
  ultimately show ?thesis
    by (auto simp: demo_arrivals close_packets_def demo_number_def unbroken_def saturating_sub_def)
qed

text \<open>
  C30: A tracker that starts again with any sequence number is not shut out for long: whatever the gate
  remembers of it, and however short the pauses, of any 130 packets with consecutive sequence numbers
  at least one is accepted. Packets of other trackers in between make no difference.
\<close>

theorem restarted_tracker_recovers:
  assumes "counts_from q (filter (\<lambda>v. av_address v = a) vs)" and "130 \<le> length (filter (\<lambda>v. av_address v = a) vs)"
  shows "\<exists>v \<in> set (passed gate_step gate vs). av_address v = a"
proof -
  have "filter (\<lambda>v. av_address v = a) (passed gate_step gate vs) \<noteq> []"
    unfolding passed_local [of gate a gate, OF refl refl] by (rule recovery [of _ a q, OF _ assms]) simp
  then show ?thesis by (auto simp: filter_empty_conv)
qed

theorem restarted_tracker_recovers_witness:
  "\<exists>v \<in> set (passed gate_step \<lparr> sg_reset_after_ms = 250,
      sg_states = [7 \<mapsto> \<lparr> sq_sequence = 199, sq_received_at_ms = 5 \<rparr>] \<rparr>
    (map (\<lambda>i. \<lparr> av_address = 7, av_sequence = 71 + of_nat i, av_time = 6, av_record = demo_record i \<rparr>) [0..<130])).
    av_address v = 7"
  by (rule restarted_tracker_recovers [of 71]) (simp_all add: counts_from_def filter_map comp_def)

text \<open>
  The status counters of the hub add up: if the reports of a source mark every record whose CRC is
  valid as having a sequence number, which the receivers do, then after every report each packet that
  was received is counted as exactly one of accepted, duplicate, stale or CRC error; the accepted ones
  are the sequenced records handed on, and the counters of other sources do not move.
\<close>

theorem hub_accounts:
  assumes "ingest source input now hub = (Inr out, hub')" and "hub_settled hub"
    and "\<And>rs. decode_reports input = Inr rs \<Longrightarrow> list_all honest rs"
  shows "hub_settled hub' \<and>
    mt_accepted (metrics_of source hub') = mt_accepted (metrics_of source hub) + of_nat (length (filter is_rf out)) \<and>
    (\<forall>other. other \<noteq> source \<longrightarrow> hb_metrics hub' other = hb_metrics hub other)"
  using ingest_counts [OF assms(1)] assms(2,3) by blast

theorem hub_accounts_witness:
  "\<exists>out hub'. ingest ''hid'' (tracker_report 255) 1000 demo_hub = (Inr out, hub') \<and> hub_settled hub'"
proof -
  obtain out hub' where i: "ingest ''hid'' (tracker_report 255) 1000 demo_hub = (Inr out, hub')"
    by (cases "ingest ''hid'' (tracker_report 255) 1000 demo_hub")
      (auto simp: ingest_def tracker_report_read split: prod.splits)
  have "hub_settled demo_hub" by (simp add: hub_settled_def demo_hub_def hub_default_def)
  moreover have "list_all honest rs" if "decode_reports (tracker_report 255) = Inr rs" for rs
    using that by (auto simp: tracker_report_read honest_def rf_metadata_def rf_v2_def sequence_valid_def
        meta_record_def triple_meta_def zeros_numeral)
  ultimately show ?thesis using hub_accounts [OF i] i by blast
qed

end
