(* ===== verification/Host_Bridge.thy ===== *)
theory Host_Bridge
  imports Host_Gateway Host_Hub
begin

text \<open>
  The gateway input of the host bridge, \<open>GatewayInput\<close> of \<open>bridge/src/inputs.rs\<close>: every datagram is
  decoded and answered, and the reports of a batch that the gate accepts go through the hub to the
  output. The output is a state of its own with the operation \<open>process\<close>, which tells whether it
  succeeded (\<open>bridge/src/slimevr.rs\<close>); \<open>send_ok\<close> tells whether the socket takes a reply.
\<close>

section \<open>State and outcome\<close>

record ('a, 'o) host_input =
  hi_gate :: datagram_gate
  hi_server_sequence :: u32
  hi_hub :: receiver_hub
  hi_output :: 'o
  hi_replies :: "('a \<times> byte list) list"

text \<open>A turn goes on, ends with an I/O error, or panics.\<close>

datatype outcome = Continue | IoError | Panic

definition host_input_bind :: "receiver_hub \<Rightarrow> 'o \<Rightarrow> ('a, 'o) host_input" where
  "host_input_bind hub out = \<lparr> hi_gate = Map.empty, hi_server_sequence = 0, hi_hub = hub,
     hi_output = out, hi_replies = [] \<rparr>"

text \<open>\<open>format!("wifi:{:012X}", id)\<close> for an id of at most 48 bits.\<close>

definition hex_digit :: "u64 \<Rightarrow> char" where
  "hex_digit d = ''0123456789ABCDEF'' ! unat d"

definition wifi_source :: "u64 \<Rightarrow> string" where
  "wifi_source gid = ''wifi:'' @ map (\<lambda>i. hex_digit (drop_bit (4 * i) gid AND 15)) (rev [0..<12])"

section \<open>Operations (inputs.rs)\<close>

text \<open>The loop over the records of a report, left at the first error.\<close>

primrec process_records ::
    "(accepted_record \<Rightarrow> 'o \<Rightarrow> bool \<times> 'o) \<Rightarrow> accepted_record list \<Rightarrow> 'o \<Rightarrow> bool \<times> 'o" where
  "process_records process [] out = (True, out)"
| "process_records process (r # rs) out =
    (let (ok, out) = process r out in if ok then process_records process rs out else (False, out))"

text \<open>The loop over the reports of a batch.\<close>

primrec process_reports ::
    "(accepted_record \<Rightarrow> 'o \<Rightarrow> bool \<times> 'o) \<Rightarrow> string \<Rightarrow> u64 \<Rightarrow> byte list list \<Rightarrow>
     ('a, 'o) host_input \<Rightarrow> outcome \<times> ('a, 'o) host_input" where
  "process_reports process source_id now [] h = (Continue, h)"
| "process_reports process source_id now (r # rs) h =
    (let (result, hub) = ingest source_id r now (hi_hub h); h = h\<lparr> hi_hub := hub \<rparr> in
     case result of
       Inl e \<Rightarrow> process_reports process source_id now rs h
     | Inr records \<Rightarrow>
        (let (ok, out) = process_records process records (hi_output h); h = h\<lparr> hi_output := out \<rparr> in
         if ok then process_reports process source_id now rs h else (IoError, h)))"

definition reply_kind :: "gateway_kind \<Rightarrow> gateway_kind option" where
  "reply_kind kind = (case kind of Discover \<Rightarrow> Some Offer | Hello \<Rightarrow> Some Ack | ReportBatch \<Rightarrow> Some Ack
     | Offer \<Rightarrow> None | Ack \<Rightarrow> None)"

text \<open>The reply to a message, counted even if it could not be sent.\<close>

definition send_reply ::
    "('a \<Rightarrow> byte list \<Rightarrow> bool) \<Rightarrow> 'a \<Rightarrow> gateway_message \<Rightarrow> ('a, 'o) host_input \<Rightarrow>
     outcome \<times> ('a, 'o) host_input" where
  "send_reply send_ok source m h =
    (case reply_kind (hm_kind m) of
       None \<Rightarrow> (Continue, h)
     | Some kind \<Rightarrow>
        (case control_reply m kind (hi_server_sequence h) of
           None \<Rightarrow> (Panic, h)
         | Some response \<Rightarrow>
            (let h = h\<lparr> hi_server_sequence := hi_server_sequence h + 1 \<rparr> in
             if send_ok source response then (Continue, h\<lparr> hi_replies := hi_replies h @ [(source, response)] \<rparr>)
             else (IoError, h))))"

text \<open>One turn of the receiving loop, for the datagram \<open>bytes\<close> that came from \<open>source\<close>.\<close>

definition host_datagram ::
    "(accepted_record \<Rightarrow> 'o \<Rightarrow> bool \<times> 'o) \<Rightarrow> ('a \<Rightarrow> byte list \<Rightarrow> bool) \<Rightarrow> u64 \<Rightarrow> 'a \<Rightarrow> byte list \<Rightarrow>
     ('a, 'o) host_input \<Rightarrow> outcome \<times> ('a, 'o) host_input" where
  "host_datagram process send_ok now source bytes h =
    (let input = take MAX_DATAGRAM_SIZE bytes in
     if \<not> has_magic input then (Continue, h)
     else case host_decode input of
       Inl e \<Rightarrow> (Continue, h)
     | Inr m \<Rightarrow>
        (case send_reply send_ok source m h of
           (Continue, h) \<Rightarrow>
            (if hm_kind m \<noteq> ReportBatch then (Continue, h)
             else
              (let (accepted, gate) = gate_accept (hi_gate h) m; h = h\<lparr> hi_gate := gate \<rparr> in
               if \<not> accepted then (Continue, h)
               else process_reports process (wifi_source (hm_gateway_id m)) now (hm_reports m) h))
         | (stop, h) \<Rightarrow> (stop, h)))"

text \<open>
  \<open>GatewayInput::poll\<close>: \<open>inbox\<close> is what \<open>recv_from\<close> returns until it would block, \<open>None\<close> an error
  of it.
\<close>

primrec host_poll ::
    "(accepted_record \<Rightarrow> 'o \<Rightarrow> bool \<times> 'o) \<Rightarrow> ('a \<Rightarrow> byte list \<Rightarrow> bool) \<Rightarrow> u64 \<Rightarrow>
     ('a \<times> byte list) option list \<Rightarrow> ('a, 'o) host_input \<Rightarrow> outcome \<times> ('a, 'o) host_input" where
  "host_poll process send_ok now [] h = (Continue, h)"
| "host_poll process send_ok now (received # inbox) h =
    (case received of
       None \<Rightarrow> (IoError, h)
     | Some (source, bytes) \<Rightarrow>
        (case host_datagram process send_ok now source bytes h of
           (Continue, h) \<Rightarrow> host_poll process send_ok now inbox h
         | (stop, h) \<Rightarrow> (stop, h)))"

section \<open>Replies\<close>

lemma control_reply_some:
  "hm_gateway_id m \<le> ADDRESS_MASK \<Longrightarrow> \<exists>bytes. control_reply m kind n = Some bytes \<and>
    length bytes = 32 \<and> host_decode bytes = Inr \<lparr> hm_kind = kind, hm_flags = 0,
      hm_gateway_id = hm_gateway_id m, hm_boot_id = hm_boot_id m, hm_sequence = n, hm_reports = [] \<rparr>"
  using host_roundtrip [of "\<lparr> hm_kind = kind, hm_flags = 0, hm_gateway_id = hm_gateway_id m,
      hm_boot_id = hm_boot_id m, hm_sequence = n, hm_reports = [] \<rparr>"]
  by (simp add: control_reply_def hm_wf_def hm_valid_def)

lemma send_reply_outcome:
  assumes "host_decode input = Inr m" and "send_reply send_ok source m h = (r, h')"
  shows "r \<noteq> Panic" and "hi_gate h' = hi_gate h" and "hi_hub h' = hi_hub h" and "hi_output h' = hi_output h"
proof -
  have some: "control_reply m kind n = None \<longleftrightarrow> False" for kind n
    using control_reply_some [OF host_decode_wf(3) [OF assms(1)]] by (metis option.distinct(1))
  show "r \<noteq> Panic" and "hi_gate h' = hi_gate h" and "hi_hub h' = hi_hub h" and "hi_output h' = hi_output h"
    using assms(2) by (auto simp: send_reply_def Let_def some split: option.splits if_splits)
qed

lemma process_reports_frame:
  assumes "process_reports process source_id now rs h = (r, h')"
  shows "r \<noteq> Panic" and "hi_gate h' = hi_gate h" and "hi_server_sequence h' = hi_server_sequence h"
    and "hi_replies h' = hi_replies h"
  using assms
proof (induction rs arbitrary: h)
  case (Cons x xs)
  {
    case 1
    then show ?case using Cons.IH(1) by (auto simp: Let_def split_beta split: sum.splits if_splits)
  next
    case 2
    then show ?case using Cons.IH(2) by (fastforce simp: Let_def split_beta split: sum.splits if_splits)
  next
    case 3
    then show ?case using Cons.IH(3) by (fastforce simp: Let_def split_beta split: sum.splits if_splits)
  next
    case 4
    then show ?case using Cons.IH(4) by (fastforce simp: Let_def split_beta split: sum.splits if_splits)
  }
qed simp_all

lemma host_datagram_outcome:
  "fst (host_datagram process send_ok now source bytes h) \<noteq> Panic"
proof (cases "host_decode (take 544 bytes)")
  case (Inr m)
  obtain r h1 where s: "send_reply send_ok source m h = (r, h1)" by fastforce
  have "fst (process_reports process i now rs h2) \<noteq> Panic" for i rs and h2 :: "('a, 'b) host_input"
    using process_reports_frame(1) [OF surjective_pairing] by blast
  then show ?thesis
    using send_reply_outcome(1) [OF Inr s] Inr s
    by (auto simp: host_datagram_def Let_def split_beta split: outcome.split)
qed (simp add: host_datagram_def Let_def)

section \<open>What a poll does\<close>

definition decoded :: "('a \<times> byte list) list \<Rightarrow> gateway_message list" where
  "decoded inbox = concat (map (\<lambda>(source, bytes).
     case host_decode (take MAX_DATAGRAM_SIZE bytes) of Inl e \<Rightarrow> [] | Inr m \<Rightarrow> [m]) inbox)"

definition deliveries :: "u64 \<Rightarrow> gateway_message list \<Rightarrow> delivery list" where
  "deliveries now ms = concat (map (\<lambda>m. map (\<lambda>r. (wifi_source (hm_gateway_id m), r, now)) (hm_reports m)) ms)"

definition process_all :: "(accepted_record \<Rightarrow> 'o \<Rightarrow> bool \<times> 'o) \<Rightarrow> accepted_record list \<Rightarrow> 'o \<Rightarrow> 'o" where
  "process_all process rs out = fold (\<lambda>r out. snd (process r out)) rs out"

lemma hub_run_append:
  "hub_run (ds @ ds') hub = (fst (hub_run ds hub) @ fst (hub_run ds' (snd (hub_run ds hub))),
    snd (hub_run ds' (snd (hub_run ds hub))))"
  by (induction ds arbitrary: hub) (simp_all add: split_beta)

lemma process_records_ok:
  "(\<forall>r out. fst (process r out)) \<Longrightarrow> process_records process rs out = (True, process_all process rs out)"
  by (induction rs arbitrary: out) (simp_all add: split_beta process_all_def)

lemma process_reports_ok:
  assumes "\<forall>r out. fst (process r out)"
  shows "process_reports process source now rs h = (Continue,
    h\<lparr> hi_hub := snd (hub_run (map (\<lambda>r. (source, r, now)) rs) (hi_hub h)),
       hi_output := process_all process (fst (hub_run (map (\<lambda>r. (source, r, now)) rs) (hi_hub h))) (hi_output h) \<rparr>)"
proof (induction rs arbitrary: h)
  case (Cons r rs)
  obtain result hub where i: "ingest source r now (hi_hub h) = (result, hub)" by fastforce
  show ?case
    using Cons.IH by (cases result) (simp_all add: i split_beta process_records_ok [OF assms] process_all_def)
qed (simp add: process_all_def)

lemma send_reply_ok:
  assumes "host_decode input = Inr m" and "\<forall>a b. send_ok a b"
  shows "\<exists>n replies. send_reply send_ok source m h =
    (Continue, h\<lparr> hi_server_sequence := n, hi_replies := hi_replies h @ replies \<rparr>)"
proof -
  have some: "\<exists>bytes. control_reply m kind n = Some bytes" for kind n
    using control_reply_some [OF host_decode_wf(3) [OF assms(1)]] by blast
  show ?thesis
  proof (cases "reply_kind (hm_kind m)")
    case None
    then show ?thesis
      by (intro exI [of _ "hi_server_sequence h"] exI [of _ "[]"]) (simp add: send_reply_def)
  next
    case (Some kind)
    obtain bytes where "control_reply m kind (hi_server_sequence h) = Some bytes" using some by blast
    then show ?thesis
      using Some assms(2)
      by (intro exI [of _ "hi_server_sequence h + 1"] exI [of _ "[(source, bytes)]"])
        (simp add: send_reply_def Let_def)
  qed
qed

lemma host_datagram_ok:
  assumes "\<forall>r out. fst (process r out)" and "\<forall>a b. send_ok a b"
    and "host_datagram process send_ok now source bytes h = (r, h')"
  defines "ms \<equiv> decoded [(source, bytes)]"
  defines "accepted \<equiv> hub_run (deliveries now (passed gate_accept (hi_gate h) ms)) (hi_hub h)"
  shows "r = Continue \<and> hi_gate h' = gate_after (hi_gate h) ms \<and> hi_hub h' = snd accepted \<and>
    hi_output h' = process_all process (fst accepted) (hi_output h)"
proof (cases "host_decode (take 544 bytes)")
  case (Inl e)
  then show ?thesis
    using assms(3) by (simp add: ms_def accepted_def decoded_def host_datagram_def Let_def gate_after_def
        deliveries_def process_all_def split: if_splits)
next
  case (Inr m)
  have magic: "has_magic (take 544 bytes)"
    using host_decode_ok [of "take 544 bytes"] Inr by (auto simp: datagram_ok_def has_magic_def host_magic_eq)
  have ms: "ms = [m]" using Inr by (simp add: ms_def decoded_def)
  obtain n replies where s: "send_reply send_ok source m h =
      (Continue, h\<lparr> hi_server_sequence := n, hi_replies := hi_replies h @ replies \<rparr>)"
    using send_reply_ok [OF Inr assms(2)] by blast
  have none: "hm_kind m \<noteq> ReportBatch \<Longrightarrow> hm_reports m = []"
    using host_decode_wf(2) [OF Inr] by (auto simp: hm_valid_def)
  obtain ok gate where g: "gate_accept (hi_gate h) m = (ok, gate)" by fastforce
  have other: "hm_kind m \<noteq> ReportBatch \<Longrightarrow> ok \<and> gate = hi_gate h" using g by (simp add: gate_accept_def)
  show ?thesis
    using assms(3) magic Inr s none g other
    by (auto simp: host_datagram_def Let_def ms accepted_def gate_after_def deliveries_def process_all_def
        process_reports_ok [OF assms(1)] split: if_splits)
qed

lemma deliveries_append: "deliveries now (xs @ ys) = deliveries now xs @ deliveries now ys"
  by (simp add: deliveries_def)

lemma host_poll_ok:
  assumes "\<forall>r out. fst (process r out)" and "\<forall>a b. send_ok a b"
    and "host_poll process send_ok now (map Some inbox) h = (r, h')"
  shows "r = Continue \<and> hi_gate h' = gate_after (hi_gate h) (decoded inbox) \<and>
    hi_hub h' = snd (hub_run (deliveries now (passed gate_accept (hi_gate h) (decoded inbox))) (hi_hub h)) \<and>
    hi_output h' = process_all process
      (fst (hub_run (deliveries now (passed gate_accept (hi_gate h) (decoded inbox))) (hi_hub h))) (hi_output h)"
  using assms(3)
proof (induction inbox arbitrary: h)
  case Nil
  then show ?case by (simp add: decoded_def gate_after_def deliveries_def process_all_def)
next
  case (Cons d inbox)
  obtain source bytes where d: "d = (source, bytes)" by fastforce
  obtain r1 h1 where one: "host_datagram process send_ok now source bytes h = (r1, h1)" by fastforce
  note first = host_datagram_ok [OF assms(1,2) one]
  have rest: "host_poll process send_ok now (map Some inbox) h1 = (r, h')"
    using Cons.prems first one by (simp add: d)
  have split: "decoded (d # inbox) = decoded [(source, bytes)] @ decoded inbox"
    by (simp add: decoded_def d)
  show ?case
    using Cons.IH [OF rest] first
    unfolding split passed_append deliveries_append hub_run_append
    by (simp add: gate_after_def process_all_def)
qed

section \<open>Properties\<close>

text \<open>No datagram makes the bridge panic: the messages it answers can always be answered.\<close>

lemma host_never_panics: "fst (host_poll process send_ok now inbox h) \<noteq> Panic"
proof (induction inbox arbitrary: h)
  case (Cons d inbox)
  have "fst (host_datagram process send_ok now source bytes h) \<noteq> Panic" for source bytes
    by (rule host_datagram_outcome)
  then show ?case
    using Cons by (auto split: option.split prod.splits outcome.splits) (metis fst_conv)
qed simp

text \<open>
  A poll of the host's socket feeds the hub with exactly the new batches. Whatever datagrams wait
  in the socket, valid or not: as long as the sockets work, the poll takes them all, the hub has then
  seen the reports of the batches that the gate let through, in order, each under the name of its
  gateway, and the output has been given exactly the records that the hub accepted of them.
\<close>

theorem poll_feeds_hub:
  assumes "\<forall>r out. fst (process r out)" and "\<forall>a b. send_ok a b"
    and "host_poll process send_ok now (map Some inbox) h = (r, h')"
  defines "ds \<equiv> deliveries now (passed gate_accept (hi_gate h) (decoded inbox))"
  shows "r = Continue \<and> hi_gate h' = gate_after (hi_gate h) (decoded inbox) \<and>
    hi_hub h' = snd (hub_run ds (hi_hub h)) \<and>
    hi_output h' = process_all process (fst (hub_run ds (hi_hub h))) (hi_output h)"
  unfolding ds_def using assms(1-3) by (rule host_poll_ok)

text \<open>The same batch twice: the hub sees its report once.\<close>

theorem poll_feeds_hub_witness:
  "\<exists>bytes h'. host_encode (demo_batch 1 10) = Some bytes \<and>
    host_poll (\<lambda>r out. (True, out @ [r])) (\<lambda>a b. True) 5 [Some (''g'', bytes), Some (''g'', bytes)]
      (host_input_bind hub_default []) = (Continue, h') \<and>
    hi_hub h' = snd (hub_run [(wifi_source 7, zeros 64, 5)] hub_default)"
proof -
  obtain bytes where b: "host_encode (demo_batch 1 10) = Some bytes" "length bytes = 96"
    "host_decode bytes = Inr (demo_batch 1 10)"
    using host_roundtrip [of "demo_batch 1 10"] by (auto simp: hm_wf_def hm_valid_def demo_batch_def)
  have "deliveries 5 (passed gate_accept Map.empty (decoded [(''g'', bytes), (''g'', bytes)])) =
      [(wifi_source 7, zeros 64, 5)]"
    using b(2,3) by (simp add: decoded_def deliveries_def gate_accept_def demo_batch_def)
  then show ?thesis
    using b(1) poll_feeds_hub [of "\<lambda>r out. (True, out @ [r])" "\<lambda>a b. True" 5
        "[(''g'', bytes), (''g'', bytes)]" "host_input_bind hub_default []", OF _ _ prod.collapse [symmetric]]
    by (intro exI [of _ bytes] exI [of _ "snd (host_poll (\<lambda>r out. (True, out @ [r])) (\<lambda>a b. True) 5
        (map Some [(''g'', bytes), (''g'', bytes)]) (host_input_bind hub_default []))"])
      (simp add: host_input_bind_def prod_eq_iff)
qed

end
