(* ===== verification/Host_Loop.thy ===== *)
theory Host_Loop
  imports Host_Bridge Gateway_System
begin

text \<open>
  The gateway and the host together: the two programs exchange the datagrams of \<open>gateway_protocol.c\<close>
  and \<open>gateway.rs\<close>. A gateway without a server finds the host and connects; the batches it then
  sends are read by the host. The network in between delivers or does not deliver.
\<close>

section \<open>The gateway's messages at the host\<close>

text \<open>The gateway's id as the host knows it.\<close>

definition gateway_key :: "('v, 'x) gateway_state_scheme \<Rightarrow> u64" where
  "gateway_key s = word_of_le (gw_gateway_id s)"

lemma gateway_key: "length (gw_gateway_id s) = 6 \<Longrightarrow> gateway_key s \<le> ADDRESS_MASK \<and> le_of_word 6 (gateway_key s) = gw_gateway_id s"
  using word_of_le_address_bound [of "gw_gateway_id s"] le_of_word_of_le [of "gw_gateway_id s", where 'a = 64]
  by (simp add: gateway_key_def)

text \<open>A message without reports arrives at the host as it was meant.\<close>

lemma control_arrives:
  assumes "length (gw_gateway_id s) = 6" and "udp_recorded p sent"
  shows "\<exists>bytes. sent (env (snd (send_message p d (kind_code k) [] 0 s))) = sent (env s) @ [(d, bytes)] \<and>
    length bytes = 32 \<and> host_decode bytes = Inr \<lparr> hm_kind = k, hm_flags = 0, hm_gateway_id = gateway_key s,
      hm_boot_id = gw_boot_id s, hm_sequence = gw_sequence s, hm_reports = [] \<rparr>"
proof -
  let ?m = "\<lparr> hm_kind = k, hm_flags = 0, hm_gateway_id = gateway_key s, hm_boot_id = gw_boot_id s,
    hm_sequence = gw_sequence s, hm_reports = [] \<rparr>"
  have wf: "hm_wf ?m" "hm_valid ?m" "hm_gateway_id ?m \<le> ADDRESS_MASK"
    using gateway_key [OF assms(1)] by (simp_all add: hm_wf_def hm_valid_def)
  obtain bytes where b: "host_encode ?m = Some bytes" "length bytes = 32" "host_decode bytes = Inr ?m"
    using host_roundtrip [OF wf] by auto
  have "device_view ?m = \<lparr> gm_kind = kind_code k, gm_flags = 0, gm_report_count = 0, gm_gateway_id = gw_gateway_id s,
      gm_boot_id = gw_boot_id s, gm_sequence = gw_sequence s, gm_payload_length = 0, gm_payload = zeros 512 \<rparr>"
    using gateway_key [OF assms(1)] by (simp add: device_view_def pad_def)
  then have "sv_gateway_encode \<lparr> gm_kind = kind_code k, gm_flags = 0, gm_report_count = 0, gm_gateway_id = gw_gateway_id s,
      gm_boot_id = gw_boot_id s, gm_sequence = gw_sequence s, gm_payload_length = 0, gm_payload = zeros 512 \<rparr> = Some bytes"
    using encoders_agree [OF wf(1)] b(1) by simp
  then have "sent (env (snd (send_message p d (kind_code k) [] 0 s))) = sent (env s) @ [(d, bytes)]"
    using assms(2) by (simp add: send_message_def Let_def blit_def split_beta udp_recorded_def)
  then show ?thesis using b by blast
qed

text \<open>The host's answer, as the gateway decodes it.\<close>

lemma host_answers:
  assumes "host_decode bytes = Inr m" and "length bytes = 32" and "hm_kind m \<noteq> ReportBatch"
    and "reply_kind (hm_kind m) = Some k" and "\<forall>a b. send_ok a b"
  shows "\<exists>h' reply dm. host_datagram process send_ok now source bytes h = (Continue, h') \<and>
    hi_replies h' = hi_replies h @ [(source, reply)] \<and>
    sv_gateway_decode reply (length reply) = Some dm \<and> gm_kind dm = kind_code k \<and>
    gm_gateway_id dm = le_of_word 6 (hm_gateway_id m) \<and> gm_boot_id dm = hm_boot_id m"
proof -
  obtain reply where r: "control_reply m k (hi_server_sequence h) = Some reply"
    "host_decode reply = Inr \<lparr> hm_kind = k, hm_flags = 0, hm_gateway_id = hm_gateway_id m,
      hm_boot_id = hm_boot_id m, hm_sequence = hi_server_sequence h, hm_reports = [] \<rparr>"
    using control_reply_some [OF host_decode_wf(3) [OF assms(1)]] by blast
  have magic: "has_magic bytes"
    using host_decode_ok [of bytes] assms(1) by (auto simp: datagram_ok_def has_magic_def host_magic_eq)
  show ?thesis
    using assms r magic host_decode_wf(4) [OF r(2)]
    by (auto simp: host_datagram_def Let_def send_reply_def device_view_def)
qed

section \<open>Finding the host\<close>

text \<open>
  C4: A gateway without a server that hears from a host connects to it in two round trips. When it
  looks for a server, the DISCOVER it broadcasts makes the host answer with an OFFER; the OFFER makes
  the gateway take the host as its server and send it a HELLO; the HELLO makes the host answer with
  an ACK; and the ACK makes the gateway connected. Neither program has anything to go wrong in this:
  it needs only that the four datagrams are delivered.
\<close>

theorem gateway_finds_host:
  assumes "length (gw_gateway_id s) = 6" and "udp_recorded p sent" and "\<forall>a b. send_ok a b"
    and "\<not> se_fixed_server e" and "\<not> se_server_known e" and "1000 \<le> now - se_last_discover e"
    and "find_server p config now (e, s) = (e1, s1)"
  shows "\<exists>discover h1 offer e2 s2 hello h2 ack e3 s3.
    sent (env s1) = sent (env s) @ [(discover_address config, discover)] \<and>
    host_datagram process send_ok t1 gateway discover h = (Continue, h1) \<and>
    hi_replies h1 = hi_replies h @ [(gateway, offer)] \<and>
    handle_datagram p server offer e1 s1 = (e2, s2) \<and>
    sent (env s2) = sent (env s1) @ [(server, hello)] \<and>
    host_datagram process send_ok t2 gateway hello h1 = (Continue, h2) \<and>
    hi_replies h2 = hi_replies h1 @ [(gateway, ack)] \<and>
    handle_datagram p server ack e2 s2 = (e3, s3) \<and>
    server_up s3 \<and> se_server_known e3 \<and> se_server e3 = server"
proof -
  define d where "d = discover_address config"
  have s1: "s1 = snd (send_message p d (kind_code Discover) [] 0 s)" and e1: "e1 = e\<lparr> se_last_discover := now \<rparr>"
    using assms(4-7) by (simp_all add: find_server_def d_def)
  have gw1: "gw_gateway_id s1 = gw_gateway_id s" "gw_boot_id s1 = gw_boot_id s" by (simp_all add: s1 send_message_frame)
  obtain discover where d1: "sent (env s1) = sent (env s) @ [(d, discover)]" "length discover = 32"
    "host_decode discover = Inr \<lparr> hm_kind = Discover, hm_flags = 0, hm_gateway_id = gateway_key s,
      hm_boot_id = gw_boot_id s, hm_sequence = gw_sequence s, hm_reports = [] \<rparr>"
    using control_arrives [OF assms(1,2)] s1 by blast
  obtain h1 offer om where o: "host_datagram process send_ok t1 gateway discover h = (Continue, h1)"
    "hi_replies h1 = hi_replies h @ [(gateway, offer)]" "sv_gateway_decode offer (length offer) = Some om"
    "gm_kind om = 2" "gm_gateway_id om = gw_gateway_id s" "gm_boot_id om = gw_boot_id s"
    using host_answers [OF d1(3,2), of Offer send_ok process t1 gateway h] assms(3) gateway_key [OF assms(1)]
    by (auto simp: reply_kind_def)
  define s2 where "s2 = snd (send_message p server (kind_code Hello) [] 0 s1)"
  let ?e2 = "e1\<lparr> se_server := server, se_server_known := True \<rparr>"
  have step2: "handle_datagram p server offer e1 s1 = (?e2, s2)"
    using o(3-6) gw1 by (simp add: handle_datagram_def s2_def)
  have gw2: "gw_gateway_id s2 = gw_gateway_id s" "gw_boot_id s2 = gw_boot_id s"
    by (simp_all add: s2_def send_message_frame gw1)
  have len1: "length (gw_gateway_id s1) = 6" using assms(1) gw1 by simp
  obtain hello where d2: "sent (env s2) = sent (env s1) @ [(server, hello)]" "length hello = 32"
    "host_decode hello = Inr \<lparr> hm_kind = Hello, hm_flags = 0, hm_gateway_id = gateway_key s1,
      hm_boot_id = gw_boot_id s1, hm_sequence = gw_sequence s1, hm_reports = [] \<rparr>"
    using control_arrives [OF len1 assms(2)] s2_def by blast
  obtain h2 ack am where a: "host_datagram process send_ok t2 gateway hello h1 = (Continue, h2)"
    "hi_replies h2 = hi_replies h1 @ [(gateway, ack)]" "sv_gateway_decode ack (length ack) = Some am"
    "gm_kind am = 4" "gm_gateway_id am = gw_gateway_id s" "gm_boot_id am = gw_boot_id s"
    using host_answers [OF d2(3,2), of Ack send_ok process t2 gateway h1] assms(3) gateway_key [OF len1] gw1
    by (auto simp: reply_kind_def)
  have "\<exists>s3. handle_datagram p server ack ?e2 s2 = (?e2, s3) \<and> server_up s3"
    using a(3-6) gw2 by (simp add: handle_datagram_def)
  then show ?thesis using d1(1) o(1,2) step2 d2(1) a(1,2) d_def by fastforce
qed

text \<open>A gateway after its start, and a host that has heard nothing.\<close>

definition new_session :: gateway_session where
  "new_session = \<lparr> se_fixed_server = False, se_server = \<lparr> sin_addr = 0, sin_port = 0 \<rparr>,
     se_server_known = False, se_last_discover = 0, se_last_hello = 0 \<rparr>"

theorem gateway_finds_host_witness:
  "\<exists>discover h1 offer e2 s2 hello h2 ack e3 s3.
    host_datagram (\<lambda>r out. (True, out)) (\<lambda>a b. True) 5 ''gateway'' discover (host_input_bind hub_default ()) = (Continue, h1) \<and>
    hi_replies h1 = [(''gateway'', offer)] \<and>
    handle_datagram ref_esp \<lparr> sin_addr = 7, sin_port = 6970 \<rparr> offer
      (fst (find_server ref_esp defaults 1000 (new_session, gateway_boot esp_world0)))
      (snd (find_server ref_esp defaults 1000 (new_session, gateway_boot esp_world0))) = (e2, s2) \<and>
    host_datagram (\<lambda>r out. (True, out)) (\<lambda>a b. True) 6 ''gateway'' hello h1 = (Continue, h2) \<and>
    handle_datagram ref_esp \<lparr> sin_addr = 7, sin_port = 6970 \<rparr> ack e2 s2 = (e3, s3) \<and> server_up s3"
proof -
  note gateway_finds_host [of "gateway_boot esp_world0" ref_esp ew_sent "\<lambda>a b. True" new_session 1000 defaults,
      OF _ ref_udp_recorded _ _ _ _ prod.collapse [symmetric], of "\<lambda>r out. (True, out)" 5 "''gateway''"
      "host_input_bind hub_default ()" "\<lparr> sin_addr = 7, sin_port = 6970 \<rparr>" 6]
  then show ?thesis
    by (simp add: new_session_def host_input_bind_def) blast
qed

section \<open>The gateway's batches at the host\<close>

text \<open>What the host reads of a batch that the gateway decodes.\<close>

lemma batch_at_host:
  assumes "sv_gateway_decode bytes (length bytes) = Some m" and "gm_kind m = SV_GATEWAY_REPORT_BATCH"
  shows "\<exists>b. host_decode bytes = Inr b \<and> hm_kind b = ReportBatch \<and>
    hm_gateway_id b = word_of_le (gm_gateway_id m) \<and> hm_boot_id b = gm_boot_id m \<and>
    hm_sequence b = gm_sequence m \<and> length (hm_reports b) = unat (gm_report_count m) \<and>
    (\<forall>i < length (hm_reports b). hm_reports b ! i = bslice (64 * i) 64 (gm_payload m))"
proof -
  obtain b where b: "host_decode bytes = Inr b" "m = device_view b"
    using decoders_agree [of bytes] assms(1) by (auto split: sum.splits)
  note wf = host_decode_wf [OF b(1)]
  have n: "length (hm_reports b) \<le> 8" using wf(2) by (simp add: hm_valid_def)
  have sized: "\<forall>r \<in> set (hm_reports b). length r = 64" using wf(1) by (simp add: hm_wf_def)
  have "bslice (64 * i) 64 (gm_payload m) = hm_reports b ! i" if "i < length (hm_reports b)" for i
  proof -
    have "64 * i + 64 \<le> length (concat (hm_reports b))" using length_reports [OF wf(1)] that by simp
    then have "bslice (64 * i) 64 (gm_payload m) = bslice (64 * i) 64 (concat (hm_reports b))"
      by (simp add: b(2) device_view_def pad_def bslice_def)
    then show ?thesis using concat_chunk [OF sized that] by simp
  qed
  then show ?thesis
    using b assms(2) of_nat_small(1) [OF n] word_of_le_address [OF wf(3)]
    by (simp add: device_view_def)
qed

text \<open>A batch that the gate takes: the first of a boot it has not left, or one that is newer.\<close>

definition gate_takes :: "datagram_gate \<Rightarrow> u64 \<Rightarrow> u32 \<Rightarrow> u32 \<Rightarrow> bool" where
  "gate_takes gate g b sequence \<longleftrightarrow> (case gate g of None \<Rightarrow> True
     | Some e \<Rightarrow> if ge_boot_id e \<noteq> b then b \<notin> ge_retired e
         else sequence \<noteq> ge_sequence e \<and> sequence - ge_sequence e < 0x80000000)"

lemma gate_takes_accept:
  "gate_takes gate (hm_gateway_id m) (hm_boot_id m) (hm_sequence m) \<Longrightarrow> fst (gate_accept gate m)"
  by (auto simp: gate_takes_def gate_accept_def Let_def not_le split: option.splits if_splits)

section \<open>A record at the hub\<close>

lemma first_record_accepted:
  assumes "\<forall>r \<in> set (r # recs). record_ok r" and "\<forall>d \<in> set regs. length d = 16" and "length recs + length regs \<le> 2"
    and "sr_data r ! 0 \<le> 223" and "\<not> list_all (\<lambda>b. b = 0) (sr_data r)" and "sm_flags (sr_metadata r) = 7"
    and "known_ids (hb_sources hub) source (sr_data r ! 1) = Some a"
    and "re_decision (fst (evaluate (hb_sequence_gate hub) a (sm_sequence (sr_metadata r)) now)) = Accepted"
  shows "\<exists>rest. fst (hub_run ((source, report_bytes (r # recs) regs, now) # ds) hub) =
    \<lparr> ar_tracker_address = a, ar_record = host_record r \<rparr> # rest"
proof -
  have dec: "decode_reports (report_bytes (r # recs) regs) = Inr (host_records (r # recs) regs)"
    using assms(1-3) by (intro report_bytes_read) simp_all
  have "sr_data r ! 0 \<noteq> 255" using assms(4) by auto
  then have reg: "registration_address (sr_data r) = None" by (simp add: registration_address_def)
  have rf: "rf_metadata (host_record r) = Some \<lparr> rm_sequence = sm_sequence (sr_metadata r),
      rm_rssi = sm_rssi (sr_metadata r), rm_flags = 7 \<rparr>" "rr_data (host_record r) = sr_data r"
    using assms(6) by (simp_all add: rf_metadata_def host_record_def meta_record_def triple_meta_def
        record_triple_def rf_v2_def numeral_2_eq_2)
  have one: "fst (hub_record now (host_record r) (known_ids (hb_sources hub) source, ms, hb_sequence_gate hub)) =
      [\<lparr> ar_tracker_address = a, ar_record = host_record r \<rparr>]" for ms
    using assms(5,7,8) reg
    by (simp add: hub_record_def rf Let_def host_crc_valid_def sequence_valid_def hub_decide_def split_beta)
  show ?thesis
    using one by (simp add: ingest_def dec host_records_def known_ids_def Let_def split_beta)
qed

end
