(* ===== verification/Report_Pipeline.thy ===== *)
theory Report_Pipeline
  imports Host_Loop Spi_Link "HOL-Library.Sublist"
begin

text \<open>
  The reports of a receiver on their whole way: packed by the receiver, carried by the lossy SPI
  link, queued and sent by the gateway, delivered by a network that loses, repeats and reorders
  datagrams, and let through by the host's gate. Reports are lost at many places, but what comes out
  is always a subsequence of what went in (\<open>subseq\<close>).
\<close>

section \<open>Subsequences\<close>

lemma subseq_concat: "subseq xs ys \<Longrightarrow> subseq (concat (map f xs)) (concat (map f ys))"
  by (induction rule: list_emb.induct) (auto intro: list_emb_append_mono list_emb_append2)

lemma subseq_prefix_swap: "subseq ys zs \<Longrightarrow> subseq (xs @ ys) (xs @ zs)"
  by (rule list_emb_append_mono) simp_all

lemma subseq_extend: "subseq xs ys \<Longrightarrow> subseq xs (ys @ zs)"
  using list_emb_append_mono [of "(=)" xs ys "[]" zs] by simp

lemma subseq_append_right: "subseq ys (xs @ ys)"
  by (rule list_emb_append2) simp

lemma subseq_set: "subseq xs ys \<Longrightarrow> set xs \<subseteq> set ys"
  by (auto elim: list_emb_set)

text \<open>Elements taken at increasing positions.\<close>

lemma subseq_increasing:
  assumes "sorted_wrt (<) ns" and "\<forall>n \<in> set ns. n < length xs"
  shows "subseq (map ((!) xs) ns) xs"
  using assms
proof (induction xs arbitrary: ns)
  case Nil
  then show ?case by (cases ns) auto
next
  case (Cons x xs)
  show ?case
  proof (cases ns)
    case Nil
    then show ?thesis by simp
  next
    case (Cons n ns')
    define tail where "tail = (if n = 0 then ns' else ns)"
    have pos: "\<forall>k \<in> set tail. 0 < k" using Cons Cons.prems(1) by (auto simp: tail_def)
    have sorted: "sorted_wrt (<) tail" using Cons Cons.prems(1) by (simp add: tail_def)
    have "sorted_wrt (<) (map (\<lambda>k. k - 1) tail)"
      using sorted pos by (induction tail) auto
    moreover have "\<forall>k \<in> set (map (\<lambda>k. k - 1) tail). k < length xs"
      using pos Cons Cons.prems(2) by (fastforce simp: tail_def split: if_splits)
    ultimately have "subseq (map ((!) xs) (map (\<lambda>k. k - 1) tail)) xs" by (rule Cons.IH)
    moreover have "map ((!) xs) (map (\<lambda>k. k - 1) tail) = map ((!) (x # xs)) tail"
      unfolding map_map by (rule map_cong [OF refl]) (use pos in \<open>auto simp: nth_Cons'\<close>)
    ultimately have tl: "subseq (map ((!) (x # xs)) tail) xs" by (simp only:)
    show ?thesis
    proof (cases "n = 0")
      case True
      then show ?thesis using tl Cons by (simp add: tail_def)
    next
      case False
      then have "subseq (map ((!) (x # xs)) ns) xs" using tl by (simp add: tail_def)
      then show ?thesis by (rule list_emb_Cons)
    qed
  qed
qed

lemma passed_subset: "set (passed step s ms) \<subseteq> set ms"
  by (induction ms arbitrary: s) (auto simp: split_beta Let_def)

section \<open>What the gateway's UDP task sends\<close>

text \<open>
  From \<open>s\<close> to \<open>s'\<close> the datagrams with messages \<open>ms\<close> were handed to the socket, numbered on from
  \<open>gw_sequence s\<close>.
\<close>

definition sends ::
    "('v \<Rightarrow> (sockaddr_in \<times> byte list) list) \<Rightarrow> ('v, 'x) gateway_state_scheme \<Rightarrow> gateway_message list \<Rightarrow>
     ('v, 'x) gateway_state_scheme \<Rightarrow> bool" where
  "sends sent s ms s' \<longleftrightarrow>
    (\<exists>ds. sent (env s') = sent (env s) @ ds \<and> map (\<lambda>d. host_decode (snd d)) ds = map Inr ms) \<and>
    (\<forall>i < length ms. hm_gateway_id (ms ! i) = gateway_key s \<and> hm_boot_id (ms ! i) = gw_boot_id s \<and>
       hm_sequence (ms ! i) = gw_sequence s + of_nat i) \<and>
    gw_gateway_id s' = gw_gateway_id s \<and> gw_boot_id s' = gw_boot_id s \<and>
    gw_sequence s' = gw_sequence s + of_nat (length ms)"

lemma sends_none:
  "sent (env s') = sent (env s) \<Longrightarrow> gw_gateway_id s' = gw_gateway_id s \<Longrightarrow> gw_boot_id s' = gw_boot_id s \<Longrightarrow>
   gw_sequence s' = gw_sequence s \<Longrightarrow> sends sent s [] s'"
  by (simp add: sends_def)

lemma sends_trans:
  assumes "sends sent s ms t" and "sends sent t ms' u"
  shows "sends sent s (ms @ ms') u"
proof -
  have key: "gateway_key t = gateway_key s" using assms(1) by (simp add: sends_def gateway_key_def)
  have "hm_gateway_id ((ms @ ms') ! i) = gateway_key s \<and> hm_boot_id ((ms @ ms') ! i) = gw_boot_id s \<and>
      hm_sequence ((ms @ ms') ! i) = gw_sequence s + of_nat i" if "i < length (ms @ ms')" for i
  proof (cases "i < length ms")
    case True
    then show ?thesis using assms(1) by (simp add: sends_def nth_append)
  next
    case False
    define j where "j = i - length ms"
    have "i = length ms + j" "j < length ms'" using False that by (simp_all add: j_def)
    then show ?thesis using assms key by (simp add: sends_def nth_append add.assoc)
  qed
  then have nums: "\<forall>i < length (ms @ ms'). hm_gateway_id ((ms @ ms') ! i) = gateway_key s \<and>
      hm_boot_id ((ms @ ms') ! i) = gw_boot_id s \<and> hm_sequence ((ms @ ms') ! i) = gw_sequence s + of_nat i" by blast
  obtain ds where ds: "sent (env t) = sent (env s) @ ds" "map (\<lambda>d. host_decode (snd d)) ds = map Inr ms"
    using assms(1) by (auto simp: sends_def)
  obtain ds' where ds': "sent (env u) = sent (env t) @ ds'" "map (\<lambda>d. host_decode (snd d)) ds' = map Inr ms'"
    using assms(2) by (auto simp: sends_def)
  have "sent (env u) = sent (env s) @ ds @ ds'" "map (\<lambda>d. host_decode (snd d)) (ds @ ds') = map Inr (ms @ ms')"
    using ds ds' by simp_all
  moreover have "gw_gateway_id u = gw_gateway_id s \<and> gw_boot_id u = gw_boot_id s \<and>
      gw_sequence u = gw_sequence s + of_nat (length (ms @ ms'))"
    using assms by (simp add: sends_def add.assoc)
  ultimately show ?thesis using nums unfolding sends_def
    by (intro conjI exI [of _ "ds @ ds'"]) simp_all
qed

text \<open>The reports sent and those left in the queue are, in order, among those queued before.\<close>

definition flows ::
    "('v \<Rightarrow> byte list list) \<Rightarrow> ('v \<Rightarrow> (sockaddr_in \<times> byte list) list) \<Rightarrow> ('v, 'x) gateway_state_scheme \<Rightarrow>
     ('v, 'x) gateway_state_scheme \<Rightarrow> bool" where
  "flows q sent s s' \<longleftrightarrow> (\<exists>ms. sends sent s ms s' \<and>
     subseq (concat (map hm_reports ms) @ q (env s')) (q (env s)))"

lemma flows_none:
  "sends sent s [] s' \<Longrightarrow> subseq (q (env s')) (q (env s)) \<Longrightarrow> flows q sent s s'"
  by (auto simp: flows_def intro!: exI [of _ "[]"])

lemma flows_trans:
  assumes "flows q sent s t" and "flows q sent t u"
  shows "flows q sent s u"
proof -
  obtain ms where ms: "sends sent s ms t" "subseq (concat (map hm_reports ms) @ q (env t)) (q (env s))"
    using assms(1) by (auto simp: flows_def)
  obtain ms' where ms': "sends sent t ms' u" "subseq (concat (map hm_reports ms') @ q (env u)) (q (env t))"
    using assms(2) by (auto simp: flows_def)
  have "subseq (concat (map hm_reports (ms @ ms')) @ q (env u)) (q (env s))"
    using subseq_order.trans [OF subseq_prefix_swap [OF ms'(2)] ms(2)] by simp
  then show ?thesis using sends_trans [OF ms(1) ms'(1)] by (auto simp: flows_def)
qed


lemma flows_same:
  "q (env s') = q (env s) \<Longrightarrow> sent (env s') = sent (env s) \<Longrightarrow> gw_gateway_id s' = gw_gateway_id s \<Longrightarrow>
   gw_boot_id s' = gw_boot_id s \<Longrightarrow> gw_sequence s' = gw_sequence s \<Longrightarrow> flows q sent s s'"
  by (intro flows_none sends_none) simp_all

lemma flows_message:
  assumes "queue_ok p q" and "udp_recorded p sent" and "length (gw_gateway_id s) = 6"
  shows "flows q sent s (snd (send_message p d (kind_code k) [] 0 s))"
proof -
  let ?s' = "snd (send_message p d (kind_code k) [] 0 s)"
  let ?m = "\<lparr> hm_kind = k, hm_flags = 0, hm_gateway_id = gateway_key s, hm_boot_id = gw_boot_id s,
    hm_sequence = gw_sequence s, hm_reports = [] \<rparr>"
  obtain bytes where b: "sent (env ?s') = sent (env s) @ [(d, bytes)]" "host_decode bytes = Inr ?m"
    using control_arrives [OF assms(3,2)] by blast
  have "sends sent s [?m] ?s'"
    using b send_message_frame [of p d "kind_code k" "[]" 0 s] by (simp add: sends_def)
  moreover have "q (env ?s') = q (env s)" by (rule send_message_queue [OF assms(1)])
  ultimately show ?thesis by (auto simp: flows_def intro!: exI [of _ "[?m]"])
qed

text \<open>The steps of a turn, in which only the queue and the messages matter.\<close>

lemma flows_datagram:
  assumes "queue_ok p q" and "udp_recorded p sent" and "length (gw_gateway_id s) = 6"
  shows "flows q sent s (snd (handle_datagram p source bytes e s))"
  using flows_message [OF assms, of source Hello]
  by (auto simp: handle_datagram_def receive_error_def intro: flows_same split: option.split)

lemma flows_receive:
  assumes "queue_ok p q" and "udp_recorded p sent" and "length (gw_gateway_id s) = 6"
  shows "flows q sent s (snd (receive_control p e s))"
proof -
  obtain x v where x: "udp_receive p (env s) = (x, v)" by fastforce
  have v: "q v = q (env s)" "sent v = sent (env s)"
    using x queue_ok_frame(2) [OF assms(1), of "env s"] assms(2) by (auto simp: udp_recorded_def) (metis snd_conv)
  then have f: "flows q sent s (s\<lparr> env := v \<rparr>)" by (intro flows_same) simp_all
  show ?thesis
  proof (cases x)
    case (Inl b)
    then show ?thesis using v by (auto simp: receive_control_def x receive_error_def Let_def intro!: flows_same)
  next
    case (Inr m)
    obtain source bytes where m: "m = (source, bytes)" by fastforce
    have "flows q sent (s\<lparr> env := v \<rparr>) (snd (handle_datagram p source (take 544 bytes) e (s\<lparr> env := v \<rparr>)))"
      using assms by (intro flows_datagram) simp_all
    with f show ?thesis by (simp add: receive_control_def x Inr m flows_trans)
  qed
qed

lemma resolve_sent:
  assumes "udp_recorded p sent"
  shows "sent (snd (snd (resolve_server p config v))) = sent v"
proof -
  have "sent (snd (resolve_host p (ac_server config) v)) = sent v" using assms by (simp add: udp_recorded_def)
  then show ?thesis
    by (cases "resolve_host p (ac_server config) v") (simp add: resolve_server_def Let_def split: option.split)
qed

lemma flows_find:
  assumes "queue_ok p q" and "udp_recorded p sent" and "length (gw_gateway_id (snd r)) = 6"
  shows "flows q sent (snd r) (snd (find_server p config now r))"
proof -
  have "flows q sent s (s\<lparr> env := snd (snd (resolve_server p config (env s))) \<rparr>)"
    for s :: "('a, 'b) gateway_state_scheme"
    by (rule flows_same) (simp_all add: resolve_queue [OF assms(1)] resolve_sent [OF assms(2)])
  then show ?thesis
    using flows_message [OF assms, of "discover_address config" Discover] flows_same [of q "snd r" "snd r" sent]
    by (simp add: find_server_def Let_def split_beta)
qed

lemma flows_hello:
  assumes "queue_ok p q" and "udp_recorded p sent" and "length (gw_gateway_id (snd r)) = 6"
  shows "flows q sent (snd r) (snd (say_hello p now r))"
  using flows_message [OF assms, of "se_server (fst r)" Hello] flows_same [of q "snd r" "snd r" sent]
  by (simp add: say_hello_def split_beta)

lemma flows_id: "flows q sent s s' \<Longrightarrow> gw_gateway_id s' = gw_gateway_id s"
  by (auto simp: flows_def sends_def)

lemma flows_control:
  assumes "queue_ok p q" and "udp_recorded p sent" and "length (gw_gateway_id s) = 6"
  shows "flows q sent s (snd (snd (session_control p config e s)))"
proof -
  obtain e1 s1 where s1: "receive_control p e s = (e1, s1)" by fastforce
  define now where "now = tick_count p (env s1)"
  obtain e2 s2 where s2: "find_server p config now (e1, s1) = (e2, s2)" by fastforce
  obtain e3 s3 where s3: "say_hello p now (e2, s2) = (e3, s3)" by fastforce
  have f1: "flows q sent s s1" using flows_receive [OF assms, of e] s1 by simp
  then have l1: "length (gw_gateway_id (snd (e1, s1))) = 6" using flows_id [OF f1] assms(3) by simp
  have f2: "flows q sent s1 s2" using flows_find [OF assms(1,2) l1, of config now] s2 by simp
  then have l2: "length (gw_gateway_id (snd (e2, s2))) = 6" using flows_id [OF f2] l1 by simp
  have f3: "flows q sent s2 s3" using flows_hello [OF assms(1,2) l2, of now] s3 by simp
  have f4: "flows q sent s3 (snd (check_timeout now (e3, s3)))"
    by (auto simp: check_timeout_def intro: flows_same)
  have "flows q sent s (snd (check_timeout now (e3, s3)))"
    using flows_trans [OF f1 flows_trans [OF f2 flows_trans [OF f3 f4]]] .
  then show ?thesis by (simp add: session_control_def s1 Let_def now_def [symmetric] s2 s3)
qed


lemma discard_sent:
  fixes s :: "('v, 'x) gateway_state_scheme"
  assumes "queue_ok p q" and "udp_recorded p sent" and "discard_pending_reports p s = Some s'"
  shows "sent (env s') = sent (env s)"
proof -
  let ?recv = "bridge_spi_receive_report p"
  show ?thesis
  proof (rule fifo_source.all_induct [OF report_source [OF assms(1)],
        where f = "\<lambda>_. count_discarded 1" and P = "\<lambda>n (s :: ('v, 'x) gateway_state_scheme) s'. sent (env s') = sent (env s)"])
    show "receive_all ?recv (\<lambda>_. count_discarded 1) s = Some s'"
      using assms(3) by (simp add: discard_pending_reports_def)
  next
    fix s t u :: "('v, 'x) gateway_state_scheme" and r n
    assume "?recv s = Some (r, t)" and "sent (env u) = sent (env (count_discarded 1 t))"
    then show "sent (env u) = sent (env s)"
      using receive_report_some assms(2) by (fastforce simp: udp_recorded_def)
  qed simp_all
qed

lemma flows_discard:
  assumes "queue_ok p q" and "udp_recorded p sent" and "discard_pending_reports p s = Some s'"
  shows "flows q sent s s'"
proof (rule flows_none [OF sends_none])
  obtain v where v: "s' = count_discarded (of_nat (length (q (env s)))) (s\<lparr> env := v \<rparr>)" "q v = []"
    using discard_ends [OF assms(1), of s] assms(3) by auto
  then show "gw_gateway_id s' = gw_gateway_id s" "gw_boot_id s' = gw_boot_id s" "gw_sequence s' = gw_sequence s"
    "subseq (q (env s')) (q (env s))"
    by (simp_all add: count_discarded_def)
qed (rule discard_sent [OF assms])

lemma sliced_reports:
  assumes "take (64 * n) xs = concat rs" and "length rs = n" and "\<forall>r \<in> set rs. length r = 64" and "i < n"
  shows "bslice (64 * i) 64 xs = rs ! i"
proof -
  have "64 * i + 64 \<le> 64 * n" using assms(4) by simp
  then have "bslice (64 * i) 64 xs = bslice (64 * i) 64 (take (64 * n) xs)"
    by (simp add: bslice_def drop_take min_def)
  then show ?thesis using concat_chunk [OF assms(3)] assms(1,2,4) by simp
qed

lemma flows_forward:
  assumes "queue_ok p q" and "udp_recorded p sent" and "length (gw_gateway_id s) = 6"
    and "\<forall>r \<in> set (q (env s)). length r = 64" and "forward_reports p e s = Some s'"
  shows "flows q sent s s'"
proof (cases "server_up s")
  case False
  then show ?thesis using flows_discard [OF assms(1,2)] assms(5) by (simp add: forward_reports_def)
next
  case up: True
  obtain rs v where r: "receive_up_to (bridge_spi_receive_report p) 8 s = (rs, s\<lparr> env := v \<rparr>)"
    using receive_up_to_frame [of p 8 s] by (metis prod.collapse)
  note up_to = fifo_source.up_to_contents [OF report_source [OF assms(1)] TrueI, where s = s and n = 8]
  show ?thesis
  proof (cases "q (env s) = []")
    case True
    have "rs = []" "q v = []" "sent v = sent (env s)"
      using up_to receive_up_to_sent [OF assms(2), of 8 s] True r by simp_all
    then have "s' = s\<lparr> env := v \<rparr>" "q v = q (env s)" "sent v = sent (env s)"
      using assms(5) up r True by (simp_all add: forward_reports_def)
    then show ?thesis by (intro flows_same) simp_all
  next
    case False
    let ?n = "min 8 (length (q (env s)))"
    obtain bytes m where b: "sent (env s') = sent (env s) @ [(se_server e, bytes)]"
      "sv_gateway_decode bytes (length bytes) = Some m" "gm_kind m = SV_GATEWAY_REPORT_BATCH"
      "gm_gateway_id m = gw_gateway_id s" "gm_boot_id m = gw_boot_id s" "gm_sequence m = gw_sequence s"
      "gw_sequence s' = gw_sequence s + 1" "unat (gm_report_count m) = ?n"
      "take (64 * ?n) (gm_payload m) = concat (take 8 (q (env s)))" "q (env s') = drop 8 (q (env s))"
      using forward_batch [OF assms(1,2) up False assms(4,3,5)] by blast
    obtain h where h: "host_decode bytes = Inr h" "hm_gateway_id h = gateway_key s" "hm_boot_id h = gw_boot_id s"
      "hm_sequence h = gw_sequence s" "length (hm_reports h) = ?n"
      "\<forall>i < length (hm_reports h). hm_reports h ! i = bslice (64 * i) 64 (gm_payload m)"
      using batch_at_host [OF b(2,3)] b(4-6,8) by (auto simp: gateway_key_def)
    have sized: "length (take 8 (q (env s))) = ?n" "\<forall>r \<in> set (take 8 (q (env s))). length r = 64"
      using assms(4) by (auto dest: in_set_takeD)
    have "hm_reports h = take 8 (q (env s))"
      using h(5,6) sliced_reports [OF b(9) sized] by (intro nth_equalityI) (simp_all add: sized(1))
    moreover have "gw_gateway_id s' = gw_gateway_id s \<and> gw_boot_id s' = gw_boot_id s"
      using assms(5) up r by (auto simp: forward_reports_def Let_def split_beta send_message_frame count_discarded_def
          split: if_splits)
    ultimately have "sends sent s [h] s'" "subseq (concat (map hm_reports [h]) @ q (env s')) (q (env s))"
      using b(1,7,10) h by (simp_all add: sends_def)
    then show ?thesis unfolding flows_def by blast
  qed
qed

lemma flows_queue_set:
  assumes "flows q sent s s'"
  shows "set (q (env s')) \<subseteq> set (q (env s))" and "length (q (env s')) \<le> length (q (env s))"
proof -
  obtain ms where "sends sent s ms s'" and ms: "subseq (concat (map hm_reports ms) @ q (env s')) (q (env s))"
    using assms by (auto simp: flows_def)
  have "subseq (q (env s')) (q (env s))" by (rule subseq_order.trans [OF subseq_append_right ms])
  then show "set (q (env s')) \<subseteq> set (q (env s))" "length (q (env s')) \<le> length (q (env s))"
    by (simp_all add: subseq_set list_emb_length)
qed

lemma flows_turn:
  assumes "queue_ok p q" and "udp_recorded p sent" and "length (gw_gateway_id s) = 6"
    and "\<forall>r \<in> set (q (env s)). length r = 64" and "session_turn p config e s = Some (e', s')"
  shows "flows q sent s s'"
proof -
  obtain now e1 s1 where c: "session_control p config e s = (now, e1, s1)" by (metis prod_cases3)
  obtain s2 a where s2: "forward_reports p e1 s1 = Some s2"
    "s' = s2\<lparr> gw_stats := (gw_stats s2)\<lparr> gs_last_ack_age_ms := a \<rparr>, env := delay_ticks p 1 (env s2) \<rparr>"
    using assms(5) by (auto simp: session_turn_def c)
  have f1: "flows q sent s s1" using flows_control [OF assms(1-3), of config e] c by simp
  have "flows q sent s1 s2"
    using flows_id [OF f1] flows_queue_set [OF f1] assms(3,4) by (intro flows_forward [OF assms(1,2) _ _ s2(1)]) auto
  moreover have "flows q sent s2 s'"
    using queue_ok_frame(7) [OF assms(1)] assms(2) by (intro flows_same) (simp_all add: s2(2) udp_recorded_def)
  ultimately show ?thesis using f1 flows_trans by blast
qed

lemma flows_offline:
  assumes "queue_ok p q" and "udp_recorded p sent" and "offline_turn p waited s = Some s'"
  shows "flows q sent s s'"
proof -
  obtain t where t: "discard_pending_reports p s = Some t" "s' = t\<lparr> env := delay_ticks p waited (env t) \<rparr>"
    using assms(3) by (auto simp: offline_turn_def)
  have "flows q sent t s'"
    using queue_ok_frame(7) [OF assms(1)] assms(2) by (intro flows_same) (simp_all add: t(2) udp_recorded_def)
  then show ?thesis using flows_trans flows_discard [OF assms(1,2) t(1)] by blast
qed

lemma flows_start:
  assumes "queue_ok p q" and "udp_recorded p sent"
  shows "flows q sent s (snd (start_session p config junk opened s))"
  using queue_ok_frame(7) [OF assms(1)] resolve_queue [OF assms(1)] resolve_sent [OF assms(2)] assms(2)
  by (intro flows_same) (simp_all add: start_session_def Let_def split_beta udp_recorded_def)


section \<open>The pipeline\<close>

text \<open>
  The receiver, the frame it has armed, and the gateway with the session of its UDP task. The trace
  of a run lists the reports that the receiver packed.
\<close>

record ('w, 'v) pipeline =
  pl_nrf :: "'w receiver"
  pl_armed :: "byte list option"
  pl_session :: "gateway_session option"
  pl_esp :: "'v gateway_state"

text \<open>The report that \<open>prepare_tx\<close> packs, and the one in a frame.\<close>

definition packs :: "int \<Rightarrow> 'w receiver \<Rightarrow> byte list list" where
  "packs now n = (if sb_response_pending n then []
     else case fst (report_builder_next now (rf_builder n)) of Some report \<Rightarrow> [report] | None \<Rightarrow> [])"

definition frame_reports :: "byte list \<Rightarrow> byte list list" where
  "frame_reports frame = (case sv_bridge_decode frame of
       Some m \<Rightarrow> if bm_kind m = SV_BRIDGE_RECEIVER_REPORT \<and> bm_payload_length m = 64 then [bm_payload m] else []
     | None \<Rightarrow> [])"

inductive pipe_step ::
    "'w platform \<Rightarrow> 'v esp_platform \<Rightarrow> app_config \<Rightarrow> ('v \<Rightarrow> byte list list) \<Rightarrow>
     ('v \<Rightarrow> (sockaddr_in \<times> byte list) list) \<Rightarrow> ('w, 'v) pipeline \<Rightarrow> byte list list \<Rightarrow> ('w, 'v) pipeline \<Rightarrow> bool"
  for p :: "'w platform" and g :: "'v esp_platform" and config :: app_config
    and q :: "'v \<Rightarrow> byte list list" and sent :: "'v \<Rightarrow> (sockaddr_in \<times> byte list) list" where
  pipe_radio: "receiver_esb_event_handler p rx_received (pl_nrf l) = Some n \<Longrightarrow>
    pipe_step p g config q sent l [] (l\<lparr> pl_nrf := n \<rparr>)"
| pipe_persist: "persist_pairing_work_handler p (pl_nrf l) = Some n \<Longrightarrow>
    pipe_step p g config q sent l [] (l\<lparr> pl_nrf := n \<rparr>)"
| pipe_arm: "pl_armed l = None \<Longrightarrow> prepare_tx now later (pl_nrf l) = (tx, n) \<Longrightarrow>
    pipe_step p g config q sent l (packs now (pl_nrf l)) (l\<lparr> pl_armed := Some tx, pl_nrf := n \<rparr>)"
| pipe_unarmed: "pipe_step p g config q sent l [] (l\<lparr> pl_armed := None \<rparr>)"
| pipe_exchange: "pl_armed l = Some tx_n \<Longrightarrow> outgoing_frame g (pl_esp l) = (tx_e, s) \<Longrightarrow>
    arrives tx_n rx_e \<Longrightarrow> arrives tx_e rx_n \<Longrightarrow> receive_frame g rx_e s = (result, s') \<Longrightarrow>
    pipe_step p g config q sent l []
      (l\<lparr> pl_nrf := process_rx p rx_n (pl_nrf l), pl_armed := None, pl_esp := s' \<rparr>)"
| pipe_failed: "outgoing_frame g (pl_esp l) = (tx_e, s) \<Longrightarrow>
    pipe_step p g config q sent l [] (l\<lparr> pl_esp := count_stat bs_transfer_errors_update s \<rparr>)"
| pipe_offline: "pl_session l = None \<Longrightarrow> offline_turn g waited (pl_esp l) = Some s \<Longrightarrow>
    pipe_step p g config q sent l [] (l\<lparr> pl_esp := s \<rparr>)"
| pipe_start: "pl_session l = None \<Longrightarrow> start_session g config junk opened (pl_esp l) = (e, s) \<Longrightarrow>
    pipe_step p g config q sent l [] (l\<lparr> pl_session := e, pl_esp := s \<rparr>)"
| pipe_turn: "pl_session l = Some e \<Longrightarrow> session_turn g config e (pl_esp l) = Some (e', s) \<Longrightarrow>
    pipe_step p g config q sent l [] (l\<lparr> pl_session := Some e', pl_esp := s \<rparr>)"
| pipe_close: "pipe_step p g config q sent l [] (l\<lparr> pl_session := None \<rparr>)"
| pipe_other: "q (env s) = q (env (pl_esp l)) \<Longrightarrow> sent (env s) = sent (env (pl_esp l)) \<Longrightarrow>
    gw_gateway_id s = gw_gateway_id (pl_esp l) \<Longrightarrow> gw_boot_id s = gw_boot_id (pl_esp l) \<Longrightarrow>
    gw_sequence s = gw_sequence (pl_esp l) \<Longrightarrow> pipe_step p g config q sent l [] (l\<lparr> pl_esp := s \<rparr>)"

inductive pipe_run ::
    "'w platform \<Rightarrow> 'v esp_platform \<Rightarrow> app_config \<Rightarrow> ('v \<Rightarrow> byte list list) \<Rightarrow>
     ('v \<Rightarrow> (sockaddr_in \<times> byte list) list) \<Rightarrow> ('w, 'v) pipeline \<Rightarrow> byte list list \<Rightarrow> ('w, 'v) pipeline \<Rightarrow> bool"
  for p :: "'w platform" and g :: "'v esp_platform" and config :: app_config
    and q :: "'v \<Rightarrow> byte list list" and sent :: "'v \<Rightarrow> (sockaddr_in \<times> byte list) list" where
  pipe_nil: "pipe_run p g config q sent l [] l"
| pipe_more: "pipe_run p g config q sent l packed l' \<Longrightarrow> pipe_step p g config q sent l' packed' l'' \<Longrightarrow>
    pipe_run p g config q sent l (packed @ packed') l''"

text \<open>A frame carries the report that was packed for it.\<close>

lemma frame_packs:
  assumes "fw_invar n" and "prepare_tx now later n = (tx, n')"
  shows "frame_reports tx = packs now n" and "\<forall>r \<in> set (packs now n). length r = 64"
proof -
  show "frame_reports tx = packs now n"
    using frame_of_state [OF assms] by (auto simp: frame_reports_def packs_def split: option.splits if_splits)
  have "rb_invar (rf_builder n)" using assms(1) by (simp add: fw_invar_def rf_invar_def)
  then show "\<forall>r \<in> set (packs now n). length r = 64"
    using report_output_length [of "rf_builder n" now] by (auto simp: packs_def split: option.split)
qed

lemma receive_frame_frame:
  "gw_stats (snd (receive_frame p rx s)) = gw_stats s"
  "gw_gateway_id (snd (receive_frame p rx s)) = gw_gateway_id s"
  "gw_boot_id (snd (receive_frame p rx s)) = gw_boot_id s"
  "gw_sequence (snd (receive_frame p rx s)) = gw_sequence s"
  by (simp_all add: receive_frame_def Let_def split_beta count_stat_def accept_response_def split: option.split)

text \<open>A frame that arrives adds its report to the queue, or nothing.\<close>

lemma receive_frame_flow:
  fixes s :: "'v gateway_state"
  assumes "queue_ok g q" and "\<forall>r v. sent (snd (queue_send g r v)) = sent v" and "arrives tx rx"
  defines "s' \<equiv> snd (receive_frame g rx s)"
  shows "subseq (q (env s')) (q (env s) @ frame_reports tx)" and "sent (env s') = sent (env s)"
    and "set (q (env s')) \<subseteq> set (q (env s)) \<union> set (frame_reports tx)"
proof -
  have rx: "frame_reports rx = frame_reports tx \<or> frame_reports rx = []"
    using assms(3) by (auto simp: arrives_def frame_reports_def)
  have "q (env s') = q (env s) \<or> q (env s') = q (env s) @ frame_reports rx"
    using queue_ok_send [OF assms(1)]
    by (cases "sv_bridge_decode rx") (simp_all add: s'_def receive_frame_def Let_def split_beta count_stat_def
        accept_response_def frame_reports_def)
  with rx show "subseq (q (env s')) (q (env s) @ frame_reports tx)"
    "set (q (env s')) \<subseteq> set (q (env s)) \<union> set (frame_reports tx)"
    using subseq_extend [OF subseq_order.refl] by auto
  show "sent (env s') = sent (env s)"
    using assms(2) by (auto simp: s'_def receive_frame_def Let_def split_beta count_stat_def accept_response_def
        split: option.splits)
qed

lemma outgoing_same:
  "outgoing_frame g s = (tx, s') \<Longrightarrow> env s' = env s \<and> gw_gateway_id s' = gw_gateway_id s \<and>
    gw_boot_id s' = gw_boot_id s \<and> gw_sequence s' = gw_sequence s"
  by (auto simp: outgoing_frame_def prepare_command_def Let_def split: if_splits)


text \<open>
  The invariant: the reports sent since \<open>s0\<close>, those in the queue and the one in the armed frame are,
  in this order, among those packed.
\<close>

definition armed_reports :: "('w, 'v) pipeline \<Rightarrow> byte list list" where
  "armed_reports l = (case pl_armed l of Some frame \<Rightarrow> frame_reports frame | None \<Rightarrow> [])"

definition pipe_inv ::
    "('v \<Rightarrow> byte list list) \<Rightarrow> ('v \<Rightarrow> (sockaddr_in \<times> byte list) list) \<Rightarrow> 'v gateway_state \<Rightarrow>
     byte list list \<Rightarrow> ('w, 'v) pipeline \<Rightarrow> bool" where
  "pipe_inv q sent s0 packed l \<longleftrightarrow> fw_invar (pl_nrf l) \<and> length (gw_gateway_id (pl_esp l)) = 6 \<and>
     (\<forall>r \<in> set (q (env (pl_esp l)) @ armed_reports l). length r = 64) \<and>
     (\<exists>ms. sends sent s0 ms (pl_esp l) \<and>
       subseq (concat (map hm_reports ms) @ q (env (pl_esp l)) @ armed_reports l) packed)"

lemma pipe_inv_nrf: "pipe_inv q sent s0 packed l \<Longrightarrow> fw_invar n \<Longrightarrow> pipe_inv q sent s0 packed (l\<lparr> pl_nrf := n \<rparr>)"
  by (simp add: pipe_inv_def armed_reports_def)

text \<open>What the UDP task does moves reports from the queue to the socket or drops them.\<close>

lemma pipe_inv_flows:
  assumes "pipe_inv q sent s0 packed l" and "flows q sent (pl_esp l) s"
  shows "pipe_inv q sent s0 packed (l\<lparr> pl_esp := s \<rparr>)"
proof -
  let ?s = "pl_esp l" and ?a = "armed_reports l"
  obtain ms where ms: "sends sent s0 ms ?s" "subseq (concat (map hm_reports ms) @ q (env ?s) @ ?a) packed"
    using assms(1) by (auto simp: pipe_inv_def)
  obtain ms' where ms': "sends sent ?s ms' s" "subseq (concat (map hm_reports ms') @ q (env s)) (q (env ?s))"
    using assms(2) by (auto simp: flows_def)
  have "subseq (concat (map hm_reports ms) @ (concat (map hm_reports ms') @ q (env s)) @ ?a) packed"
    by (rule subseq_order.trans [OF _ ms(2)])
      (intro list_emb_append_mono ms'(2) subseq_order.refl)
  then have "subseq (concat (map hm_reports (ms @ ms')) @ q (env s) @ ?a) packed" by simp
  moreover have "set (q (env s)) \<subseteq> set (q (env ?s))" by (rule flows_queue_set [OF assms(2)])
  ultimately show ?thesis
    using assms(1) sends_trans [OF ms(1) ms'(1)] flows_id [OF assms(2)]
    by (auto simp: pipe_inv_def armed_reports_def)
qed

lemma pipe_inv_session: "pipe_inv q sent s0 packed l \<Longrightarrow> pipe_inv q sent s0 packed (l\<lparr> pl_session := e \<rparr>)"
  by (simp add: pipe_inv_def armed_reports_def)

lemma pipe_inv_arm:
  assumes "pipe_inv q sent s0 packed l" and "pl_armed l = None" and "prepare_tx now later (pl_nrf l) = (tx, n)"
  shows "pipe_inv q sent s0 (packed @ packs now (pl_nrf l)) (l\<lparr> pl_armed := Some tx, pl_nrf := n \<rparr>)"
proof -
  have fw: "fw_invar (pl_nrf l)" using assms(1) by (simp add: pipe_inv_def)
  note f = frame_packs [OF fw assms(3)]
  obtain ms where ms: "sends sent s0 ms (pl_esp l)" "subseq (concat (map hm_reports ms) @ q (env (pl_esp l))) packed"
    using assms(1,2) by (auto simp: pipe_inv_def armed_reports_def)
  have "subseq ((concat (map hm_reports ms) @ q (env (pl_esp l))) @ frame_reports tx) (packed @ packs now (pl_nrf l))"
    unfolding f(1) by (intro list_emb_append_mono ms(2) subseq_order.refl)
  moreover have "fw_invar n" using prepare_invar [OF fw, of now later] assms(3) by simp
  ultimately show ?thesis using assms(1,2) f ms(1) by (auto simp: pipe_inv_def armed_reports_def)
qed

lemma pipe_inv_unarmed:
  assumes "pipe_inv q sent s0 packed l"
  shows "pipe_inv q sent s0 packed (l\<lparr> pl_armed := None \<rparr>)"
proof -
  obtain ms where ms: "sends sent s0 ms (pl_esp l)"
    "subseq (concat (map hm_reports ms) @ q (env (pl_esp l)) @ armed_reports l) packed"
    using assms by (auto simp: pipe_inv_def)
  have "subseq (concat (map hm_reports ms) @ q (env (pl_esp l))) packed"
    by (rule subseq_order.trans [OF _ ms(2)]) (intro subseq_prefix_swap subseq_extend subseq_order.refl)
  with assms ms(1) show ?thesis by (auto simp: pipe_inv_def armed_reports_def)
qed

lemma pipe_inv_exchange:
  assumes world: "queue_ok g q" "\<forall>r v. sent (snd (queue_send g r v)) = sent v"
    and inv: "pipe_inv q sent s0 packed l" and armed: "pl_armed l = Some tx"
    and ex: "outgoing_frame g (pl_esp l) = (tx_e, s)" "arrives tx rx" "receive_frame g rx s = (result, s')"
    and fw: "fw_invar n"
  shows "pipe_inv q sent s0 packed (l\<lparr> pl_nrf := n, pl_armed := None, pl_esp := s' \<rparr>)"
proof -
  note out = outgoing_same [OF ex(1)]
  have a: "armed_reports l = frame_reports tx" using armed by (simp add: armed_reports_def)
  note flow = receive_frame_flow [OF world ex(2), of s, unfolded ex(3) snd_conv]
  have f: "subseq (q (env s')) (q (env (pl_esp l)) @ armed_reports l)" "sent (env s') = sent (env (pl_esp l))"
    "set (q (env s')) \<subseteq> set (q (env (pl_esp l)) @ armed_reports l)"
    using flow out a by simp_all
  obtain ms where ms: "sends sent s0 ms (pl_esp l)"
    "subseq (concat (map hm_reports ms) @ q (env (pl_esp l)) @ armed_reports l) packed"
    using inv by (auto simp: pipe_inv_def)
  have "sends sent (pl_esp l) [] s'"
    using f(2) receive_frame_frame [of g rx s] out ex(3) by (intro sends_none) simp_all
  then have "sends sent s0 ms s'" using sends_trans [OF ms(1), of "[]" s'] by simp
  moreover have "subseq (concat (map hm_reports ms) @ q (env s')) packed"
    by (rule subseq_order.trans [OF subseq_prefix_swap [OF f(1)] ms(2)])
  moreover have "gw_gateway_id s' = gw_gateway_id (pl_esp l)"
    using receive_frame_frame(2) [of g rx s] out ex(3) by simp
  moreover have "\<forall>r \<in> set (q (env s')). length r = 64" using f(3) inv by (auto simp: pipe_inv_def)
  ultimately show ?thesis using inv fw by (auto simp: pipe_inv_def armed_reports_def)
qed

lemma pipe_step_inv:
  assumes rad: "radio_ok p rx" and world: "queue_ok g q" "udp_recorded g sent"
      "\<forall>r v. sent (snd (queue_send g r v)) = sent v"
    and step: "pipe_step p g config q sent l packed' l'" and inv: "pipe_inv q sent s0 packed l"
  shows "pipe_inv q sent s0 (packed @ packed') l'"
proof -
  have fw: "fw_invar (pl_nrf l)" and len: "length (gw_gateway_id (pl_esp l)) = 6"
    and sized: "\<forall>r \<in> set (q (env (pl_esp l))). length r = 64"
    using inv by (simp_all add: pipe_inv_def)
  from step show ?thesis
  proof (cases rule: pipe_step.cases)
    case (pipe_radio rx_received n)
    then show ?thesis using pipe_inv_nrf [OF inv] fw_step_invar [OF rad fw_radio fw] by auto
  next
    case (pipe_persist n)
    then show ?thesis using pipe_inv_nrf [OF inv] fw_step_invar [OF rad fw_persist fw] by auto
  next
    case (pipe_arm now later tx n)
    then show ?thesis using pipe_inv_arm [OF inv] by simp
  next
    case pipe_unarmed
    then show ?thesis using pipe_inv_unarmed [OF inv] by simp
  next
    case (pipe_exchange tx_n tx_e s rx_e rx_n result s')
    then show ?thesis
      using pipe_inv_exchange [OF world(1,3) inv _ _ _ _ process_invar [OF rad fw]] by simp
  next
    case (pipe_failed tx_e s)
    have "flows q sent (pl_esp l) (count_stat bs_transfer_errors_update s)"
      using outgoing_same [OF pipe_failed(3)] by (intro flows_same) (simp_all add: count_stat_def)
    then show ?thesis using pipe_failed pipe_inv_flows [OF inv] by simp
  next
    case (pipe_offline waited s)
    then show ?thesis using pipe_inv_flows [OF inv flows_offline [OF world(1,2)]] by simp
  next
    case (pipe_start junk opened e s)
    then have "flows q sent (pl_esp l) s"
      using flows_start [OF world(1,2), of "pl_esp l" config junk opened] by simp
    then show ?thesis using pipe_start pipe_inv_flows [OF pipe_inv_session [OF inv]] by simp
  next
    case (pipe_turn e e' s)
    then show ?thesis
      using pipe_inv_flows [OF pipe_inv_session [OF inv]] flows_turn [OF world(1,2) len sized] by simp
  next
    case pipe_close
    then show ?thesis using pipe_inv_session [OF inv] by simp
  next
    case (pipe_other s)
    then show ?thesis using pipe_inv_flows [OF inv flows_same] by simp
  qed
qed

lemma pipe_run_inv:
  assumes "radio_ok p rx" and "queue_ok g q" and "udp_recorded g sent" and "\<forall>r v. sent (snd (queue_send g r v)) = sent v"
    and "pipe_run p g config q sent l packed l'" and "pipe_inv q sent s0 [] l"
  shows "pipe_inv q sent s0 packed l'"
  using assms(5,6) by (induction rule: pipe_run.induct) (auto dest: pipe_step_inv [OF assms(1-4)])

section \<open>The host's end\<close>

text \<open>A pipeline before its first datagram: nothing armed, nothing queued, the gateway's counter at 0.\<close>

definition pipe_start_state ::
    "('v \<Rightarrow> byte list list) \<Rightarrow> ('v \<Rightarrow> (sockaddr_in \<times> byte list) list) \<Rightarrow> ('w, 'v) pipeline \<Rightarrow> bool" where
  "pipe_start_state q sent l \<longleftrightarrow> fw_invar (pl_nrf l) \<and> pl_armed l = None \<and>
     length (gw_gateway_id (pl_esp l)) = 6 \<and> q (env (pl_esp l)) = [] \<and> sent (env (pl_esp l)) = [] \<and>
     gw_sequence (pl_esp l) = 0"

lemma pipe_start_inv: "pipe_start_state q sent l \<Longrightarrow> pipe_inv q sent (pl_esp l) [] l"
  by (auto simp: pipe_start_state_def pipe_inv_def armed_reports_def intro!: exI [of _ "[]"] sends_none)

text \<open>
  A message is the gateway's \<open>n\<close>-th datagram. The host may read it late, more than once or not at
  all.
\<close>

definition was_sent :: "(sockaddr_in \<times> byte list) list \<Rightarrow> nat \<Rightarrow> gateway_message \<Rightarrow> bool" where
  "was_sent ds n m \<longleftrightarrow> n < length ds \<and> host_decode (snd (ds ! n)) = Inr m"

lemma sends_was_sent:
  assumes "sends sent s0 ms s" and "sent (env s0) = []" and "gw_sequence s0 = 0"
  shows "was_sent (sent (env s)) n m \<longleftrightarrow> n < length ms \<and> ms ! n = m"
    and "was_sent (sent (env s)) n m \<Longrightarrow> hm_gateway_id m = gateway_key s0 \<and> hm_boot_id m = gw_boot_id s0 \<and>
      hm_sequence m = of_nat n"
proof -
  obtain ds where ds: "sent (env s) = ds" "map (\<lambda>d. host_decode (snd d)) ds = map Inr ms"
    using assms(1,2) by (auto simp: sends_def)
  have len: "length ds = length ms" using map_eq_imp_length_eq [OF ds(2)] .
  have "host_decode (snd (ds ! n)) = Inr (ms ! n)" if "n < length ms" for n
    using arg_cong [OF ds(2), of "\<lambda>xs. xs ! n"] that len by simp
  then show *: "was_sent (sent (env s)) n m \<longleftrightarrow> n < length ms \<and> ms ! n = m"
    using len by (auto simp: was_sent_def ds(1))
  show "was_sent (sent (env s)) n m \<Longrightarrow> hm_gateway_id m = gateway_key s0 \<and> hm_boot_id m = gw_boot_id s0 \<and>
      hm_sequence m = of_nat n"
    using assms(1,3) unfolding * by (auto simp: sends_def)
qed

lemma host_order:
  assumes run: "radio_ok p rx" "queue_ok g q" "udp_recorded g sent" "\<forall>r v. sent (snd (queue_send g r v)) = sent v"
      "pipe_start_state q sent l" "pipe_run p g config q sent l packed l'"
    and gate: "unretired_boot (gateway_key (pl_esp l)) (gw_boot_id (pl_esp l)) gate"
    and inbox: "\<forall>m \<in> set inbox. batch_of (gateway_key (pl_esp l)) m \<longrightarrow> was_sent (sent (env (pl_esp l'))) (number m) m"
    and near: "\<forall>m \<in> set inbox. \<forall>m' \<in> set inbox. batch_of (gateway_key (pl_esp l)) m \<and>
      batch_of (gateway_key (pl_esp l)) m' \<longrightarrow> number m < number m' + 2 ^ 31"
  shows "subseq (concat (map hm_reports (filter (batch_of (gateway_key (pl_esp l))) (passed gate_accept gate inbox)))) packed"
proof -
  let ?start = "pl_esp l" and ?s = "pl_esp l'" and ?b = "batch_of (gateway_key (pl_esp l))"
  obtain ms where ms: "sends sent ?start ms ?s" "subseq (concat (map hm_reports ms) @ q (env ?s) @ armed_reports l') packed"
    using pipe_run_inv [OF run(1-4,6) pipe_start_inv [OF run(5)]] by (auto simp: pipe_inv_def)
  have "sent (env ?start) = []" "gw_sequence ?start = 0" using run(5) by (simp_all add: pipe_start_state_def)
  note was = sends_was_sent [OF ms(1) this]
  have numbered: "\<forall>m \<in> set inbox. ?b m \<longrightarrow> hm_boot_id m = gw_boot_id ?start \<and> hm_sequence m = of_nat (number m)"
    using inbox was(2) by blast
  let ?out = "filter ?b (passed gate_accept gate inbox)"
  have nums: "map number ?out = new_numbers (map number (filter ?b inbox))"
    by (rule first_batch.passed_new [OF gate batches_start_live [OF numbered near]])
  have sub: "set ?out \<subseteq> set (filter ?b inbox)"
    using passed_subset [of gate_accept gate inbox] by auto
  have "map ((!) ms) (map number ?out) = ?out"
    using sub inbox was(1) by (auto intro!: map_idI)
  moreover have "subseq (map ((!) ms) (map number ?out)) ms"
  proof (rule subseq_increasing)
    show "sorted_wrt (<) (map number ?out)" unfolding nums by (rule new_numbers_sorted)
    show "\<forall>n \<in> set (map number ?out). n < length ms" using sub inbox was(1) by auto
  qed
  ultimately have "subseq (concat (map hm_reports ?out)) (concat (map hm_reports ms))"
    using subseq_concat by fastforce
  also have "subseq \<dots> (concat (map hm_reports ms) @ q (env ?s) @ armed_reports l')"
    by (rule subseq_extend) simp
  also note ms(2)
  finally show ?thesis .
qed

end
