(* ===== verification/Host_Output.thy ===== *)
theory Host_Output
  imports Host_Hub
begin

text \<open>
  The output of the host bridge, \<open>bridge/src/slimevr.rs\<close>: every tracker is a UDP connection of its own
  to the SlimeVR server, with a handshake, timeouts, telemetry and numbered packets. The datagrams a
  connection has handed to its socket are kept in a log with the result of each; \<open>ok\<close> tells, from the
  tracker's address and that log, whether the socket takes the next one. What the socket receives is
  an input. Instants are nanoseconds, their difference does not become negative. The arithmetic of \<open>f32\<close> (IEEE 754, with the square root, the
  sine and the cosine of the platform) is the parameter \<open>f32_ops\<close>; text on the console is left out.
\<close>

section \<open>Single precision numbers\<close>

record 'f f32_ops =
  f32_of_int :: "int \<Rightarrow> 'f"
  f32_epsilon :: 'f
  f32_frac_pi_2 :: 'f
  f32_add :: "'f \<Rightarrow> 'f \<Rightarrow> 'f"
  f32_sub :: "'f \<Rightarrow> 'f \<Rightarrow> 'f"
  f32_mul :: "'f \<Rightarrow> 'f \<Rightarrow> 'f"
  f32_div :: "'f \<Rightarrow> 'f \<Rightarrow> 'f"
  f32_sqrt :: "'f \<Rightarrow> 'f"
  f32_sin :: "'f \<Rightarrow> 'f"
  f32_cos :: "'f \<Rightarrow> 'f"
  f32_round :: "'f \<Rightarrow> 'f"
  f32_clamp :: "'f \<Rightarrow> 'f \<Rightarrow> 'f \<Rightarrow> 'f"
  f32_to_i16 :: "'f \<Rightarrow> 16 word"
  f32_to_be_bytes :: "'f \<Rightarrow> byte list"

section \<open>State\<close>

type_synonym instant = int

definition duration_since :: "instant \<Rightarrow> instant \<Rightarrow> int" where
  "duration_since now t = max 0 (now - t)"

abbreviation (input) PROTOCOL_VERSION :: u32 where "PROTOCOL_VERSION \<equiv> 22"
abbreviation (input) HANDSHAKE_INTERVAL :: instant where "HANDSHAKE_INTERVAL \<equiv> 1000000000"
abbreviation (input) SERVER_TIMEOUT :: instant where "SERVER_TIMEOUT \<equiv> 3000000000"
abbreviation (input) HEARTBEAT_INTERVAL :: instant where "HEARTBEAT_INTERVAL \<equiv> 1000000000"
abbreviation (input) AUX_INTERVAL :: instant where "AUX_INTERVAL \<equiv> 1000000000"
abbreviation (input) RSSI_INTERVAL :: instant where "RSSI_INTERVAL \<equiv> 250000000"
abbreviation (input) TRACKER_INPUT_TIMEOUT :: instant where "TRACKER_INPUT_TIMEOUT \<equiv> 3000000000"

abbreviation (input) PACKET_HEARTBEAT :: u32 where "PACKET_HEARTBEAT \<equiv> 0"
abbreviation (input) PACKET_HANDSHAKE :: u32 where "PACKET_HANDSHAKE \<equiv> 3"
abbreviation (input) PACKET_PING_PONG :: u32 where "PACKET_PING_PONG \<equiv> 10"
abbreviation (input) PACKET_BATTERY_LEVEL :: u32 where "PACKET_BATTERY_LEVEL \<equiv> 12"
abbreviation (input) PACKET_TAP :: u32 where "PACKET_TAP \<equiv> 13"
abbreviation (input) PACKET_SENSOR_INFO :: u32 where "PACKET_SENSOR_INFO \<equiv> 15"
abbreviation (input) PACKET_ROTATION_DATA :: u32 where "PACKET_ROTATION_DATA \<equiv> 17"
abbreviation (input) PACKET_SIGNAL_STRENGTH :: u32 where "PACKET_SIGNAL_STRENGTH \<equiv> 19"
abbreviation (input) PACKET_TEMPERATURE :: u32 where "PACKET_TEMPERATURE \<equiv> 20"
abbreviation (input) PACKET_ROTATION_AND_ACCELERATION :: u32 where "PACKET_ROTATION_AND_ACCELERATION \<equiv> 23"

record tracker_info =
  ti_board_type :: u32
  ti_mcu_type :: u32
  ti_imu_type :: byte
  ti_firmware :: string

record 'f telemetry =
  tl_battery_level :: "'f option"
  tl_battery_voltage :: "'f option"
  tl_temperature :: "'f option"
  tl_rssi :: "32 word option"
  tl_status :: byte
  tl_button :: "byte option"

record 'f tracker_connection =
  tc_address :: u64
  tc_log :: "(byte list \<times> bool) list"
  tc_packet_number :: u64
  tc_confirmed :: bool
  tc_info :: "tracker_info option"
  tc_telemetry :: "'f telemetry"
  tc_last_handshake :: "instant option"
  tc_last_server_packet :: "instant option"
  tc_last_outbound :: "instant option"
  tc_last_aux :: "instant option"
  tc_last_rssi :: "instant option"
  tc_last_input :: "instant option"
  tc_input_active :: bool

type_synonym 'f slimevr_output = "u64 \<rightharpoonup> 'f tracker_connection"

type_synonym socket_rule = "u64 \<Rightarrow> (byte list \<times> bool) list \<Rightarrow> byte list \<Rightarrow> bool"

definition connection_new :: "u64 \<Rightarrow> 'f tracker_connection" where
  "connection_new address = \<lparr> tc_address = address, tc_log = [], tc_packet_number = 1, tc_confirmed = False,
     tc_info = None, tc_telemetry = \<lparr> tl_battery_level = None, tl_battery_voltage = None,
       tl_temperature = None, tl_rssi = None, tl_status = 1, tl_button = None \<rparr>,
     tc_last_handshake = None, tc_last_server_packet = None, tc_last_outbound = None, tc_last_aux = None,
     tc_last_rssi = None, tc_last_input = None, tc_input_active = False \<rparr>"

text \<open>The operator \<open>?\<close>: a step is taken only if the one before succeeded.\<close>

definition ok_then :: "bool \<times> 's \<Rightarrow> ('s \<Rightarrow> bool \<times> 's) \<Rightarrow> bool \<times> 's" where
  "ok_then r f = (if fst r then f (snd r) else r)"

lemma ok_then_simps [simp]: "ok_then (True, s) f = f s" "ok_then (False, s) f = (False, s)"
  by (simp_all add: ok_then_def)

text \<open>An instant at least \<open>interval\<close> ago.\<close>

definition elapsed :: "instant option \<Rightarrow> instant \<Rightarrow> instant \<Rightarrow> bool" where
  "elapsed last_time now interval = (case last_time of None \<Rightarrow> False | Some t \<Rightarrow> interval \<le> duration_since now t)"

section \<open>Packets\<close>

definition to_be :: "nat \<Rightarrow> 'a::len word \<Rightarrow> byte list" where
  "to_be n w = rev (le_of_word n w)"

lemma length_to_be [simp]: "length (to_be n w) = n"
  by (simp add: to_be_def)

definition numbered_packet_header :: "u32 \<Rightarrow> u64 \<Rightarrow> byte list" where
  "numbered_packet_header packet_id packet_number = to_be 4 packet_id @ to_be 8 packet_number"

definition numbered_packet :: "u32 \<Rightarrow> u64 \<Rightarrow> byte list \<Rightarrow> byte list" where
  "numbered_packet packet_id packet_number payload = numbered_packet_header packet_id packet_number @ payload"

definition handshake_packet :: "u64 \<Rightarrow> tracker_info \<Rightarrow> byte list" where
  "handshake_packet address info =
    (let firmware = map (\<lambda>c. of_nat (of_char c)) (ti_firmware info) :: byte list;
         firmware_length = min (length firmware) 253 in
     numbered_packet_header PACKET_HANDSHAKE 0 @
     concat (map (to_be 4) [ti_board_type info, ucast (ti_imu_type info), ti_mcu_type info, 0, 0, 0, PROTOCOL_VERSION]) @
     [of_nat (firmware_length + 1)] @ take firmware_length firmware @ [0] @
     map (\<lambda>shift. ucast (drop_bit shift address)) [40, 32, 24, 16, 8, 0])"

text \<open>\<open>format!\<close> of a number in decimal.\<close>

fun decimal :: "nat \<Rightarrow> string" where
  "decimal n = (if n < 10 then [char_of (48 + n)] else decimal (n div 10) @ [char_of (48 + n mod 10)])"

declare decimal.simps [simp del]

definition parse_tracker_info :: "byte list \<Rightarrow> tracker_info" where
  "parse_tracker_info data = \<lparr> ti_board_type = ucast (data ! 5), ti_mcu_type = ucast (data ! 6),
     ti_imu_type = data ! 8,
     ti_firmware = ''Smol Receiver Bridge/'' @ decimal (unat (data ! 12)) @ ''.'' @ decimal (unat (data ! 13)) @
       ''.'' @ decimal (unat (data ! 14)) \<rparr>"

definition map_hid_status :: "byte \<Rightarrow> byte" where
  "map_hid_status status = (if status = 0 then 0 else if status = 3 then 2 else 1)"

text \<open>\<open>i16::from_le_bytes\<close> at an offset.\<close>

definition i16_at :: "byte list \<Rightarrow> nat \<Rightarrow> 16 word" where
  "i16_at data offset = word_of_le [data ! offset, data ! (offset + 1)]"

definition full_rotation_acceleration_payload :: "byte list \<Rightarrow> byte list" where
  "full_rotation_acceleration_payload data =
    0 # concat (map (\<lambda>offset. to_be 2 (i16_at data offset)) [2, 4, 6, 8, 10, 12, 14])"

definition reduced_quaternion :: "'f f32_ops \<Rightarrow> u32 \<Rightarrow> 'f list" where
  "reduced_quaternion f q_buffer =
    (let num = f32_of_int f; times = f32_mul f;
         scaled = (\<lambda>q d. f32_sub f (times (f32_div f (num (uint q)) (num d)) (num 2)) (num 1));
         v0 = scaled (q_buffer AND 1023) 1024;
         v1 = scaled (drop_bit 10 q_buffer AND 2047) 2048;
         v2 = scaled (drop_bit 21 q_buffer AND 2047) 2048;
         d = f32_add f (f32_add f (f32_add f (num 0) (times v0 v0)) (times v1 v1)) (times v2 v2);
         inv_sqrt_d = f32_div f (num 1) (f32_sqrt f (f32_add f d (f32_epsilon f)));
         angle = times (times (f32_frac_pi_2 f) d) inv_sqrt_d;
         k = times (f32_sin f angle) inv_sqrt_d
     in [times k v0, times k v1, times k v2, f32_cos f angle])"

definition reduced_rotation_acceleration_payload :: "'f f32_ops \<Rightarrow> byte list \<Rightarrow> byte list" where
  "reduced_rotation_acceleration_payload f data =
    (let quaternion = reduced_quaternion f (word_of_le [data ! 5, data ! 6, data ! 7, data ! 8]);
         q15 = (\<lambda>x. f32_to_i16 f (f32_clamp f (f32_round f (f32_mul f x (f32_of_int f 32768)))
           (f32_of_int f (- 32768)) (f32_of_int f 32767)))
     in 0 # concat (map (\<lambda>x. to_be 2 (q15 x)) quaternion) @
       concat (map (\<lambda>offset. to_be 2 (i16_at data offset)) [9, 11, 13]))"

definition full_rotation_payload :: "'f f32_ops \<Rightarrow> byte list \<Rightarrow> byte list" where
  "full_rotation_payload f data =
    [0, 1] @ concat (map (\<lambda>offset. f32_to_be_bytes f
      (f32_div f (f32_of_int f (sint (i16_at data offset))) (f32_of_int f 32768))) [2, 4, 6, 8]) @ [0]"

section \<open>Sending\<close>

definition socket_send :: "socket_rule \<Rightarrow> byte list \<Rightarrow> 'f tracker_connection \<Rightarrow> bool \<times> 'f tracker_connection" where
  "socket_send ok packet c =
    (let sent = ok (tc_address c) (tc_log c) packet in (sent, c\<lparr> tc_log := tc_log c @ [(packet, sent)] \<rparr>))"

definition send_packet ::
    "socket_rule \<Rightarrow> u32 \<Rightarrow> byte list \<Rightarrow> instant \<Rightarrow> 'f tracker_connection \<Rightarrow> bool \<times> 'f tracker_connection" where
  "send_packet ok packet_id payload now c =
    (let packet = numbered_packet packet_id (tc_packet_number c) payload;
         c = c\<lparr> tc_packet_number := max (tc_packet_number c + 1) 1 \<rparr>
     in ok_then (socket_send ok packet c) (\<lambda>c. (True, c\<lparr> tc_last_outbound := Some now \<rparr>)))"

definition send_sensor_info ::
    "socket_rule \<Rightarrow> instant \<Rightarrow> 'f tracker_connection \<Rightarrow> bool \<times> 'f tracker_connection" where
  "send_sensor_info ok now c =
    (case tc_info c of None \<Rightarrow> (True, c)
     | Some info \<Rightarrow> send_packet ok PACKET_SENSOR_INFO [0, tl_status (tc_telemetry c), ti_imu_type info] now c)"

definition send_aux ::
    "'f f32_ops \<Rightarrow> socket_rule \<Rightarrow> instant \<Rightarrow> 'f tracker_connection \<Rightarrow> bool \<times> 'f tracker_connection" where
  "send_aux f ok now c =
    ok_then (case tl_battery_level (tc_telemetry c) of None \<Rightarrow> (True, c)
       | Some level \<Rightarrow> send_packet ok PACKET_BATTERY_LEVEL
           (f32_to_be_bytes f (case tl_battery_voltage (tc_telemetry c) of None \<Rightarrow> f32_of_int f 0 | Some v \<Rightarrow> v) @
            f32_to_be_bytes f level) now c) (\<lambda>c.
    ok_then (case tl_temperature (tc_telemetry c) of None \<Rightarrow> (True, c)
       | Some temperature \<Rightarrow> send_packet ok PACKET_TEMPERATURE (0 # f32_to_be_bytes f temperature) now c) (\<lambda>c.
    (True, c\<lparr> tc_last_aux := Some now \<rparr>)))"

definition send_rssi ::
    "socket_rule \<Rightarrow> instant \<Rightarrow> 'f tracker_connection \<Rightarrow> bool \<times> 'f tracker_connection" where
  "send_rssi ok now c =
    ok_then (case tl_rssi (tc_telemetry c) of None \<Rightarrow> (True, c)
       | Some rssi \<Rightarrow> send_packet ok PACKET_SIGNAL_STRENGTH (0 # to_be 4 rssi) now c) (\<lambda>c.
    (True, c\<lparr> tc_last_rssi := Some now \<rparr>))"

definition send_button_if_changed ::
    "socket_rule \<Rightarrow> byte \<Rightarrow> instant \<Rightarrow> 'f tracker_connection \<Rightarrow> bool \<times> 'f tracker_connection" where
  "send_button_if_changed ok button now c =
    (let previous = (case tl_button (tc_telemetry c) of None \<Rightarrow> 0 | Some b \<Rightarrow> b);
         changed = button AND NOT previous;
         c = c\<lparr> tc_telemetry := (tc_telemetry c)\<lparr> tl_button := Some button \<rparr> \<rparr>;
         action = changed AND 3
     in if action \<noteq> 0 then send_packet ok PACKET_TAP [0, action] now c else (True, c))"

definition ensure_handshake ::
    "socket_rule \<Rightarrow> instant \<Rightarrow> 'f tracker_connection \<Rightarrow> bool \<times> 'f tracker_connection" where
  "ensure_handshake ok now c =
    (case tc_info c of None \<Rightarrow> (True, c)
     | Some info \<Rightarrow>
         if tc_confirmed c \<or> \<not> tc_input_active c \<or>
           (case tc_last_handshake c of None \<Rightarrow> False | Some t \<Rightarrow> duration_since now t < HANDSHAKE_INTERVAL)
         then (True, c)
         else ok_then (socket_send ok (handshake_packet (tc_address c) info) c)
           (\<lambda>c. (True, c\<lparr> tc_last_handshake := Some now \<rparr>)))"

section \<open>A record\<close>

definition update_telemetry ::
    "'f f32_ops \<Rightarrow> byte list \<Rightarrow> record_metadata option \<Rightarrow> 'f telemetry \<Rightarrow> 'f telemetry" where
  "update_telemetry f data metadata t =
    (let num = f32_of_int f;
         t = (if data ! 0 = 0 \<or> data ! 0 = 2 then
                t\<lparr> tl_battery_level := Some (if data ! 2 = 128 then num (- 1)
                     else f32_div f (num (uint (data ! 2 AND 127))) (num 100)),
                   tl_battery_voltage := Some (f32_div f (f32_add f (num (uint (data ! 3))) (num 245)) (num 100)),
                   tl_temperature := (if data ! 4 > 0
                     then Some (f32_sub f (f32_div f (num (uint (data ! 4))) (num 2)) (num 39)) else None) \<rparr>
              else if data ! 0 = 3 then t\<lparr> tl_status := map_hid_status (data ! 2) \<rparr>
              else t);
         rssi = (case metadata of Some m \<Rightarrow> Some (rm_rssi m)
           | None \<Rightarrow> if data ! 0 \<in> {0, 2, 3, 6, 7} then Some (data ! 15) else None)
     in case rssi of None \<Rightarrow> t | Some rssi \<Rightarrow> t\<lparr> tl_rssi := Some (- ucast rssi) \<rparr>)"

text \<open>What \<open>process\<close> does once the connection is confirmed, the match on the record's type first.\<close>

definition send_by_type ::
    "'f f32_ops \<Rightarrow> socket_rule \<Rightarrow> byte list \<Rightarrow> instant \<Rightarrow> 'f tracker_connection \<Rightarrow> bool \<times> 'f tracker_connection" where
  "send_by_type f ok data now c =
    (let kind = data ! 0 in
     if kind = 0 then send_sensor_info ok now c
     else if kind = 1 then
       send_packet ok PACKET_ROTATION_AND_ACCELERATION (full_rotation_acceleration_payload data) now c
     else if kind = 2 \<or> kind = 7 then
       send_packet ok PACKET_ROTATION_AND_ACCELERATION (reduced_rotation_acceleration_payload f data) now c
     else if kind = 3 then send_sensor_info ok now c
     else if kind = 4 then send_packet ok PACKET_ROTATION_DATA (full_rotation_payload f data) now c
     else if kind = 6 then send_button_if_changed ok (data ! 2) now c
     else (True, c))"

definition forward_record ::
    "'f f32_ops \<Rightarrow> socket_rule \<Rightarrow> byte list \<Rightarrow> bool \<Rightarrow> instant \<Rightarrow> 'f tracker_connection \<Rightarrow> bool \<times> 'f tracker_connection" where
  "forward_record f ok data resumed now c =
    ok_then (if resumed then send_sensor_info ok now c else (True, c)) (\<lambda>c.
    ok_then (send_by_type f ok data now c) (\<lambda>c.
    ok_then (if data ! 0 = 7 then send_button_if_changed ok (data ! 2) now c else (True, c)) (\<lambda>c.
    ok_then (if tc_last_aux c = None \<or> elapsed (tc_last_aux c) now AUX_INTERVAL \<or> data ! 0 = 0
      then send_aux f ok now c else (True, c)) (\<lambda>c.
    if tc_last_rssi c = None \<or> elapsed (tc_last_rssi c) now RSSI_INTERVAL then send_rssi ok now c else (True, c)))))"

text \<open>\<open>note_record\<close> is what \<open>process\<close> does before the handshake.\<close>

definition note_record ::
    "'f f32_ops \<Rightarrow> byte list \<Rightarrow> record_metadata option \<Rightarrow> instant \<Rightarrow> 'f tracker_connection \<Rightarrow> 'f tracker_connection" where
  "note_record f data metadata now c =
    (let resumed = \<not> tc_input_active c;
         c = c\<lparr> tc_input_active := True, tc_last_input := Some now \<rparr>;
         c = (if resumed \<and> data ! 0 \<noteq> 3 then c\<lparr> tc_telemetry := (tc_telemetry c)\<lparr> tl_status := 1 \<rparr> \<rparr> else c);
         c = (if data ! 0 = 0 then c\<lparr> tc_info := Some (parse_tracker_info data) \<rparr> else c)
     in c\<lparr> tc_telemetry := update_telemetry f data metadata (tc_telemetry c) \<rparr>)"

definition connection_process ::
    "'f f32_ops \<Rightarrow> socket_rule \<Rightarrow> report_record \<Rightarrow> instant \<Rightarrow> 'f tracker_connection \<Rightarrow> bool \<times> 'f tracker_connection" where
  "connection_process f ok record now c =
    (let data = rr_data record; resumed = \<not> tc_input_active c in
     ok_then (ensure_handshake ok now (note_record f data (rr_metadata record) now c)) (\<lambda>c.
     if \<not> tc_confirmed c then (True, c) else forward_record f ok data resumed now c))"

section \<open>A tick\<close>

text \<open>\<open>b"Hey OVR =D 5"\<close>\<close>

definition server_greeting :: "byte list" where
  "server_greeting = map (\<lambda>c. of_nat (of_char c)) ''Hey OVR =D 5''"

text \<open>One datagram of the server.\<close>

definition server_packet ::
    "'f f32_ops \<Rightarrow> socket_rule \<Rightarrow> instant \<Rightarrow> byte list \<Rightarrow> 'f tracker_connection \<Rightarrow> bool \<times> 'f tracker_connection" where
  "server_packet f ok now input c =
    (let c = c\<lparr> tc_last_server_packet := Some now \<rparr> in
     if 13 \<le> length input \<and> input ! 0 = 3 \<and> bslice 1 12 input = server_greeting then
       (if \<not> tc_confirmed c then
          ok_then (send_sensor_info ok now (c\<lparr> tc_confirmed := True \<rparr>)) (send_aux f ok now)
        else (True, c))
     else if tc_input_active c \<and> 16 \<le> length input \<and> word_of_le (rev (take 4 input)) = PACKET_PING_PONG then
       send_packet ok PACKET_PING_PONG (bslice 12 4 input) now c
     else (True, c))"

text \<open>
  \<open>inbox\<close> is what \<open>recv\<close> returns until it would block, \<open>None\<close> an error of it; the buffer holds 256
  bytes.
\<close>

primrec poll_server ::
    "'f f32_ops \<Rightarrow> socket_rule \<Rightarrow> instant \<Rightarrow> byte list option list \<Rightarrow> 'f tracker_connection \<Rightarrow>
     bool \<times> 'f tracker_connection" where
  "poll_server f ok now [] c = (True, c)"
| "poll_server f ok now (received # inbox) c =
    (case received of None \<Rightarrow> (False, c)
     | Some bytes \<Rightarrow> ok_then (server_packet f ok now (take 256 bytes) c) (poll_server f ok now inbox))"

definition expire_input :: "socket_rule \<Rightarrow> instant \<Rightarrow> 'f tracker_connection \<Rightarrow> bool \<times> 'f tracker_connection" where
  "expire_input ok now c =
    (if tc_input_active c \<and> elapsed (tc_last_input c) now TRACKER_INPUT_TIMEOUT then
      (let c = c\<lparr> tc_input_active := False, tc_telemetry := (tc_telemetry c)\<lparr> tl_status := 0 \<rparr> \<rparr>
       in if tc_confirmed c then send_sensor_info ok now c else (True, c))
     else (True, c))"

definition expire_server :: "instant \<Rightarrow> 'f tracker_connection \<Rightarrow> 'f tracker_connection" where
  "expire_server now c =
    (if tc_confirmed c \<and> elapsed (tc_last_server_packet c) now SERVER_TIMEOUT
     then c\<lparr> tc_confirmed := False, tc_last_handshake := None \<rparr> else c)"

definition heartbeat :: "socket_rule \<Rightarrow> instant \<Rightarrow> 'f tracker_connection \<Rightarrow> bool \<times> 'f tracker_connection" where
  "heartbeat ok now c =
    (if tc_confirmed c \<and> tc_input_active c \<and>
        (tc_last_outbound c = None \<or> elapsed (tc_last_outbound c) now HEARTBEAT_INTERVAL)
     then send_packet ok PACKET_HEARTBEAT [] now c else (True, c))"

definition connection_tick ::
    "'f f32_ops \<Rightarrow> socket_rule \<Rightarrow> instant \<Rightarrow> byte list option list \<Rightarrow> 'f tracker_connection \<Rightarrow>
     bool \<times> 'f tracker_connection" where
  "connection_tick f ok now inbox c =
    ok_then (poll_server f ok now inbox c) (\<lambda>c.
    ok_then (expire_input ok now c) (\<lambda>c.
    ok_then (ensure_handshake ok now (expire_server now c)) (heartbeat ok now)))"

section \<open>All trackers\<close>

text \<open>\<open>opened\<close> tells whether a new socket can be bound and connected.\<close>

definition slimevr_process ::
    "'f f32_ops \<Rightarrow> socket_rule \<Rightarrow> bool \<Rightarrow> instant \<Rightarrow> accepted_record \<Rightarrow> 'f slimevr_output \<Rightarrow> bool \<times> 'f slimevr_output" where
  "slimevr_process f ok opened now accepted out =
    (let a = ar_tracker_address accepted in
     if out a = None \<and> \<not> opened then (False, out)
     else
      (let c = (case out a of None \<Rightarrow> connection_new a | Some c \<Rightarrow> c);
           (done, c) = connection_process f ok (ar_record accepted) now c
       in (done, out(a \<mapsto> c))))"

text \<open>The trackers are independent, so the order of the map does not matter; errors are printed.\<close>

definition slimevr_tick ::
    "'f f32_ops \<Rightarrow> socket_rule \<Rightarrow> instant \<Rightarrow> (u64 \<Rightarrow> byte list option list) \<Rightarrow> 'f slimevr_output \<Rightarrow> 'f slimevr_output" where
  "slimevr_tick f ok now inbox out =
    (\<lambda>a. map_option (\<lambda>c. snd (connection_tick f ok now (inbox a) c)) (out a))"

definition tracker_count :: "'f slimevr_output \<Rightarrow> nat" where
  "tracker_count out = card (dom out)"

end
