(* ===== verification/Host_Sessions.thy ===== *)
theory Host_Sessions
  imports Host_Output
begin

text \<open>
  What the output of the host guarantees of a tracker's connection to the SlimeVR server: how its
  packets are numbered, when it greets the server and how often, what it sends before the server
  has answered, when it notices that the server or the tracker is gone, and how a sample is put on
  the wire. What all operations keep is proved once, in \<open>log_invariant\<close>.
\<close>

section \<open>What every operation keeps\<close>

text \<open>
  All datagrams go through \<open>send_packet\<close> and the handshake. What these two keep, and what depends only
  on the log, the counter and the address, every operation keeps.
\<close>

definition same_log :: "'f tracker_connection \<Rightarrow> 'f tracker_connection \<Rightarrow> bool" where
  "same_log c c' \<longleftrightarrow> tc_log c' = tc_log c \<and> tc_packet_number c' = tc_packet_number c \<and> tc_address c' = tc_address c"

locale log_invariant =
  fixes holds :: "'f tracker_connection \<Rightarrow> bool"
  assumes quiet: "holds c \<Longrightarrow> same_log c c' \<Longrightarrow> holds c'"
    and packet: "holds c \<Longrightarrow> packet_id \<noteq> PACKET_HANDSHAKE \<Longrightarrow> holds (snd (send_packet ok packet_id payload now c))"
    and handshake: "holds c \<Longrightarrow> holds (snd (socket_send ok (handshake_packet (tc_address c) info) c))"
begin

lemma then_keeps: "holds (snd r) \<Longrightarrow> (\<And>c. holds c \<Longrightarrow> holds (snd (g c))) \<Longrightarrow> holds (snd (ok_then r g))"
  by (simp add: ok_then_def)

lemma sensor_info_keeps: "holds c \<Longrightarrow> holds (snd (send_sensor_info ok now c))"
  by (auto simp: send_sensor_info_def intro: packet split: option.split)

lemma aux_keeps: "holds c \<Longrightarrow> holds (snd (send_aux f ok now c))"
  unfolding send_aux_def
  by (intro then_keeps) (auto intro: packet quiet simp: same_log_def split: option.split)

lemma rssi_keeps: "holds c \<Longrightarrow> holds (snd (send_rssi ok now c))"
  unfolding send_rssi_def
  by (intro then_keeps) (auto intro: packet quiet simp: same_log_def split: option.split)

lemma button_keeps: "holds c \<Longrightarrow> holds (snd (send_button_if_changed ok button now c))"
  by (auto simp: send_button_if_changed_def Let_def same_log_def intro!: packet intro: quiet)

lemma handshake_keeps: "holds c \<Longrightarrow> holds (snd (ensure_handshake ok now c))"
  by (auto simp: ensure_handshake_def same_log_def intro!: then_keeps handshake intro: quiet split: option.split)

lemma by_type_keeps: "holds c \<Longrightarrow> holds (snd (send_by_type f ok data now c))"
  by (simp add: send_by_type_def Let_def sensor_info_keeps packet button_keeps)

lemma forward_keeps: "holds c \<Longrightarrow> holds (snd (forward_record f ok data resumed now c))"
  unfolding forward_record_def
  by (intro then_keeps) (simp_all add: sensor_info_keeps by_type_keeps button_keeps aux_keeps rssi_keeps)

lemma same_log_note [simp]: "same_log c (note_record f data metadata now c)"
  by (simp add: same_log_def note_record_def Let_def)

lemma process_keeps: "holds c \<Longrightarrow> holds (snd (connection_process f ok record now c))"
  unfolding connection_process_def Let_def
  by (intro then_keeps handshake_keeps) (auto intro: quiet forward_keeps)

lemma server_packet_keeps: "holds c \<Longrightarrow> holds (snd (server_packet f ok now input c))"
proof -
  assume c: "holds c"
  then have 1: "holds (c\<lparr> tc_last_server_packet := Some now \<rparr>)"
    and 2: "holds (c\<lparr> tc_last_server_packet := Some now, tc_confirmed := True \<rparr>)"
    by (auto intro: quiet simp: same_log_def)
  show ?thesis
    using 1 2 by (simp add: server_packet_def Let_def then_keeps sensor_info_keeps aux_keeps packet)
qed

lemma poll_keeps: "holds c \<Longrightarrow> holds (snd (poll_server f ok now inbox c))"
  by (induction inbox arbitrary: c) (auto intro!: then_keeps server_packet_keeps split: option.split)

lemma expire_keeps: "holds c \<Longrightarrow> holds (snd (expire_input ok now c))" "holds c \<Longrightarrow> holds (expire_server now c)"
  by (auto simp: expire_input_def expire_server_def Let_def same_log_def intro!: sensor_info_keeps intro: quiet)

lemma tick_keeps: "holds c \<Longrightarrow> holds (snd (connection_tick f ok now inbox c))"
  unfolding connection_tick_def
  by (intro then_keeps poll_keeps expire_keeps handshake_keeps) (simp_all add: heartbeat_def packet)

end

section \<open>Runs of the output\<close>

datatype output_event = Record_Event bool instant accepted_record | Tick_Event instant "u64 \<Rightarrow> byte list option list"

primrec output_step :: "'f f32_ops \<Rightarrow> socket_rule \<Rightarrow> output_event \<Rightarrow> 'f slimevr_output \<Rightarrow> 'f slimevr_output" where
  "output_step f ok (Record_Event opened now accepted) out = snd (slimevr_process f ok opened now accepted out)"
| "output_step f ok (Tick_Event now inbox) out = slimevr_tick f ok now inbox out"

definition output_run :: "'f f32_ops \<Rightarrow> socket_rule \<Rightarrow> output_event list \<Rightarrow> 'f slimevr_output \<Rightarrow> 'f slimevr_output" where
  "output_run f ok = fold (output_step f ok)"

lemma output_step_at:
  "output_step f ok ev out a = (case ev of
     Record_Event opened now r \<Rightarrow>
       if ar_tracker_address r \<noteq> a \<or> out a = None \<and> \<not> opened then out a
       else Some (snd (connection_process f ok (ar_record r) now
         (case out a of None \<Rightarrow> connection_new a | Some c \<Rightarrow> c)))
   | Tick_Event now inbox \<Rightarrow> map_option (\<lambda>c. snd (connection_tick f ok now (inbox a) c)) (out a))"
  by (cases ev) (auto simp: slimevr_process_def slimevr_tick_def Let_def split_beta)

lemma output_run_inv:
  assumes "output_run f ok evs out a = Some c'" and "\<And>c. out a = Some c \<Longrightarrow> P c" and "out a = None \<Longrightarrow> P (connection_new a)"
    and "\<And>c opened now r. Record_Event opened now r \<in> set evs \<Longrightarrow> P c \<Longrightarrow> P (snd (connection_process f ok (ar_record r) now c))"
    and "\<And>c now inbox. Tick_Event now inbox \<in> set evs \<Longrightarrow> P c \<Longrightarrow> P (snd (connection_tick f ok now (inbox a) c))"
  shows "P c'"
  using assms
proof (induction evs arbitrary: out)
  case Nil
  then show ?case by (simp add: output_run_def)
next
  case (Cons ev evs)
  let ?out = "output_step f ok ev out"
  have some: "P c" if "?out a = Some c" for c
    using that Cons.prems(2-5)
    by (auto simp: output_step_at split: output_event.splits if_splits option.splits)
  have none: "out a = None" if "?out a = None"
    using that by (auto simp: output_step_at split: output_event.splits if_splits option.splits)
  show ?case
  proof (rule Cons.IH [of ?out])
    show "output_run f ok evs ?out a = Some c'" using Cons.prems(1) by (simp add: output_run_def)
    show "?out a = None \<Longrightarrow> P (connection_new a)" using none Cons.prems(3) by blast
    show "P (snd (connection_process f ok (ar_record r) now c))" if "Record_Event opened now r \<in> set evs" "P c"
      for c opened now r using that Cons.prems(4) [of opened now r c] by simp
    show "P (snd (connection_tick f ok now (inbox a) c))" if "Tick_Event now inbox \<in> set evs" "P c"
      for c now inbox using that Cons.prems(5) [of now inbox c] by simp
  qed (rule some)
qed

context log_invariant
begin

lemma run_keeps:
  "output_run f ok evs Map.empty a = Some c \<Longrightarrow> holds (connection_new a) \<Longrightarrow> holds c"
  by (erule output_run_inv) (simp_all add: process_keeps tick_keeps)

end

section \<open>Packet numbers\<close>

text \<open>What the server reads of a datagram.\<close>

definition packet_id :: "byte list \<Rightarrow> u32" where
  "packet_id packet = word_of_le (rev (take 4 packet))"

definition packet_number :: "byte list \<Rightarrow> u64" where
  "packet_number packet = word_of_le (rev (bslice 4 8 packet))"

lemma rev_to_be [simp]: "word_of_le (rev (to_be 4 (w :: u32))) = w" "word_of_le (rev (to_be 8 (v :: u64))) = v"
  by (simp_all add: to_be_def)

lemma packet_header [simp]:
  "packet_id (numbered_packet packet_id' n payload) = packet_id'"
  "packet_number (numbered_packet packet_id' n payload) = n"
  "packet_id (handshake_packet a info) = PACKET_HANDSHAKE"
  by (simp_all add: packet_id_def packet_number_def numbered_packet_def numbered_packet_header_def bslice_def
      handshake_packet_def Let_def)

definition numbered_sends :: "'f tracker_connection \<Rightarrow> byte list list" where
  "numbered_sends c = filter (\<lambda>packet. packet_id packet \<noteq> PACKET_HANDSHAKE) (map fst (tc_log c))"

text \<open>The \<open>k\<close>-th number: 1, 2, 3 and so on, and after the largest one 1 again.\<close>

definition nth_number :: "nat \<Rightarrow> u64" where
  "nth_number k = of_nat (k mod (2 ^ 64 - 1) + 1)"

lemma nth_number_next: "max (nth_number k + 1) 1 = nth_number (Suc k)"
proof (cases "k mod (2 ^ 64 - 1) = 2 ^ 64 - 2")
  case True
  have "Suc k mod (2 ^ 64 - 1) = 0" using True by (simp add: mod_Suc)
  then have "nth_number (Suc k) = 1" unfolding nth_number_def by simp
  moreover have "nth_number k = 0xffffffffffffffff" unfolding nth_number_def True by simp
  ultimately show ?thesis by simp
next
  case False
  have "k mod (2 ^ 64 - 1) < 2 ^ 64 - 1" by simp
  then have small: "k mod (2 ^ 64 - 1) + 2 < 2 ^ 64" using False by linarith
  have "Suc k mod (2 ^ 64 - 1) = k mod (2 ^ 64 - 1) + 1" using False by (simp add: mod_Suc)
  then have eq: "nth_number (Suc k) = of_nat (k mod (2 ^ 64 - 1) + 2)" by (simp add: nth_number_def)
  have "unat (of_nat (k mod (2 ^ 64 - 1) + 2) :: u64) = k mod (2 ^ 64 - 1) + 2"
    using small by (simp only: unat_of_nat) (simp add: take_bit_nat_eq_self_iff)
  then have "(1 :: u64) \<le> of_nat (k mod (2 ^ 64 - 1) + 2)" by (simp add: word_le_nat_alt)
  then show ?thesis unfolding eq by (simp add: nth_number_def max_def add.assoc)
qed

lemma nth_number_pos: "nth_number k \<noteq> 0"
proof -
  have "k mod (2 ^ 64 - 1) < 2 ^ 64 - 1" by simp
  then have "k mod (2 ^ 64 - 1) + 1 < 2 ^ 64" by linarith
  then have "unat (nth_number k) = k mod (2 ^ 64 - 1) + 1"
    unfolding nth_number_def by (simp only: unat_of_nat) (simp add: take_bit_nat_eq_self_iff)
  then show ?thesis by (auto simp: unat_eq_0)
qed

definition well_numbered :: "'f tracker_connection \<Rightarrow> bool" where
  "well_numbered c \<longleftrightarrow> map packet_number (numbered_sends c) = map nth_number [0..<length (numbered_sends c)] \<and>
     tc_packet_number c = nth_number (length (numbered_sends c))"

interpretation numbering: log_invariant well_numbered
proof
  fix c c' :: "'f tracker_connection"
  assume "well_numbered c" "same_log c c'"
  then show "well_numbered c'" by (simp add: well_numbered_def numbered_sends_def same_log_def)
next
  fix c :: "'f tracker_connection" and packet_id :: u32 and ok payload now
  assume "well_numbered c" and "packet_id \<noteq> PACKET_HANDSHAKE"
  then show "well_numbered (snd (send_packet ok packet_id payload now c))"
    by (simp add: well_numbered_def numbered_sends_def send_packet_def socket_send_def ok_then_def Let_def
        nth_number_next)
next
  fix c :: "'f tracker_connection" and ok info
  assume "well_numbered c"
  then show "well_numbered (snd (socket_send ok (handshake_packet (tc_address c) info) c))"
    by (simp add: well_numbered_def numbered_sends_def socket_send_def Let_def)
qed

lemma new_well_numbered: "well_numbered (connection_new a)"
  by (simp add: well_numbered_def numbered_sends_def connection_new_def nth_number_def)

section \<open>Sessions\<close>

text \<open>The sends that succeed when the socket takes everything.\<close>

lemma send_packet_ok:
  assumes "\<And>a log packet. ok a log packet"
  shows "send_packet ok i payload now c = (True, c\<lparr> tc_packet_number := max (tc_packet_number c + 1) 1,
      tc_log := tc_log c @ [(numbered_packet i (tc_packet_number c) payload, True)], tc_last_outbound := Some now \<rparr>)"
  using assms by (simp add: send_packet_def socket_send_def Let_def)

text \<open>
  Operations that only send leave the session alone and only add to the log, the sending of packets
  none but numbered ones.
\<close>

definition same_session :: "'f tracker_connection \<Rightarrow> 'f tracker_connection \<Rightarrow> bool" where
  "same_session c c' \<longleftrightarrow> tc_address c' = tc_address c \<and> tc_confirmed c' = tc_confirmed c \<and> tc_info c' = tc_info c \<and>
     tc_last_server_packet c' = tc_last_server_packet c \<and> tc_last_input c' = tc_last_input c \<and>
     tc_input_active c' = tc_input_active c"

definition is_handshake :: "byte list \<times> bool \<Rightarrow> bool" where
  "is_handshake entry \<longleftrightarrow> packet_id (fst entry) = PACKET_HANDSHAKE"

definition only_packets :: "'f tracker_connection \<Rightarrow> 'f tracker_connection \<Rightarrow> bool" where
  "only_packets c c' \<longleftrightarrow> same_session c c' \<and> tc_last_handshake c' = tc_last_handshake c \<and>
     (\<exists>ps. tc_log c' = tc_log c @ ps \<and> \<not> list_ex is_handshake ps)"

lemma only_packets_same: "same_session c c' \<Longrightarrow> tc_last_handshake c' = tc_last_handshake c \<Longrightarrow>
   tc_log c' = tc_log c \<Longrightarrow> only_packets c c'"
  by (simp add: only_packets_def)

lemma only_packets_refl: "only_packets c c"
  by (simp add: only_packets_same same_session_def)

lemma only_packets_trans: "only_packets c c' \<Longrightarrow> only_packets c' c'' \<Longrightarrow> only_packets c c''"
  by (auto simp: only_packets_def same_session_def)

lemma only_packets_then:
  "only_packets c (snd r) \<Longrightarrow> (\<And>c. only_packets c (snd (g c))) \<Longrightarrow> only_packets c (snd (ok_then r g))"
  by (auto simp: ok_then_def intro: only_packets_trans)

lemma only_packets_packet: "i \<noteq> PACKET_HANDSHAKE \<Longrightarrow> only_packets c (snd (send_packet ok i payload now c))"
  by (simp add: only_packets_def same_session_def send_packet_def socket_send_def ok_then_def Let_def is_handshake_def)

lemma only_packets_info: "only_packets c (snd (send_sensor_info ok now c))"
  by (simp add: send_sensor_info_def only_packets_packet only_packets_refl split: option.split)

lemma only_packets_aux: "only_packets c (snd (send_aux f ok now c))"
  unfolding send_aux_def
  by (intro only_packets_then) (auto simp: only_packets_packet only_packets_refl split: option.split,
      simp_all add: only_packets_same same_session_def)

lemma only_packets_rssi: "only_packets c (snd (send_rssi ok now c))"
  unfolding send_rssi_def
  by (intro only_packets_then) (auto simp: only_packets_packet only_packets_refl split: option.split,
      simp_all add: only_packets_same same_session_def)

lemma only_packets_button: "only_packets c (snd (send_button_if_changed ok button now c))"
proof -
  let ?c = "c\<lparr> tc_telemetry := (tc_telemetry c)\<lparr> tl_button := Some button \<rparr> \<rparr>"
  have c: "only_packets c ?c" by (simp add: only_packets_same same_session_def)
  have "only_packets c (snd (send_packet ok PACKET_TAP payload now ?c))" for payload
    by (rule only_packets_trans [OF c only_packets_packet]) simp
  with c show ?thesis by (simp add: send_button_if_changed_def Let_def)
qed

lemma only_packets_heartbeat: "only_packets c (snd (heartbeat ok now c))"
  by (simp add: heartbeat_def only_packets_packet only_packets_refl)

lemma only_packets_type: "only_packets c (snd (send_by_type f ok data now c))"
  by (simp add: send_by_type_def Let_def only_packets_info only_packets_packet only_packets_button only_packets_refl)

lemma only_packets_forward: "only_packets c (snd (forward_record f ok data resumed now c))"
  unfolding forward_record_def
  by (intro only_packets_then) (simp_all add: only_packets_info only_packets_type only_packets_button only_packets_aux
      only_packets_rssi only_packets_refl)

lemma same_session_handshake: "same_session c (snd (ensure_handshake ok now c))"
  by (simp add: ensure_handshake_def same_session_def socket_send_def ok_then_def Let_def split: option.split)

lemma only_packets_session: "only_packets c c' \<Longrightarrow> same_session c c'"
  by (simp add: only_packets_def)

text \<open>The instants of a connection are set when its flags are.\<close>

definition dated :: "'f tracker_connection \<Rightarrow> bool" where
  "dated c \<longleftrightarrow> (tc_confirmed c \<longrightarrow> tc_last_server_packet c \<noteq> None) \<and> (tc_input_active c \<longrightarrow> tc_last_input c \<noteq> None)"

lemma dated_same: "same_session c c' \<Longrightarrow> dated c' = dated c"
  by (simp add: same_session_def dated_def)

lemmas dated_packets = dated_same [OF only_packets_session]

lemma dated_process: "dated c \<Longrightarrow> dated (snd (connection_process f ok r now c))"
proof -
  let ?n = "note_record f (rr_data r) (rr_metadata r) now c"
  have "dated c \<Longrightarrow> dated ?n" by (simp add: dated_def note_record_def Let_def)
  then show "dated c \<Longrightarrow> dated (snd (connection_process f ok r now c))"
    by (simp add: connection_process_def Let_def ok_then_def dated_same [OF same_session_handshake]
        dated_packets [OF only_packets_forward])
qed

text \<open>A datagram of the server: the session may be confirmed, then only packets are sent.\<close>

lemma server_packet_session:
  "\<exists>b. (b \<longleftrightarrow> tc_confirmed c \<or> 13 \<le> length input \<and> input ! 0 = 3 \<and> bslice 1 12 input = server_greeting) \<and>
    only_packets (c\<lparr> tc_last_server_packet := Some now, tc_confirmed := b \<rparr>) (snd (server_packet f ok now input c))"
proof -
  let ?c = "c\<lparr> tc_last_server_packet := Some now \<rparr>" and ?d = "c\<lparr> tc_last_server_packet := Some now, tc_confirmed := True \<rparr>"
  have eq: "c\<lparr> tc_last_server_packet := Some now, tc_confirmed := tc_confirmed c \<rparr> = ?c" by simp
  show ?thesis
  proof (cases "13 \<le> length input \<and> input ! 0 = 3 \<and> bslice 1 12 input = server_greeting")
    case True
    then have "only_packets ?d (snd (server_packet f ok now input c))"
      using only_packets_then [OF only_packets_info only_packets_aux, of ?d ok now "\<lambda>_. f" "\<lambda>_. ok" "\<lambda>_. now"]
      by (cases "tc_confirmed c") (simp_all add: server_packet_def Let_def only_packets_same same_session_def)
    with True show ?thesis by blast
  next
    case False
    then have "only_packets ?c (snd (server_packet f ok now input c))"
      by (auto simp: server_packet_def Let_def only_packets_packet only_packets_refl)
    then have "only_packets (c\<lparr> tc_last_server_packet := Some now, tc_confirmed := tc_confirmed c \<rparr>)
        (snd (server_packet f ok now input c))" by (subst eq)
    moreover have "tc_confirmed c \<longleftrightarrow> tc_confirmed c \<or>
        13 \<le> length input \<and> input ! 0 = 3 \<and> bslice 1 12 input = server_greeting" using False by blast
    ultimately show ?thesis by blast
  qed
qed

lemma dated_server_packet: "dated c \<Longrightarrow> dated (snd (server_packet f ok now input c))"
proof -
  obtain b where "only_packets (c\<lparr> tc_last_server_packet := Some now, tc_confirmed := b \<rparr>) (snd (server_packet f ok now input c))"
    using server_packet_session by blast
  from dated_packets [OF this] show "dated c \<Longrightarrow> dated (snd (server_packet f ok now input c))" by (simp add: dated_def)
qed

lemma dated_poll: "dated c \<Longrightarrow> dated (snd (poll_server f ok now inbox c))"
  by (induction inbox arbitrary: c) (auto simp: ok_then_def dated_server_packet split: option.split)

text \<open>The input is taken to be silent, then only packets are sent.\<close>

lemma expire_input_session:
  "\<exists>b t. (b \<longleftrightarrow> tc_input_active c \<and> \<not> elapsed (tc_last_input c) now TRACKER_INPUT_TIMEOUT) \<and>
    only_packets (c\<lparr> tc_input_active := b, tc_telemetry := t \<rparr>) (snd (expire_input ok now c))"
proof (cases "tc_input_active c \<and> elapsed (tc_last_input c) now TRACKER_INPUT_TIMEOUT")
  case True
  then show ?thesis
    by (intro exI [of _ False] exI [of _ "(tc_telemetry c)\<lparr> tl_status := 0 \<rparr>"])
      (simp add: expire_input_def Let_def only_packets_info only_packets_refl)
next
  case False
  have "c\<lparr> tc_input_active := tc_input_active c, tc_telemetry := tc_telemetry c \<rparr> = c" by simp
  with False show ?thesis
    by (intro exI [of _ "tc_input_active c"] exI [of _ "tc_telemetry c"]) (auto simp: expire_input_def only_packets_refl)
qed

lemma dated_expire: "dated c \<Longrightarrow> dated (snd (expire_input ok now c))" "dated c \<Longrightarrow> dated (expire_server now c)"
proof -
  obtain b t where b: "b \<longleftrightarrow> tc_input_active c \<and> \<not> elapsed (tc_last_input c) now TRACKER_INPUT_TIMEOUT"
    and p: "only_packets (c\<lparr> tc_input_active := b, tc_telemetry := t \<rparr>) (snd (expire_input ok now c))"
    using expire_input_session [of c now ok] by (elim exE conjE)
  from b dated_packets [OF p] show "dated c \<Longrightarrow> dated (snd (expire_input ok now c))" by (simp add: dated_def)
  show "dated c \<Longrightarrow> dated (expire_server now c)" by (simp add: dated_def expire_server_def)
qed

lemma dated_tick: "dated c \<Longrightarrow> dated (snd (connection_tick f ok now inbox c))"
  by (simp add: connection_tick_def ok_then_def dated_poll dated_expire dated_same [OF same_session_handshake]
      dated_packets [OF only_packets_heartbeat])

lemma dated_new: "dated (connection_new a)"
  by (simp add: dated_def connection_new_def)

lemma dated_run: "output_run f ok evs Map.empty a = Some c \<Longrightarrow> dated c"
  by (erule output_run_inv) (simp_all add: dated_process dated_tick dated_new)

section \<open>Records on their way\<close>

text \<open>With a socket that takes everything, everything succeeds.\<close>

abbreviation (input) always :: socket_rule where "always \<equiv> \<lambda>a log packet. True"

lemma then_succeeds: "fst r \<Longrightarrow> (\<And>c. fst (g c)) \<Longrightarrow> fst (ok_then r g)"
  by (simp add: ok_then_def)

lemma packet_succeeds: "fst (send_packet always i payload now c)" "fst (send_sensor_info always now c)"
  "fst (send_button_if_changed always button now c)" "fst (ensure_handshake always now c)"
  by (simp_all add: send_packet_ok send_sensor_info_def send_button_if_changed_def ensure_handshake_def
      socket_send_def Let_def split: option.split)

lemma telemetry_succeeds: "fst (send_aux f always now c)" "fst (send_rssi always now c)"
  unfolding send_aux_def send_rssi_def
  by (intro then_succeeds; auto simp: packet_succeeds split: option.split)+

lemma forward_succeeds: "fst (forward_record f always data resumed now c)"
  unfolding forward_record_def
  by (intro then_succeeds) (auto simp: packet_succeeds telemetry_succeeds send_by_type_def Let_def)

lemma process_succeeds: "fst (connection_process f always r now c)"
  unfolding connection_process_def Let_def
  by (intro then_succeeds) (simp_all add: packet_succeeds forward_succeeds)

lemma output_succeeds: "fst (slimevr_process f always True now accepted out)"
  by (simp add: slimevr_process_def Let_def split_beta process_succeeds)

text \<open>A log only grows.\<close>

interpretation growing: log_invariant "\<lambda>c. \<exists>ps. tc_log c = base @ ps" for base
  by unfold_locales (auto simp: same_log_def send_packet_def socket_send_def ok_then_def Let_def)

lemma output_grows:
  assumes "out a = Some c"
  shows "\<exists>c' ps. snd (slimevr_process f ok opened now accepted out) a = Some c' \<and> tc_log c' = tc_log c @ ps"
  using assms growing.process_keeps [of c "tc_log c" f ok "ar_record accepted" now]
  by (auto simp: slimevr_process_def Let_def split_beta)

text \<open>A record with rotation and acceleration of a tracker that is connected and heard.\<close>

lemma motion_sent:
  assumes "tc_confirmed c" and "tc_input_active c" and "rr_data r ! 0 = 1"
  shows "\<exists>ps. tc_log (snd (connection_process f always r now c)) = tc_log c @
    (numbered_packet PACKET_ROTATION_AND_ACCELERATION (tc_packet_number c)
      (full_rotation_acceleration_payload (rr_data r)), True) # ps"
proof -
  let ?n = "note_record f (rr_data r) (rr_metadata r) now c"
  let ?p = "full_rotation_acceleration_payload (rr_data r)"
  have n: "tc_confirmed ?n" "tc_log ?n = tc_log c" "tc_packet_number ?n = tc_packet_number c"
    using assms(1) by (simp_all add: note_record_def Let_def)
  have h: "ensure_handshake always now ?n = (True, ?n)"
    using n(1) by (simp add: ensure_handshake_def split: option.split)
  let ?s = "snd (send_packet always PACKET_ROTATION_AND_ACCELERATION ?p now ?n)"
  have sent: "tc_log ?s = tc_log c @ [(numbered_packet PACKET_ROTATION_AND_ACCELERATION (tc_packet_number c) ?p, True)]"
    by (simp add: send_packet_ok n)
  have rest: "forward_record f always (rr_data r) False now ?n =
      ok_then (if tc_last_aux ?s = None \<or> elapsed (tc_last_aux ?s) now AUX_INTERVAL then send_aux f always now ?s
        else (True, ?s)) (\<lambda>c.
      if tc_last_rssi c = None \<or> elapsed (tc_last_rssi c) now RSSI_INTERVAL then send_rssi always now c else (True, c))"
    using assms(3) packet_succeeds(1) [of PACKET_ROTATION_AND_ACCELERATION ?p now ?n]
    by (simp add: forward_record_def send_by_type_def Let_def ok_then_def)
  have "\<exists>ps. tc_log (snd (forward_record f always (rr_data r) False now ?n)) = tc_log ?s @ ps"
    unfolding rest by (rule growing.then_keeps) (auto intro!: growing.aux_keeps growing.rssi_keeps)
  then show ?thesis
    using assms(2) n(1) sent by (simp add: connection_process_def Let_def h)
qed

text \<open>What the server reads of such a packet are the sample's seven numbers.\<close>

lemma motion_payload:
  "map (\<lambda>i. word_of_le (rev (bslice (1 + 2 * i) 2 (full_rotation_acceleration_payload data))) :: 16 word) [0..<7] =
   map (\<lambda>i. i16_at data (2 + 2 * i)) [0..<7]"
proof -
  have "word_of_le (rev (to_be 2 (w :: 16 word))) = w" for w by (simp add: to_be_def)
  moreover have "[0..<7] = [0, 1, 2, 3, 4, 5, 6::nat]" by (simp add: upt_rec)
  ultimately show ?thesis
    by (simp add: full_rotation_acceleration_payload_def bslice_def) (simp add: numeral_2_eq_2)
qed

text \<open>
  A stand-in for \<open>f32\<close> that counts in thousandths, and a tracker that reports its kind, is greeted by the server and then
  reports motion.
\<close>

definition ref_f32 :: "int f32_ops" where
  "ref_f32 = \<lparr> f32_of_int = (\<lambda>n. 1000 * n), f32_epsilon = 1, f32_frac_pi_2 = 1571,
     f32_add = (+), f32_sub = (-), f32_mul = (\<lambda>x y. x * y div 1000), f32_div = (\<lambda>x y. 1000 * x div y),
     f32_sqrt = (\<lambda>x. (x + 1000) div 2), f32_sin = (\<lambda>x. x), f32_cos = (\<lambda>x. 1000 - x * x div 2000),
     f32_round = (\<lambda>x. 1000 * ((x + 500) div 1000)), f32_clamp = (\<lambda>x lo hi. max lo (min x hi)),
     f32_to_i16 = (\<lambda>x. word_of_int (x div 1000)), f32_to_be_bytes = (\<lambda>x. to_be 4 (word_of_int x :: u32)) \<rparr>"

definition demo_record :: "byte \<Rightarrow> accepted_record" where
  "demo_record kind = \<lparr> ar_tracker_address = 0x123456789abc,
     ar_record = \<lparr> rr_data = [kind, 7, 1, 2, 3, 4, 5, 6, 7, 8, 9, 10, 1, 2, 3, 0], rr_metadata = None \<rparr> \<rparr>"

definition demo_events :: "output_event list" where
  "demo_events = [Record_Event True 0 (demo_record 0), Tick_Event 1 (\<lambda>a. [Some (3 # server_greeting)]),
     Record_Event True 2 (demo_record 1)]"

lemma demo_run: "\<exists>c. output_run ref_f32 ok demo_events Map.empty 0x123456789abc = Some c"
  by (simp add: output_run_def demo_events_def output_step_at demo_record_def del: output_step.simps)

section \<open>Properties\<close>

text \<open>
  C13: The packets of a tracker are numbered without a gap. Whatever records, ticks, server
  datagrams and failures of the socket there were, the packets a connection has handed to its socket,
  handshakes aside, carry the numbers 1, 2, 3 and so on in the order they were sent; after the largest
  64-bit number it is 1 again, so that no packet has the number 0, which is that of the handshake.
\<close>

theorem packets_numbered:
  assumes "output_run f ok evs Map.empty a = Some c"
  shows "map packet_number (numbered_sends c) = map nth_number [0..<length (numbered_sends c)] \<and>
    (\<forall>packet \<in> set (numbered_sends c). packet_number packet \<noteq> 0)"
proof -
  have n: "map packet_number (numbered_sends c) = map nth_number [0..<length (numbered_sends c)]"
    using numbering.run_keeps [OF assms new_well_numbered] by (simp add: well_numbered_def)
  have "packet_number packet \<noteq> 0" if "packet \<in> set (numbered_sends c)" for packet
  proof -
    have "packet_number packet \<in> set (map packet_number (numbered_sends c))" using that by simp
    then show ?thesis unfolding n using nth_number_pos by auto
  qed
  with n show ?thesis by blast
qed

theorem packets_numbered_witness:
  "\<exists>c. output_run ref_f32 always demo_events Map.empty 0x123456789abc = Some c \<and>
     map packet_number (numbered_sends c) = map nth_number [0..<length (numbered_sends c)]"
  using demo_run packets_numbered by blast

text \<open>Handshakes.\<close>

definition handshakes :: "'f tracker_connection \<Rightarrow> (byte list \<times> bool) list" where
  "handshakes c = filter is_handshake (tc_log c)"

lemma handshakes_packets:
  assumes "only_packets c c'"
  shows "handshakes c' = handshakes c" and "tc_last_handshake c' = tc_last_handshake c"
    and "tc_confirmed c' = tc_confirmed c" and "tc_last_server_packet c' = tc_last_server_packet c"
proof -
  obtain ps where "tc_log c' = tc_log c @ ps" "\<not> list_ex is_handshake ps" using assms by (auto simp: only_packets_def)
  then show "handshakes c' = handshakes c" by (auto simp: handshakes_def filter_empty_conv list_ex_iff)
  show "tc_last_handshake c' = tc_last_handshake c" "tc_confirmed c' = tc_confirmed c"
    "tc_last_server_packet c' = tc_last_server_packet c"
    using assms by (simp_all add: only_packets_def same_session_def)
qed

text \<open>
  Since the handshake at \<open>t\<close> with log \<open>hs\<close> there was no other one: the session waits for an answer,
  or has had a datagram since.
\<close>

definition since_handshake :: "instant \<Rightarrow> (byte list \<times> bool) list \<Rightarrow> 'f tracker_connection \<Rightarrow> bool" where
  "since_handshake t hs c \<longleftrightarrow> handshakes c = hs \<and>
     (if tc_confirmed c then \<exists>u. tc_last_server_packet c = Some u \<and> t \<le> u else tc_last_handshake c = Some t)"

lemma since_packets: "only_packets c c' \<Longrightarrow> since_handshake t hs c' = since_handshake t hs c"
  by (simp add: since_handshake_def handshakes_packets)

lemma since_ensure:
  assumes "since_handshake t hs c" and "now < t + HANDSHAKE_INTERVAL"
  shows "ensure_handshake ok now c = (True, c)"
  using assms by (auto simp: ensure_handshake_def since_handshake_def duration_since_def split: option.split if_splits)

lemma since_process:
  assumes "since_handshake t hs c" and "now < t + HANDSHAKE_INTERVAL"
  shows "since_handshake t hs (snd (connection_process f ok r now c))"
proof -
  let ?n = "note_record f (rr_data r) (rr_metadata r) now c"
  have n: "since_handshake t hs ?n" using assms(1) by (simp add: since_handshake_def handshakes_def note_record_def Let_def)
  then show ?thesis
    using since_packets [OF only_packets_forward, where c = ?n]
    by (simp add: connection_process_def Let_def since_ensure [OF n assms(2)])
qed

lemma since_server_packet:
  assumes "since_handshake t hs c" and "t \<le> now"
  shows "since_handshake t hs (snd (server_packet f ok now input c))"
proof -
  obtain b where b: "b \<longleftrightarrow> tc_confirmed c \<or> 13 \<le> length input \<and> input ! 0 = 3 \<and> bslice 1 12 input = server_greeting"
    and p: "only_packets (c\<lparr> tc_last_server_packet := Some now, tc_confirmed := b \<rparr>) (snd (server_packet f ok now input c))"
    using server_packet_session [of c input now f ok] by (elim exE conjE)
  have "since_handshake t hs (c\<lparr> tc_last_server_packet := Some now, tc_confirmed := b \<rparr>)"
    using assms b by (simp add: since_handshake_def handshakes_def split: if_splits)
  then show ?thesis using since_packets [OF p] by simp
qed

lemma since_poll:
  "since_handshake t hs c \<Longrightarrow> t \<le> now \<Longrightarrow> since_handshake t hs (snd (poll_server f ok now inbox c))"
  by (induction inbox arbitrary: c) (auto simp: ok_then_def since_server_packet split: option.split)

lemma since_expire_input:
  "since_handshake t hs c \<Longrightarrow> since_handshake t hs (snd (expire_input ok now c))"
proof -
  obtain b s where "only_packets (c\<lparr> tc_input_active := b, tc_telemetry := s \<rparr>) (snd (expire_input ok now c))"
    using expire_input_session [of c now ok] by (elim exE conjE)
  from since_packets [OF this] show "since_handshake t hs c \<Longrightarrow> since_handshake t hs (snd (expire_input ok now c))"
    by (simp add: since_handshake_def handshakes_def)
qed

lemma since_tick:
  assumes "since_handshake t hs c" and "t \<le> now" and "now < t + HANDSHAKE_INTERVAL"
  shows "since_handshake t hs (snd (connection_tick f ok now inbox c))"
proof -
  have server: "expire_server now c = c" if "since_handshake t hs c" for c :: "'a tracker_connection"
    using that assms(3) by (auto simp: expire_server_def since_handshake_def elapsed_def duration_since_def)
  let ?c1 = "snd (poll_server f ok now inbox c)" and ?c2 = "snd (expire_input ok now (snd (poll_server f ok now inbox c)))"
  have 1: "since_handshake t hs ?c1" using since_poll [OF assms(1,2)] .
  have 2: "since_handshake t hs ?c2" using since_expire_input [OF 1] .
  have 3: "ensure_handshake ok now (expire_server now ?c2) = (True, ?c2)"
    using since_ensure [OF 2 assms(3)] server [OF 2] by simp
  show ?thesis
    using 1 2 since_packets [OF only_packets_heartbeat [of ?c2 ok now]] by (simp add: connection_tick_def ok_then_def 3)
qed

definition event_time :: "output_event \<Rightarrow> instant" where
  "event_time ev = (case ev of Record_Event opened now r \<Rightarrow> now | Tick_Event now inbox \<Rightarrow> now)"

text \<open>
  C16: A tracker does not press the server: after a handshake the next one follows a second later at
  the earliest, whatever records arrive, whatever the server sends and even if the session is opened
  and lost in between.
\<close>

theorem handshakes_spaced:
  assumes "out a = Some c" and "tc_last_handshake c = Some t" and "\<not> tc_confirmed c"
    and "\<forall>ev \<in> set evs. t \<le> event_time ev \<and> event_time ev < t + HANDSHAKE_INTERVAL"
    and "output_run f ok evs out a = Some c'"
  shows "handshakes c' = handshakes c"
proof -
  have "since_handshake t (handshakes c) c'"
    using assms(5)
  proof (rule output_run_inv)
    fix c1 assume "out a = Some c1"
    then show "since_handshake t (handshakes c) c1" using assms(1-3) by (simp add: since_handshake_def)
  next
    fix c1 :: "'a tracker_connection" and opened now r
    assume "Record_Event opened now r \<in> set evs" "since_handshake t (handshakes c) c1"
    then show "since_handshake t (handshakes c) (snd (connection_process f ok (ar_record r) now c1))"
      using assms(4) since_process by (fastforce simp: event_time_def)
  next
    fix c1 :: "'a tracker_connection" and now inbox
    assume "Tick_Event now inbox \<in> set evs" "since_handshake t (handshakes c) c1"
    then show "since_handshake t (handshakes c) (snd (connection_tick f ok now (inbox a) c1))"
      using assms(4) since_tick by (fastforce simp: event_time_def)
  qed (use assms(1) in simp)
  then show ?thesis by (simp add: since_handshake_def)
qed

text \<open>A handshake was sent at 5; ticks and a record follow within the second.\<close>

theorem handshakes_spaced_witness:
  "\<exists>c. output_run ref_f32 always [Tick_Event 6 (\<lambda>a. [Some [3]]), Record_Event True 1000000004 (demo_record 0)]
      [0x123456789abc \<mapsto> (connection_new 0x123456789abc)\<lparr> tc_last_handshake := Some 5 \<rparr>] 0x123456789abc = Some c \<and>
    handshakes c = []"
proof -
  let ?evs = "[Tick_Event 6 (\<lambda>a. [Some [3]]), Record_Event True 1000000004 (demo_record 0)]"
  let ?a = "0x123456789abc :: u64"
  let ?c = "(connection_new ?a)\<lparr> tc_last_handshake := Some 5 \<rparr> :: int tracker_connection"
  obtain c where c: "output_run ref_f32 always ?evs [?a \<mapsto> ?c] ?a = Some c"
    by (auto simp: output_run_def output_step_at demo_record_def simp del: output_step.simps)
  have "handshakes c = handshakes ?c"
    by (rule handshakes_spaced [OF _ _ _ _ c, where t = 5]) (simp_all add: connection_new_def event_time_def)
  then show ?thesis using c by (simp add: handshakes_def connection_new_def)
qed

text \<open>A tick that succeeds, taken apart.\<close>

lemma tick_parts:
  assumes "connection_tick f ok now inbox c = (True, c')"
  obtains c1 c2 c4 where "poll_server f ok now inbox c = (True, c1)" and "expire_input ok now c1 = (True, c2)"
    and "ensure_handshake ok now (expire_server now c2) = (True, c4)" and "heartbeat ok now c4 = (True, c')"
proof -
  obtain b1 c1 where 1: "poll_server f ok now inbox c = (b1, c1)" by fastforce
  obtain b2 c2 where 2: "expire_input ok now c1 = (b2, c2)" by fastforce
  obtain b4 c4 where 4: "ensure_handshake ok now (expire_server now c2) = (b4, c4)" by fastforce
  show ?thesis using that [of c1 c2 c4] assms 1 2 4 by (auto simp: connection_tick_def ok_then_def split: if_splits)
qed

lemma poll_confirmed: "tc_confirmed c \<Longrightarrow> tc_confirmed (snd (poll_server f ok now inbox c))"
proof (induction inbox arbitrary: c)
  case (Cons r inbox)
  have "tc_confirmed (snd (server_packet f ok now input c))" for input
  proof -
    obtain b where b: "b \<longleftrightarrow> tc_confirmed c \<or> 13 \<le> length input \<and> input ! 0 = 3 \<and> bslice 1 12 input = server_greeting"
      and p: "only_packets (c\<lparr> tc_last_server_packet := Some now, tc_confirmed := b \<rparr>) (snd (server_packet f ok now input c))"
      using server_packet_session [of c input now f ok] by (elim exE conjE)
    show ?thesis using handshakes_packets(3) [OF p] b Cons.prems by simp
  qed
  then show ?case using Cons by (auto simp: ok_then_def split: option.split)
qed simp

text \<open>
  C14: Lost peers are noticed in time. After every tick that did its work the connection counts as
  confirmed only if the server was heard in the last three seconds, and its input as active only if a
  record arrived in the last three seconds; and a tick that finds the server lost while records
  arrive starts a new handshake at once.
\<close>

theorem lost_peers_noticed:
  assumes "output_run f ok evs Map.empty a = Some c" and "connection_tick f ok now inbox c = (True, c')"
  shows "(tc_confirmed c' \<longrightarrow> (\<exists>t. tc_last_server_packet c' = Some t \<and> duration_since now t < SERVER_TIMEOUT)) \<and>
    (tc_input_active c' \<longrightarrow> (\<exists>t. tc_last_input c' = Some t \<and> duration_since now t < TRACKER_INPUT_TIMEOUT)) \<and>
    (tc_confirmed c \<and> \<not> tc_confirmed c' \<and> tc_input_active c' \<longrightarrow>
      (\<forall>info. tc_info c' = Some info \<longrightarrow> last (tc_log c') = (handshake_packet (tc_address c') info, True)))"
proof -
  obtain c1 c2 c4 where t: "poll_server f ok now inbox c = (True, c1)" "expire_input ok now c1 = (True, c2)"
    "ensure_handshake ok now (expire_server now c2) = (True, c4)" "heartbeat ok now c4 = (True, c')"
    by (rule tick_parts [OF assms(2)])
  let ?c3 = "expire_server now c2"
  have "dated c1" using dated_poll [OF dated_run [OF assms(1)], of f ok now inbox] t(1) by simp
  then have d2: "dated c2" using dated_expire(1) [of c1 ok now] t(2) by simp
  have s4: "same_session ?c3 c4" using same_session_handshake [of ?c3 ok now] t(3) by simp
  have s5: "same_session c4 c'" using only_packets_session [OF only_packets_heartbeat [of c4 ok now]] t(4) by simp
  have frame: "tc_confirmed c' = tc_confirmed ?c3" "tc_last_server_packet c' = tc_last_server_packet ?c3"
    "tc_input_active c' = tc_input_active c2" "tc_last_input c' = tc_last_input c2" "tc_info c' = tc_info ?c3"
    "tc_address c' = tc_address ?c3"
    using s4 s5 by (simp_all add: same_session_def expire_server_def)
  have 1: "\<exists>t. tc_last_server_packet c' = Some t \<and> duration_since now t < SERVER_TIMEOUT" if "tc_confirmed c'"
    using that d2 by (auto simp: frame expire_server_def dated_def elapsed_def split: if_splits)
  obtain b s where b: "b \<longleftrightarrow> tc_input_active c1 \<and> \<not> elapsed (tc_last_input c1) now TRACKER_INPUT_TIMEOUT"
    and p: "only_packets (c1\<lparr> tc_input_active := b, tc_telemetry := s \<rparr>) (snd (expire_input ok now c1))"
    using expire_input_session [of c1 now ok] by (elim exE conjE)
  have c2: "tc_input_active c2 = b" "tc_last_input c2 = tc_last_input c1" "tc_confirmed c2 = tc_confirmed c1"
    using only_packets_session [OF p] t(2) by (simp_all add: same_session_def)
  have 2: "\<exists>t. tc_last_input c' = Some t \<and> duration_since now t < TRACKER_INPUT_TIMEOUT" if "tc_input_active c'"
    using that d2 b c2 by (auto simp: frame dated_def elapsed_def)
  have 3: "last (tc_log c') = (handshake_packet (tc_address c') info, True)"
    if "tc_confirmed c" "\<not> tc_confirmed c'" "tc_input_active c'" "tc_info c' = Some info" for info
  proof -
    have "tc_confirmed c2" using poll_confirmed [OF that(1), of f ok now inbox] t(1) c2(3) by simp
    then have c3: "tc_last_handshake ?c3 = None" "\<not> tc_confirmed ?c3"
      using that(2) frame(1) by (auto simp: expire_server_def split: if_splits)
    have active: "tc_input_active ?c3" using that(3) frame(3) by (simp add: expire_server_def)
    have "c4 = (snd (socket_send ok (handshake_packet (tc_address ?c3) info) ?c3))\<lparr> tc_last_handshake := Some now \<rparr> \<and>
        fst (socket_send ok (handshake_packet (tc_address ?c3) info) ?c3)"
      using t(3) c3 active that(4) unfolding frame(5)
      by (auto simp: ensure_handshake_def ok_then_def split: if_splits)
    then have "tc_log c4 = tc_log ?c3 @ [(handshake_packet (tc_address ?c3) info, True)]"
      by (simp add: socket_send_def Let_def)
    moreover have "c' = c4" using t(4) s4 c3 by (simp add: heartbeat_def same_session_def)
    ultimately show ?thesis using frame(6) by simp
  qed
  show ?thesis using 1 2 3 by blast
qed

text \<open>A tick without any datagram.\<close>

theorem lost_peers_noticed_witness:
  "\<exists>c c'. output_run ref_f32 always demo_events Map.empty 0x123456789abc = Some c \<and>
     connection_tick ref_f32 always 4000000000 [] c = (True, c') \<and>
     (tc_confirmed c' \<longrightarrow> (\<exists>t. tc_last_server_packet c' = Some t \<and> duration_since 4000000000 t < SERVER_TIMEOUT))"
proof -
  obtain c where c: "output_run ref_f32 always demo_events Map.empty 0x123456789abc = Some c" using demo_run by blast
  have "fst (connection_tick ref_f32 always 4000000000 [] c)"
    by (auto simp: connection_tick_def ok_then_def packet_succeeds expire_input_def heartbeat_def Let_def)
  then obtain c' where c': "connection_tick ref_f32 always 4000000000 [] c = (True, c')" by (metis prod.collapse)
  from lost_peers_noticed [OF c c'] c c' show ?thesis by blast
qed

text \<open>A session that was not opened: handshakes and answers to pings only.\<close>

definition unopened :: "'f tracker_connection \<Rightarrow> bool" where
  "unopened c \<longleftrightarrow> \<not> tc_confirmed c \<and>
     (\<forall>entry \<in> set (tc_log c). packet_id (fst entry) \<in> {PACKET_HANDSHAKE, PACKET_PING_PONG})"

definition greets :: "byte list \<Rightarrow> bool" where
  "greets bytes \<longleftrightarrow> 13 \<le> length bytes \<and> bytes ! 0 = 3 \<and> bslice 1 12 bytes = server_greeting"

lemma unopened_handshake: "unopened c \<Longrightarrow> unopened (snd (ensure_handshake ok now c))"
  by (auto simp: unopened_def ensure_handshake_def socket_send_def ok_then_def Let_def split: option.split)

lemma unopened_process: "unopened c \<Longrightarrow> unopened (snd (connection_process f ok r now c))"
proof -
  assume "unopened c"
  then have "unopened (note_record f (rr_data r) (rr_metadata r) now c)" by (simp add: unopened_def note_record_def Let_def)
  then have "unopened (snd (ensure_handshake ok now (note_record f (rr_data r) (rr_metadata r) now c)))"
    by (rule unopened_handshake)
  then show ?thesis by (auto simp: connection_process_def Let_def ok_then_def unopened_def)
qed

lemma unopened_poll:
  "unopened c \<Longrightarrow> (\<forall>bytes. Some bytes \<in> set inbox \<longrightarrow> \<not> greets (take 256 bytes)) \<Longrightarrow>
   unopened (snd (poll_server f ok now inbox c))"
proof (induction inbox arbitrary: c)
  case (Cons r inbox)
  have "unopened (snd (server_packet f ok now (take 256 bytes) c))" if "r = Some bytes" for bytes
  proof -
    have "\<not> greets (take 256 bytes)" using Cons.prems(2) that by simp
    then show ?thesis
      using Cons.prems(1)
      by (auto simp: server_packet_def Let_def greets_def unopened_def send_packet_def socket_send_def ok_then_def)
  qed
  then show ?case using Cons by (auto simp: ok_then_def split: option.split)
qed simp

lemma unopened_tick:
  assumes "unopened c" and "\<forall>bytes. Some bytes \<in> set inbox \<longrightarrow> \<not> greets (take 256 bytes)"
  shows "unopened (snd (connection_tick f ok now inbox c))"
proof -
  have 1: "unopened (snd (poll_server f ok now inbox c))" by (rule unopened_poll [OF assms])
  have 2: "unopened c \<Longrightarrow> unopened (snd (expire_input ok now c))" for c :: "'a tracker_connection"
    by (auto simp: unopened_def expire_input_def Let_def)
  have 3: "unopened c \<Longrightarrow> expire_server now c = c" "unopened c \<Longrightarrow> heartbeat ok now c = (True, c)"
    for c :: "'a tracker_connection"
    by (simp_all add: unopened_def expire_server_def heartbeat_def)
  have 4: "unopened (snd (ensure_handshake ok now (snd (expire_input ok now (snd (poll_server f ok now inbox c))))))"
    by (rule unopened_handshake [OF 2 [OF 1]])
  show ?thesis
    using 1 2 [OF 1] 4 by (simp add: connection_tick_def ok_then_def 3(1) [OF 2 [OF 1]] 3(2) [OF 4])
qed

text \<open>
  C15: Nothing of a tracker is sent before the server has answered its handshake. As long as no
  greeting of the server arrives, a connection sends handshakes and answers to pings only, whatever
  the tracker reports.
\<close>

theorem quiet_before_greeting:
  assumes "output_run f ok evs Map.empty a = Some c"
    and "\<forall>now inbox. Tick_Event now inbox \<in> set evs \<longrightarrow> (\<forall>bytes. Some bytes \<in> set (inbox a) \<longrightarrow> \<not> greets (take 256 bytes))"
  shows "\<not> tc_confirmed c \<and>
    (\<forall>entry \<in> set (tc_log c). packet_id (fst entry) \<in> {PACKET_HANDSHAKE, PACKET_PING_PONG})"
proof -
  have "unopened c"
    using assms(1)
  proof (rule output_run_inv)
    show "unopened (connection_new a)" by (simp add: unopened_def connection_new_def)
    show "unopened (snd (connection_tick f ok now (inbox a) c))"
      if "Tick_Event now inbox \<in> set evs" "unopened c" for c :: "'a tracker_connection" and now inbox
      using that assms(2) by (intro unopened_tick) blast+
  qed (simp_all add: unopened_process)
  then show ?thesis by (simp add: unopened_def)
qed

theorem quiet_before_greeting_witness:
  "\<exists>c. output_run ref_f32 always [Record_Event True 0 (demo_record 0), Tick_Event 1 (\<lambda>a. [Some [3]])]
      Map.empty 0x123456789abc = Some c \<and>
    (\<forall>entry \<in> set (tc_log c). packet_id (fst entry) \<in> {PACKET_HANDSHAKE, PACKET_PING_PONG})"
proof -
  let ?evs = "[Record_Event True 0 (demo_record 0), Tick_Event 1 (\<lambda>a. [Some [3]])]"
  obtain c where c: "output_run ref_f32 always ?evs Map.empty 0x123456789abc = Some c"
    by (auto simp: output_run_def output_step_at demo_record_def simp del: output_step.simps)
  from quiet_before_greeting [OF c] c show ?thesis by (simp add: greets_def)
qed

end
