(* ===== verification/Host_Main.thy ===== *)
theory Host_Main
  imports Host_Bridge Host_Sessions
begin

text \<open>
  The USB input and the main program of the host bridge, \<open>HidInput\<close> of \<open>bridge/src/inputs.rs\<close> and
  \<open>bridge/src/main.rs\<close>: receivers that are plugged in are opened and read, and every turn of the main
  loop polls the gateways, polls the USB receivers and lets the output tick. The enumeration, opening
  and reading of USB devices (\<open>hidapi\<close>) and the parsing of socket addresses are inputs.
\<close>

section \<open>USB receivers (inputs.rs)\<close>

record hid_info =
  hd_path :: "byte list"
  hd_serial :: "string option"
  hd_vendor_id :: u16
  hd_product_id :: u16

text \<open>A device is known by its path; what is kept of it is the name of its source.\<close>

record hid_input =
  hd_products :: "(u16 \<times> u16) list"
  hd_devices :: "byte list \<rightharpoonup> string"
  hd_last_refresh :: "instant option"

definition hid_new :: "(u16 \<times> u16) list \<Rightarrow> hid_input" where
  "hid_new products = \<lparr> hd_products = products, hd_devices = Map.empty, hd_last_refresh = None \<rparr>"

text \<open>\<open>{:04X}\<close>\<close>

definition hex4 :: "u16 \<Rightarrow> string" where
  "hex4 v = map (\<lambda>i. hex_digit (ucast (drop_bit (4 * i) v AND 15))) [3, 2, 1, 0]"

text \<open>The name of a receiver; \<open>lossy\<close> is \<open>String::from_utf8_lossy\<close>.\<close>

definition hid_source :: "(byte list \<Rightarrow> string) \<Rightarrow> hid_info \<Rightarrow> string" where
  "hid_source lossy info = ''hid:'' @ hex4 (hd_vendor_id info) @ '':'' @ hex4 (hd_product_id info) @ '':'' @
     (case hd_serial info of None \<Rightarrow> ''no-serial'' | Some serial \<Rightarrow> serial) @ '':'' @ lossy (hd_path info)"

definition hid_matching :: "(u16 \<times> u16) list \<Rightarrow> hid_info list \<Rightarrow> hid_info list" where
  "hid_matching products infos = filter (\<lambda>info. (hd_vendor_id info, hd_product_id info) \<in> set products) infos"

text \<open>The loop that opens what is not open yet; \<open>opens n\<close> is the outcome for the \<open>n\<close>-th entry.\<close>

primrec hid_open ::
    "(byte list \<Rightarrow> string) \<Rightarrow> (nat \<Rightarrow> bool) \<Rightarrow> nat \<Rightarrow> hid_info list \<Rightarrow> (byte list \<rightharpoonup> string) \<Rightarrow> (byte list \<rightharpoonup> string)" where
  "hid_open lossy opens n [] devices = devices"
| "hid_open lossy opens n (info # infos) devices =
    hid_open lossy opens (Suc n) infos
      (if devices (hd_path info) \<noteq> None \<or> \<not> opens n then devices
       else devices(hd_path info \<mapsto> hid_source lossy info))"

text \<open>\<open>refresh\<close>; \<open>None\<close> is a failed enumeration.\<close>

definition hid_refresh ::
    "(byte list \<Rightarrow> string) \<Rightarrow> (nat \<Rightarrow> bool) \<Rightarrow> hid_info list option \<Rightarrow> hid_input \<Rightarrow> hid_input" where
  "hid_refresh lossy opens enumeration h =
    (case enumeration of None \<Rightarrow> h
     | Some infos \<Rightarrow>
        (let matching = hid_matching (hd_products h) infos;
             present = set (map hd_path matching)
         in h\<lparr> hd_devices := hid_open lossy opens 0 matching (hd_devices h |` present) \<rparr>))"

text \<open>
  The reading loop of one device: a read gives bytes, none of them when nothing waits, or fails; a
  device that fails is taken out. An error of the output is only printed.
\<close>

primrec hid_receive ::
    "(accepted_record \<Rightarrow> 'o \<Rightarrow> bool \<times> 'o) \<Rightarrow> string \<Rightarrow> u64 \<Rightarrow> byte list option list \<Rightarrow>
     receiver_hub \<Rightarrow> 'o \<Rightarrow> bool \<times> receiver_hub \<times> 'o" where
  "hid_receive process source_id now_ms [] hub out = (False, hub, out)"
| "hid_receive process source_id now_ms (read # reads) hub out =
    (case read of
       None \<Rightarrow> (True, hub, out)
     | Some input \<Rightarrow>
         if input = [] then (False, hub, out)
         else
          (let (result, hub) = ingest source_id (take 64 input) now_ms hub;
               out = (case result of Inl e \<Rightarrow> out | Inr records \<Rightarrow> fold (\<lambda>r out. snd (process r out)) records out)
           in hid_receive process source_id now_ms reads hub out))"

text \<open>All devices, in the order in which the map gives them; the paths of those that failed.\<close>

primrec hid_read_all ::
    "(accepted_record \<Rightarrow> 'o \<Rightarrow> bool \<times> 'o) \<Rightarrow> (byte list \<rightharpoonup> string) \<Rightarrow> u64 \<Rightarrow> (byte list \<Rightarrow> byte list option list) \<Rightarrow>
     byte list list \<Rightarrow> receiver_hub \<Rightarrow> 'o \<Rightarrow> byte list list \<times> receiver_hub \<times> 'o" where
  "hid_read_all process devices now_ms reads [] hub out = ([], hub, out)"
| "hid_read_all process devices now_ms reads (path # paths) hub out =
    (case devices path of
       None \<Rightarrow> hid_read_all process devices now_ms reads paths hub out
     | Some source_id \<Rightarrow>
        (let (failed, hub, out) = hid_receive process source_id now_ms (reads path) hub out;
             (disconnected, hub, out) = hid_read_all process devices now_ms reads paths hub out
         in ((if failed then [path] else []) @ disconnected, hub, out)))"

definition hid_due :: "instant \<Rightarrow> hid_input \<Rightarrow> bool" where
  "hid_due now h \<longleftrightarrow> hd_last_refresh h = None \<or> elapsed (hd_last_refresh h) now 1000000000"

definition hid_refreshed ::
    "(byte list \<Rightarrow> string) \<Rightarrow> (nat \<Rightarrow> bool) \<Rightarrow> hid_info list option \<Rightarrow> instant \<Rightarrow> hid_input \<Rightarrow> hid_input" where
  "hid_refreshed lossy opens enumeration now h =
    (if hid_due now h then (hid_refresh lossy opens enumeration h)\<lparr> hd_last_refresh := Some now \<rparr> else h)"

text \<open>\<open>HidInput::poll\<close>; \<open>order\<close> is the order of the map of devices.\<close>

definition hid_poll ::
    "(accepted_record \<Rightarrow> 'o \<Rightarrow> bool \<times> 'o) \<Rightarrow> (byte list \<Rightarrow> string) \<Rightarrow> (nat \<Rightarrow> bool) \<Rightarrow> hid_info list option \<Rightarrow>
     byte list list \<Rightarrow> (byte list \<Rightarrow> byte list option list) \<Rightarrow> u64 \<Rightarrow> instant \<Rightarrow>
     hid_input \<Rightarrow> receiver_hub \<Rightarrow> 'o \<Rightarrow> hid_input \<times> receiver_hub \<times> 'o" where
  "hid_poll process lossy opens enumeration order reads now_ms now h hub out =
    (let h = hid_refreshed lossy opens enumeration now h;
         (disconnected, hub, out) = hid_read_all process (hd_devices h) now_ms reads order hub out
     in (h\<lparr> hd_devices := hd_devices h |` (- set disconnected) \<rparr>, hub, out))"

definition device_count :: "hid_input \<Rightarrow> nat" where
  "device_count h = card (dom (hd_devices h))"

section \<open>The arguments (main.rs)\<close>

record 'a config =
  cg_gateway_listen :: 'a
  cg_server :: 'a
  cg_hid_products :: "(u16 \<times> u16) list"
  cg_hid_enabled :: bool

text \<open>\<open>trim_start_matches("0x")\<close>, which takes the prefix away again and again.\<close>

fun trim_0x :: "string \<Rightarrow> string" where
  "trim_0x (c # d # s) = (if c = CHR ''0'' \<and> d = CHR ''x'' then trim_0x s else c # d # s)"
| "trim_0x s = s"

text \<open>The value of a hexadecimal digit of either case.\<close>

definition digit16 :: "char \<Rightarrow> nat option" where
  "digit16 c = (let n = of_char c :: nat in
     if 48 \<le> n \<and> n \<le> 57 then Some (n - 48)
     else if 65 \<le> n \<and> n \<le> 70 then Some (n - 55)
     else if 97 \<le> n \<and> n \<le> 102 then Some (n - 87) else None)"

text \<open>\<open>u16::from_str_radix(s, 16)\<close>: an optional plus sign, at least one digit, below 65536.\<close>

primrec digits16 :: "nat \<Rightarrow> string \<Rightarrow> nat option" where
  "digits16 n [] = Some n"
| "digits16 n (c # s) = (case digit16 c of None \<Rightarrow> None
     | Some d \<Rightarrow> let n = 16 * n + d in if n < 65536 then digits16 n s else None)"

definition from_str_radix16 :: "string \<Rightarrow> u16 option" where
  "from_str_radix16 s =
    (let s = (case s of c # d # t \<Rightarrow> if c = CHR ''+'' then d # t else s | _ \<Rightarrow> s)
     in if s = [] then None else map_option of_nat (digits16 0 s))"

definition parse_hex_u16 :: "string \<Rightarrow> u16 option" where
  "parse_hex_u16 s = from_str_radix16 (trim_0x s)"

text \<open>\<open>split_once(':')\<close>\<close>

definition split_colon :: "string \<Rightarrow> (string \<times> string) option" where
  "split_colon s = (case dropWhile (\<lambda>c. c \<noteq> CHR '':'') s of [] \<Rightarrow> None
     | c # t \<Rightarrow> Some (takeWhile (\<lambda>c. c \<noteq> CHR '':'') s, t))"

definition parse_vid_pid :: "string \<Rightarrow> (u16 \<times> u16) option" where
  "parse_vid_pid s =
    Option.bind (split_colon s) (\<lambda>(vid, pid).
    Option.bind (parse_hex_u16 vid) (\<lambda>vid. Option.bind (parse_hex_u16 pid) (\<lambda>pid. Some (vid, pid))))"

datatype 'a args_result = Bad_Arguments | Print_Help | Parsed "'a config"

text \<open>The loop over the arguments; \<open>parse\<close> reads a socket address.\<close>

fun parse_options :: "(string \<Rightarrow> 'a option) \<Rightarrow> string list \<Rightarrow> 'a config \<Rightarrow> 'a args_result" where
  "parse_options parse [] c = Parsed c"
| "parse_options parse (arg # args) c =
    (if arg = ''--gateway-listen'' then
       (case args of [] \<Rightarrow> Bad_Arguments
        | v # args \<Rightarrow> (case parse v of None \<Rightarrow> Bad_Arguments
            | Some a \<Rightarrow> parse_options parse args (c\<lparr> cg_gateway_listen := a \<rparr>)))
     else if arg = ''--server'' then
       (case args of [] \<Rightarrow> Bad_Arguments
        | v # args \<Rightarrow> (case parse v of None \<Rightarrow> Bad_Arguments
            | Some a \<Rightarrow> parse_options parse args (c\<lparr> cg_server := a \<rparr>)))
     else if arg = ''--hid'' then
       (case args of [] \<Rightarrow> Bad_Arguments
        | v # args \<Rightarrow> (case parse_vid_pid v of None \<Rightarrow> Bad_Arguments
            | Some p \<Rightarrow> parse_options parse args (c\<lparr> cg_hid_products := cg_hid_products c @ [p] \<rparr>)))
     else if arg = ''--no-hid'' then parse_options parse args (c\<lparr> cg_hid_enabled := False \<rparr>)
     else if arg = ''-h'' \<or> arg = ''--help'' then Print_Help
     else Bad_Arguments)"

definition parse_args :: "(string \<Rightarrow> 'a option) \<Rightarrow> string list \<Rightarrow> 'a args_result" where
  "parse_args parse args =
    (case (parse ''0.0.0.0:6970'', parse ''127.0.0.1:6969'') of
       (Some gateway_listen, Some server) \<Rightarrow>
        (case parse_options parse args \<lparr> cg_gateway_listen = gateway_listen, cg_server = server,
             cg_hid_products = [], cg_hid_enabled = True \<rparr> of
           Parsed c \<Rightarrow> Parsed (if cg_hid_products c = [] then c\<lparr> cg_hid_products := [(0x1209, 0x7690)] \<rparr> else c)
         | r \<Rightarrow> r)
     | _ \<Rightarrow> Bad_Arguments)"

section \<open>The main loop (main.rs)\<close>

text \<open>
  What one turn meets: datagrams for the gateway socket and for the trackers' sockets, and the USB
  devices.
\<close>

record 'a turn_input =
  tn_gateway_inbox :: "('a \<times> byte list) option list"
  tn_enumeration :: "hid_info list option"
  tn_opens :: "nat \<Rightarrow> bool"
  tn_order :: "byte list list"
  tn_reads :: "byte list \<Rightarrow> byte list option list"
  tn_server_inbox :: "u64 \<Rightarrow> byte list option list"

text \<open>A turn of the loop; an error of the gateway input ends the program, its state does not matter then.\<close>

definition bridge_turn ::
    "'f f32_ops \<Rightarrow> (byte list \<Rightarrow> string) \<Rightarrow> socket_rule \<Rightarrow> bool \<Rightarrow> ('a \<Rightarrow> byte list \<Rightarrow> bool) \<Rightarrow> u64 \<Rightarrow> instant \<Rightarrow>
     'a turn_input \<Rightarrow> ('a, 'f slimevr_output) host_input \<times> hid_input option \<Rightarrow>
     outcome \<times> ('a, 'f slimevr_output) host_input \<times> hid_input option" where
  "bridge_turn f lossy ok opened send_ok now_ms now i s =
    (let (gateway, hid) = s; process = slimevr_process f ok opened now in
     case host_poll process send_ok now_ms (tn_gateway_inbox i) gateway of
       (Continue, gateway) \<Rightarrow>
        (let (hid, hub, out) = (case hid of
               None \<Rightarrow> (None, hi_hub gateway, hi_output gateway)
             | Some hid \<Rightarrow>
                (let (hid, hub, out) = hid_poll process lossy (tn_opens i) (tn_enumeration i) (tn_order i)
                   (tn_reads i) now_ms now hid (hi_hub gateway) (hi_output gateway) in (Some hid, hub, out)));
             out = slimevr_tick f ok now (tn_server_inbox i) out
         in (Continue, gateway\<lparr> hi_hub := hub, hi_output := out \<rparr>, hid))
     | (stop, gateway) \<Rightarrow> (stop, gateway, hid))"

section \<open>What a turn does\<close>

text \<open>The reads of a device that count, and what all devices deliver.\<close>

definition good_reads :: "byte list option list \<Rightarrow> byte list list" where
  "good_reads reads = map (\<lambda>r. take 64 (the r)) (takeWhile (\<lambda>r. r \<noteq> None \<and> r \<noteq> Some []) reads)"

definition read_failed :: "byte list option list \<Rightarrow> bool" where
  "read_failed reads = (case dropWhile (\<lambda>r. r \<noteq> None \<and> r \<noteq> Some []) reads of [] \<Rightarrow> False | r # _ \<Rightarrow> r = None)"

definition hid_deliveries ::
    "(byte list \<rightharpoonup> string) \<Rightarrow> u64 \<Rightarrow> (byte list \<Rightarrow> byte list option list) \<Rightarrow> byte list list \<Rightarrow> delivery list" where
  "hid_deliveries devices now_ms reads order = concat (map (\<lambda>path. case devices path of None \<Rightarrow> []
     | Some source_id \<Rightarrow> map (\<lambda>input. (source_id, input, now_ms)) (good_reads (reads path))) order)"

lemma process_all_append: "process_all process (xs @ ys) out = process_all process ys (process_all process xs out)"
  by (simp add: process_all_def)

lemma hid_receive_eq:
  "hid_receive process source_id now_ms reads hub out =
    (let ds = map (\<lambda>input. (source_id, input, now_ms)) (good_reads reads) in
     (read_failed reads, snd (hub_run ds hub), process_all process (fst (hub_run ds hub)) out))"
proof (induction reads arbitrary: hub out)
  case Nil
  then show ?case by (simp add: good_reads_def read_failed_def process_all_def)
next
  case (Cons read reads)
  show ?case
  proof (cases "read = None \<or> read = Some []")
    case True
    then show ?thesis by (auto simp: good_reads_def read_failed_def process_all_def)
  next
    case False
    then obtain input where input: "read = Some input" "input \<noteq> []" by auto
    have g: "good_reads (Some input # reads) = take 64 input # good_reads reads"
      "read_failed (Some input # reads) = read_failed reads"
      using input(2) by (simp_all add: good_reads_def read_failed_def)
    obtain result hub1 where i: "ingest source_id (take 64 input) now_ms hub = (result, hub1)" by fastforce
    show ?thesis
      using Cons.IH input by (cases result) (simp_all add: g i Let_def split_beta process_all_append, simp_all add: process_all_def)
  qed
qed

lemma hid_read_all_eq:
  "hid_read_all process devices now_ms reads order hub out =
    (let ds = hid_deliveries devices now_ms reads order in
     (filter (\<lambda>path. devices path \<noteq> None \<and> read_failed (reads path)) order,
      snd (hub_run ds hub), process_all process (fst (hub_run ds hub)) out))"
proof (induction order arbitrary: hub out)
  case Nil
  then show ?case by (simp add: hid_deliveries_def process_all_def)
next
  case (Cons path order)
  then show ?case
    by (cases "devices path")
      (simp_all add: hid_deliveries_def hid_receive_eq Let_def split_beta hub_run_append process_all_append)
qed

text \<open>A record of motion is on the wire at once, whatever records come after it.\<close>

lemma output_all_grows:
  assumes "out a = Some c"
  shows "\<exists>c' ps. process_all (slimevr_process f ok opened now) rs out a = Some c' \<and> tc_log c' = tc_log c @ ps"
  using assms
proof (induction rs arbitrary: out c)
  case (Cons r rs)
  let ?out = "snd (slimevr_process f ok opened now r out)"
  obtain c1 ps where 1: "?out a = Some c1" "tc_log c1 = tc_log c @ ps"
    using output_grows [where out = out and a = a and c = c] Cons.prems by blast
  obtain c' ps' where "process_all (slimevr_process f ok opened now) rs ?out a = Some c'" "tc_log c' = tc_log c1 @ ps'"
    using Cons.IH [of ?out c1] 1(1) by blast
  then show ?case using 1(2) by (simp add: process_all_def)
qed (simp add: process_all_def)

lemma motion_output:
  assumes "out a = Some c" and "tc_confirmed c" and "tc_input_active c" and "ar_tracker_address r = a"
    and "rr_data (ar_record r) ! 0 = 1"
  shows "\<exists>c' ps. process_all (slimevr_process f always True now) (r # rs) out a = Some c' \<and>
    tc_log c' = tc_log c @ (numbered_packet PACKET_ROTATION_AND_ACCELERATION (tc_packet_number c)
      (full_rotation_acceleration_payload (rr_data (ar_record r))), True) # ps"
proof -
  let ?c1 = "snd (connection_process f always (ar_record r) now c)"
  have out: "snd (slimevr_process f always True now r out) a = Some ?c1"
    using assms(1,4) by (simp add: slimevr_process_def Let_def split_beta)
  obtain ps where ps: "tc_log ?c1 = tc_log c @ (numbered_packet PACKET_ROTATION_AND_ACCELERATION (tc_packet_number c)
      (full_rotation_acceleration_payload (rr_data (ar_record r))), True) # ps"
    using motion_sent [OF assms(2,3,5)] by blast
  obtain c' ps' where "process_all (slimevr_process f always True now) rs
      (snd (slimevr_process f always True now r out)) a = Some c'" "tc_log c' = tc_log ?c1 @ ps'"
    using output_all_grows [where out = "snd (slimevr_process f always True now r out)" and a = a and c = ?c1] out by blast
  then show ?thesis by (simp add: process_all_def ps)
qed

text \<open>What the USB receivers deliver in a turn.\<close>

definition turn_deliveries ::
    "(byte list \<Rightarrow> string) \<Rightarrow> u64 \<Rightarrow> instant \<Rightarrow> 'a turn_input \<Rightarrow> hid_input option \<Rightarrow> delivery list" where
  "turn_deliveries lossy now_ms now i hid = (case hid of None \<Rightarrow> []
     | Some h \<Rightarrow> hid_deliveries (hd_devices (hid_refreshed lossy (tn_opens i) (tn_enumeration i) now h)) now_ms
         (tn_reads i) (tn_order i))"

text \<open>What opening does.\<close>

lemma hid_open_kept: "devices path = Some s \<Longrightarrow> hid_open lossy opens n infos devices path = Some s"
proof (induction infos arbitrary: n devices)
  case (Cons i infos)
  let ?d = "if devices (hd_path i) \<noteq> None \<or> \<not> opens n then devices else devices(hd_path i \<mapsto> hid_source lossy i)"
  have "?d path = Some s" using Cons.prems by auto
  then show ?case using Cons.IH [of ?d "Suc n"] by simp
qed simp

lemma hid_open_new:
  "devices path = None \<Longrightarrow> hid_open lossy opens n infos devices path = None \<or>
    (\<exists>info \<in> set infos. hd_path info = path \<and> hid_open lossy opens n infos devices path = Some (hid_source lossy info))"
proof (induction infos arbitrary: n devices)
  case (Cons info infos)
  show ?case
  proof (cases "hd_path info = path \<and> opens n")
    case True
    then show ?thesis using Cons.prems by (auto simp: hid_open_kept)
  next
    case False
    let ?d = "if devices (hd_path info) \<noteq> None \<or> \<not> opens n then devices
        else devices(hd_path info \<mapsto> hid_source lossy info)"
    have "?d path = None" using False Cons.prems by auto
    then show ?thesis using Cons.IH [of ?d "Suc n"] by auto
  qed
qed simp

lemma hid_open_all:
  "devices path = None \<Longrightarrow> info \<in> set infos \<Longrightarrow> hd_path info = path \<Longrightarrow> (\<And>n. opens n) \<Longrightarrow>
    hid_open lossy opens n infos devices path \<noteq> None"
proof (induction infos arbitrary: n devices)
  case (Cons i infos)
  let ?d = "if devices (hd_path i) \<noteq> None \<or> \<not> opens n then devices else devices(hd_path i \<mapsto> hid_source lossy i)"
  show ?case
  proof (cases "?d path")
    case None
    then have "info \<in> set infos" using Cons.prems by (auto split: if_splits)
    then show ?thesis using Cons.IH [of ?d "Suc n"] None Cons.prems(3,4) by simp
  next
    case (Some s)
    then show ?thesis using hid_open_kept [of ?d path s] by simp
  qed
qed simp

section \<open>Properties\<close>

text \<open>
  A turn of the main loop brings together what all receivers report. As long as the sockets work,
  the turn goes on, and the one hub has then seen the reports of the new batches of all gateways and
  after them those of all USB receivers, each under the name of its receiver; the output has been given
  exactly the records the hub accepted of them, in order, and has ticked once. So what holds of the
  hub for all its deliveries (one copy of each packet, in order) holds across both kinds of
  receivers.
\<close>

theorem turn_feeds_hub:
  fixes h :: "('a, 'f slimevr_output) host_input" and hid :: "hid_input option" and now_ms :: u64 and now :: instant
    and lossy :: "byte list \<Rightarrow> string"
  assumes "\<forall>a b. send_ok a b" and "tn_gateway_inbox i = map Some inbox"
  defines "ds \<equiv> deliveries now_ms (passed gate_accept (hi_gate h) (decoded inbox)) @ turn_deliveries lossy now_ms now i hid"
  shows "\<exists>h' hid'. bridge_turn f lossy always True send_ok now_ms now i (h, hid) = (Continue, h', hid') \<and>
    hi_gate h' = gate_after (hi_gate h) (decoded inbox) \<and> hi_hub h' = snd (hub_run ds (hi_hub h)) \<and>
    hi_output h' = slimevr_tick f always now (tn_server_inbox i)
      (process_all (slimevr_process f always True now) (fst (hub_run ds (hi_hub h))) (hi_output h))"
proof -
  let ?process = "slimevr_process f always True now"
  have ok: "\<forall>r out. fst (?process r out)" using output_succeeds by blast
  obtain r h1 where p: "host_poll ?process send_ok now_ms (map Some inbox) h = (r, h1)" by fastforce
  note poll = host_poll_ok [OF ok assms(1) p]
  show ?thesis
    using poll p unfolding ds_def hub_run_append
    by (cases hid) (simp_all add: bridge_turn_def assms(2) Let_def split_beta turn_deliveries_def hid_poll_def
        hid_read_all_eq process_all_def)
qed

text \<open>Nothing comes over Wi-Fi, and one USB receiver delivers a report.\<close>

theorem turn_feeds_hub_witness:
  "\<exists>h' hid'. bridge_turn ref_f32 (map (char_of \<circ> unat)) always True (\<lambda>a b. True) 5 5000000
     \<lparr> tn_gateway_inbox = [], tn_enumeration = None, tn_opens = (\<lambda>n. True), tn_order = [[1]],
       tn_reads = (\<lambda>p. [Some (zeros 64)]), tn_server_inbox = (\<lambda>a. []) \<rparr>
     (host_input_bind hub_default Map.empty :: (string, int slimevr_output) host_input,
      Some \<lparr> hd_products = [], hd_devices = [[1] \<mapsto> ''usb''], hd_last_refresh = Some 0 \<rparr>) = (Continue, h', hid') \<and>
    hi_hub h' = snd (hub_run [(''usb'', zeros 64, 5)] hub_default)"
proof -
  let ?i = "\<lparr> tn_gateway_inbox = [], tn_enumeration = None, tn_opens = (\<lambda>n. True), tn_order = [[1]],
       tn_reads = (\<lambda>p. [Some (zeros 64)]), tn_server_inbox = (\<lambda>a. []) \<rparr> :: string turn_input"
  let ?hid = "Some \<lparr> hd_products = [], hd_devices = [[1] \<mapsto> ''usb''], hd_last_refresh = Some 0 \<rparr>"
  let ?h = "host_input_bind hub_default Map.empty :: (string, int slimevr_output) host_input"
  let ?ds = "deliveries 5 (passed gate_accept (hi_gate ?h) (decoded ([] :: (string \<times> byte list) list))) @ turn_deliveries (map (char_of \<circ> unat)) 5 5000000 ?i ?hid"
  have ds: "?ds = [(''usb'', zeros 64, 5)]"
    by (simp add: deliveries_def decoded_def turn_deliveries_def hid_deliveries_def hid_refreshed_def hid_due_def
        elapsed_def duration_since_def good_reads_def)
  obtain h' hid' where "bridge_turn ref_f32 (map (char_of \<circ> unat)) always True (\<lambda>a b. True) 5 5000000 ?i (?h, ?hid) =
      (Continue, h', hid')" "hi_hub h' = snd (hub_run ?ds (hi_hub ?h))"
    using turn_feeds_hub [of "\<lambda>a b. True" ?i "[]" ref_f32 "map (char_of \<circ> unat)" 5 5000000 ?h ?hid] by auto
  then show ?thesis unfolding ds by (simp add: host_input_bind_def)
qed

text \<open>
  C17: Plugging receivers in and out. After an enumeration exactly receivers that are listed and of a
  wanted product are open: one that is no longer listed is dropped, one that was open stays open
  under its name, and one that is new has the name of its first entry that could be opened.
\<close>

theorem receivers_plugged:
  assumes "hid_refresh lossy opens (Some infos) h = h'"
  defines "listed \<equiv> set (hid_matching (hd_products h) infos)"
  shows "(path \<notin> hd_path ` listed \<longrightarrow> hd_devices h' path = None) \<and>
    (path \<in> hd_path ` listed \<longrightarrow> hd_devices h path \<noteq> None \<longrightarrow> hd_devices h' path = hd_devices h path) \<and>
    (hd_devices h path = None \<longrightarrow> hd_devices h' path \<noteq> None \<longrightarrow>
      (\<exists>info \<in> listed. hd_path info = path \<and> hd_devices h' path = Some (hid_source lossy info))) \<and>
    (path \<in> hd_path ` listed \<longrightarrow> (\<forall>n. opens n) \<longrightarrow> hd_devices h' path \<noteq> None)"
proof -
  let ?m = "hid_matching (hd_products h) infos"
  let ?kept = "hd_devices h |` set (map hd_path ?m)"
  have h': "hd_devices h' path = hid_open lossy opens 0 ?m ?kept path"
    using assms(1) by (auto simp: hid_refresh_def Let_def)
  show ?thesis
  proof (cases "?kept path")
    case None
    then have "hd_devices h path = None \<or> path \<notin> hd_path ` listed"
      by (auto simp: listed_def restrict_map_def split: if_splits)
    moreover have "path \<in> hd_path ` listed \<longrightarrow> (\<forall>n. opens n) \<longrightarrow> hd_devices h' path \<noteq> None"
      unfolding h' listed_def using hid_open_all [of ?kept path _ ?m opens lossy 0] None by blast
    ultimately show ?thesis
      using hid_open_new [of ?kept path lossy opens 0 ?m] None unfolding h' listed_def by fastforce
  next
    case (Some s)
    then have "hd_devices h path = Some s" "path \<in> hd_path ` listed"
      by (auto simp: listed_def restrict_map_def split: if_splits)
    then show ?thesis using hid_open_kept [of ?kept path s lossy opens 0 ?m] Some unfolding h' by simp
  qed
qed

text \<open>A listed receiver of the wanted product is opened.\<close>

theorem receivers_plugged_witness:
  "hd_devices (hid_refresh (map (char_of \<circ> unat)) (\<lambda>n. True)
     (Some [\<lparr> hd_path = [1], hd_serial = None, hd_vendor_id = 0x1209, hd_product_id = 0x7690 \<rparr>])
     (hid_new [(0x1209, 0x7690)])) [1] \<noteq> None"
  using receivers_plugged [of "map (char_of \<circ> unat)" "\<lambda>n. True"
      "[\<lparr> hd_path = [1], hd_serial = None, hd_vendor_id = 0x1209, hd_product_id = 0x7690 \<rparr>]"
      "hid_new [(0x1209, 0x7690)]" _ "[1]", OF refl]
  by (simp add: hid_matching_def hid_new_def)

text \<open>
  An error of the output ends a poll of the gateways, and with it the program, while the USB input
  goes on: the first record of a batch that the output cannot take makes the datagram an error.
\<close>

lemma output_error_ends_poll:
  assumes "host_decode (take MAX_DATAGRAM_SIZE bytes) = Inr m" and "hm_kind m = ReportBatch"
    and "\<forall>a b. send_ok a b" and "fst (gate_accept (hi_gate h) m)" and "hm_reports m = report # reports"
    and "fst (ingest (wifi_source (hm_gateway_id m)) report now_ms (hi_hub h)) = Inr (r # rs)"
    and "\<not> fst (process r (hi_output h))"
  shows "fst (host_poll process send_ok now_ms (Some (source, bytes) # inbox) h) = IoError"
proof -
  have magic: "has_magic (take MAX_DATAGRAM_SIZE bytes)"
    using host_decode_ok [of "take 544 bytes"] assms(1) by (auto simp: datagram_ok_def has_magic_def host_magic_eq)
  obtain n replies where s: "send_reply send_ok source m h =
      (Continue, h\<lparr> hi_server_sequence := n, hi_replies := hi_replies h @ replies \<rparr>)"
    using send_reply_ok [OF assms(1,3)] by blast
  obtain gate where g: "gate_accept (hi_gate h) m = (True, gate)" using assms(4) by (metis prod.collapse)
  obtain hub where i: "ingest (wifi_source (hm_gateway_id m)) report now_ms (hi_hub h) = (Inr (r # rs), hub)"
    using assms(6) by (metis prod.collapse)
  obtain out where o: "process r (hi_output h) = (False, out)" using assms(7) by (metis prod.collapse)
  show ?thesis
    using assms(1,2,5) magic by (simp add: host_datagram_def Let_def s g i o)
qed

section \<open>Products on the command line\<close>

lemma digit16_hex: "n < 16 \<Longrightarrow> digit16 (''0123456789ABCDEF'' ! n) = Some n"
proof -
  assume "n < 16"
  then have "n \<in> set [0..<16]" by simp
  moreover have "\<forall>n \<in> set [0..<16]. digit16 (''0123456789ABCDEF'' ! n) = Some n" by code_simp
  ultimately show ?thesis by blast
qed

lemma nibble: "unat (ucast (drop_bit (4 * i) (v :: u16) AND 15) :: u64) = unat v div 16 ^ i mod 16"
proof -
  have "drop_bit (4 * i) v AND 15 = take_bit 4 (drop_bit (4 * i) v)" by (simp add: take_bit_eq_mask mask_eq_exp_minus_1)
  moreover have "unat (take_bit 4 (drop_bit (4 * i) v)) = take_bit 4 (drop_bit (4 * i) (unat v))"
    using unsigned_less [of v, where 'a = nat]
    by (simp add: unsigned_take_bit_eq unsigned_drop_bit_eq take_bit_nat_eq_self)
  then have "unat (take_bit 4 (drop_bit (4 * i) v)) = unat v div 16 ^ i mod 16"
    by (simp add: take_bit_eq_mod drop_bit_eq_div power_mult)
  moreover have "unat (ucast w :: u64) = unat w" for w :: u16
    using unsigned_less [of w, where 'a = nat] by (simp add: unsigned_ucast_eq take_bit_nat_eq_self)
  ultimately show ?thesis by simp
qed

lemma hex4_digits:
  obtains a b c d where "hex4 v = [a, b, c, d]" and "digit16 a = Some (unat v div 4096 mod 16)"
    and "digit16 b = Some (unat v div 256 mod 16)" and "digit16 c = Some (unat v div 16 mod 16)"
    and "digit16 d = Some (unat v mod 16)"
proof
  have "digit16 (hex_digit (ucast (drop_bit (4 * i) v AND 15))) = Some (unat v div 16 ^ i mod 16)" for i
    by (simp only: hex_digit_def nibble) (simp add: digit16_hex)
  from this [of 3] this [of 2] this [of 1] this [of 0]
  show "digit16 (hex_digit (ucast (drop_bit 12 v AND 15))) = Some (unat v div 4096 mod 16)"
    "digit16 (hex_digit (ucast (drop_bit 8 v AND 15))) = Some (unat v div 256 mod 16)"
    "digit16 (hex_digit (ucast (drop_bit 4 v AND 15))) = Some (unat v div 16 mod 16)"
    "digit16 (hex_digit (ucast (v AND 15))) = Some (unat v mod 16)"
    by simp_all
  show "hex4 v = [hex_digit (ucast (drop_bit 12 v AND 15)), hex_digit (ucast (drop_bit 8 v AND 15)),
      hex_digit (ucast (drop_bit 4 v AND 15)), hex_digit (ucast (v AND 15))]"
    by (simp add: hex4_def)
qed

lemma not_digits: "digit16 CHR '':'' = None" "digit16 CHR ''x'' = None" "digit16 CHR ''+'' = None"
  by code_simp+

lemma hex4_value: "parse_hex_u16 (hex4 v) = Some v"
proof -
  obtain a b c d where h: "hex4 v = [a, b, c, d]" "digit16 a = Some (unat v div 4096 mod 16)"
    "digit16 b = Some (unat v div 256 mod 16)" "digit16 c = Some (unat v div 16 mod 16)" "digit16 d = Some (unat v mod 16)"
    by (rule hex4_digits)
  let ?x = "unat v"
  have x: "?x < 65536" using unsigned_less [of v, where 'a = nat] by simp
  have n3: "?x div 4096 mod 16 = ?x div 4096" using x by simp
  have n2: "16 * (?x div 4096) + ?x div 256 mod 16 = ?x div 256"
    using div_mult2_eq [of ?x 256 16] mult_div_mod_eq [of 16 "?x div 256"] by simp
  have n1: "16 * (?x div 256) + ?x div 16 mod 16 = ?x div 16"
    using div_mult2_eq [of ?x 16 16] mult_div_mod_eq [of 16 "?x div 16"] by simp
  have n0: "16 * (?x div 16) + ?x mod 16 = ?x" by simp
  have small: "?x div 4096 < 65536" "?x div 256 < 65536" "?x div 16 < 65536" using x by (simp_all add: less_mult_imp_div_less)
  have "digits16 0 [a, b, c, d] = Some ?x"
    using x small by (simp add: h n3 n2 n1 n0 Let_def)
  moreover have "b \<noteq> CHR ''x''" "a \<noteq> CHR ''+''" using h not_digits by auto
  ultimately show ?thesis by (simp add: parse_hex_u16_def h(1) from_str_radix16_def)
qed

lemma hex4_prefixed: "parse_hex_u16 (''0x'' @ hex4 v) = Some v"
  using hex4_value [of v] by (simp add: parse_hex_u16_def)

lemma hex4_no_colon: "CHR '':'' \<notin> set (hex4 v)"
proof -
  obtain a b c d where "hex4 v = [a, b, c, d]" "digit16 a = Some (unat v div 4096 mod 16)"
    "digit16 b = Some (unat v div 256 mod 16)" "digit16 c = Some (unat v div 16 mod 16)" "digit16 d = Some (unat v mod 16)"
    by (rule hex4_digits)
  then show ?thesis using not_digits(1) by auto
qed

lemma split_at_colon: "CHR '':'' \<notin> set s \<Longrightarrow> split_colon (s @ CHR '':'' # t) = Some (s, t)"
proof -
  assume "CHR '':'' \<notin> set s"
  then have "\<forall>c \<in> set s. c \<noteq> CHR '':''" by auto
  then show ?thesis by (simp add: split_colon_def takeWhile_append2 dropWhile_append2)
qed

text \<open>
  The products that the bridge prints are products it can be given: a vendor and a product id in
  four hexadecimal digits each, with a colon between them, are read back as they were, with or
  without \<open>0x\<close> in front of each; and whatever the arguments are, at least one product is looked for.
\<close>

theorem products_read_back:
  "parse_vid_pid (hex4 vid @ '':'' @ hex4 pid) = Some (vid, pid) \<and>
    parse_vid_pid (''0x'' @ hex4 vid @ '':0x'' @ hex4 pid) = Some (vid, pid) \<and>
    (case parse_args parse args of Parsed c \<Rightarrow> cg_hid_products c \<noteq> [] | _ \<Rightarrow> True)"
proof -
  have "CHR '':'' \<notin> set (''0x'' @ hex4 vid)" using hex4_no_colon by simp
  from split_at_colon [OF this, of "''0x'' @ hex4 pid"] split_at_colon [OF hex4_no_colon [of vid], of "hex4 pid"]
  have "parse_vid_pid (hex4 vid @ '':'' @ hex4 pid) = Some (vid, pid)"
    "parse_vid_pid (''0x'' @ hex4 vid @ '':0x'' @ hex4 pid) = Some (vid, pid)"
    using hex4_value hex4_prefixed by (simp_all add: parse_vid_pid_def)
  moreover have "case parse_args parse args of Parsed c \<Rightarrow> cg_hid_products c \<noteq> [] | _ \<Rightarrow> True"
    by (simp add: parse_args_def split: option.split args_result.split)
  ultimately show ?thesis by blast
qed

end
