(* ===== verification/Golden_Vectors.thy ===== *)
theory Golden_Vectors
  imports Rf_Management Host_Report
begin

text \<open>
  The test vectors of \<open>protocol/golden_vectors.h\<close> that concern radio packets and reports, run through
  the model; those of the SPI envelope and of the datagram are in \<open>Bridge_Protocol\<close> and
  \<open>Gateway_Protocol\<close>. The CRC-32K/4.2 of Zephyr is a parameter of the receiver; the one of
  \<open>tests/host/test_protocol.c\<close>, which checks the vectors, is put in for it here.
\<close>

section \<open>The vectors\<close>

definition golden_rf_bytes :: "byte list" where
  "golden_rf_bytes =
    [0x01, 0x02, 0x03, 0x04, 0x05, 0x06, 0x07, 0x08,
     0x09, 0x0a, 0x0b, 0x0c, 0x0d, 0x0e, 0x0f, 0x10,
     0x11, 0x22, 0x33, 0x44, 0x55, 0x66, 0xfe, 0x02,
     0xc4, 0xce, 0xd6, 0x8a]"

definition golden_report_bytes :: "byte list" where
  "golden_report_bytes =
    [0x01, 0x02, 0x03, 0x04, 0x05, 0x06, 0x07, 0x08,
     0x09, 0x0a, 0x0b, 0x0c, 0x0d, 0x0e, 0x0f, 0x10,
     0xff, 0x02, 0x11, 0x22, 0x33, 0x44, 0x55, 0x66,
     0x00, 0x00, 0x00, 0x00, 0x00, 0x00, 0x00, 0x00,
     0x00, 0x00, 0x00, 0x00, 0x00, 0x00, 0x00, 0x00,
     0x00, 0x00, 0x00, 0x00, 0x00, 0x00, 0x00, 0x00,
     0xfa, 0xff, 0xd6, 0x01, 0x01, 0xfe, 0x2a, 0x07,
     0x00, 0x00, 0x00, 0x00, 0x00, 0x00, 0x00, 0x6d]"

definition crc32k_bit :: "u32 \<Rightarrow> u32" where
  "crc32k_bit crc = (if crc AND 0x80000000 \<noteq> 0 then push_bit 1 crc XOR 0x93a409eb else push_bit 1 crc)"

definition crc32k :: "u32 \<Rightarrow> byte list \<Rightarrow> u32" where
  "crc32k = foldl (\<lambda>crc b. (crc32k_bit ^^ 8) (crc XOR push_bit 24 (ucast b)))"

definition golden_packet :: esb_payload where
  "golden_packet = \<lparr> ep_length = 28, ep_pipe = 1, ep_rssi = 0x2a, ep_noack = False, ep_data = golden_rf_bytes \<rparr>"

section \<open>The checksum\<close>

lemma crc32k_byte_unrolled:
  "(crc32k_bit ^^ 8) c = crc32k_bit (crc32k_bit (crc32k_bit (crc32k_bit (crc32k_bit (crc32k_bit (crc32k_bit (crc32k_bit c)))))))"
  by (simp add: numeral_eq_Suc)

lemma crc32k_bit_numeral:
  "crc32k_bit (numeral k) = (if numeral k AND (0x80000000 :: u32) \<noteq> 0
     then (push_bit 1 (numeral k) :: u32) XOR 0x93a409eb else push_bit 1 (numeral k))"
  "crc32k_bit 0 = 0" "crc32k_bit 1 = 2"
  by (simp_all add: crc32k_bit_def)

lemma golden_rf_crc: "crc32k RF_V2_CRC_SEED (take 24 golden_rf_bytes) = word_of_le (bslice 24 4 golden_rf_bytes)"
  by (simp add: crc32k_def golden_rf_bytes_def crc32k_byte_unrolled crc32k_bit_numeral bslice_def)

section \<open>From the packet to the report\<close>

text \<open>With one tracker in the table all registrations are its own.\<close>

lemma registrations_only:
  assumes "rb_invar s" and "tid < 32" and "\<forall>i < 32. rb_tracker_addresses s ! i \<noteq> 0 \<longleftrightarrow> i = tid"
  shows "fst (registrations n s) = replicate n (registration_record tid (rb_tracker_addresses s ! tid))"
  using assms
proof (induction n arbitrary: s)
  case (Suc n)
  have "next_registration s \<noteq> None"
    using next_registration_iff [OF Suc.prems(1)] Suc.prems(2,3) by (auto simp: has_registration_def list_ex_iff)
  then obtain reg s' where r: "next_registration s = Some (reg, s')" by fastforce
  have "reg = registration_record tid (rb_tracker_addresses s ! tid)"
    using Suc.prems(3) by (rule_tac next_registration_some [OF r]) auto
  moreover have "rb_invar s'" "rb_tracker_addresses s' = rb_tracker_addresses s"
    using next_registration_invar [OF Suc.prems(1) r] by auto
  ultimately show ?case using Suc.IH [of s'] Suc.prems(2,3) r by (simp add: split_beta)
qed simp

text \<open>
  A secondary receiver that has seen no tracker hears the packet of \<open>SV_GOLDEN_RF_V2_BYTES\<close>. The report
  it then packs is that of \<open>SV_GOLDEN_SMOL_REPORT_BYTES\<close> but for its third slot, which is empty
  there: \<open>report_builder_next\<close> fills every free slot, so it holds the registration once more.
\<close>

theorem golden_packet_report:
  assumes "rf_invar s" and "\<not> rf_primary s" and "\<forall>i < 32. rf_tracker_addresses s ! i = 0"
    and "rb_content (rf_builder s) = []" and "crc32_k_4_2_update p = crc32k"
  shows "\<exists>s'. handle_rf_v2 p golden_packet s = Some s' \<and>
    fst (report_builder_next now (rf_builder s')) =
      Some (blit 32 (bslice 16 16 golden_report_bytes) golden_report_bytes)"
proof -
  have data: "ep_data golden_packet = golden_rf_bytes" "ep_rssi golden_packet = 0x2a"
    by (simp_all add: golden_packet_def)
  have address: "packet_address golden_packet = 0x665544332211"
    unfolding data by code_simp
  have fields: "golden_rf_bytes ! 0 = 1" "golden_rf_bytes ! Suc 0 = 2" "golden_rf_bytes ! 22 = 0xfe" "golden_rf_bytes ! 23 = 2"
    "length golden_rf_bytes = 28"
    by (simp_all add: golden_rf_bytes_def)
  have acc: "rf_accepts p golden_packet s"
    unfolding rf_accepts_def rf_listens_def crc_valid_def address
    using assms(2,3,5) golden_rf_crc by (simp add: data fields)
  let ?r = "make_record golden_rf_bytes 0x2a 0xfe 7"
  obtain s' where s': "handle_rf_v2 p golden_packet s = Some s'" "rf_invar s'"
    "rf_tracker_addresses s' = (rf_tracker_addresses s)[2 := 0x665544332211]"
    "rb_content (rf_builder s') = [?r]"
    using rf_packet_accepted [OF assms(1) acc] assms(4) unfolding address by (auto simp: data fields queue_insert_def)
  have inv: "rb_invar (rf_builder s')" and table: "rb_tracker_addresses (rf_builder s') = rf_tracker_addresses s'"
    and len: "length (rf_tracker_addresses s) = 32"
    using s'(2) assms(1) by (simp_all add: rf_invar_def rf_table_def)
  let ?b = "snd (take_records 3 (rf_builder s'))"
  have "fst (registrations 2 ?b) = replicate 2 (registration_record 2 0x665544332211)"
    using registrations_only [of ?b 2 2] take_records_spec [OF inv, of 3] assms(3) len
    by (simp add: take_records_frame table s'(3) nth_list_update)
  then have "fst (report_builder_next now (rf_builder s')) =
      Some (report_bytes [?r] (replicate 2 (registration_record 2 0x665544332211)))"
    using report_builder_next_spec(1) [OF inv, of now] s'(4) by (simp add: numeral_2_eq_2)
  moreover have "report_bytes [?r] (replicate 2 (registration_record 2 0x665544332211)) =
      blit 32 (bslice 16 16 golden_report_bytes) golden_report_bytes"
    by code_simp
  ultimately show ?thesis using s'(1) by auto
qed

theorem golden_packet_report_witness:
  "\<exists>s'. handle_rf_v2 (ref_platform\<lparr> crc32_k_4_2_update := crc32k \<rparr>) golden_packet ref_secondary = Some s' \<and>
    fst (report_builder_next 0 (rf_builder s')) \<noteq> Some golden_report_bytes"
proof -
  have "rb_content (rf_builder ref_secondary) = []" "\<not> rf_primary ref_secondary"
    by (simp_all add: ref_secondary_def rf_boot_def rb_content_def rb_length_def ring_span_def
        report_builder_init_def rb_boot_def)
  moreover have "\<forall>i < 32. rf_tracker_addresses ref_secondary ! i = 0"
    by (simp add: ref_secondary_def rf_boot_def)
  moreover have "blit 32 (bslice 16 16 golden_report_bytes) golden_report_bytes \<noteq> golden_report_bytes"
    by code_simp
  ultimately show ?thesis
    using golden_packet_report [OF ref_secondary_invar, of "ref_platform\<lparr> crc32_k_4_2_update := crc32k \<rparr>" 0] by auto
qed

text \<open>The host reads the golden report: a record, a registration of its tracker and an empty slot.\<close>

lemma host_reads_golden_report:
  "decode_reports golden_report_bytes = Inr
     [\<lparr> rr_data = take 16 golden_rf_bytes,
        rr_metadata = Some \<lparr> rm_sequence = 0xfe, rm_rssi = 0x2a, rm_flags = 7 \<rparr> \<rparr>,
      \<lparr> rr_data = registration_record 2 0x665544332211,
        rr_metadata = Some \<lparr> rm_sequence = 0, rm_rssi = 0, rm_flags = 0 \<rparr> \<rparr>,
      \<lparr> rr_data = zeros 16, rr_metadata = Some \<lparr> rm_sequence = 0, rm_rssi = 0, rm_flags = 0 \<rparr> \<rparr>]"
  by code_simp

end
