(* ===== verification/Host_Run.thy ===== *)
theory Host_Run
  imports Host_Main Golden_Vectors
begin

text \<open>
  The host program from its start on, \<open>main\<close> of \<open>bridge/src/main.rs\<close>: the turns of the main loop one
  after the other, with the clock and the status that is printed every five seconds. What a whole run
  amounts to: one hub over all deliveries, and one run of the output over what the hub accepts.
\<close>

section \<open>The program (main.rs)\<close>

record bridge_status =
  bs_hid_receivers :: nat
  bs_logical_trackers :: nat
  bs_metrics :: "string \<rightharpoonup> source_metrics"

record ('a, 'f) bridge_state =
  br_gateway :: "('a, 'f slimevr_output) host_input"
  br_hid :: "hid_input option"
  br_last_status :: instant
  br_printed :: "bridge_status list"

text \<open>The state before the loop, once the socket is bound and the USB library is there.\<close>

definition bridge_start :: "'s config \<Rightarrow> instant \<Rightarrow> ('a, 'f) bridge_state" where
  "bridge_start config started =
    \<lparr> br_gateway = host_input_bind hub_default Map.empty,
      br_hid = (if cg_hid_enabled config then Some (hid_new (cg_hid_products config)) else None),
      br_last_status = started, br_printed = [] \<rparr>"

definition elapsed_ms :: "instant \<Rightarrow> instant \<Rightarrow> u64" where
  "elapsed_ms started later = word_of_int (min (duration_since later started div 1000000) 0xffffffffffffffff)"

definition print_status :: "instant \<Rightarrow> ('a, 'f) bridge_state \<Rightarrow> ('a, 'f) bridge_state" where
  "print_status now s =
    (if 5000000000 \<le> duration_since now (br_last_status s) then
       s\<lparr> br_printed := br_printed s @ [\<lparr>
            bs_hid_receivers = (case br_hid s of None \<Rightarrow> 0 | Some hid \<Rightarrow> device_count hid),
            bs_logical_trackers = tracker_count (hi_output (br_gateway s)),
            bs_metrics = hb_metrics (hi_hub (br_gateway s)) \<rparr>],
          br_last_status := now \<rparr>
     else s)"

text \<open>
  A turn has two readings of the clock, \<open>now\<close> and a later one for the milliseconds since the start,
  and what it meets.
\<close>

type_synonym 'a turn = "instant \<times> instant \<times> 'a turn_input"

definition loop_turn ::
    "'f f32_ops \<Rightarrow> (byte list \<Rightarrow> string) \<Rightarrow> socket_rule \<Rightarrow> bool \<Rightarrow> ('a \<Rightarrow> byte list \<Rightarrow> bool) \<Rightarrow> instant \<Rightarrow>
     'a turn \<Rightarrow> ('a, 'f) bridge_state \<Rightarrow> outcome \<times> ('a, 'f) bridge_state" where
  "loop_turn f lossy ok opened send_ok started turn s =
    (let (now, later, i) = turn;
         (outcome, gateway, hid) = bridge_turn f lossy ok opened send_ok (elapsed_ms started later) now i (br_gateway s, br_hid s);
         s = s\<lparr> br_gateway := gateway, br_hid := hid \<rparr>
     in (outcome, if outcome = Continue then print_status now s else s))"

primrec bridge_run ::
    "'f f32_ops \<Rightarrow> (byte list \<Rightarrow> string) \<Rightarrow> socket_rule \<Rightarrow> bool \<Rightarrow> ('a \<Rightarrow> byte list \<Rightarrow> bool) \<Rightarrow> instant \<Rightarrow>
     'a turn list \<Rightarrow> ('a, 'f) bridge_state \<Rightarrow> outcome \<times> ('a, 'f) bridge_state" where
  "bridge_run f lossy ok opened send_ok started [] s = (Continue, s)"
| "bridge_run f lossy ok opened send_ok started (turn # turns) s =
    (case loop_turn f lossy ok opened send_ok started turn s of
       (Continue, s) \<Rightarrow> bridge_run f lossy ok opened send_ok started turns s
     | (stop, s) \<Rightarrow> (stop, s))"

section \<open>What a run should do\<close>

text \<open>The USB input after a turn, and what each turn delivers to the hub.\<close>

definition hid_after :: "(byte list \<Rightarrow> string) \<Rightarrow> instant \<Rightarrow> 'a turn_input \<Rightarrow> hid_input option \<Rightarrow> hid_input option" where
  "hid_after lossy now i = map_option (\<lambda>h.
     (let h = hid_refreshed lossy (tn_opens i) (tn_enumeration i) now h
      in h\<lparr> hd_devices := hd_devices h |`
           (- {path \<in> set (tn_order i). hd_devices h path \<noteq> None \<and> read_failed (tn_reads i path)}) \<rparr>))"

definition turn_messages :: "'a turn_input \<Rightarrow> gateway_message list" where
  "turn_messages i = decoded (map the (tn_gateway_inbox i))"

primrec run_deliveries ::
    "(byte list \<Rightarrow> string) \<Rightarrow> instant \<Rightarrow> 'a turn list \<Rightarrow> datagram_gate \<Rightarrow> hid_input option \<Rightarrow> delivery list list" where
  "run_deliveries lossy started [] gate hid = []"
| "run_deliveries lossy started (turn # turns) gate hid =
    (let (now, later, i) = turn; now_ms = elapsed_ms started later in
     (deliveries now_ms (passed gate_accept gate (turn_messages i)) @ turn_deliveries lossy now_ms now i hid) #
     run_deliveries lossy started turns (gate_after gate (turn_messages i)) (hid_after lossy now i hid))"

text \<open>The events of the output: in each turn what the hub accepts, then the tick.\<close>

primrec run_events :: "'a turn list \<Rightarrow> delivery list list \<Rightarrow> receiver_hub \<Rightarrow> output_event list" where
  "run_events [] dss hub = []"
| "run_events (turn # turns) dss hub =
    (let (now, later, i) = turn; (records, hub') = hub_run (hd dss) hub in
     map (Record_Event True now) records @ Tick_Event now (tn_server_inbox i) # run_events turns (tl dss) hub')"

section \<open>That it does it\<close>

lemma print_status_same [simp]: "br_gateway (print_status now s) = br_gateway s" "br_hid (print_status now s) = br_hid s"
  by (simp_all add: print_status_def)

lemma process_all_run: "process_all (slimevr_process f ok True now) rs out = output_run f ok (map (Record_Event True now) rs) out"
  by (induction rs arbitrary: out) (simp_all add: process_all_def output_run_def)

lemma output_run_append: "output_run f ok (evs @ evs') out = output_run f ok evs' (output_run f ok evs out)"
  by (simp add: output_run_def)

lemma bridge_turn_ok:
  fixes h :: "('a, 'f slimevr_output) host_input" and hid :: "hid_input option" and now_ms :: u64 and now :: instant
    and lossy :: "byte list \<Rightarrow> string"
  assumes "\<forall>a b. send_ok a b" and "None \<notin> set (tn_gateway_inbox i)"
  defines "ds \<equiv> deliveries now_ms (passed gate_accept (hi_gate h) (turn_messages i)) @ turn_deliveries lossy now_ms now i hid"
  shows "\<exists>h'. bridge_turn f lossy always True send_ok now_ms now i (h, hid) = (Continue, h', hid_after lossy now i hid) \<and>
    hi_gate h' = gate_after (hi_gate h) (turn_messages i) \<and> hi_hub h' = snd (hub_run ds (hi_hub h)) \<and>
    hi_output h' = output_run f always
      (map (Record_Event True now) (fst (hub_run ds (hi_hub h))) @ [Tick_Event now (tn_server_inbox i)]) (hi_output h)"
proof -
  let ?process = "slimevr_process f always True now"
  have ok: "\<forall>r out. fst (?process r out)" using output_succeeds by blast
  have "map Some (map the xs) = xs" if "None \<notin> set xs" for xs :: "('a \<times> byte list) option list"
    using that by (induction xs) auto
  then have inbox: "tn_gateway_inbox i = map Some (map the (tn_gateway_inbox i))" using assms(2) by simp
  obtain r h1 where p: "host_poll ?process send_ok now_ms (tn_gateway_inbox i) h = (r, h1)" by fastforce
  then have "host_poll ?process send_ok now_ms (map Some (map the (tn_gateway_inbox i))) h = (r, h1)"
    using inbox by simp
  note poll = host_poll_ok [OF ok assms(1) this]
  have same: "output_run f always (map (Record_Event True now) rs) out = process_all ?process rs out" for rs out
    by (simp add: process_all_run)
  show ?thesis
    using poll p unfolding ds_def hub_run_append output_run_append
    by (cases hid) (simp_all add: bridge_turn_def Let_def split_beta turn_deliveries_def hid_poll_def
        hid_read_all_eq hid_after_def turn_messages_def same process_all_append del: map_append,
        simp_all add: output_run_def)
qed

lemma loop_turn_ok:
  fixes s :: "('a, 'f) bridge_state" and lossy :: "byte list \<Rightarrow> string" and started now later :: instant
  assumes "\<forall>a b. send_ok a b" and "None \<notin> set (tn_gateway_inbox i)"
  defines "ds \<equiv> hd (run_deliveries lossy started [(now, later, i)] (hi_gate (br_gateway s)) (br_hid s))"
  shows "\<exists>s'. loop_turn f lossy always True send_ok started (now, later, i) s = (Continue, s') \<and>
    hi_gate (br_gateway s') = gate_after (hi_gate (br_gateway s)) (turn_messages i) \<and>
    br_hid s' = hid_after lossy now i (br_hid s) \<and>
    hi_hub (br_gateway s') = snd (hub_run ds (hi_hub (br_gateway s))) \<and>
    hi_output (br_gateway s') = output_run f always
      (run_events [(now, later, i)] [ds] (hi_hub (br_gateway s))) (hi_output (br_gateway s))"
proof -
  obtain h' where "bridge_turn f lossy always True send_ok (elapsed_ms started later) now i (br_gateway s, br_hid s) =
      (Continue, h', hid_after lossy now i (br_hid s))"
    "hi_gate h' = gate_after (hi_gate (br_gateway s)) (turn_messages i)"
    "hi_hub h' = snd (hub_run ds (hi_hub (br_gateway s)))"
    "hi_output h' = output_run f always
      (map (Record_Event True now) (fst (hub_run ds (hi_hub (br_gateway s)))) @ [Tick_Event now (tn_server_inbox i)])
      (hi_output (br_gateway s))"
    using bridge_turn_ok [OF assms(1,2), of f lossy "elapsed_ms started later" now "br_gateway s" "br_hid s"]
    by (auto simp: ds_def Let_def)
  then show ?thesis by (simp add: loop_turn_def Let_def split_beta)
qed

lemma run_ok:
  fixes s :: "('a, 'f) bridge_state" and lossy :: "byte list \<Rightarrow> string" and turns :: "'a turn list"
  assumes "\<forall>a b. send_ok a b" and "\<forall>(now, later, i) \<in> set turns. None \<notin> set (tn_gateway_inbox i)"
  shows "\<exists>s'. bridge_run f lossy always True send_ok started turns s = (Continue, s') \<and>
    hi_hub (br_gateway s') =
      snd (hub_run (concat (run_deliveries lossy started turns (hi_gate (br_gateway s)) (br_hid s))) (hi_hub (br_gateway s))) \<and>
    hi_output (br_gateway s') = output_run f always
      (run_events turns (run_deliveries lossy started turns (hi_gate (br_gateway s)) (br_hid s)) (hi_hub (br_gateway s)))
      (hi_output (br_gateway s))"
  using assms(2)
proof (induction turns arbitrary: s)
  case Nil
  then show ?case by (simp add: output_run_def)
next
  case (Cons turn turns)
  obtain now later i where t: "turn = (now, later, i)" by (cases turn)
  then have i: "None \<notin> set (tn_gateway_inbox i)" using Cons.prems by simp
  obtain s1 where s1: "loop_turn f lossy always True send_ok started (now, later, i) s = (Continue, s1)"
    "hi_gate (br_gateway s1) = gate_after (hi_gate (br_gateway s)) (turn_messages i)"
    "br_hid s1 = hid_after lossy now i (br_hid s)"
    "hi_hub (br_gateway s1) = snd (hub_run (hd (run_deliveries lossy started [(now, later, i)] (hi_gate (br_gateway s)) (br_hid s)))
      (hi_hub (br_gateway s)))"
    "hi_output (br_gateway s1) = output_run f always (run_events [(now, later, i)]
      [hd (run_deliveries lossy started [(now, later, i)] (hi_gate (br_gateway s)) (br_hid s))] (hi_hub (br_gateway s)))
      (hi_output (br_gateway s))"
    using loop_turn_ok [OF assms(1) i, of f lossy started now later s] by blast
  obtain s' where s': "bridge_run f lossy always True send_ok started turns s1 = (Continue, s')"
    "hi_hub (br_gateway s') =
      snd (hub_run (concat (run_deliveries lossy started turns (hi_gate (br_gateway s1)) (br_hid s1))) (hi_hub (br_gateway s1)))"
    "hi_output (br_gateway s') = output_run f always
      (run_events turns (run_deliveries lossy started turns (hi_gate (br_gateway s1)) (br_hid s1)) (hi_hub (br_gateway s1)))
      (hi_output (br_gateway s1))"
    using Cons.IH [of s1] Cons.prems by auto
  let ?hub = "hi_hub (br_gateway s)"
    and ?d = "hd (run_deliveries lossy started [(now, later, i)] (hi_gate (br_gateway s)) (br_hid s))"
    and ?ds = "run_deliveries lossy started turns (hi_gate (br_gateway s1)) (br_hid s1)"
  have d: "run_deliveries lossy started (turn # turns) (hi_gate (br_gateway s)) (br_hid s) = ?d # ?ds"
    by (simp add: t s1(2,3) Let_def)
  have e: "run_events (turn # turns) (?d # ?ds) ?hub =
      run_events [(now, later, i)] [?d] ?hub @ run_events turns ?ds (snd (hub_run ?d ?hub))"
    unfolding run_events.simps t by (simp only: Let_def split list.sel split_beta append_Cons append_Nil append_assoc)
  have "bridge_run f lossy always True send_ok started (turn # turns) s = (Continue, s')"
    using s1(1) s'(1) by (simp add: t)
  then show ?case
    unfolding d e output_run_append using s'(2,3) s1(4,5) by (simp only: concat.simps hub_run_append) simp
qed

text \<open>The records that reach the output are those the hub accepts over the whole run.\<close>

lemma run_events_records:
  assumes "length dss = length turns"
  shows "concat (map (\<lambda>ev. case ev of Record_Event opened now r \<Rightarrow> [r] | Tick_Event now inbox \<Rightarrow> [])
    (run_events turns dss hub)) = fst (hub_run (concat dss) hub)"
  using assms
proof (induction turns arbitrary: dss hub)
  case (Cons turn turns)
  then obtain ds dss' where "dss = ds # dss'" "length dss' = length turns" by (cases dss) auto
  then show ?case
    using Cons.IH [of dss'] by (cases turn) (simp add: Let_def split_beta hub_run_append comp_def)
qed simp

lemma length_run_deliveries [simp]: "length (run_deliveries lossy started turns gate hid) = length turns"
  by (induction turns arbitrary: gate hid) (auto simp: Let_def split_beta)

section \<open>Properties\<close>

definition run_records :: "output_event list \<Rightarrow> accepted_record list" where
  "run_records evs = concat (map (\<lambda>ev. case ev of Record_Event opened now r \<Rightarrow> [r] | Tick_Event now inbox \<Rightarrow> []) evs)"

text \<open>
  C11: The host program is one hub and one output, however long it runs. While the sockets work, every
  turn from the start on goes on to the next; the state of the hub is then that of one hub that has
  taken the reports of the new batches of all gateways and of all USB receivers, turn by turn, and the
  output is a run of the output from nothing, given in each turn the records which the hub accepts in it
  and a tick after them. So what holds of every run of the hub and of every run of the output (one copy of each packet,
  numbering, spacing, timeouts) holds of the program.
\<close>

theorem bridge_program_runs:
  fixes config :: "'s config" and lossy :: "byte list \<Rightarrow> string" and turns :: "'a turn list" and f :: "'f f32_ops"
    and send_ok :: "'a \<Rightarrow> byte list \<Rightarrow> bool" and started :: instant
  assumes "\<forall>a b. send_ok a b" and "\<forall>(now, later, i) \<in> set turns. None \<notin> set (tn_gateway_inbox i)"
  defines "dss \<equiv> run_deliveries lossy started turns Map.empty (br_hid (bridge_start config started :: ('a, 'f) bridge_state))"
  shows "\<exists>s'. bridge_run f lossy always True send_ok started turns (bridge_start config started) = (Continue, s') \<and>
    hi_hub (br_gateway s') = snd (hub_run (concat dss) hub_default) \<and>
    hi_output (br_gateway s') = output_run f always (run_events turns dss hub_default) Map.empty \<and>
    run_records (run_events turns dss hub_default) = fst (hub_run (concat dss) hub_default)"
  using run_ok [OF assms(1,2), of f lossy started "bridge_start config started"]
    run_events_records [of dss turns hub_default]
  unfolding dss_def run_records_def by (simp add: bridge_start_def host_input_bind_def)


text \<open>
  A receiver is plugged in and delivers the golden report twice in the first turn and once in the second:
  the first report teaches the hub the address, the second brings the packet, the third a copy.
\<close>

definition demo_config :: "unit config" where
  "demo_config = \<lparr> cg_gateway_listen = (), cg_server = (), cg_hid_products = [(0x1209, 0x7690)], cg_hid_enabled = True \<rparr>"

definition demo_turn :: "nat \<Rightarrow> string turn_input" where
  "demo_turn n = \<lparr> tn_gateway_inbox = [],
     tn_enumeration = Some [\<lparr> hd_path = [1], hd_serial = None, hd_vendor_id = 0x1209, hd_product_id = 0x7690 \<rparr>],
     tn_opens = (\<lambda>n. True), tn_order = [[1]], tn_reads = (\<lambda>p. replicate n (Some golden_report_bytes)),
     tn_server_inbox = (\<lambda>a. []) \<rparr>"

definition demo_turns :: "string turn list" where
  "demo_turns = [(0, 1000000, demo_turn 2), (2000000, 3000000, demo_turn 1)]"

abbreviation (input) demo_lossy :: "byte list \<Rightarrow> string" where "demo_lossy \<equiv> map (char_of \<circ> unat)"

definition demo_source :: string where
  "demo_source = hid_source demo_lossy
     \<lparr> hd_path = [1], hd_serial = None, hd_vendor_id = 0x1209, hd_product_id = 0x7690 \<rparr>"

lemma golden_deliveries:
  "run_deliveries demo_lossy 0 demo_turns Map.empty (br_hid (bridge_start demo_config 0 :: (string, int) bridge_state)) =
    [[(demo_source, golden_report_bytes, 1), (demo_source, golden_report_bytes, 1)], [(demo_source, golden_report_bytes, 3)]]"
proof -
  have len: "take 64 golden_report_bytes = golden_report_bytes" "golden_report_bytes \<noteq> []"
    by (simp_all add: golden_report_bytes_def)
  show ?thesis
    by (simp add: bridge_start_def demo_config_def demo_turns_def demo_turn_def hid_new_def turn_messages_def decoded_def
        deliveries_def turn_deliveries_def hid_deliveries_def hid_refreshed_def hid_due_def hid_refresh_def hid_matching_def
        good_reads_def read_failed_def hid_after_def elapsed_ms_def duration_since_def elapsed_def Let_def
        numeral_2_eq_2 len demo_source_def)
qed


theorem bridge_program_runs_witness:
  "\<exists>s'. bridge_run ref_f32 demo_lossy always True (\<lambda>a b. True) 0 demo_turns (bridge_start demo_config 0) = (Continue, s') \<and>
    hi_hub (br_gateway s') = snd (hub_run [(demo_source, golden_report_bytes, 1), (demo_source, golden_report_bytes, 1),
      (demo_source, golden_report_bytes, 3)] hub_default)"
  using bridge_program_runs [where send_ok = "\<lambda>a b. True" and turns = demo_turns and lossy = demo_lossy and started = 0
      and config = demo_config and f = ref_f32]
  unfolding golden_deliveries by (auto simp: demo_turns_def demo_turn_def)


end
