(* ===== verification/Spec2Isabelle.thy ===== *)
theory Spec2Isabelle
  imports Id48_Codec Spi_Link Gateway_System Captive_Dns Portal_Properties Report_Pipeline Host_Run
begin

text \<open>
  Smol Wi-Fi Receiver: a verification development of its firmware and its host program.

  The product has three programs. An nRF54L15 (\<open>firmware/nrf54l15/src\<close>, C) receives the packets of up
  to 32 motion trackers by radio, pairs trackers, packs their records into 64-byte reports and is the
  SPI peripheral. An ESP32-C5 (\<open>firmware/esp32c5/main\<close>, C) is the SPI controller; it draws reports from
  the receiver, sends it commands, and forwards the reports over Wi-Fi as UDP datagrams, with a setup
  page and a captive DNS for its configuration. The host bridge on a PC (\<open>bridge/src\<close>, Rust) takes the
  reports of gateways and of receivers plugged in by USB, passes each packet on once, and is for every
  tracker a UDP client of the SlimeVR server. \<open>protocol/\<close> holds the C code that the first two share.

  \<^bold>\<open>Theories and code\<close>

  \<^item> \<open>Smol_Prelude\<close>: C integers as words, byte buffers, little-endian fields, the simp collections.
  \<^item> \<open>Fifo_Source\<close>, \<open>Bounded_Fifo\<close>: the contracts of a queue for its consumer (locale \<open>fifo_source\<close>)
    and for both ends (locale \<open>bounded_fifo\<close>, a sublocale), and circular buffer arithmetic.
  \<^item> \<open>Frame_Codec\<close>: the field accessors, the CRC-32 and the contract of a framed format (locale
    \<open>frame_codec\<close>, interpreted as \<open>envelope\<close> and \<open>datagram\<close> in the next two theories).
  \<^item> \<open>Bridge_Protocol\<close>, \<open>Gateway_Protocol\<close>, \<open>Id48_Codec\<close>, \<open>Command_Replay_Cache\<close>: \<open>protocol/\<close>, one theory
    per C file. The 80-byte SPI envelope and the datagram with their CRC-32, encoders and decoders
    as written, byte by byte; hexadecimal ids; the cache of the last eight responses (locale
    \<open>response_log\<close>, interpreted as \<open>replay\<close>).
  \<^item> \<open>Receiver_Platform\<close>: what the receiver calls and does not contain, a record of functions over a world.
  \<^item> \<open>Report_Builder\<close>, \<open>Report_Packing\<close>: \<open>report_builder.c\<close>, the ring of records (interpretation
    \<open>report_queue\<close> of \<open>bounded_fifo\<close>) and the packing of reports.
  \<^item> \<open>Receiver_Storage\<close>, \<open>Rf_Receiver\<close>, \<open>Rf_Management\<close>, \<open>Receiver_Control\<close>, \<open>Nrf_Spi_Bridge\<close>: the C files
    of these names, with \<open>main.c\<close> and \<open>test_generator.c\<close> in the last. Each state record extends the
    one before it, so the record \<open>receiver\<close> is all static data of the firmware.
  \<^item> \<open>Golden_Vectors\<close>: the radio packet and the report of \<open>golden_vectors.h\<close>, run through the model.
  \<^item> \<open>Esp_Platform\<close>: what the gateway calls, with the documented behaviour the theorems name as
    hypotheses (\<open>queue_ok\<close>, \<open>udp_whole\<close>, \<open>udp_recorded\<close>, \<open>flash_ok\<close>) and a reference world that has it.
  \<^item> \<open>Esp_Bridge_Spi\<close>, \<open>App_Config\<close>, \<open>Wifi_Manager\<close>, \<open>Gateway_Udp\<close>, \<open>Web_Portal\<close>, \<open>Captive_Dns\<close>,
    \<open>Status_Metrics\<close>: \<open>bridge_spi.c\<close>, \<open>app_config.c\<close>, \<open>wifi_manager.c\<close>, \<open>gateway_udp.c\<close>, \<open>web_portal.c\<close>
    (two theories), \<open>status_metrics.c\<close> with \<open>app_main.c\<close>. Again each state record extends the one before.
  \<^item> \<open>Spi_Link\<close>: both ends of the SPI link together, with lost and corrupted frames.
  \<^item> \<open>Gateway_Session\<close>, \<open>Gateway_System\<close>, \<open>Portal_Properties\<close>: the proofs about the gateway's tasks.
  \<^item> \<open>Host_Report\<close>, \<open>Host_Gateway\<close>, \<open>Host_Hub\<close>, \<open>Host_Bridge\<close>, \<open>Host_Output\<close>, \<open>Host_Main\<close>: \<open>report.rs\<close>,
    \<open>gateway.rs\<close>, \<open>dedup.rs\<close> with \<open>hub.rs\<close>, the gateway socket of \<open>inputs.rs\<close>, \<open>slimevr.rs\<close>, and the USB
    input of \<open>inputs.rs\<close> with \<open>main.rs\<close>. \<open>Serial_Gate\<close> holds the contract of a gate that lets serial
    numbers through in order, which the batches and the packets of a tracker both instantiate.
  \<^item> \<open>Host_Sessions\<close>: the sessions with the SlimeVR server over any run of the output; the locale
    \<open>log_invariant\<close>, interpreted as \<open>numbering\<close> and \<open>growing\<close>, carries an invariant of what is sent
    through every operation. \<open>Host_Run\<close>: the whole host program, \<open>main\<close> turn by turn.
  \<^item> \<open>Host_Loop\<close>: a gateway and a host that look for each other. \<open>Report_Pipeline\<close>: the receiver, the SPI
    link, the gateway, the network and the gate of the host, in any interleaving.
  \<^item> This theory: a sample from the radio through all programs to the SlimeVR server, and the order
    of the reports.

  \<^bold>\<open>How code becomes definitions\<close>

  A function is a function from state to result and state, with every early return a branch. An
  error code is an \<open>int\<close>, a Rust \<open>Result\<close> a sum, or a flag with the state where the error itself is
  only printed; \<open>None\<close> is a call that does not return (an abort under \<open>ESP_ERROR_CHECK\<close>, or a
  loop that runs for ever). Integers keep their width and wrap. Tasks and interrupts interleave at the
  turns of their loops: \<open>fw_step\<close> for the receiver, \<open>gateway_step\<close> for the gateway, \<open>link_step\<close> for the
  link, \<open>pipe_step\<close> for the pipeline; \<open>gateway_task\<close> and \<open>dns_task\<close> are the loops of those tasks themselves. What other
  tasks do while a function blocks is a function argument (\<open>wait\<close>), and so is what they do between two
  receives of the loops of \<open>gateway_task\<close> over the reports (\<open>others\<close>). The host has one thread; a turn of
  it is \<open>bridge_turn\<close>, the program \<open>bridge_run\<close>. What sockets, USB devices and clocks give is an argument.

  \<^bold>\<open>What is shown\<close>

  \<^item> The whole way: a tracker's sample reaches the SlimeVR server with its numbers unchanged; whatever is
    lost, repeated or reordered, reports arrive in order and none twice between restarts.
  \<^item> Protocols: round trips, refusal of invalid messages, detection of bursts of four bytes, and that the C
    and the Rust codec of the gateway protocol agree on every input.
  \<^item> Reports: the queue and the packing refine their abstract versions; the host reads what the receiver
    packs; none leaves the gateway's queue uncounted.
  \<^item> Commands: executed at most once over a lossy link, answered with the response of that execution.
  \<^item> Receiver and gateway: invariants of all reachable states after a start.
  \<^item> Host: over a whole run of the program one copy of each packet in order, whichever receivers hear it,
    and the numbering, spacing and timeouts of the sessions.
  \<^item> Persistence: what was stored is read back after a restart, on both processors; for the receiver after
    any history of calls and restarts, against an abstract flash.
  \<^item> Loops: the ring scan, the NVS and radio loops and the waits have their bounds from the code; the
    loops without one (discarding reports, the DNS name) are \<open>partial_function\<close> and \<open>while_option\<close>.
    The DNS name always ends; discarding, and with it every turn of \<open>gateway_task\<close>, ends if the SPI task
    does not outrun it, and never if the queue is refilled before every receive. There is no fuel.
  \<^item> The READY line: frames are exchanged only after the handshake that the wiring document asks for.
  \<^item> Lemmas under \<open>Behaviour to know about\<close>, and \<open>output_error_ends_poll\<close>, \<open>dns_overrun_reachable\<close>,
    \<open>edns_record_missing\<close>, \<open>cleared_tracker_returns\<close> and \<open>golden_packet_report\<close>, show inputs where the
    code does other than it promises.

  \<^bold>\<open>Not modelled\<close>

  The page of the portal, the help text and the text of log and status lines (data without logic), the
  timed restart task (a call of the operating system), pin numbers and bus settings, and memory
  orderings below a turn of a task. Zephyr, ESP-IDF, FreeRTOS, lwIP, cJSON and hidapi are parameters, as
  are the arithmetic of \<open>f32\<close>, the parsing of socket addresses and the opening of sockets. The
  64-bit counters of the host are words that wrap, where a debug build would stop. The test programs are not modelled but for
  one checksum.
\<close>

section \<open>From the radio to the network\<close>

lemma receive_frame_queues:
  assumes "queue_ok p q" and "sv_bridge_decode rx = Some m" and "bm_kind m = SV_BRIDGE_RECEIVER_REPORT"
    and "bm_payload_length m = 64" and "length (q (env s)) < 128"
  shows "q (env (snd (receive_frame p rx s))) = q (env s) @ [bm_payload m]"
  using assms queue_ok_send [OF assms(1)]
  by (simp add: receive_frame_def Let_def split_beta)

lemma report_travels:
  assumes receiver: "fw_invar n" "\<not> sb_response_pending n" "prepare_tx now later n = (tx, n')"
      "fst (report_builder_next now (rf_builder n)) = Some report"
    and world: "queue_ok p q" "udp_recorded p sent"
    and gateway: "gateway_ok q (Some e, s)" "gs_server_connected (gw_stats s)" "length (q (env s)) < 8"
    and steps: "receive_frame p tx s = (result, s1)" "forward_reports p e s1 = Some s2"
  shows "\<exists>bytes m regs. sent (env s2) = sent (env s1) @ [(se_server e, bytes)] \<and>
    sv_gateway_decode bytes (length bytes) = Some m \<and> gm_kind m = SV_GATEWAY_REPORT_BATCH \<and>
    length (q (env s)) < unat (gm_report_count m) \<and>
    bslice (64 * length (q (env s))) 64 (gm_payload m) = report \<and>
    report = report_bytes (take 3 (rb_content (rf_builder n))) regs \<and>
    (\<forall>d \<in> set regs. length d = 16) \<and> length (take 3 (rb_content (rf_builder n))) + length regs \<le> 3 \<and>
    gm_gateway_id m = gw_gateway_id s \<and> gm_boot_id m = gw_boot_id s \<and> gm_sequence m = gw_sequence s"
proof -
  have inv: "rb_invar (rf_builder n)" using receiver(1) by (simp add: fw_invar_def rf_invar_def)
  have report: "length report = 64" using report_output_length [OF inv receiver(4)] .
  obtain regs where regs: "report = report_bytes (take 3 (rb_content (rf_builder n))) regs"
    "\<forall>d \<in> set regs. length d = 16" "length (take 3 (rb_content (rf_builder n))) + length regs \<le> 3"
    using report_contents [OF inv receiver(4)] by blast
  obtain d where d: "sv_bridge_decode tx = Some d" "bm_kind d = SV_BRIDGE_RECEIVER_REPORT"
    "bm_payload_length d = 64" "bm_payload d = report"
    using frame_of_state [OF receiver(1,3)] receiver(2,4) by auto
  let ?xs = "q (env s)"
  have s1: "q (env s1) = ?xs @ [report]"
    using receive_frame_queues [OF world(1) d(1-3), of s] gateway(3) d(4) steps(1) by simp
  have gw: "gs_server_connected (gw_stats s1)" "length (gw_gateway_id s1) = 6"
    using receive_frame_frame [of p tx s] gateway(1,2) steps(1) by (simp_all add: gateway_ok_def)
  have len: "\<forall>r \<in> set (q (env s1)). length r = 64"
    using gateway(1) report by (auto simp: s1 gateway_ok_def)
  have all: "min 8 (length (q (env s1))) = Suc (length ?xs)" "take 8 (q (env s1)) = ?xs @ [report]"
    using gateway(3) by (simp_all add: s1)
  have "q (env s1) \<noteq> []" by (simp add: s1)
  from forward_batch [OF world gw(1) this len gw(2) steps(2)] obtain bytes m where
    m: "sent (env s2) = sent (env s1) @ [(se_server e, bytes)]" "sv_gateway_decode bytes (length bytes) = Some m"
      "gm_kind m = SV_GATEWAY_REPORT_BATCH" "unat (gm_report_count m) = Suc (length ?xs)"
      "take (64 * Suc (length ?xs)) (gm_payload m) = concat (?xs @ [report])"
      "gm_gateway_id m = gw_gateway_id s1" "gm_boot_id m = gw_boot_id s1" "gm_sequence m = gw_sequence s1"
    unfolding all by blast
  have same: "gw_gateway_id s1 = gw_gateway_id s" "gw_boot_id s1 = gw_boot_id s" "gw_sequence s1 = gw_sequence s"
    using receive_frame_frame(2-4) [of p tx s] steps(1) by simp_all
  have "bslice (64 * length ?xs) 64 (gm_payload m) = bslice (64 * length ?xs) 64 (take (64 * Suc (length ?xs)) (gm_payload m))"
    by (simp add: bslice_def drop_take)
  also have "\<dots> = (?xs @ [report]) ! length ?xs"
    unfolding m(5) using len by (intro concat_chunk) (simp_all add: s1)
  finally show ?thesis using m regs same by (intro exI [of _ bytes] exI [of _ m] exI [of _ regs]) simp
qed

text \<open>
  A report goes from the receiver to the server unchanged, through both processors. Take a
  report the receiver's builder packs (its oldest three records, and registrations in the free
  slots); the frame it arms is clocked into the gateway, whose queue holds fewer than eight reports
  and whose session is up; then the next datagram the gateway sends decodes to a REPORT_BATCH whose
  report after those that were waiting is byte for byte that of the builder.
\<close>

theorem report_end_to_end:
  assumes receiver: "fw_invar n" "\<not> sb_response_pending n" "prepare_tx now later n = (tx, n')"
      "fst (report_builder_next now (rf_builder n)) = Some report"
    and world: "queue_ok p q" "udp_recorded p sent"
    and gateway: "gateway_ok q (Some e, s)" "gs_server_connected (gw_stats s)" "length (q (env s)) < 8"
    and steps: "receive_frame p tx s = (result, s1)" "forward_reports p e s1 = Some s2"
  shows "\<exists>bytes m regs. sent (env s2) = sent (env s1) @ [(se_server e, bytes)] \<and>
    sv_gateway_decode bytes (length bytes) = Some m \<and> gm_kind m = SV_GATEWAY_REPORT_BATCH \<and>
    length (q (env s)) < unat (gm_report_count m) \<and>
    bslice (64 * length (q (env s))) 64 (gm_payload m) = report \<and>
    report = report_bytes (take 3 (rb_content (rf_builder n))) regs"
  using report_travels [OF assms] by blast

lemma receiver_with_report:
  "\<exists>(n :: ref_world receiver) report. fw_invar n \<and> \<not> sb_response_pending n \<and>
     fst (report_builder_next 0 (rf_builder n)) = Some report"
proof -
  obtain s :: "ref_world receiver" where s: "fw_invar s" using ref_fw_invar by blast
  then have inv: "rb_invar (rf_builder s)" by (simp add: fw_invar_def rf_invar_def)
  obtain b where b: "rb_invar b" "rb_tracker_addresses b = rb_tracker_addresses (rf_builder s)"
    "rb_content b = queue_insert False (make_record (zeros 16) 0 0 0) (rb_content (rf_builder s))"
    using enqueue_spec [OF inv, of "zeros 16" 0 0 0 False] by auto
  then have "rb_content b \<noteq> []" by (cases "rb_content (rf_builder s)") (auto simp: queue_insert_def simp flip: length_rb_content)
  then obtain report where "fst (report_builder_next 0 b) = Some report"
    using report_builder_next_spec(1) [OF b(1), of 0] by auto
  moreover have "fw_invar (s\<lparr> rf_builder := b, sb_response_pending := False \<rparr>)"
    using s b by (simp add: fw_invar_def rf_invar_def)
  ultimately show ?thesis
    by (intro exI [of _ "s\<lparr> rf_builder := b, sb_response_pending := False \<rparr>"] exI [of _ report]) simp
qed

text \<open>A gateway with a session and nothing to forward yet.\<close>

definition demo_session :: gateway_session where
  "demo_session = \<lparr> se_fixed_server = True, se_server = \<lparr> sin_addr = 7, sin_port = 6970 \<rparr>,
     se_server_known = True, se_last_discover = 0, se_last_hello = 0 \<rparr>"

lemma demo_gateway:
  defines "s \<equiv> (gateway_boot esp_world0)
       \<lparr> gw_stats := (gw_stats (gateway_boot esp_world0))\<lparr> gs_server_connected := True \<rparr> \<rparr>"
  shows "gateway_ok ew_queue (Some demo_session, s)" "gs_server_connected (gw_stats s)" "ew_queue (env s) = []"
proof -
  have "eb_command (gateway_boot v) = eb_command (esp_boot v)" for v :: esp_world
    by (simp add: gateway_boot_def wifi_state.extend_def wifi_boot_def app_state.extend_def
      app_boot_def esp_state.extend_def esp_boot_def)
  then show "gateway_ok ew_queue (Some demo_session, s)" "gs_server_connected (gw_stats s)" "ew_queue (env s) = []"
    using command_ok_boot [of esp_world0] config_ok_defaults
    by (simp_all add: s_def gateway_ok_def esp_world0_def demo_session_def)
qed

theorem report_end_to_end_witness:
  "\<exists>(n :: ref_world receiver) report e s1 s2 bytes m.
     fst (report_builder_next 0 (rf_builder n)) = Some report \<and>
     s1 = snd (receive_frame ref_esp (fst (prepare_tx 0 0 n)) ((gateway_boot esp_world0)
       \<lparr> gw_stats := (gw_stats (gateway_boot esp_world0))\<lparr> gs_server_connected := True \<rparr> \<rparr>)) \<and>
     forward_reports ref_esp e s1 = Some s2 \<and>
     ew_sent (env s2) = ew_sent (env s1) @ [(se_server e, bytes)] \<and>
     sv_gateway_decode bytes (length bytes) = Some m \<and> bslice 0 64 (gm_payload m) = report"
proof -
  obtain n :: "ref_world receiver" and report where
    n: "fw_invar n" "\<not> sb_response_pending n" "fst (report_builder_next 0 (rf_builder n)) = Some report"
    using receiver_with_report by blast
  let ?s = "(gateway_boot esp_world0)
       \<lparr> gw_stats := (gw_stats (gateway_boot esp_world0))\<lparr> gs_server_connected := True \<rparr> \<rparr>"
  note s = demo_gateway
  then have short: "length (ew_queue (env ?s)) < 8" by simp
  obtain s2 where s2: "forward_reports ref_esp demo_session (snd (receive_frame ref_esp (fst (prepare_tx 0 0 n)) ?s)) = Some s2"
    using forward_ends [OF ref_queue_ok] by blast
  from report_end_to_end [OF n(1,2) prod.collapse [symmetric] n(3) ref_queue_ok ref_udp_recorded s(1,2) short
      prod.collapse [symmetric] s2]
  obtain bytes m where "ew_sent (env s2) = ew_sent (env (snd (receive_frame ref_esp (fst (prepare_tx 0 0 n)) ?s))) @
      [(se_server demo_session, bytes)]" "sv_gateway_decode bytes (length bytes) = Some m" "bslice 0 64 (gm_payload m) = report"
    unfolding s(3) list.size mult_0_right by blast
  with n(3) s2 show ?thesis
    by (intro exI [of _ n] exI [of _ report] exI [of _ demo_session]
        exI [of _ "snd (receive_frame ref_esp (fst (prepare_tx 0 0 n)) ?s)"] exI [of _ s2] exI [of _ bytes] exI [of _ m] conjI refl)
qed

section \<open>A tracker's sample\<close>

text \<open>The record that a packet becomes, with the metadata the host reads.\<close>

definition sample_record :: "esb_payload \<Rightarrow> report_record" where
  "sample_record pkt = \<lparr> rr_data = (if ep_data pkt ! 0 \<noteq> 1 \<and> ep_data pkt ! 0 \<noteq> 4
       then (take 16 (ep_data pkt))[15 := ep_rssi pkt] else take 16 (ep_data pkt)),
     rr_metadata = Some \<lparr> rm_sequence = ep_data pkt ! 22, rm_rssi = ep_rssi pkt, rm_flags = 7 \<rparr> \<rparr>"

lemma sample_record_host:
  "host_record (make_record (ep_data pkt) (ep_rssi pkt) (ep_data pkt ! 22) 7) = sample_record pkt"
  by (simp add: host_record_def meta_record_def triple_meta_def record_triple_def make_record_def
      sample_record_def numeral_2_eq_2)

text \<open>A host that takes the next batch of the gateway and knows tracker \<open>tid\<close> as \<open>a\<close>.\<close>

definition host_expects ::
    "('v, 'x) gateway_state_scheme \<Rightarrow> byte \<Rightarrow> u64 \<Rightarrow> byte \<Rightarrow> u64 \<Rightarrow> ('a, 'o) host_input \<Rightarrow> bool" where
  "host_expects s tid a sequence now h \<longleftrightarrow>
     gate_takes (hi_gate h) (gateway_key s) (gw_boot_id s) (gw_sequence s) \<and>
     known_ids (hb_sources (hi_hub h)) (wifi_source (gateway_key s)) tid = Some a \<and>
     re_decision (fst (evaluate (hb_sequence_gate (hi_hub h)) a sequence now)) = Accepted"

lemma batch_processed:
  assumes "sv_gateway_decode bytes (length bytes) = Some m" and "gm_kind m = SV_GATEWAY_REPORT_BATCH"
    and "gm_gateway_id m = gw_gateway_id s" and "gm_boot_id m = gw_boot_id s" and "gm_sequence m = gw_sequence s"
    and "gate_takes (hi_gate h) (gateway_key s) (gw_boot_id s) (gw_sequence s)"
    and "0 < unat (gm_report_count m)" and "bslice 0 64 (gm_payload m) = report"
    and "\<forall>r out. fst (process r out)" and "\<forall>a b. send_ok a b"
  shows "\<exists>ds h'. host_datagram process send_ok now gateway bytes h = (Continue, h') \<and>
    hi_output h' = process_all process
      (fst (hub_run ((wifi_source (gateway_key s), report, now) # ds) (hi_hub h))) (hi_output h)"
proof -
  obtain b where b: "host_decode bytes = Inr b" "hm_kind b = ReportBatch" "hm_gateway_id b = gateway_key s"
    "hm_boot_id b = gw_boot_id s" "hm_sequence b = gw_sequence s" "length (hm_reports b) = unat (gm_report_count m)"
    "\<forall>i < length (hm_reports b). hm_reports b ! i = bslice (64 * i) 64 (gm_payload m)"
    using batch_at_host [OF assms(1,2)] assms(3-5) by (auto simp: gateway_key_def)
  have "length bytes \<le> 544" using host_decode_ok [of bytes] b(1) unfolding datagram_ok_def by auto
  then have ms: "decoded [(gateway, bytes)] = [b]" using b(1) by (simp add: decoded_def)
  have acc: "fst (gate_accept (hi_gate h) b)"
    using gate_takes_accept [of "hi_gate h" b] assms(6) b(3-5) by simp
  have "hm_reports b \<noteq> []" "hm_reports b ! 0 = report" using b(6,7) assms(7,8) by auto
  then obtain rs where rs: "hm_reports b = report # rs" by (cases "hm_reports b") auto
  obtain h' where h': "host_datagram process send_ok now gateway bytes h = (Continue, h')"
    "hi_output h' = process_all process (fst (hub_run (deliveries now [b]) (hi_hub h))) (hi_output h)"
    using host_datagram_ok [OF assms(9,10) surjective_pairing [of "host_datagram process send_ok now gateway bytes h"]]
      acc by (auto simp: ms split_beta prod_eq_iff)
  then show ?thesis by (auto simp: deliveries_def rs b(3))
qed

lemma sample_travels:
  assumes receiver: "fw_invar n0" "\<not> sb_response_pending n0" "rb_content (rf_builder n0) = []"
    and packet: "rf_accepts p pkt n0" "16 \<le> length (ep_data pkt)" "ep_length pkt = 28" "ep_pipe pkt \<noteq> 0"
      "ep_data pkt ! 0 \<noteq> 0 \<or> ep_data pkt ! 1 \<noteq> 0"
      "handle_payload p pkt n0 = Some n" "prepare_tx now later n = (tx, n')"
    and world: "queue_ok pe q" "udp_recorded pe sent"
    and gateway: "gateway_ok q (Some e, s)" "gs_server_connected (gw_stats s)" "q (env s) = []"
    and steps: "receive_frame pe tx s = (result, s1)" "forward_reports pe e s1 = Some s2"
    and host: "host_expects s (ep_data pkt ! 1) a (ep_data pkt ! 22) t h"
      "\<forall>r out. fst (process r out)" "\<forall>a b. send_ok a b"
  shows "\<exists>bytes h' rest. sent (env s2) = sent (env s1) @ [(se_server e, bytes)] \<and>
    host_datagram process send_ok t source bytes h = (Continue, h') \<and>
    hi_output h' = process_all process
      (\<lparr> ar_tracker_address = a, ar_record = sample_record pkt \<rparr> # rest) (hi_output h)"
proof -
  let ?r = "make_record (ep_data pkt) (ep_rssi pkt) (ep_data pkt ! 22) 7"
  have rf: "rf_invar n0" using receiver(1) by (simp add: fw_invar_def)
  have v2: "handle_rf_v2 p pkt n0 = Some n" using packet(3,4,6) by (simp add: handle_payload_def)
  have n: "rf_invar n" "rb_content (rf_builder n) = [?r]"
    using rf_packet_accepted [OF rf packet(1)] packet(2) v2 receiver(3) by (auto simp: queue_insert_def)
  have more: "rf_state.more n = rf_state.more n0" using handle_payload_more [OF packet(6)] .
  have fw: "fw_invar n" using fw_invar_more [OF n(1) more receiver(1)] .
  have idle: "\<not> sb_response_pending n" using more receiver(2) by (cases n; cases n0) simp
  have inv: "rb_invar (rf_builder n)" using n(1) by (simp add: rf_invar_def)
  obtain report where report: "fst (report_builder_next now (rf_builder n)) = Some report"
    using report_builder_next_spec(1) [OF inv, of now] n(2) by simp
  have few: "length (q (env s)) < 8" using gateway(3) by simp
  obtain bytes m regs where m: "sent (env s2) = sent (env s1) @ [(se_server e, bytes)]"
    "sv_gateway_decode bytes (length bytes) = Some m" "gm_kind m = SV_GATEWAY_REPORT_BATCH"
    "0 < unat (gm_report_count m)" "bslice 0 64 (gm_payload m) = report"
    "report = report_bytes [?r] regs" "\<forall>d \<in> set regs. length d = 16" "length regs \<le> 2"
    "gm_gateway_id m = gw_gateway_id s" "gm_boot_id m = gw_boot_id s" "gm_sequence m = gw_sequence s"
    using report_travels [OF fw idle packet(7) report world gateway(1,2) few steps] n(2) gateway(3) by auto
  have takes: "gate_takes (hi_gate h) (gateway_key s) (gw_boot_id s) (gw_sequence s)"
    and known: "known_ids (hb_sources (hi_hub h)) (wifi_source (gateway_key s)) (ep_data pkt ! 1) = Some a"
    and new: "re_decision (fst (evaluate (hb_sequence_gate (hi_hub h)) a (ep_data pkt ! 22) t)) = Accepted"
    using host(1) by (simp_all add: host_expects_def)
  obtain ds h' where h': "host_datagram process send_ok t source bytes h = (Continue, h')"
    "hi_output h' = process_all process
      (fst (hub_run ((wifi_source (gateway_key s), report, t) # ds) (hi_hub h))) (hi_output h)"
    using batch_processed [OF m(2,3,9-11) takes m(4,5) host(2,3)] by blast
  have r: "record_ok ?r" "sr_data ?r ! 0 = ep_data pkt ! 0" "sr_data ?r ! 1 = ep_data pkt ! 1"
    "sr_metadata ?r = \<lparr> sm_sequence = ep_data pkt ! 22, sm_rssi = ep_rssi pkt, sm_flags = 7 \<rparr>"
    using packet(2) by (simp_all add: record_ok_def make_record_def)
  have some: "\<not> list_all (\<lambda>b. b = 0) (sr_data ?r)"
  proof
    assume "list_all (\<lambda>b. b = 0) (sr_data ?r)"
    then have "sr_data ?r ! i = 0" if "i < 16" for i
      using r(1) that unfolding list_all_length record_ok_def by metis
    from this [of 0] this [of 1] show False using packet(5) r(2,3) by simp
  qed
  have kind: "sr_data ?r ! 0 \<le> 223" using packet(1) r(2) by (simp add: rf_accepts_def)
  obtain rest where "fst (hub_run ((wifi_source (gateway_key s), report_bytes [?r] regs, t) # ds) (hi_hub h)) =
      \<lparr> ar_tracker_address = a, ar_record = host_record ?r \<rparr> # rest"
    using first_record_accepted [of ?r "[]" regs "hi_hub h" "wifi_source (gateway_key s)" a t ds]
      r m(7,8) some kind known new by auto
  then show ?thesis using m(1,6) h' by (auto simp: sample_record_host)
qed

text \<open>
  C2: A tracker's sample reaches the host's output, through all three programs. A radio packet of 28
  bytes that the receiver accepts while its queue is empty becomes the first record of the next report;
  clocked into a gateway with an empty queue and a session, it is in the next datagram; and a host that
  takes this batch, has learned the tracker's local id and has not had the packet from another receiver
  hands it to its output first, under the tracker's own address. The 16 data bytes are those of
  the packet, but for the last one of a data type other than 1 and 4, which is replaced by the signal
  strength; the sequence number and the signal strength are the packet's.
\<close>

theorem tracker_sample_reaches_host:
  assumes receiver: "fw_invar n0" "\<not> sb_response_pending n0" "rb_content (rf_builder n0) = []"
    and packet: "rf_accepts p pkt n0" "16 \<le> length (ep_data pkt)" "ep_length pkt = 28" "ep_pipe pkt \<noteq> 0"
      "ep_data pkt ! 0 \<noteq> 0 \<or> ep_data pkt ! 1 \<noteq> 0"
      "handle_payload p pkt n0 = Some n" "prepare_tx now later n = (tx, n')"
    and world: "queue_ok pe q" "udp_recorded pe sent"
    and gateway: "gateway_ok q (Some e, s)" "gs_server_connected (gw_stats s)" "q (env s) = []"
    and steps: "receive_frame pe tx s = (result, s1)" "forward_reports pe e s1 = Some s2"
    and host: "host_expects s (ep_data pkt ! 1) a (ep_data pkt ! 22) t h"
      "\<forall>r out. fst (process r out)" "\<forall>a b. send_ok a b"
  shows "\<exists>bytes h' rest. sent (env s2) = sent (env s1) @ [(se_server e, bytes)] \<and>
    host_datagram process send_ok t source bytes h = (Continue, h') \<and>
    hi_output h' = process_all process
      (\<lparr> ar_tracker_address = a, ar_record = sample_record pkt \<rparr> # rest) (hi_output h)"
  using assms by (rule sample_travels)

text \<open>
  C1: A tracker's motion reaches the SlimeVR server, through all three programs and both networks. A
  radio packet with rotation and acceleration (data type 1) that the receiver accepts while its queue
  is empty is the first record of the next report; clocked into a gateway with an empty queue and a
  session, it is in the next datagram; and a host that takes this batch, knows the tracker, has not had
  the packet from another receiver and has a session for the tracker puts one packet on the wire to the
  server before anything else: with the next packet number, and with the seven 16-bit numbers
  of the radio packet in the byte order of the network.
\<close>

theorem tracker_motion_reaches_server:
  assumes receiver: "fw_invar n0" "\<not> sb_response_pending n0" "rb_content (rf_builder n0) = []"
    and packet: "rf_accepts p pkt n0" "16 \<le> length (ep_data pkt)" "ep_length pkt = 28" "ep_pipe pkt \<noteq> 0"
      "ep_data pkt ! 0 = 1" "handle_payload p pkt n0 = Some n" "prepare_tx now later n = (tx, n')"
    and world: "queue_ok pe q" "udp_recorded pe sent"
    and gateway: "gateway_ok q (Some e, s)" "gs_server_connected (gw_stats s)" "q (env s) = []"
    and steps: "receive_frame pe tx s = (result, s1)" "forward_reports pe e s1 = Some s2"
    and host: "host_expects s (ep_data pkt ! 1) a (ep_data pkt ! 22) t h" "\<forall>a b. send_ok a b"
      "hi_output h a = Some c" "tc_confirmed c" "tc_input_active c"
  shows "\<exists>bytes h' c' payload ps. sent (env s2) = sent (env s1) @ [(se_server e, bytes)] \<and>
    host_datagram (slimevr_process f always True instant) send_ok t source bytes h = (Continue, h') \<and>
    hi_output h' a = Some c' \<and>
    tc_log c' = tc_log c @ (numbered_packet PACKET_ROTATION_AND_ACCELERATION (tc_packet_number c) payload, True) # ps \<and>
    map (\<lambda>i. word_of_le (rev (bslice (1 + 2 * i) 2 payload)) :: 16 word) [0..<7] =
      map (\<lambda>i. i16_at (ep_data pkt) (2 + 2 * i)) [0..<7]"
proof -
  let ?process = "slimevr_process f always True instant" and ?data = "take 16 (ep_data pkt)"
  have all: "\<forall>r out. fst (?process r out)" using output_succeeds by blast
  obtain bytes h' rest where h: "sent (env s2) = sent (env s1) @ [(se_server e, bytes)]"
    "host_datagram ?process send_ok t source bytes h = (Continue, h')"
    "hi_output h' = process_all ?process
      (\<lparr> ar_tracker_address = a, ar_record = sample_record pkt \<rparr> # rest) (hi_output h)"
    using sample_travels [OF receiver packet(1-4) _ packet(6,7) world gateway steps host(1) all host(2)] packet(5)
    by force
  have data: "rr_data (sample_record pkt) = ?data" using packet(5) by (simp add: sample_record_def)
  obtain c' ps where "hi_output h' a = Some c'" "tc_log c' = tc_log c @
      (numbered_packet PACKET_ROTATION_AND_ACCELERATION (tc_packet_number c) (full_rotation_acceleration_payload ?data), True) # ps"
    using motion_output [where out = "hi_output h" and a = a and c = c and f = f and now = instant and rs = rest
        and r = "\<lparr> ar_tracker_address = a, ar_record = sample_record pkt \<rparr>"] host(3-5) packet(2,5)
    unfolding h(3) by (auto simp: data)
  moreover have "map (\<lambda>i. i16_at ?data (2 + 2 * i)) [0..<7] = map (\<lambda>i. i16_at (ep_data pkt) (2 + 2 * i)) [0..<7]"
    using packet(2) by (simp add: i16_at_def)
  ultimately show ?thesis
    using h(1,2) motion_payload [of ?data] by metis
qed

text \<open>A secondary receiver that has seen no tracker hears the first sample of tracker 3.\<close>

definition ref_secondary_receiver :: "ref_world receiver" where
  "ref_secondary_receiver = rf_state.extend ref_secondary
     \<lparr> rx_cache = sv_command_replay_init, sb_pending_response = bm_zero,
       sb_response_pending = False, sb_tx_sequence = 0, sb_crc_errors = 0, sb_ready = False \<rparr>"

lemma ref_secondary_receiver_ok:
  "fw_invar ref_secondary_receiver" "\<not> sb_response_pending ref_secondary_receiver"
  "rb_content (rf_builder ref_secondary_receiver) = []"
  "rf_accepts ref_platform demo_packet ref_secondary_receiver"
  using ref_secondary_invar demo_packet_accepted
  by (simp_all add: fw_invar_def ref_secondary_receiver_def rf_state.extend_def replay_init_invar replay_init_log
      rf_invar_def rf_accepts_def rf_listens_def ref_secondary_def rf_boot_def report_builder_init_def rb_boot_def
      rb_content_def rb_length_def ring_span_def)

definition expecting_hub :: receiver_hub where
  "expecting_hub = hub_default\<lparr> hb_sources := [wifi_source 0 \<mapsto> [3 \<mapsto> 0x010203040506]] \<rparr>"

abbreviation (input) demo_esp :: "esp_world gateway_state" where
  "demo_esp \<equiv> (gateway_boot esp_world0)
       \<lparr> gw_stats := (gw_stats (gateway_boot esp_world0))\<lparr> gs_server_connected := True \<rparr> \<rparr>"

lemma demo_packet_sizes:
  "ep_length demo_packet = 28" "ep_pipe demo_packet \<noteq> 0" "16 \<le> length (ep_data demo_packet)"
  by (simp_all only: demo_packet_data) (simp_all add: demo_packet_def)

lemma demo_expects:
  "host_expects demo_esp (ep_data demo_packet ! 1) 0x010203040506 (ep_data demo_packet ! 22) 1000
     (host_input_bind expecting_hub out)"
proof -
  have key: "gateway_key demo_esp = 0" by (simp add: gateway_key_def zeros_numeral)
  show ?thesis
    unfolding host_expects_def key
    by (simp add: expecting_hub_def host_input_bind_def hub_default_def gate_takes_def known_ids_def evaluate_def
        sequence_gate_new_def)
qed

lemma demo_delivery:
  obtains n s2 where "handle_payload ref_platform demo_packet ref_secondary_receiver = Some n"
    and "forward_reports ref_esp demo_session (snd (receive_frame ref_esp (fst (prepare_tx 0 0 n)) demo_esp)) = Some s2"
proof -
  have "rf_invar ref_secondary_receiver" using ref_secondary_receiver_ok(1) by (simp add: fw_invar_def)
  then obtain n where n: "handle_payload ref_platform demo_packet ref_secondary_receiver = Some n"
    using rf_packet_accepted [OF _ ref_secondary_receiver_ok(4) demo_packet_sizes(3)] demo_packet_sizes(1,2)
    by (auto simp: handle_payload_def)
  obtain s2 where s2: "forward_reports ref_esp demo_session
      (snd (receive_frame ref_esp (fst (prepare_tx 0 0 n)) demo_esp)) = Some s2"
    using forward_ends [OF ref_queue_ok] by blast
  then show ?thesis using that n by blast
qed

theorem tracker_sample_reaches_host_witness:
  "\<exists>n e s1 s2 bytes h' rest.
     handle_payload ref_platform demo_packet ref_secondary_receiver = Some n \<and>
     s1 = snd (receive_frame ref_esp (fst (prepare_tx 0 0 n)) demo_esp) \<and>
     forward_reports ref_esp e s1 = Some s2 \<and>
     ew_sent (env s2) = ew_sent (env s1) @ [(se_server e, bytes)] \<and>
     host_datagram (\<lambda>r out. (True, out @ [r])) (\<lambda>a b. True) 1000 ''gateway'' bytes (host_input_bind expecting_hub []) =
       (Continue, h') \<and>
     hi_output h' = \<lparr> ar_tracker_address = 0x010203040506, ar_record = sample_record demo_packet \<rparr> # rest"
proof -
  obtain n s2 where d: "handle_payload ref_platform demo_packet ref_secondary_receiver = Some n"
    "forward_reports ref_esp demo_session (snd (receive_frame ref_esp (fst (prepare_tx 0 0 n)) demo_esp)) = Some s2"
    by (rule demo_delivery)
  have "ep_data demo_packet ! 0 \<noteq> 0 \<or> ep_data demo_packet ! 1 \<noteq> 0" by simp
  note sample = tracker_sample_reaches_host [OF ref_secondary_receiver_ok(1-4) demo_packet_sizes(3,1,2) this d(1)
      prod.collapse [symmetric]
      ref_queue_ok ref_udp_recorded demo_gateway prod.collapse [symmetric] d(2) demo_expects]
  have all: "process_all (\<lambda>r out. (True, out @ [r])) rs out = out @ rs" for rs and out :: "accepted_record list"
    by (induction rs arbitrary: out) (simp_all add: process_all_def)
  from sample [of "\<lambda>r out. (True, out @ [r])" "\<lambda>a b. True" "''gateway''" "[]"]
  show ?thesis unfolding all using d(1,2) by (fastforce simp: host_input_bind_def)
qed

text \<open>The host has a session for the tracker of the demo packet.\<close>

definition demo_connection :: "int tracker_connection" where
  "demo_connection = (connection_new 0x010203040506)\<lparr> tc_confirmed := True, tc_input_active := True \<rparr>"

theorem tracker_motion_reaches_server_witness:
  "\<exists>n e s1 s2 bytes h' c' payload ps.
     handle_payload ref_platform demo_packet ref_secondary_receiver = Some n \<and>
     s1 = snd (receive_frame ref_esp (fst (prepare_tx 0 0 n)) demo_esp) \<and>
     forward_reports ref_esp e s1 = Some s2 \<and>
     ew_sent (env s2) = ew_sent (env s1) @ [(se_server e, bytes)] \<and>
     host_datagram (slimevr_process ref_f32 always True 5) (\<lambda>a b. True) 1000 ''gateway'' bytes
       (host_input_bind expecting_hub [0x010203040506 \<mapsto> demo_connection]) = (Continue, h') \<and>
     hi_output h' 0x010203040506 = Some c' \<and>
     tc_log c' = (numbered_packet PACKET_ROTATION_AND_ACCELERATION 1 payload, True) # ps"
proof -
  obtain n s2 where d: "handle_payload ref_platform demo_packet ref_secondary_receiver = Some n"
    "forward_reports ref_esp demo_session (snd (receive_frame ref_esp (fst (prepare_tx 0 0 n)) demo_esp)) = Some s2"
    by (rule demo_delivery)
  let ?out = "[0x010203040506 \<mapsto> demo_connection] :: int slimevr_output"
  have kind: "ep_data demo_packet ! 0 = 1" by simp
  have host: "hi_output (host_input_bind expecting_hub ?out) 0x010203040506 = Some demo_connection"
    "tc_confirmed demo_connection" "tc_input_active demo_connection"
    "tc_log demo_connection = []" "tc_packet_number demo_connection = 1"
    by (simp_all add: host_input_bind_def demo_connection_def connection_new_def)
  note motion = tracker_motion_reaches_server [OF ref_secondary_receiver_ok(1-4) demo_packet_sizes(3,1,2) kind d(1)
      prod.collapse [symmetric]
      ref_queue_ok ref_udp_recorded demo_gateway prod.collapse [symmetric] d(2) demo_expects _ host(1-3)]
  from motion [of "\<lambda>a b. True" ref_f32 5 "''gateway''"]
  show ?thesis unfolding host(4,5) using d(1,2) by fastforce
qed

section \<open>The order of the reports\<close>

text \<open>
  C3: Reports arrive in the order in which they were packed, and none twice. Let the receiver, the
  gateway and the host run in any interleaving, without a restart of the first two: radio events and persistence work, frames armed,
  exchanged with errors in either direction, or lost; the gateway on and off the network, finding
  servers, losing sessions, forwarding and discarding; and a network that loses, repeats and reorders
  datagrams, with traffic of other gateways in between. The reports that the host's gate then lets
  through of this gateway are, in order, a subsequence of the reports that the receiver packed. The
  gate must not have seen this boot of the gateway before, and the datagrams that reach it must have
  been sent less than 2^31 datagrams apart.
\<close>

theorem host_receives_in_order:
  assumes world: "radio_ok p rx" "queue_ok g q" "udp_recorded g sent" "\<forall>r v. sent (snd (queue_send g r v)) = sent v"
    and run: "pipe_start_state q sent l" "pipe_run p g config q sent l packed l'"
    and gate: "unretired_boot (gateway_key (pl_esp l)) (gw_boot_id (pl_esp l)) gate"
    and inbox: "\<forall>m \<in> set inbox. batch_of (gateway_key (pl_esp l)) m \<longrightarrow> was_sent (sent (env (pl_esp l'))) (number m) m"
    and near: "\<forall>m \<in> set inbox. \<forall>m' \<in> set inbox. batch_of (gateway_key (pl_esp l)) m \<and>
      batch_of (gateway_key (pl_esp l)) m' \<longrightarrow> number m < number m' + 2 ^ 31"
  shows "subseq (concat (map hm_reports (filter (batch_of (gateway_key (pl_esp l))) (passed gate_accept gate inbox)))) packed"
  using assms by (rule host_order)

text \<open>A report is packed, clocked over and sent; its datagram reaches the host twice.\<close>

theorem host_receives_in_order_witness:
  "\<exists>(l :: (ref_world, esp_world) pipeline) report l' m.
     pipe_run ref_platform ref_esp defaults ew_queue ew_sent l [report] l' \<and>
     was_sent (ew_sent (env (pl_esp l'))) 0 m \<and> length (hm_reports m) = 1 \<and>
     subseq (concat (map hm_reports (filter (batch_of 0) (passed gate_accept Map.empty [m, m])))) [report]"
proof -
  obtain n :: "ref_world receiver" and report where
    n: "fw_invar n" "\<not> sb_response_pending n" "fst (report_builder_next 0 (rf_builder n)) = Some report"
    using receiver_with_report by blast
  let ?s = "(gateway_boot esp_world0)
       \<lparr> gw_stats := (gw_stats (gateway_boot esp_world0))\<lparr> gs_server_connected := True \<rparr> \<rparr>"
  let ?l = "\<lparr> pl_nrf = n, pl_armed = None, pl_session = Some demo_session, pl_esp = ?s \<rparr>"
  let ?run = "pipe_run ref_platform ref_esp defaults ew_queue ew_sent ?l"
  have start: "pipe_start_state ew_queue ew_sent ?l"
    using n(1) by (simp add: pipe_start_state_def esp_world0_def)
  obtain tx n1 where tx: "prepare_tx 0 0 n = (tx, n1)" by fastforce
  obtain d where d: "sv_bridge_decode tx = Some d" "length tx = 80" "bm_kind d = SV_BRIDGE_RECEIVER_REPORT"
    "bm_payload_length d = 64" "bm_payload d = report"
    using frame_of_state [OF n(1) tx] n(2,3) by auto
  have packs: "packs 0 n = [report]" using n(2,3) by (simp add: packs_def)
  then have size: "length report = 64" using frame_packs(2) [OF n(1) tx] by simp
  let ?l1 = "?l\<lparr> pl_armed := Some tx, pl_nrf := n1 \<rparr>"
  have "pipe_step ref_platform ref_esp defaults ew_queue ew_sent ?l [report] ?l1"
    using pipe_arm [of ?l 0 0 tx n1 ref_platform ref_esp defaults ew_queue ew_sent] tx by (simp add: packs)
  from pipe_more [OF pipe_nil this] have run1: "?run [report] ?l1" by simp
  obtain tx_e s where tx_e: "outgoing_frame ref_esp ?s = (tx_e, s)" by fastforce
  have "command_ok (eb_command ?s)" using demo_gateway(1) by (simp add: gateway_ok_def)
  then have len_e: "length tx_e = 80" using outgoing_frame_decodes [of ?s ref_esp] tx_e by auto
  obtain result t where t: "receive_frame ref_esp tx s = (result, t)" by fastforce
  let ?l2 = "?l1\<lparr> pl_nrf := process_rx ref_platform tx_e n1, pl_armed := None, pl_esp := t \<rparr>"
  have "pipe_step ref_platform ref_esp defaults ew_queue ew_sent ?l1 [] ?l2"
    using pipe_exchange [of ?l1 tx ref_esp tx_e s tx tx_e result t ref_platform] tx_e t len_e d(2)
    by (simp add: arrives_def)
  from pipe_more [OF run1 this] have run2: "?run [report] ?l2" by simp
  note out = outgoing_same [OF tx_e]
  have stats: "gw_stats s = gw_stats ?s \<and> gw_last_ack s = gw_last_ack ?s"
    using tx_e by (auto simp: outgoing_frame_def prepare_command_def Let_def split: if_splits)
  have q: "ew_queue (env t) = [report]" "ew_sent (env t) = []" "ew_incoming (env t) = []" "ew_ticks (env t) = 0"
    using t d out by (auto simp: receive_frame_def Let_def count_stat_def ref_esp_def esp_world0_def)
  have "gw_last_ack t = gw_last_ack s"
    using t by (auto simp: receive_frame_def Let_def split_beta count_stat_def accept_response_def split: option.splits)
  then have ack: "gw_last_ack t = 0" using stats by (simp add: gateway_boot_def wifi_state.extend_def)
  have up: "server_up t" "length (gw_gateway_id t) = 6" "gateway_key t = 0" "gw_boot_id t = gw_boot_id ?s"
    using receive_frame_frame [of ref_esp tx s] t stats out
    by (auto simp: gateway_key_def zeros_numeral)
  have c: "session_control ref_esp defaults demo_session t = (0, demo_session, t)"
    using q up(1) ack by (simp add: session_control_def receive_control_def ref_esp_def find_server_def say_hello_def
        check_timeout_def demo_session_def Let_def)
  obtain u where u: "forward_reports ref_esp demo_session t = Some u" using forward_ends [OF ref_queue_ok] by blast
  obtain v where v: "session_turn ref_esp defaults demo_session t = Some (demo_session, v)" "ew_sent (env v) = ew_sent (env u)"
    using u by (auto simp: session_turn_def c) (simp add: ref_esp_def)
  let ?l3 = "?l2\<lparr> pl_session := Some demo_session, pl_esp := v \<rparr>"
  have "pipe_step ref_platform ref_esp defaults ew_queue ew_sent ?l2 [] ?l3"
    using pipe_turn [of ?l2 demo_session ref_esp defaults demo_session v ref_platform ew_queue ew_sent] v(1) by simp
  from pipe_more [OF run2 this] have run3: "?run [report] ?l3" by simp
  have "ew_queue (env t) \<noteq> []" "\<forall>r \<in> set (ew_queue (env t)). length r = 64" using q(1) size by simp_all
  from forward_batch [OF ref_queue_ok ref_udp_recorded up(1) this up(2) u] obtain bytes m where
    m: "ew_sent (env u) = [(se_server demo_session, bytes)]" "sv_gateway_decode bytes (length bytes) = Some m"
      "gm_kind m = SV_GATEWAY_REPORT_BATCH" "unat (gm_report_count m) = 1"
    using q(1,2) by auto
  obtain b where b: "host_decode bytes = Inr b" "length (hm_reports b) = 1"
    using batch_at_host [OF m(2,3)] m(4) by auto
  have was: "was_sent (ew_sent (env (pl_esp ?l3))) 0 b" using v(2) m(1) b(1) by (simp add: was_sent_def)
  have key: "gateway_key (pl_esp ?l) = 0" by (simp add: gateway_key_def zeros_numeral)
  have "subseq (concat (map hm_reports (filter (batch_of (gateway_key (pl_esp ?l)))
      (passed gate_accept Map.empty [b, b])))) [report]"
    using was by (intro host_receives_in_order [OF ref_radio_ok ref_queue_ok ref_udp_recorded _ start run3,
        where number = "\<lambda>m. 0"]) (simp_all add: ref_esp_def unretired_boot_def)
  then show ?thesis using run3 was b(2) unfolding key by blast
qed

end
